(* ===== verification/Gateway_Prelude.thy ===== *)
theory Gateway_Prelude
  imports Main "HOL-Library.Word" "HOL-Library.List_Lexorder" "HOL-Library.Multiset"
begin

text \<open>
  Shared vocabulary of the development: Go's fixed-width integers, byte strings and their
  big-endian encodings, the two fixed-size array types of the Ethereum libraries and a result
  monad for Go's \<open>(value, error)\<close> pairs, with the generic lemmas every component uses.
\<close>

named_theorems width_simps \<open>facts that discharge the range conditions of machine integers\<close>
named_theorems result_simps \<open>rewriting of computations in the result monad\<close>

section \<open>Types\<close>

type_synonym byte = "8 word"
type_synonym bytes = "8 word list"

text \<open>\<open>common.Hash\<close> is a \<open>[32]byte\<close> and \<open>common.Address\<close> a \<open>[20]byte\<close>: the words below,
  read big-endian.\<close>

type_synonym hash = "256 word"
type_synonym address = "160 word"

section \<open>Machine integers\<close>

text \<open>Go's signed and unsigned integers are kept as mathematical integers; every operation of
  the source that can leave the width is wrapped explicitly with one of these functions.\<close>

definition i64 :: "int \<Rightarrow> int" where
  "i64 x = signed_take_bit 63 x"

definition u64 :: "int \<Rightarrow> int" where
  "u64 x = take_bit 64 x"

definition i32 :: "int \<Rightarrow> int" where
  "i32 x = signed_take_bit 31 x"

definition u32 :: "int \<Rightarrow> int" where
  "u32 x = take_bit 32 x"

definition maxInt64 :: int where
  "maxInt64 = 9223372036854775807"

definition minInt64 :: int where
  "minInt64 = -9223372036854775808"

definition maxUint64 :: int where
  "maxUint64 = 18446744073709551615"

definition is_i64 :: "int \<Rightarrow> bool" where
  "is_i64 x \<longleftrightarrow> minInt64 \<le> x \<and> x \<le> maxInt64"

section \<open>Results\<close>

text \<open>A Go function returning \<open>(T, error)\<close> returns \<open>Inl e\<close> for a non-nil error and
  \<open>Inr v\<close> otherwise. \<open>bindR\<close> is the early return \<open>if err != nil { return err }\<close>.\<close>

fun bindR :: "'e + 'a \<Rightarrow> ('a \<Rightarrow> 'e + 'b) \<Rightarrow> 'e + 'b" where
  "bindR (Inl e) f = Inl e"
| "bindR (Inr v) f = f v"

text \<open>\<open>wrapR\<close> is \<open>errorsmod.Wrapf\<close>: it changes the error and leaves a value alone.\<close>

fun wrapR :: "('e \<Rightarrow> 'f) \<Rightarrow> 'e + 'a \<Rightarrow> 'f + 'a" where
  "wrapR g (Inl e) = Inl (g e)"
| "wrapR g (Inr v) = Inr v"

text \<open>A loop whose body may return early with an error.\<close>

fun foldR :: "('s \<Rightarrow> 'a \<Rightarrow> 'e + 's) \<Rightarrow> 's \<Rightarrow> 'a list \<Rightarrow> 'e + 's" where
  "foldR f s [] = Inr s"
| "foldR f s (x # xs) = bindR (f s x) (\<lambda>s'. foldR f s' xs)"

fun mapR :: "('a \<Rightarrow> 'e + 'b) \<Rightarrow> 'a list \<Rightarrow> 'e + 'b list" where
  "mapR f [] = Inr []"
| "mapR f (x # xs) = bindR (f x) (\<lambda>y. bindR (mapR f xs) (\<lambda>ys. Inr (y # ys)))"

section \<open>Big-endian bytes\<close>

fun be_bytes :: "nat \<Rightarrow> nat \<Rightarrow> bytes" where
  "be_bytes 0 x = []"
| "be_bytes (Suc n) x = be_bytes n (x div 256) @ [word_of_nat x]"

definition be_nat :: "bytes \<Rightarrow> nat" where
  "be_nat bs = foldl (\<lambda>a b. a * 256 + unat b) 0 bs"

text \<open>\<open>Hash.Bytes\<close>, \<open>Address.Bytes\<close>, \<open>BytesToHash\<close>, \<open>BytesToAddress\<close>: a longer slice is
  cropped from the left, a shorter one is padded with zeros on the left.\<close>

definition hash_bytes :: "hash \<Rightarrow> bytes" where
  "hash_bytes h = be_bytes 32 (unat h)"

definition bytes_to_hash :: "bytes \<Rightarrow> hash" where
  "bytes_to_hash bs = word_of_nat (be_nat bs)"

definition addr_bytes :: "address \<Rightarrow> bytes" where
  "addr_bytes a = be_bytes 20 (unat a)"

definition bytes_to_addr :: "bytes \<Rightarrow> address" where
  "bytes_to_addr bs = word_of_nat (be_nat bs)"

text \<open>\<open>binary.BigEndian.PutUint64\<close> of \<open>uint64(x)\<close>, and \<open>binary.BigEndian.Uint64\<close>.\<close>

definition be64 :: "int \<Rightarrow> bytes" where
  "be64 x = be_bytes 8 (nat (u64 x))"

definition from_be64 :: "bytes \<Rightarrow> int" where
  "from_be64 bs = int (be_nat bs)"

section \<open>Lemmas: machine integers\<close>

lemma i64_id [width_simps, simp]: "is_i64 x \<Longrightarrow> i64 x = x"
  by (simp add: i64_def is_i64_def minInt64_def maxInt64_def signed_take_bit_int_eq_self)

lemma i64_is_i64 [simp]: "is_i64 (i64 x)"
proof -
  have "- (2 ^ 63) \<le> signed_take_bit 63 x" "signed_take_bit 63 x < 2 ^ 63"
    by (rule signed_take_bit_int_greater_eq_minus_exp, rule signed_take_bit_int_less_exp)
  then show ?thesis by (simp add: i64_def is_i64_def minInt64_def maxInt64_def)
qed

lemma u64_id [width_simps]: "0 \<le> x \<Longrightarrow> x \<le> maxUint64 \<Longrightarrow> u64 x = x"
  by (simp add: u64_def maxUint64_def take_bit_int_eq_self)

lemma u64_nonneg [simp]: "0 \<le> u64 x"
  by (simp add: u64_def)

lemma u64_less: "u64 x < 2 ^ 64"
  unfolding u64_def by (rule take_bit_int_less_exp)

lemma u64_bound [simp]: "u64 x \<le> maxUint64"
  using u64_less [of x] by (simp add: maxUint64_def)

lemma i64_u64 [width_simps]: "is_i64 x \<Longrightarrow> i64 (u64 x) = x"
proof -
  assume x: "is_i64 x"
  have "signed_take_bit 63 (take_bit 64 x) = signed_take_bit 63 x"
    by (simp add: signed_take_bit_take_bit)
  with x show ?thesis using i64_id [OF x] by (simp add: i64_def u64_def)
qed

lemma i64_of_u64 [simp]: "i64 (u64 x) = i64 x"
  by (simp add: i64_def u64_def signed_take_bit_take_bit)

lemma u64_u64_add [simp]: "u64 (u64 x + y) = u64 (x + y)"
  by (simp add: u64_def take_bit_eq_mod mod_add_left_eq)

lemma i64_i64_add [simp]: "i64 (i64 x + y) = i64 (x + y)"
proof -
  have "take_bit 64 (i64 x + y) = take_bit 64 (take_bit 64 (i64 x) + y)"
    by (simp add: take_bit_eq_mod mod_add_left_eq)
  also have "take_bit 64 (i64 x) = take_bit 64 x"
    by (simp add: i64_def take_bit_signed_take_bit)
  finally have "u64 (i64 x + y) = u64 (x + y)" by (simp add: u64_def take_bit_eq_mod mod_add_left_eq)
  then show ?thesis by (metis i64_of_u64)
qed

lemma u64_add_u64 [simp]: "u64 (y + u64 x) = u64 (y + x)"
  using u64_u64_add [of x y] by (simp add: add.commute)

lemma i64_add_i64 [simp]: "i64 (y + i64 x) = i64 (y + x)"
  using i64_i64_add [of x y] by (simp add: add.commute)

lemma is_i64_nonneg: "0 \<le> x \<Longrightarrow> x \<le> maxInt64 \<Longrightarrow> is_i64 x"
  by (simp add: is_i64_def minInt64_def)

section \<open>Lemmas: results\<close>

lemma bindR_Inr_iff [result_simps]:
  "bindR m f = Inr y \<longleftrightarrow> (\<exists>x. m = Inr x \<and> f x = Inr y)"
  by (cases m) auto

lemma wrapR_Inr_iff [result_simps]: "wrapR g m = Inr y \<longleftrightarrow> m = Inr y"
  by (cases m) auto

lemma bindR_Inl_iff:
  "bindR m f = Inl e \<longleftrightarrow> m = Inl e \<or> (\<exists>x. m = Inr x \<and> f x = Inl e)"
  by (cases m) auto

lemma wrapR_Inl_iff: "wrapR g m = Inl e \<longleftrightarrow> (\<exists>e'. m = Inl e' \<and> e = g e')"
  by (cases m) auto

lemma bindR_assoc: "bindR (bindR m f) g = bindR m (\<lambda>x. bindR (f x) g)"
  by (cases m) auto

lemma foldR_append: "foldR f s (xs @ ys) = bindR (foldR f s xs) (\<lambda>s'. foldR f s' ys)"
  by (induction xs arbitrary: s) (auto simp: bindR_assoc)

text \<open>The invariant rule of a loop with early returns.\<close>

lemma foldR_inv:
  assumes "foldR f s xs = Inr t" and "I s"
    and "\<And>s x s'. x \<in> set xs \<Longrightarrow> I s \<Longrightarrow> f s x = Inr s' \<Longrightarrow> I s'"
  shows "I t"
  using assms
proof (induction xs arbitrary: s)
  case Nil
  then show ?case by simp
next
  case (Cons x xs)
  from Cons.prems(1) obtain s' where s': "f s x = Inr s'" "foldR f s' xs = Inr t"
    by (auto simp: result_simps)
  have "I s'" using Cons.prems(2,3) s'(1) by auto
  with s'(2) show ?case using Cons.IH Cons.prems(3) by auto
qed

lemma mapR_Inr_length: "mapR f xs = Inr ys \<Longrightarrow> length ys = length xs"
  by (induction xs arbitrary: ys) (auto simp: result_simps)

lemma mapR_Inr_iff: "mapR f xs = Inr ys \<longleftrightarrow> list_all2 (\<lambda>x y. f x = Inr y) xs ys"
proof (induction xs arbitrary: ys)
  case Nil
  then show ?case by auto
next
  case (Cons x xs)
  then show ?case by (cases ys) (auto simp: result_simps)
qed

lemma mapR_Inr_set: "mapR f xs = Inr ys \<Longrightarrow> y \<in> set ys \<longleftrightarrow> (\<exists>x\<in>set xs. f x = Inr y)"
  by (induction xs arbitrary: ys) (auto simp: result_simps)

section \<open>Lemmas: big-endian bytes\<close>

lemma length_be_bytes [simp]: "length (be_bytes n x) = n"
  by (induction n arbitrary: x) auto

lemma unat_byte [simp]: "unat (b :: byte) < 256"
  using unsigned_less [where ?'a = nat, of b] by simp

lemma be_nat_Nil [simp]: "be_nat [] = 0"
  by (simp add: be_nat_def)

lemma be_nat_snoc [simp]: "be_nat (bs @ [b]) = be_nat bs * 256 + unat b"
  by (simp add: be_nat_def)

lemma be_nat_be_bytes: "be_nat (be_bytes n x) = x mod 256 ^ n"
proof (induction n arbitrary: x)
  case 0
  then show ?case by simp
next
  case (Suc n)
  have "x mod 256 ^ Suc n = x div 256 mod 256 ^ n * 256 + x mod 256"
    by (simp add: mod_mult2_eq)
  with Suc show ?case by (simp add: unat_of_nat)
qed

lemma be_nat_bound: "be_nat bs < 256 ^ length bs"
proof (induction bs rule: rev_induct)
  case Nil
  then show ?case by simp
next
  case (snoc b bs)
  with snoc unat_byte [of b] show ?case
    by (simp del: unat_byte)
qed

lemma be_bytes_be_nat: "be_bytes (length bs) (be_nat bs) = bs"
proof (induction bs rule: rev_induct)
  case Nil
  then show ?case by simp
next
  case (snoc b bs)
  from unat_byte [of b] have "(be_nat bs * 256 + unat b) div 256 = be_nat bs" by simp
  moreover have "word_of_nat (be_nat bs * 256 + unat b) = b"
  proof -
    have "unat (word_of_nat (be_nat bs * 256 + unat b) :: byte) = unat b"
      using unat_byte [of b] by (simp only: unat_of_nat) simp
    then show ?thesis by (simp only: word_unat_eq_iff)
  qed
  ultimately show ?case using snoc by simp
qed

lemma be_bytes_inj: "x < 256 ^ n \<Longrightarrow> y < 256 ^ n \<Longrightarrow> be_bytes n x = be_bytes n y \<longleftrightarrow> x = y"
  by (metis be_nat_be_bytes mod_less)

lemma be_bytes_Cons: "be_bytes (Suc n) x = word_of_nat (x div 256 ^ n) # be_bytes n x"
proof (induction n arbitrary: x)
  case 0
  then show ?case by simp
next
  case (Suc n)
  have "be_bytes (Suc (Suc n)) x = be_bytes (Suc n) (x div 256) @ [word_of_nat x]"
    by (rule be_bytes.simps)
  also have "\<dots> = (word_of_nat (x div 256 div 256 ^ n) # be_bytes n (x div 256)) @ [word_of_nat x]"
    by (simp only: Suc.IH)
  also have "\<dots> = word_of_nat (x div 256 ^ Suc n) # be_bytes (Suc n) x"
    by (simp add: div_mult2_eq)
  finally show ?case .
qed

text \<open>Fixed-width big-endian strings compare lexicographically as the numbers they encode: the
  reason the database keys of the indexer sort by height.\<close>

lemma be_bytes_less_iff:
  "be_bytes n x < be_bytes n y \<longleftrightarrow> x mod 256 ^ n < y mod 256 ^ n"
proof (induction n)
  case 0
  then show ?case by simp
next
  case (Suc n)
  define a b where "a = x div 256 ^ n mod 256" and "b = y div 256 ^ n mod 256"
  define c d where "c = x mod 256 ^ n" and "d = y mod 256 ^ n"
  have x: "x mod 256 ^ Suc n = 256 ^ n * a + c" and y: "y mod 256 ^ Suc n = 256 ^ n * b + d"
    using mod_mult2_eq [of x "256 ^ n" 256] mod_mult2_eq [of y "256 ^ n" 256]
    by (simp_all add: a_def b_def c_def d_def mult.commute)
  have c: "c < 256 ^ n" and d: "d < 256 ^ n" by (simp_all add: c_def d_def)
  have w: "(word_of_nat (x div 256 ^ n) :: byte) < word_of_nat (y div 256 ^ n) \<longleftrightarrow> a < b"
    "(word_of_nat (x div 256 ^ n) :: byte) = word_of_nat (y div 256 ^ n) \<longleftrightarrow> a = b"
    by (simp_all add: word_less_nat_alt word_unat_eq_iff unat_of_nat a_def b_def)
  have "256 ^ n * a + c < 256 ^ n * b + d \<longleftrightarrow> a < b \<or> (a = b \<and> c < d)"
  proof (cases a b rule: linorder_cases)
    case less
    then have "256 ^ n * Suc a \<le> 256 ^ n * b" by (intro mult_le_mono2) simp
    with c less show ?thesis by simp
  next
    case equal
    then show ?thesis by simp
  next
    case greater
    then have "256 ^ n * Suc b \<le> 256 ^ n * a" by (intro mult_le_mono2) simp
    with d greater show ?thesis by simp
  qed
  then show ?case
    by (simp only: be_bytes_Cons Cons_less_Cons w Suc.IH x y c_def [symmetric] d_def [symmetric])
qed

lemma hash_bytes_length [simp]: "length (hash_bytes h) = 32"
  by (simp add: hash_bytes_def)

lemma addr_bytes_length [simp]: "length (addr_bytes a) = 20"
  by (simp add: addr_bytes_def)

lemma bytes_to_hash_bytes [simp]: "bytes_to_hash (hash_bytes h) = h"
proof -
  have "unat h < 256 ^ 32" using unsigned_less [where ?'a = nat, of h] by simp
  then show ?thesis by (simp add: bytes_to_hash_def hash_bytes_def be_nat_be_bytes)
qed

lemma bytes_to_addr_bytes [simp]: "bytes_to_addr (addr_bytes a) = a"
proof -
  have "unat a < 256 ^ 20" using unsigned_less [where ?'a = nat, of a] by simp
  then show ?thesis by (simp add: bytes_to_addr_def addr_bytes_def be_nat_be_bytes)
qed

lemma hash_bytes_inj [simp]: "hash_bytes h = hash_bytes h' \<longleftrightarrow> h = h'"
  by (metis bytes_to_hash_bytes)

lemma length_be64 [simp]: "length (be64 x) = 8"
  by (simp add: be64_def)

lemma from_be64_be64: "from_be64 (be64 x) = u64 x"
proof -
  have "nat (u64 x) < 256 ^ 8" using u64_less [of x] by (simp add: nat_less_iff)
  then show ?thesis by (simp add: from_be64_def be64_def be_nat_be_bytes)
qed

lemma be64_inj: "be64 x = be64 y \<longleftrightarrow> u64 x = u64 y"
  by (metis from_be64_be64 be64_def)

lemma be64_less_iff: "be64 x < be64 y \<longleftrightarrow> u64 x < u64 y"
proof -
  have "nat (u64 x) < 256 ^ 8" "nat (u64 y) < 256 ^ 8"
    using u64_less [of x] u64_less [of y] by (simp_all add: nat_less_iff)
  then have "be64 x < be64 y \<longleftrightarrow> nat (u64 x) < nat (u64 y)"
    by (simp add: be64_def be_bytes_less_iff del: nat_less_iff)
  also have "\<dots> \<longleftrightarrow> u64 x < u64 y"
    by (rule nat_less_eq_zless) simp
  finally show ?thesis .
qed

end
