(* ===== verification/Ring_Queue.thy ===== *)
theory Ring_Queue
  imports Gateway_Prelude
begin

text \<open>
  The ring-buffer queue of \<open>internal/evm/rpc/stream/queue.go\<close>: a buffer whose length is a power of
  two, indices advanced with a bitwise modulus, doubling when full and halving when a quarter full.
  The interface \<open>fifo\<close> states what its client, the data stream, relies on; it is interpreted on
  the ring buffer. A panic of the source is \<open>None\<close>.
\<close>

section \<open>Definitions\<close>

unbundle bit_operations_syntax

definition minQueueLen :: nat where
  "minQueueLen = 16"

record 'v Queue =
  buf :: "'v list"
  qhead :: nat
  qtail :: nat
  qcount :: nat

text \<open>\<open>make([]V, n)\<close> fills the buffer with the zero value of the element type, the argument
  \<open>zero\<close>.\<close>

definition New :: "'v \<Rightarrow> 'v Queue" where
  "New zero = \<lparr>buf = replicate minQueueLen zero, qhead = 0, qtail = 0, qcount = 0\<rparr>"

definition Length :: "'v Queue \<Rightarrow> int" where
  "Length q = int (qcount q)"

text \<open>Go's \<open>copy(dst, src)\<close> as the new value of \<open>dst\<close>; it copies the shorter of the two lengths.\<close>

definition go_copy :: "'v list \<Rightarrow> 'v list \<Rightarrow> 'v list" where
  "go_copy dst src = take (length dst) src @ drop (length src) dst"

definition resize :: "'v \<Rightarrow> 'v Queue \<Rightarrow> 'v Queue" where
  "resize zero q =
     (let newBuf = replicate (push_bit 1 (qcount q)) zero;
          newBuf' =
            (if qtail q > qhead q then
               go_copy newBuf (take (qtail q - qhead q) (drop (qhead q) (buf q)))
             else
               let n = min (length newBuf) (length (drop (qhead q) (buf q)));
                   b = go_copy newBuf (drop (qhead q) (buf q))
               in take n b @ go_copy (drop n b) (take (qtail q) (buf q)))
      in q\<lparr>qhead := 0, qtail := qcount q, buf := newBuf'\<rparr>)"

definition Add :: "'v \<Rightarrow> 'v Queue \<Rightarrow> 'v \<Rightarrow> 'v Queue" where
  "Add zero q0 elem =
     (let q = (if qcount q0 = length (buf q0) then resize zero q0 else q0)
      in q\<lparr>buf := (buf q)[qtail q := elem],
           qtail := (qtail q + 1) AND (length (buf q) - 1),
           qcount := qcount q + 1\<rparr>)"

text \<open>A pointer into the queue is the index of its slot in the buffer.\<close>

definition PeekP :: "'v Queue \<Rightarrow> nat option" where
  "PeekP q = (if qcount q = 0 then None else Some (qhead q))"

definition Peek :: "'v Queue \<Rightarrow> 'v option" where
  "Peek q = map_option (\<lambda>p. buf q ! p) (PeekP q)"

definition GetP :: "'v Queue \<Rightarrow> int \<Rightarrow> nat option" where
  "GetP q i0 =
     (let i = (if i0 < 0 then i0 + int (qcount q) else i0)
      in if i < 0 \<or> i \<ge> int (qcount q) then None
         else Some ((qhead q + nat i) AND (length (buf q) - 1)))"

definition Get :: "'v Queue \<Rightarrow> int \<Rightarrow> 'v option" where
  "Get q i = map_option (\<lambda>p. buf q ! p) (GetP q i)"

definition TailP :: "'v Queue \<Rightarrow> nat option" where
  "TailP q = GetP q (-1)"

definition Tail :: "'v Queue \<Rightarrow> 'v option" where
  "Tail q = map_option (\<lambda>p. buf q ! p) (TailP q)"

text \<open>The assignment \<open>*p = v\<close> through such a pointer.\<close>

definition store_slot :: "'v Queue \<Rightarrow> nat \<Rightarrow> 'v \<Rightarrow> 'v Queue" where
  "store_slot q p v = q\<lparr>buf := (buf q)[p := v]\<rparr>"

definition Remove :: "'v \<Rightarrow> 'v Queue \<Rightarrow> ('v \<times> 'v Queue) option" where
  "Remove zero q =
     (if qcount q = 0 then None
      else
        let ret = buf q ! qhead q;
            q1 = q\<lparr>qhead := (qhead q + 1) AND (length (buf q) - 1), qcount := qcount q - 1\<rparr>;
            q2 = (if length (buf q1) > minQueueLen \<and> push_bit 2 (qcount q1) = length (buf q1)
                  then resize zero q1 else q1)
        in Some (ret, q2))"

subsection \<open>The queue a ring buffer stands for\<close>

definition queue_list :: "'v Queue \<Rightarrow> 'v list" where
  "queue_list q = map (\<lambda>i. buf q ! ((qhead q + i) mod length (buf q))) [0..<qcount q]"

definition queue_inv :: "'v Queue \<Rightarrow> bool" where
  "queue_inv q \<longleftrightarrow>
     (\<exists>k\<ge>4. length (buf q) = 2 ^ k) \<and> qhead q < length (buf q) \<and> qcount q \<le> length (buf q) \<and>
     qtail q = (qhead q + qcount q) mod length (buf q)"

text \<open>A program over the queue, and the values it sees; a panic leaves the queue as it was, since
  every panic comes before the first assignment.\<close>

datatype 'v queue_op = OpAdd 'v | OpRemove | OpGet int | OpTail | OpLength

datatype 'v queue_res = Done | Val 'v | Len int | Panic

definition val_or_panic :: "'v option \<Rightarrow> 'v queue_res" where
  "val_or_panic r = (case r of Some v \<Rightarrow> Val v | None \<Rightarrow> Panic)"

fun queue_exec :: "'v \<Rightarrow> 'v Queue \<Rightarrow> 'v queue_op \<Rightarrow> 'v queue_res \<times> 'v Queue" where
  "queue_exec zero q (OpAdd v) = (Done, Add zero q v)"
| "queue_exec zero q OpRemove = (case Remove zero q of Some (v, q') \<Rightarrow> (Val v, q') | None \<Rightarrow> (Panic, q))"
| "queue_exec zero q (OpGet i) = (val_or_panic (Get q i), q)"
| "queue_exec zero q OpTail = (val_or_panic (Tail q), q)"
| "queue_exec zero q OpLength = (Len (Length q), q)"

fun queue_run :: "'v \<Rightarrow> 'v Queue \<Rightarrow> 'v queue_op list \<Rightarrow> 'v queue_res list" where
  "queue_run zero q [] = []"
| "queue_run zero q (x # xs) = (case queue_exec zero q x of (r, q') \<Rightarrow> r # queue_run zero q' xs)"

text \<open>The same program over a list.\<close>

definition list_get :: "'v list \<Rightarrow> int \<Rightarrow> 'v queue_res" where
  "list_get xs i =
     (let j = (if i < 0 then int (length xs) + i else i)
      in if 0 \<le> j \<and> j < int (length xs) then Val (xs ! nat j) else Panic)"

fun list_run :: "'v list \<Rightarrow> 'v queue_op list \<Rightarrow> 'v queue_res list" where
  "list_run xs [] = []"
| "list_run xs (OpAdd v # ops) = Done # list_run (xs @ [v]) ops"
| "list_run xs (OpRemove # ops) =
     (case xs of [] \<Rightarrow> Panic # list_run [] ops | v # vs \<Rightarrow> Val v # list_run vs ops)"
| "list_run xs (OpGet i # ops) = list_get xs i # list_run xs ops"
| "list_run xs (OpTail # ops) = list_get xs (-1) # list_run xs ops"
| "list_run xs (OpLength # ops) = Len (int (length xs)) # list_run xs ops"

section \<open>The interface\<close>

text \<open>What the data stream relies on: a first-in first-out queue with negative indexing and
  assignment through the pointer to the last element.\<close>

locale fifo =
  fixes alpha :: "'q \<Rightarrow> 'v list"
    and ok :: "'q \<Rightarrow> bool"
    and enq :: "'q \<Rightarrow> 'v \<Rightarrow> 'q"
    and deq :: "'q \<Rightarrow> ('v \<times> 'q) option"
    and len :: "'q \<Rightarrow> int"
    and get :: "'q \<Rightarrow> int \<Rightarrow> 'v option"
    and lastp :: "'q \<Rightarrow> 'p option"
    and store :: "'q \<Rightarrow> 'p \<Rightarrow> 'v \<Rightarrow> 'q"
  assumes enq_ok: "ok q \<Longrightarrow> ok (enq q v)"
    and enq_alpha: "ok q \<Longrightarrow> alpha (enq q v) = alpha q @ [v]"
    and deq_empty: "ok q \<Longrightarrow> alpha q = [] \<Longrightarrow> deq q = None"
    and deq_Cons: "ok q \<Longrightarrow> alpha q = v # vs \<Longrightarrow> \<exists>q'. deq q = Some (v, q') \<and> ok q' \<and> alpha q' = vs"
    and len_alpha: "ok q \<Longrightarrow> len q = int (length (alpha q))"
    and get_nonneg: "ok q \<Longrightarrow> 0 \<le> i \<Longrightarrow>
          get q i = (if nat i < length (alpha q) then Some (alpha q ! nat i) else None)"
    and get_neg: "ok q \<Longrightarrow> i < 0 \<Longrightarrow>
          get q i = (if - i \<le> int (length (alpha q)) then Some (alpha q ! nat (int (length (alpha q)) + i)) else None)"
    and lastp_empty: "ok q \<Longrightarrow> alpha q = [] \<Longrightarrow> lastp q = None"
    and lastp_store: "ok q \<Longrightarrow> alpha q \<noteq> [] \<Longrightarrow>
          \<exists>p. lastp q = Some p \<and> ok (store q p v) \<and> alpha (store q p v) = butlast (alpha q) @ [v]"
begin

lemma get_last:
  assumes "ok q" and "alpha q \<noteq> []"
  shows "get q (-1) = Some (last (alpha q))"
proof -
  have "1 \<le> length (alpha q)" using assms(2) by (cases "alpha q") auto
  moreover have "nat (int (length (alpha q)) + - 1) = length (alpha q) - 1" by simp
  ultimately show ?thesis
    using get_neg [OF assms(1), of "-1"] assms(2) by (simp add: last_conv_nth)
qed

lemma rotate:
  assumes "ok q" and "alpha q = v # vs"
  obtains q' where "deq q = Some (v, q')" and "ok (enq q' w)" and "alpha (enq q' w) = vs @ [w]"
  using deq_Cons [OF assms] enq_ok enq_alpha by metis

lemma enq_store:
  assumes "ok q"
  shows "\<exists>p. lastp (enq q u) = Some p \<and> ok (store (enq q u) p v) \<and> alpha (store (enq q u) p v) = alpha q @ [v]"
  using lastp_store [OF enq_ok [OF assms]] enq_alpha [OF assms] by fastforce

end

section \<open>Lemmas\<close>

lemma and_mask_mod: "length xs = 2 ^ k \<Longrightarrow> i AND (length xs - 1) = i mod length xs" for i :: nat
  by (metis mask_eq_exp_minus_1 take_bit_eq_mask take_bit_eq_mod)

lemma length_go_copy [simp]: "length (go_copy dst src) = length dst"
  by (simp add: go_copy_def)

lemma go_copy_replicate:
  "length src \<le> n \<Longrightarrow> go_copy (replicate n z) src = src @ replicate (n - length src) z"
  by (simp add: go_copy_def)

lemma queue_inv_pos: "queue_inv q \<Longrightarrow> 16 \<le> length (buf q)"
proof -
  assume "queue_inv q"
  then obtain k :: nat where "4 \<le> k" "length (buf q) = 2 ^ k" by (auto simp: queue_inv_def)
  then show ?thesis using power_increasing [of 4 k "2 :: nat"] by simp
qed

lemma queue_inv_and: "queue_inv q \<Longrightarrow> i AND (length (buf q) - 1) = i mod length (buf q)"
  unfolding queue_inv_def by (elim conjE exE) (rule and_mask_mod)

lemma queue_inv_and_Suc: "queue_inv q \<Longrightarrow> i AND (length (buf q) - Suc 0) = i mod length (buf q)"
  using queue_inv_and [of q i] by simp

lemma queue_inv_mod_less: "queue_inv q \<Longrightarrow> i mod length (buf q) < length (buf q)"
  using queue_inv_pos [of q] by (intro mod_less_divisor) linarith

text \<open>Positions less than a buffer apart are different slots.\<close>

lemma ring_distinct:
  fixes h i j n :: nat
  assumes "i < j" and "j < n + i"
  shows "(h + i) mod n \<noteq> (h + j) mod n"
proof
  assume "(h + i) mod n = (h + j) mod n"
  then have "n dvd (h + j) - (h + i)"
    using assms(1) by (metis add_le_cancel_left less_imp_le mod_eq_dvd_iff_nat)
  then have "n \<le> j - i" using assms(1) by (auto dest: dvd_imp_le)
  with assms show False by linarith
qed

lemma length_queue_list [simp]: "length (queue_list q) = qcount q"
  by (simp add: queue_list_def)

lemma queue_list_nth: "i < qcount q \<Longrightarrow> queue_list q ! i = buf q ! ((qhead q + i) mod length (buf q))"
  by (simp add: queue_list_def)

text \<open>The contents as one or two slices of the buffer, the way \<open>resize\<close> copies them.\<close>

lemma queue_list_slices:
  assumes "queue_inv q" and "0 < qcount q"
  shows "queue_list q =
    (if qtail q > qhead q then take (qtail q - qhead q) (drop (qhead q) (buf q))
     else drop (qhead q) (buf q) @ take (qtail q) (buf q))"
proof -
  let ?n = "length (buf q)"
  have h: "qhead q < ?n" "qcount q \<le> ?n" "qtail q = (qhead q + qcount q) mod ?n"
    using assms(1) by (auto simp: queue_inv_def)
  show ?thesis
  proof (cases "qhead q + qcount q < ?n")
    case True
    then have t: "qtail q = qhead q + qcount q" using h by simp
    then show ?thesis using assms(2) True
      by (auto intro!: nth_equalityI simp: queue_list_nth)
  next
    case False
    then have t: "qtail q = qhead q + qcount q - ?n" using h by (simp add: mod_if)
    then have "qtail q \<le> qhead q" using h by simp
    moreover have "queue_list q ! i = (drop (qhead q) (buf q) @ take (qtail q) (buf q)) ! i"
      if "i < qcount q" for i
      using that h t False by (auto simp: queue_list_nth nth_append mod_if add.commute)
    ultimately show ?thesis
      using h t False by (auto intro!: nth_equalityI)
  qed
qed

lemma resize_buf:
  assumes "queue_inv q" and "0 < qcount q"
  shows "buf (resize zero q) = queue_list q @ replicate (qcount q) zero"
proof -
  have h: "qhead q < length (buf q)" "qcount q \<le> length (buf q)"
    using assms(1) by (auto simp: queue_inv_def)
  have l: "length (queue_list q) = qcount q" by simp
  show ?thesis
  proof (cases "qtail q > qhead q")
    case True
    then have "buf (resize zero q) = go_copy (replicate (2 * qcount q) zero) (queue_list q)"
      using queue_list_slices [OF assms] by (simp add: resize_def push_bit_eq_mult mult.commute)
    then show ?thesis by (simp add: go_copy_replicate)
  next
    case False
    then have q: "queue_list q = drop (qhead q) (buf q) @ take (qtail q) (buf q)"
      using queue_list_slices [OF assms] by simp
    with l have "length (drop (qhead q) (buf q)) + length (take (qtail q) (buf q)) = qcount q"
      by (metis length_append)
    moreover have "qtail q < length (buf q)"
      using assms(1) h(1) by (auto simp: queue_inv_def intro!: mod_less_divisor)
    ultimately have e: "length (buf q) - qhead q + qtail q = qcount q" by simp
    then have "qtail q \<le> 2 * qcount q - (length (buf q) - qhead q)" by simp
    with e \<open>qtail q < length (buf q)\<close> show ?thesis using False q
      by (simp add: resize_def go_copy_def push_bit_eq_mult Let_def mult.commute)
  qed
qed

lemma resize_simps [simp]:
  "qhead (resize zero q) = 0" "qtail (resize zero q) = qcount q" "qcount (resize zero q) = qcount q"
  by (simp_all add: resize_def Let_def)

lemma queue_list_resize:
  assumes "queue_inv q" and "0 < qcount q"
  shows "queue_list (resize zero q) = queue_list q"
  by (rule nth_equalityI) (auto simp: queue_list_nth resize_buf [OF assms] nth_append)

lemma queue_inv_resize:
  assumes "queue_inv q" and "2 * qcount q = 2 ^ k" and "4 \<le> k"
  shows "queue_inv (resize zero q)"
proof -
  have "0 < qcount q" using assms(2) by (cases "qcount q") auto
  then show ?thesis
    using assms(2,3) by (auto simp: queue_inv_def resize_buf [OF assms(1)])
qed

lemma add_step:
  fixes q :: "'v Queue" and v :: 'v
  assumes "queue_inv q" and "qcount q < length (buf q)"
  defines "q' \<equiv> q\<lparr>buf := (buf q)[qtail q := v], qtail := (qtail q + 1) AND (length (buf q) - 1),
    qcount := qcount q + 1\<rparr>"
  shows "queue_inv q'" and "queue_list q' = queue_list q @ [v]"
proof -
  let ?n = "length (buf q)"
  have h: "qhead q < ?n" "qtail q = (qhead q + qcount q) mod ?n"
    using assms(1) by (auto simp: queue_inv_def)
  show "queue_inv q'"
    using assms(1,2) unfolding q'_def queue_inv_and [OF assms(1)]
    by (auto simp: queue_inv_def mod_Suc_eq)
  have "queue_list q' ! i = (queue_list q @ [v]) ! i" if i: "i < Suc (qcount q)" for i
  proof (cases "i = qcount q")
    case True
    then show ?thesis
      using h queue_inv_mod_less [OF assms(1)] by (simp add: queue_list_nth q'_def nth_append)
  next
    case False
    with i have "i < qcount q" by simp
    moreover have "(qhead q + i) mod ?n \<noteq> qtail q"
      using h \<open>i < qcount q\<close> assms(2) ring_distinct [of i "qcount q" ?n "qhead q"] by simp
    ultimately show ?thesis by (simp add: queue_list_nth q'_def nth_append)
  qed
  then show "queue_list q' = queue_list q @ [v]"
    by (intro nth_equalityI) (simp_all add: q'_def)
qed

lemma Add_refines:
  assumes "queue_inv q"
  shows "queue_inv (Add zero q v)" and "queue_list (Add zero q v) = queue_list q @ [v]"
proof -
  have "queue_inv (Add zero q v) \<and> queue_list (Add zero q v) = queue_list q @ [v]"
  proof (cases "qcount q = length (buf q)")
    case True
    obtain k where k: "4 \<le> k" "length (buf q) = 2 ^ k" using assms by (auto simp: queue_inv_def)
    have c: "0 < qcount q" using queue_inv_pos [OF assms] True by linarith
    have i: "queue_inv (resize zero q)"
      using queue_inv_resize [OF assms, of "Suc k"] k True by simp
    have l: "qcount (resize zero q) < length (buf (resize zero q))"
      using c by (simp add: resize_buf [OF assms c])
    from add_step [OF i l] queue_list_resize [OF assms c] True show ?thesis
      by (simp add: Add_def Let_def)
  next
    case False
    then have "qcount q < length (buf q)" using assms by (auto simp: queue_inv_def)
    from add_step [OF assms this] False show ?thesis by (simp add: Add_def Let_def)
  qed
  then show "queue_inv (Add zero q v)" and "queue_list (Add zero q v) = queue_list q @ [v]" by blast+
qed

lemma remove_step:
  assumes "queue_inv q" and "0 < qcount q"
  defines "q' \<equiv> q\<lparr>qhead := (qhead q + 1) AND (length (buf q) - 1), qcount := qcount q - 1\<rparr>"
  shows "queue_inv q'" and "queue_list q = buf q ! qhead q # queue_list q'"
proof -
  let ?n = "length (buf q)"
  have h: "qhead q < ?n" "0 < ?n" using assms(1) by (auto simp: queue_inv_def)
  have hd: "qhead q' = (qhead q + 1) mod ?n"
    unfolding q'_def queue_inv_and [OF assms(1)] by simp
  have "(qhead q' + qcount q') mod ?n = (qhead q + 1 + (qcount q - 1)) mod ?n"
    unfolding hd by (simp add: q'_def mod_add_left_eq)
  then show "queue_inv q'"
    using assms(1,2) h hd by (auto simp: queue_inv_def q'_def)
  have "queue_list q' ! i = queue_list q ! Suc i" if "i < qcount q - 1" for i
  proof -
    have "(qhead q' + i) mod ?n = (qhead q + Suc i) mod ?n"
      unfolding hd by (simp add: mod_add_left_eq)
    with that show ?thesis by (simp add: queue_list_nth q'_def)
  qed
  then show "queue_list q = buf q ! qhead q # queue_list q'"
    using assms(2) h
    by (intro nth_equalityI) (auto simp: q'_def queue_list_nth nth_Cons split: nat.split)
qed

lemma Remove_refines:
  assumes "queue_inv q" and "queue_list q = v # vs"
  shows "\<exists>q'. Remove zero q = Some (v, q') \<and> queue_inv q' \<and> queue_list q' = vs"
proof -
  have c: "0 < qcount q" using assms(2) by (metis length_queue_list length_Cons zero_less_Suc)
  define q1 where "q1 = q\<lparr>qhead := (qhead q + 1) AND (length (buf q) - 1), qcount := qcount q - 1\<rparr>"
  have 1: "queue_inv q1" "buf q ! qhead q = v" "queue_list q1 = vs"
    using remove_step [OF assms(1) c] assms(2) by (simp_all add: q1_def)
  show ?thesis
  proof (cases "length (buf q1) > minQueueLen \<and> push_bit 2 (qcount q1) = length (buf q1)")
    case True
    obtain k where k: "length (buf q1) = 2 ^ k" using 1(1) by (auto simp: queue_inv_def)
    with True have "(2 :: nat) ^ 4 < 2 ^ k" by (simp add: minQueueLen_def)
    then have "4 < k" by (rule power_less_imp_less_exp [rotated]) simp
    moreover have "2 * qcount q1 = 2 ^ (k - 1)"
      using True k \<open>4 < k\<close> by (cases k) (auto simp: push_bit_eq_mult)
    ultimately have "queue_inv (resize zero q1)" "0 < qcount q1"
      using queue_inv_resize [OF 1(1), of "k - 1"] by (auto intro: Nat.gr0I)
    with 1 True c queue_list_resize [OF 1(1), of zero] show ?thesis
      by (simp add: Remove_def Let_def q1_def)
  next
    case False
    with 1 c show ?thesis by (auto simp: Remove_def Let_def q1_def)
  qed
qed

lemma Get_nonneg:
  assumes "queue_inv q" and "0 \<le> i"
  shows "Get q i = (if nat i < length (queue_list q) then Some (queue_list q ! nat i) else None)"
  using assms by (auto simp: Get_def GetP_def Let_def queue_inv_and_Suc queue_list_nth)

lemma Get_neg:
  assumes "queue_inv q" and "i < 0"
  shows "Get q i = (if - i \<le> int (length (queue_list q))
    then Some (queue_list q ! nat (int (length (queue_list q)) + i)) else None)"
  using assms by (auto simp: Get_def GetP_def Let_def queue_inv_and_Suc queue_list_nth add.commute)

lemma TailP_store:
  assumes "queue_inv q" and "queue_list q \<noteq> []"
  shows "\<exists>p. TailP q = Some p \<and> queue_inv (store_slot q p v) \<and>
    queue_list (store_slot q p v) = butlast (queue_list q) @ [v]"
proof -
  let ?n = "length (buf q)"
  define p where "p = (qhead q + (qcount q - 1)) mod ?n"
  have h: "qhead q < ?n" "qcount q \<le> ?n" "0 < qcount q"
    using assms by (auto simp: queue_inv_def) (metis length_0_conv length_queue_list neq0_conv)
  have p: "TailP q = Some p"
    using h by (auto simp: TailP_def GetP_def Let_def queue_inv_and_Suc [OF assms(1)] p_def nat_diff_distrib)
  have i: "queue_inv (store_slot q p v)" using assms(1) by (simp add: store_slot_def queue_inv_def)
  have "queue_list (store_slot q p v) ! i = (butlast (queue_list q) @ [v]) ! i" if "i < qcount q" for i
  proof (cases "i = qcount q - 1")
    case True
    then have "p < ?n" "(qhead q + i) mod ?n = p" "\<not> i < qcount q - 1"
      using h queue_inv_mod_less [OF assms(1)] by (simp_all add: p_def)
    then show ?thesis using that True
      by (simp add: queue_list_nth store_slot_def nth_append)
  next
    case False
    then have "(qhead q + i) mod ?n \<noteq> p"
      using h that ring_distinct [of i "qcount q - 1" ?n "qhead q"] by (simp add: p_def)
    moreover from False that have "i < qcount q - 1" by simp
    ultimately show ?thesis
      using that by (simp add: queue_list_nth store_slot_def nth_append nth_butlast)
  qed
  then have "queue_list (store_slot q p v) = butlast (queue_list q) @ [v]"
    using h by (intro nth_equalityI) (simp_all add: store_slot_def)
  with p i show ?thesis by blast
qed

lemma empty_queue:
  assumes "queue_list q = []"
  shows "Remove zero q = None" and "TailP q = None"
  using arg_cong [OF assms, of length] by (simp_all add: Remove_def TailP_def GetP_def)

interpretation rq: fifo queue_list queue_inv "Add zero" "Remove zero" Length Get TailP store_slot
  by unfold_locales
    (simp_all add: Add_refines Remove_refines empty_queue Length_def Get_nonneg Get_neg TailP_store)

section \<open>Properties\<close>

lemma New_empty: "queue_inv (New zero)" "queue_list (New zero) = []"
  by (auto simp: New_def queue_inv_def queue_list_def minQueueLen_def intro: exI [of _ 4])

lemma Get_list_get:
  assumes "queue_inv q"
  shows "val_or_panic (Get q i) = list_get (queue_list q) i"
  by (cases "i < 0")
    (auto simp: val_or_panic_def list_get_def rq.get_neg [OF assms] rq.get_nonneg [OF assms] add.commute)

lemma Tail_Get: "Tail q = Get q (-1)"
  by (simp add: Tail_def TailP_def Get_def)

lemma queue_run_refines:
  "queue_inv q \<Longrightarrow> queue_run zero q ops = list_run (queue_list q) ops"
proof (induction ops arbitrary: q)
  case (Cons x xs)
  show ?case
  proof (cases x)
    case OpRemove
    show ?thesis
    proof (cases "queue_list q")
      case Nil
      with Cons OpRemove show ?thesis by (simp add: rq.deq_empty)
    next
      case (Cons v vs)
      from rq.deq_Cons [OF \<open>queue_inv q\<close> this, of zero] Cons.IH OpRemove Cons show ?thesis by auto
    qed
  qed (use Cons in \<open>simp_all add: rq.enq_ok rq.enq_alpha rq.len_alpha Get_list_get Tail_Get\<close>)
qed simp

text \<open>C22: The ring buffer is a first-in first-out queue: every program of additions, removals,
  indexed reads and length queries, run on a new queue, observes exactly what it would observe on
  a list, panics included, whatever resizes happen underneath.\<close>

theorem queue_is_fifo: "queue_run zero (New zero) ops = list_run [] ops"
  using queue_run_refines [OF New_empty(1)] by (simp add: New_empty(2))

end
