(* ===== verification/Data_Stream.thy ===== *)
theory Data_Stream
  imports Ring_Queue "HOL-Library.Signed_Division" "HOL-Library.Sublist"
begin

text \<open>
  The data streams of \<open>internal/evm/rpc/stream/stream.go\<close> and the condition variable of
  \<open>cond.go\<close>: items are appended to segments of fixed size kept in the ring-buffer queue, old
  segments are pruned, and readers ask for the items after an offset. The history of a stream is
  the list of all items ever added; the invariant says which part of it the segments hold. The
  second half is the subscriber loop as a step relation, interleaved with publications.
\<close>

section \<open>Definitions\<close>

text \<open>The channel of \<open>Cond\<close> is closed and replaced by \<open>Broadcast\<close>: a channel is a generation
  number, and it is closed when the current generation is a later one.\<close>

record Cond =
  ch :: nat

definition NewCond :: Cond where
  "NewCond = \<lparr>ch = 0\<rparr>"

definition Broadcast :: "Cond \<Rightarrow> Cond" where
  "Broadcast c = c\<lparr>ch := Suc (ch c)\<rparr>"

text \<open>\<open>Wait\<close> takes the current channel, then returns true when that channel is closed.\<close>

definition wait_capture :: "Cond \<Rightarrow> nat" where
  "wait_capture c = ch c"

definition wait_signaled :: "Cond \<Rightarrow> nat \<Rightarrow> bool" where
  "wait_signaled c g \<longleftrightarrow> g < ch c"

record 'v Stream =
  segments :: "'v list Queue"
  segmentSize :: int
  maxSegments :: int
  segmentOffset :: int
  cond :: Cond

definition NewStream :: "int \<Rightarrow> int \<Rightarrow> 'v Stream option" where
  "NewStream segSize capacity =
     (if segSize = 0 then None
      else
        let maxSegs = (capacity + segSize - 1) sdiv segSize
        in if maxSegs < 1 then None
           else Some \<lparr>segments = New [], segmentSize = segSize, maxSegments = maxSegs,
                      segmentOffset = 0, cond = NewCond\<rparr>)"

text \<open>\<open>lastID\<close>: 0 for an empty stream.\<close>

definition lastID :: "'v Stream \<Rightarrow> int option" where
  "lastID s =
     (if Length (segments s) = 0 then Some 0
      else map_option (\<lambda>tl. (segmentOffset s + Length (segments s) - 1) * segmentSize s + int (length tl))
             (Tail (segments s)))"

text \<open>One iteration of the loop of \<open>Add\<close>: the segment to append to, then the append through
  \<open>TailP\<close>. \<open>make\<close> panics on a negative capacity.\<close>

definition needs_segment :: "'v Stream \<Rightarrow> bool option" where
  "needs_segment s =
     (if Length (segments s) = 0 then Some True
      else map_option (\<lambda>tl. int (length tl) = segmentSize s) (Tail (segments s)))"

definition push_segment :: "'v Stream \<Rightarrow> 'v Stream option" where
  "push_segment s =
     (if Length (segments s) > maxSegments s then
        (case Remove [] (segments s) of
           None \<Rightarrow> None
         | Some (old, q) \<Rightarrow>
             Some (s\<lparr>segments := Add [] q (take 0 old), segmentOffset := segmentOffset s + 1\<rparr>))
      else if segmentSize s < 0 then None
      else Some (s\<lparr>segments := Add [] (segments s) []\<rparr>))"

definition append_tail :: "'v Stream \<Rightarrow> 'v \<Rightarrow> 'v Stream option" where
  "append_tail s v =
     (case TailP (segments s) of
        None \<Rightarrow> None
      | Some p \<Rightarrow> Some (s\<lparr>segments := store_slot (segments s) p (buf (segments s) ! p @ [v])\<rparr>))"

definition add_item :: "'v Stream \<Rightarrow> 'v \<Rightarrow> 'v Stream option" where
  "add_item s v =
     (case needs_segment s of
        None \<Rightarrow> None
      | Some True \<Rightarrow> (case push_segment s of None \<Rightarrow> None | Some s' \<Rightarrow> append_tail s' v)
      | Some False \<Rightarrow> append_tail s v)"

fun add_items :: "'v Stream \<Rightarrow> 'v list \<Rightarrow> 'v Stream option" where
  "add_items s [] = Some s"
| "add_items s (v # vs) = (case add_item s v of None \<Rightarrow> None | Some s' \<Rightarrow> add_items s' vs)"

definition Stream_Add :: "'v Stream \<Rightarrow> 'v list \<Rightarrow> (int \<times> 'v Stream) option" where
  "Stream_Add s vs =
     (if vs = [] then Some (0, s)
      else case add_items s vs of
             None \<Rightarrow> None
           | Some s1 \<Rightarrow>
               let s2 = s1\<lparr>cond := Broadcast (cond s1)\<rparr>
               in map_option (\<lambda>i. (i, s2)) (lastID s2))"

text \<open>\<open>doRead\<close>: the slice expression \<open>seg[k:]\<close> panics when \<open>k\<close> is beyond the length.\<close>

definition doRead :: "'v Stream \<Rightarrow> int \<Rightarrow> ('v list \<times> int) option" where
  "doRead s offset =
     (if Length (segments s) = 0 \<or> offset < 0 then map_option (Pair []) (lastID s)
      else if segmentSize s = 0 then None
      else
        let sg = offset sdiv segmentSize s;
            segment = (if sg \<ge> segmentOffset s then sg - segmentOffset s else 0)
        in if segment \<ge> Length (segments s) then map_option (Pair []) (lastID s)
           else
             case Get (segments s) segment of
               None \<Rightarrow> None
             | Some seg \<Rightarrow>
                 let k = offset smod segmentSize s
                 in if k > int (length seg) then None
                    else if drop (nat k) seg = [] then map_option (Pair []) (lastID s)
                    else Some (drop (nat k) seg, (segmentOffset s + segment) * segmentSize s + int (length seg)))"

definition ReadNonBlocking :: "'v Stream \<Rightarrow> int \<Rightarrow> ('v list \<times> int) option" where
  "ReadNonBlocking s offset = doRead s offset"

text \<open>The loop of \<open>ReadAllNonBlocking\<close> runs until a read is empty.\<close>

partial_function (option) read_all :: "'v Stream \<Rightarrow> 'v list \<Rightarrow> int \<Rightarrow> ('v list \<times> int) option" where
  "read_all s result offset =
     Option.bind (doRead s offset) (\<lambda>(items, offset').
       if items = [] then Some (result, offset') else read_all s (result @ items) offset')"

definition ReadAllNonBlocking :: "'v Stream \<Rightarrow> int \<Rightarrow> ('v list \<times> int) option" where
  "ReadAllNonBlocking s offset = read_all s [] offset"

subsection \<open>The history of a stream\<close>

text \<open>A stream holds the segments \<open>off .. off + n - 1\<close> of its history; the last one may be partial.
  Once a segment has been pruned, the queue always has one segment more than \<open>maxSegments\<close>.\<close>

definition chunk :: "nat \<Rightarrow> 'v list \<Rightarrow> nat \<Rightarrow> 'v list" where
  "chunk ss hist i = take ss (drop (i * ss) hist)"

definition stream_inv :: "'v Stream \<Rightarrow> 'v list \<Rightarrow> bool" where
  "stream_inv s hist \<longleftrightarrow>
     queue_inv (segments s) \<and> 0 < segmentSize s \<and> 1 \<le> maxSegments s \<and> 0 \<le> segmentOffset s \<and>
     (let ss = nat (segmentSize s); off = nat (segmentOffset s); n = qcount (segments s) in
        queue_list (segments s) = map (chunk ss hist) [off..<off + n] \<and>
        int n \<le> maxSegments s + 1 \<and>
        (if n = 0 then hist = [] \<and> off = 0
         else (off + n - 1) * ss < length hist \<and> length hist \<le> (off + n) * ss) \<and>
        (0 < off \<longrightarrow> int n = maxSegments s + 1))"

fun publish_all :: "'v Stream \<Rightarrow> 'v list list \<Rightarrow> 'v Stream option" where
  "publish_all s [] = Some s"
| "publish_all s (vs # batches) =
     (case Stream_Add s vs of None \<Rightarrow> None | Some (_, s') \<Rightarrow> publish_all s' batches)"

subsection \<open>The subscriber loop\<close>

text \<open>\<open>Subscribe\<close> calls \<open>ReadBlocking\<close> in a loop. A subscriber is reading under the read lock, or has
  released it and is about to take the channel of the condition variable, or waits on a channel,
  or has stopped (callback error, or cancelled context). The ghost fields record the id the
  subscription started from, what the callback received, and whether a read ever found its
  segment pruned.\<close>

datatype sub_pc = Reading | Unlocked | Waiting nat | Stopped

record 'v Subscriber =
  pc :: sub_pc
  sub_offset :: int
  started :: "int option"
  delivered :: "'v list"
  lagged :: bool

definition NewSubscriber :: "'v Subscriber" where
  "NewSubscriber = \<lparr>pc = Reading, sub_offset = -1, started = None, delivered = [], lagged = False\<rparr>"

text \<open>One iteration of the loop of \<open>ReadBlocking\<close> up to the wait, followed by the callback of
  \<open>Subscribe\<close> when items were read.\<close>

definition subscriber_read :: "bool \<Rightarrow> 'v Stream \<Rightarrow> 'v Subscriber \<Rightarrow> 'v Subscriber option" where
  "subscriber_read callback_ok s u =
     (case doRead s (sub_offset u) of
        None \<Rightarrow> None
      | Some (items, offset) \<Rightarrow>
          let u' = u\<lparr>sub_offset := offset,
                      started := (case started u of None \<Rightarrow> Some offset | Some i \<Rightarrow> Some i),
                      lagged := lagged u \<or> 0 \<le> sub_offset u \<and> sub_offset u < segmentOffset s * segmentSize s\<rparr>
          in Some (if items = [] then u'\<lparr>pc := Unlocked\<rparr>
                   else u'\<lparr>delivered := delivered u @ items, pc := (if callback_ok then Reading else Stopped)\<rparr>))"

text \<open>The label of a step is what it publishes.\<close>

inductive sub_step :: "'v Stream \<times> 'v Subscriber \<Rightarrow> 'v list \<Rightarrow> 'v Stream \<times> 'v Subscriber \<Rightarrow> bool" where
  publish: "vs \<noteq> [] \<Longrightarrow> Stream_Add s vs = Some (i, s') \<Longrightarrow> sub_step (s, u) vs (s', u)"
| read: "pc u = Reading \<Longrightarrow> subscriber_read callback_ok s u = Some u' \<Longrightarrow> sub_step (s, u) [] (s, u')"
| capture: "pc u = Unlocked \<Longrightarrow> sub_step (s, u) [] (s, u\<lparr>pc := Waiting (wait_capture (cond s))\<rparr>)"
| wake: "pc u = Waiting g \<Longrightarrow> wait_signaled (cond s) g \<Longrightarrow> sub_step (s, u) [] (s, u\<lparr>pc := Reading\<rparr>)"
| cancel: "pc u = Waiting g \<Longrightarrow> sub_step (s, u) [] (s, u\<lparr>pc := Stopped\<rparr>)"

inductive_cases sub_stepE: "sub_step (s, u) vs (s', u')"

text \<open>A run of the publishers and the subscriber, with all the items published in it.\<close>

inductive sub_run :: "'v Stream \<times> 'v Subscriber \<Rightarrow> 'v list \<Rightarrow> 'v Stream \<times> 'v Subscriber \<Rightarrow> bool" where
  sub_run_refl: "sub_run c [] c"
| sub_run_step: "sub_run c items d \<Longrightarrow> sub_step d vs e \<Longrightarrow> sub_run c (items @ vs) e"

section \<open>Chunks of the history\<close>

lemma chunk_append_old: "Suc i * ss \<le> length hist \<Longrightarrow> chunk ss (hist @ xs) i = chunk ss hist i"
  by (auto simp: chunk_def)

lemma chunk_append_last:
  "k * ss \<le> length hist \<Longrightarrow> length hist < Suc k * ss \<Longrightarrow> chunk ss (hist @ [v]) k = chunk ss hist k @ [v]"
  by (auto simp: chunk_def)

lemma length_chunk_last:
  "k * ss \<le> length hist \<Longrightarrow> length hist \<le> Suc k * ss \<Longrightarrow> length (chunk ss hist k) = length hist - k * ss"
  by (auto simp: chunk_def)

lemma chunk_beyond: "length hist \<le> k * ss \<Longrightarrow> chunk ss hist k = []"
  by (simp add: chunk_def)

lemma drop_chunk: "drop (x mod ss) (chunk ss hist (x div ss)) = take (ss - x mod ss) (drop x hist)"
  by (simp add: chunk_def drop_take)

section \<open>Adding items\<close>

text \<open>Between choosing the segment and the append, the last segment has room.\<close>

definition stream_mid :: "'v Stream \<Rightarrow> 'v list \<Rightarrow> bool" where
  "stream_mid s hist \<longleftrightarrow>
     queue_inv (segments s) \<and> 0 < segmentSize s \<and> 1 \<le> maxSegments s \<and> 0 \<le> segmentOffset s \<and>
     (let ss = nat (segmentSize s); off = nat (segmentOffset s); n = qcount (segments s) in
        queue_list (segments s) = map (chunk ss hist) [off..<off + n] \<and>
        int n \<le> maxSegments s + 1 \<and> 0 < n \<and>
        (off + n - 1) * ss \<le> length hist \<and> length hist < (off + n) * ss \<and>
        (0 < off \<longrightarrow> int n = maxSegments s + 1))"

lemma stream_inv_last:
  assumes "stream_inv s hist" and "qcount (segments s) \<noteq> 0"
  shows "Tail (segments s) = Some (chunk (nat (segmentSize s)) hist (nat (segmentOffset s) + qcount (segments s) - 1))"
proof -
  let ?ch = "chunk (nat (segmentSize s)) hist"
  have q: "queue_inv (segments s)"
    and l: "queue_list (segments s) = map ?ch [nat (segmentOffset s)..<nat (segmentOffset s) + qcount (segments s)]"
    using assms(1) by (simp_all add: stream_inv_def Let_def)
  have "queue_list (segments s) \<noteq> []" using l assms(2) by simp
  from rq.get_last [OF q this] l assms(2) show ?thesis by (simp add: Tail_Get last_map)
qed

lemma stream_inv_last_length:
  assumes "stream_inv s hist" and "qcount (segments s) \<noteq> 0"
  defines "k \<equiv> nat (segmentOffset s) + qcount (segments s) - 1"
  shows "k * nat (segmentSize s) < length hist"
    and "length (chunk (nat (segmentSize s)) hist k) = length hist - k * nat (segmentSize s)"
proof -
  have "Suc k = nat (segmentOffset s) + qcount (segments s)" using assms(2) by (simp add: k_def)
  with assms(1,2) show "k * nat (segmentSize s) < length hist"
    and "length (chunk (nat (segmentSize s)) hist k) = length hist - k * nat (segmentSize s)"
    by (auto simp: stream_inv_def Let_def k_def intro!: length_chunk_last)
qed

lemma lastID_length:
  assumes "stream_inv s hist"
  shows "lastID s = Some (int (length hist))"
proof (cases "qcount (segments s) = 0")
  case True
  then show ?thesis using assms by (simp add: lastID_def Length_def stream_inv_def Let_def)
next
  case False
  define k where "k = nat (segmentOffset s) + qcount (segments s) - 1"
  have nn: "0 < segmentSize s" "0 \<le> segmentOffset s" using assms by (auto simp: stream_inv_def)
  have "segmentOffset s + int (qcount (segments s)) - 1 = int k"
    using nn False by (simp add: k_def)
  then have e: "(segmentOffset s + int (qcount (segments s)) - 1) * segmentSize s = int (k * nat (segmentSize s))"
    using nn by simp
  show ?thesis
    using stream_inv_last [OF assms False, folded k_def] stream_inv_last_length [OF assms False, folded k_def] False
    unfolding lastID_def Length_def e by (simp add: of_nat_diff del: of_nat_mult)
qed

lemma needs_segment_iff:
  assumes "stream_inv s hist"
  shows "needs_segment s = Some (length hist = (nat (segmentOffset s) + qcount (segments s)) * nat (segmentSize s))"
proof (cases "qcount (segments s) = 0")
  case True
  then show ?thesis using assms by (simp add: needs_segment_def Length_def stream_inv_def Let_def)
next
  case False
  define k where "k = nat (segmentOffset s) + qcount (segments s) - 1"
  have k: "nat (segmentOffset s) + qcount (segments s) = Suc k" using False by (simp add: k_def)
  have ss: "segmentSize s = int (nat (segmentSize s))" using assms by (auto simp: stream_inv_def)
  show ?thesis
    using stream_inv_last [OF assms False, folded k_def] stream_inv_last_length [OF assms False, folded k_def] False
    unfolding needs_segment_def Length_def k by (subst ss) (auto simp del: int_nat_eq)
qed

lemma push_segment_ok:
  assumes "stream_inv s hist"
    and "length hist = (nat (segmentOffset s) + qcount (segments s)) * nat (segmentSize s)"
  shows "\<exists>s'. push_segment s = Some s' \<and> stream_mid s' hist"
proof -
  let ?ss = "nat (segmentSize s)" and ?off = "nat (segmentOffset s)" and ?n = "qcount (segments s)"
  have q: "queue_inv (segments s)" and ss: "0 < ?ss" "0 < segmentSize s" "0 \<le> segmentOffset s" "1 \<le> maxSegments s"
    and l: "queue_list (segments s) = map (chunk ?ss hist) [?off..<?off + ?n]"
    and n: "int ?n \<le> maxSegments s + 1" and off: "0 < ?off \<longrightarrow> int ?n = maxSegments s + 1"
    using assms(1) by (simp_all add: stream_inv_def Let_def)
  have new: "chunk ?ss hist (?off + ?n) = []" using assms(2) by (intro chunk_beyond) simp
  show ?thesis
  proof (cases "Length (segments s) > maxSegments s")
    case True
    then have n': "int ?n = maxSegments s + 1" using n by (simp add: Length_def)
    then obtain m where m: "?n = Suc m" using ss by (cases ?n) auto
    then have "?off < ?off + ?n" by simp
    then have "queue_list (segments s) = chunk ?ss hist ?off # map (chunk ?ss hist) [Suc ?off..<?off + ?n]"
      unfolding l by (simp only: upt_conv_Cons list.map)
    from rq.rotate [OF q this, where w = "[]"]
    obtain q' where q': "Remove [] (segments s) = Some (chunk ?ss hist ?off, q')"
      "queue_inv (Add [] q' [])" "queue_list (Add [] q' []) = map (chunk ?ss hist) [Suc ?off..<?off + ?n] @ [[]]"
      by blast
    have c: "qcount (Add [] q' []) = ?n"
      using q'(3) m by (metis length_append_singleton length_map length_queue_list length_upt add_Suc_right diff_Suc_Suc add_diff_cancel_left')
    have "queue_list (Add [] q' []) = map (chunk ?ss hist) [Suc ?off..<Suc ?off + ?n]"
      using q'(3) new m by simp
    then show ?thesis
      using True q' c n' ss assms(2) m
      by (auto simp: push_segment_def stream_mid_def Let_def nat_add_distrib)
  next
    case False
    have "queue_list (Add [] (segments s) []) = map (chunk ?ss hist) [?off..<?off + Suc ?n]"
      using rq.enq_alpha [OF q, of "[]" "[]"] l new by simp
    moreover from arg_cong [OF this, of length] have "qcount (Add [] (segments s) []) = Suc ?n" by simp
    ultimately show ?thesis
      using False rq.enq_ok [OF q] ss off assms(2)
      by (auto simp: push_segment_def stream_mid_def Let_def Length_def)
  qed
qed

lemma append_tail_ok:
  assumes "stream_mid s hist"
  shows "\<exists>s'. append_tail s v = Some s' \<and> stream_inv s' (hist @ [v])"
proof -
  let ?ss = "nat (segmentSize s)" and ?off = "nat (segmentOffset s)" and ?n = "qcount (segments s)"
  have q: "queue_inv (segments s)" and l: "queue_list (segments s) = map (chunk ?ss hist) [?off..<?off + ?n]"
    and n: "0 < ?n" and len: "(?off + ?n - 1) * ?ss \<le> length hist" "length hist < (?off + ?n) * ?ss"
    using assms by (simp_all add: stream_mid_def Let_def)
  define k where "k = ?off + ?n - 1"
  have k: "?off + ?n = Suc k" "?off \<le> k" using n by (simp_all add: k_def)
  have ne: "queue_list (segments s) \<noteq> []" using l n by simp
  have old: "map (chunk ?ss (hist @ [v])) [?off..<k] = map (chunk ?ss hist) [?off..<k]"
  proof (rule map_cong [OF refl], rule chunk_append_old)
    fix i assume "i \<in> set [?off..<k]"
    then have "Suc i * ?ss \<le> k * ?ss" by (intro mult_le_mono1) simp
    then show "Suc i * ?ss \<le> length hist" using len(1) by (simp add: k_def)
  qed
  have lastc: "chunk ?ss (hist @ [v]) k = chunk ?ss hist k @ [v]"
    using len k by (intro chunk_append_last) (simp_all flip: k_def)
  from rq.lastp_store [OF q ne]
  obtain p where p: "TailP (segments s) = Some p"
    and st: "\<And>w. queue_inv (store_slot (segments s) p w)"
      "\<And>w. queue_list (store_slot (segments s) p w) = butlast (queue_list (segments s)) @ [w]"
    by (metis option.inject)
  have "buf (segments s) ! p = chunk ?ss hist k"
    using rq.get_last [OF q ne] p l k by (simp add: Get_def TailP_def last_map)
  then have "queue_list (store_slot (segments s) p (buf (segments s) ! p @ [v])) =
      map (chunk ?ss (hist @ [v])) [?off..<?off + ?n]"
    unfolding st l k using k(2) old lastc by (simp add: butlast_append)
  with p st(1) assms n show ?thesis
    by (auto simp: append_tail_def stream_inv_def stream_mid_def Let_def store_slot_def)
qed

lemma add_item_ok:
  assumes "stream_inv s hist"
  shows "\<exists>s'. add_item s v = Some s' \<and> stream_inv s' (hist @ [v])"
proof (cases "length hist = (nat (segmentOffset s) + qcount (segments s)) * nat (segmentSize s)")
  case True
  from push_segment_ok [OF assms True] obtain s' where "push_segment s = Some s'" "stream_mid s' hist"
    by blast
  with append_tail_ok [of s' hist v] needs_segment_iff [OF assms] True show ?thesis
    by (simp add: add_item_def)
next
  case False
  have "stream_mid s hist"
  proof (cases "qcount (segments s) = 0")
    case True
    then show ?thesis using assms False by (simp add: stream_inv_def Let_def)
  next
    case nz: False
    with assms False show ?thesis by (simp add: stream_inv_def stream_mid_def Let_def)
  qed
  with append_tail_ok [of s hist v] needs_segment_iff [OF assms] False show ?thesis
    by (simp add: add_item_def)
qed

text \<open>The segment size, the number of segments and the channel are not touched by the loop.\<close>

lemma add_item_frame:
  assumes "add_item s v = Some s'"
  shows "segmentSize s' = segmentSize s" and "maxSegments s' = maxSegments s" and "cond s' = cond s"
  using assms
  by (auto simp: add_item_def append_tail_def push_segment_def split: option.splits if_splits bool.splits prod.splits)

lemma add_items_ok:
  assumes "stream_inv s hist"
  shows "\<exists>s'. add_items s vs = Some s' \<and> stream_inv s' (hist @ vs) \<and>
    segmentSize s' = segmentSize s \<and> maxSegments s' = maxSegments s \<and> cond s' = cond s"
  using assms
proof (induction vs arbitrary: s hist)
  case (Cons v vs)
  from add_item_ok [OF Cons.prems] obtain s1 where s1: "add_item s v = Some s1" "stream_inv s1 (hist @ [v])"
    by blast
  from Cons.IH [OF s1(2)] add_item_frame [OF s1(1)] s1(1) show ?case by auto
qed simp

lemma stream_inv_cond [simp]: "stream_inv (s\<lparr>cond := c\<rparr>) hist = stream_inv s hist"
  by (simp add: stream_inv_def)

lemma Stream_Add_ok:
  assumes "stream_inv s hist"
  shows "\<exists>s'. Stream_Add s vs = Some (if vs = [] then 0 else int (length (hist @ vs)), s') \<and>
    stream_inv s' (hist @ vs) \<and> segmentSize s' = segmentSize s \<and> maxSegments s' = maxSegments s \<and>
    cond s' = (if vs = [] then cond s else Broadcast (cond s))"
proof (cases "vs = []")
  case True
  then show ?thesis using assms by (simp add: Stream_Add_def)
next
  case False
  from add_items_ok [OF assms, of vs] obtain s1 where s1: "add_items s vs = Some s1"
    "stream_inv s1 (hist @ vs)" "segmentSize s1 = segmentSize s" "maxSegments s1 = maxSegments s"
    "cond s1 = cond s" by blast
  then have "lastID (s1\<lparr>cond := Broadcast (cond s1)\<rparr>) = Some (int (length (hist @ vs)))"
    by (intro lastID_length) simp
  with s1 False show ?thesis by (simp add: Stream_Add_def Let_def)
qed

lemma publish_all_ok:
  assumes "stream_inv s hist"
  shows "\<exists>s'. publish_all s batches = Some s' \<and> stream_inv s' (hist @ concat batches) \<and>
    segmentSize s' = segmentSize s \<and> maxSegments s' = maxSegments s"
  using assms
proof (induction batches arbitrary: s hist)
  case (Cons vs batches)
  from Stream_Add_ok [OF Cons.prems, of vs] obtain i s1 where s1: "Stream_Add s vs = Some (i, s1)"
    "stream_inv s1 (hist @ vs)" "segmentSize s1 = segmentSize s" "maxSegments s1 = maxSegments s" by blast
  from Cons.IH [OF s1(2)] s1 show ?case by auto
qed simp

lemma NewStream_inv:
  assumes "NewStream ss capacity = Some s" and "0 < ss"
  shows "stream_inv s []" and "segmentSize s = ss" and "capacity \<le> maxSegments s * ss"
proof -
  have m: "maxSegments s = (capacity + ss - 1) sdiv ss" "1 \<le> maxSegments s" "segmentSize s = ss"
    and q: "segments s = New []" "segmentOffset s = 0"
    using assms by (auto simp: NewStream_def Let_def split: if_splits)
  have "0 \<le> capacity + ss - 1"
  proof (rule ccontr)
    assume "\<not> 0 \<le> capacity + ss - 1"
    then have "(capacity + ss - 1) sdiv ss \<le> 0"
      using assms(2) by (simp add: signed_divide_int_def sgn_if pos_imp_zdiv_nonneg_iff)
    with m show False by simp
  qed
  then have "maxSegments s = (capacity + ss - 1) div ss"
    using m(1) assms(2) by (simp add: signed_divide_int_def sgn_if abs_if)
  then have "(capacity + ss - 1) div ss = maxSegments s" by simp
  moreover have "capacity + ss - 1 < ((capacity + ss - 1) div ss + 1) * ss"
    using assms(2) by (metis mult.commute mult_div_mod_eq pos_mod_bound distrib_right mult_1 add_less_cancel_left)
  ultimately show "capacity \<le> maxSegments s * ss" by (simp add: distrib_right)
  show "segmentSize s = ss" by (fact m)
  show "stream_inv s []"
    using m q assms(2) New_empty [of "[]"] by (simp add: stream_inv_def New_def)
qed

section \<open>Reading\<close>

lemma sdiv_smod_pos:
  fixes a b :: int
  assumes "0 \<le> a" and "0 < b"
  shows "a sdiv b = a div b" and "a smod b = a mod b"
  using assms by (simp_all add: signed_divide_int_def signed_modulo_int_def sgn_if minus_div_mult_eq_mod)

text \<open>The items of the segment of an offset, from that offset on.\<close>

definition read_items :: "nat \<Rightarrow> 'v list \<Rightarrow> nat \<Rightarrow> 'v list" where
  "read_items ss hist x = take (ss - x mod ss) (drop x hist)"

lemma read_items_take: "read_items ss hist x = take (length (read_items ss hist x)) (drop x hist)"
  by (simp add: read_items_def min_def)

lemma doRead_retained:
  assumes inv: "stream_inv s hist" and lo: "nat (segmentOffset s) * nat (segmentSize s) \<le> x" and hi: "x \<le> length hist"
  shows "doRead s (int x) =
    Some (read_items (nat (segmentSize s)) hist x, int (x + length (read_items (nat (segmentSize s)) hist x)))"
proof -
  define ss off n where "ss = nat (segmentSize s)" and "off = nat (segmentOffset s)" and "n = qcount (segments s)"
  have q: "queue_inv (segments s)" and l: "queue_list (segments s) = map (chunk ss hist) [off..<off + n]"
    and eq: "segmentSize s = int ss" "segmentOffset s = int off" and pos: "0 < ss"
    using inv by (auto simp: stream_inv_def Let_def ss_def off_def n_def)
  have sdiv: "int x sdiv int ss = int (x div ss)" "int x smod int ss = int (x mod ss)"
    using pos by (simp_all add: sdiv_smod_pos zdiv_int zmod_int)
  have ge: "off \<le> x div ss" using lo pos by (simp add: ss_def off_def less_eq_div_iff_mult_less_eq)
  have empty: "read_items ss hist x = [] \<longleftrightarrow> x = length hist"
    using hi mod_less_divisor [OF pos, of x] by (auto simp: read_items_def)
  show ?thesis
  proof (cases "n = 0 \<or> off + n \<le> x div ss")
    case True
    have "n \<noteq> 0 \<and> length hist \<le> (off + n) * ss \<or> n = 0 \<and> hist = []"
      using inv by (auto simp: stream_inv_def Let_def ss_def off_def n_def split: if_split_asm)
    then have "x = length hist"
      using True hi pos by (auto simp: less_eq_div_iff_mult_less_eq)
    then show ?thesis
      using True ge empty sdiv lastID_length [OF inv] unfolding ss_def [symmetric]
      by (auto simp: doRead_def Let_def eq Length_def simp flip: n_def)
  next
    case False
    then have n: "n \<noteq> 0" "x div ss - off < n" using ge by auto
    have g: "Get (segments s) (int (x div ss) - int off) = Some (chunk ss hist (x div ss))"
      using rq.get_nonneg [OF q, of "int (x div ss) - int off"] ge n
      by (simp add: l nat_diff_distrib of_nat_diff)
    have "x div ss * ss + x mod ss = x" by simp
    moreover have "x mod ss < ss" using pos by simp
    ultimately have k: "x mod ss \<le> length (chunk ss hist (x div ss))"
      unfolding chunk_def length_take length_drop using hi by linarith
    have items: "drop (x mod ss) (chunk ss hist (x div ss)) = read_items ss hist x"
      by (simp add: read_items_def drop_chunk)
    have "length (read_items ss hist x) = length (chunk ss hist (x div ss)) - x mod ss"
      by (simp flip: items)
    then have off': "x div ss * ss + length (chunk ss hist (x div ss)) = x + length (read_items ss hist x)"
      using k \<open>x div ss * ss + x mod ss = x\<close> by linarith
    show ?thesis
    proof (cases "x = length hist")
      case True
      then show ?thesis
        using n ge g k items empty sdiv pos lastID_length [OF inv] unfolding ss_def [symmetric]
        by (auto simp: doRead_def Let_def eq Length_def simp flip: n_def)
    next
      case False
      have "(int off + (int (x div ss) - int off)) * int ss + int (length (chunk ss hist (x div ss))) =
          int (x div ss * ss + length (chunk ss hist (x div ss)))" by simp
      with False show ?thesis
        using n ge g k items empty sdiv pos off' unfolding ss_def [symmetric]
        by (auto simp: doRead_def Let_def eq Length_def simp flip: n_def)
    qed
  qed
qed

lemma read_all_retained:
  assumes "stream_inv s hist" and "nat (segmentOffset s) * nat (segmentSize s) \<le> x" and "x \<le> length hist"
  shows "read_all s result (int x) = Some (result @ drop x hist, int (length hist))"
  using assms(2,3)
proof (induction "length hist - x" arbitrary: x result rule: less_induct)
  case less
  let ?ss = "nat (segmentSize s)"
  let ?items = "read_items ?ss hist x"
  have rd: "doRead s (int x) = Some (?items, int (x + length ?items))"
    using doRead_retained [OF assms(1) less.prems] .
  have le: "x + length ?items \<le> length hist" using less.prems(2) by (simp add: read_items_def)
  show ?case
  proof (cases "?items = []")
    case True
    have "x mod ?ss < ?ss" using assms(1) by (simp add: stream_inv_def)
    with True less.prems(2) have "x = length hist" by (auto simp: read_items_def)
    then show ?thesis using rd True by (subst read_all.simps) simp
  next
    case False
    then have "length hist - (x + length ?items) < length hist - x" using le by (cases ?items) auto
    moreover have "?items @ drop (x + length ?items) hist = drop x hist"
      unfolding read_items_def by (metis append_take_drop_id drop_drop add.commute take_all_iff
          length_take min_def nat_le_linear drop_all append.right_neutral length_drop)
    ultimately show ?thesis
      using less.hyps [of "x + length ?items" "result @ ?items"] less.prems le rd False
      by (subst read_all.simps) simp
  qed
qed

text \<open>The last \<open>capacity\<close> items are never pruned.\<close>

lemma retained:
  assumes "stream_inv s hist" and "int (length hist) \<le> int x + maxSegments s * segmentSize s"
  shows "nat (segmentOffset s) * nat (segmentSize s) \<le> x"
proof (cases "nat (segmentOffset s) = 0")
  case False
  let ?ss = "nat (segmentSize s)" and ?off = "nat (segmentOffset s)"
  have n: "int (qcount (segments s)) = maxSegments s + 1" "1 \<le> maxSegments s" "0 < segmentSize s"
    using assms(1) False by (auto simp: stream_inv_def Let_def)
  then have "?off + qcount (segments s) - 1 = ?off + nat (maxSegments s)" by linarith
  then have "(?off + nat (maxSegments s)) * ?ss < length hist"
    using assms(1) n unfolding stream_inv_def Let_def by (auto split: if_split_asm)
  then have "?off * ?ss + nat (maxSegments s * segmentSize s) < length hist"
    using n by (simp add: distrib_right nat_mult_distrib)
  with assms(2) n show ?thesis by linarith
qed simp

text \<open>When the segment of an offset has been pruned, \<open>doRead\<close> goes to the earliest segment but
  still skips the offset within the segment: the oldest retained items are left out.\<close>

lemma doRead_pruned_skips:
  assumes "stream_inv s hist" and "x < nat (segmentOffset s) * nat (segmentSize s)"
  shows "doRead s (int x) =
    Some (read_items (nat (segmentSize s)) hist (nat (segmentOffset s) * nat (segmentSize s) + x mod nat (segmentSize s)),
          int (Suc (nat (segmentOffset s)) * nat (segmentSize s)))"
proof -
  define ss off n where "ss = nat (segmentSize s)" and "off = nat (segmentOffset s)" and "n = qcount (segments s)"
  have q: "queue_inv (segments s)" and l: "queue_list (segments s) = map (chunk ss hist) [off..<off + n]"
    and eq: "segmentSize s = int ss" "segmentOffset s = int off" and pos: "0 < ss"
    using assms(1) by (auto simp: stream_inv_def Let_def ss_def off_def n_def)
  have "0 < off" using assms(2) by (cases off) (auto simp: off_def)
  then have n: "2 \<le> n" "(off + n - 1) * ss < length hist"
    using assms(1) by (auto simp: stream_inv_def Let_def ss_def off_def n_def split: if_split_asm)
  have "(off + 1) * ss \<le> (off + n - 1) * ss" using n by (intro mult_le_mono1) simp
  then have full: "length (chunk ss hist off) = ss" using n by (simp add: chunk_def)
  have lt: "x div ss < off" using assms(2) by (simp add: ss_def off_def less_mult_imp_div_less)
  define r where "r = x mod ss"
  have r: "r < ss" using pos by (simp add: r_def)
  have sdiv: "int x sdiv int ss = int (x div ss)" "int x smod int ss = int r"
    using pos by (simp_all add: sdiv_smod_pos zdiv_int zmod_int r_def)
  have g: "Get (segments s) 0 = Some (chunk ss hist off)"
    using rq.get_nonneg [OF q, of 0] n by (simp add: l)
  have items: "drop r (chunk ss hist off) = read_items ss hist (off * ss + r)"
    using r by (simp add: read_items_def chunk_def drop_take add.commute)
  then have "read_items ss hist (off * ss + r) \<noteq> []"
    using full r by (metis drop_eq_Nil2 not_le)
  then show ?thesis
    using g lt sdiv pos full n r items unfolding ss_def [symmetric] off_def [symmetric] r_def [symmetric]
    by (auto simp: doRead_def Let_def eq Length_def simp flip: n_def)
qed

text \<open>A read that returns nothing stands at the end of the history.\<close>

lemma doRead_empty:
  assumes "stream_inv s hist" and "x \<le> length hist" and "doRead s (int x) = Some ([], j)"
  shows "x = length hist"
proof -
  let ?ss = "nat (segmentSize s)" and ?off = "nat (segmentOffset s)"
  have lt: "y mod ?ss < ?ss" for y using assms(1) by (simp add: stream_inv_def)
  show ?thesis
  proof (cases "?off * ?ss \<le> x")
    case True
    with doRead_retained [OF assms(1) True assms(2)] assms(2,3) lt [of x] show ?thesis by (auto simp: read_items_def)
  next
    case False
    then have "0 < ?off" by (cases ?off) auto
    then have n: "2 \<le> qcount (segments s)" "(?off + qcount (segments s) - 1) * ?ss < length hist"
      using assms(1) by (auto simp: stream_inv_def Let_def split: if_split_asm)
    have "Suc ?off * ?ss \<le> (?off + qcount (segments s) - 1) * ?ss" using n by (intro mult_le_mono1) simp
    then have "Suc ?off * ?ss < length hist" using n by simp
    then show ?thesis
      using doRead_pruned_skips [OF assms(1), of x] assms(3) False lt [of x] lt [of "?off * ?ss + x mod ?ss"] by (auto simp: read_items_def)
  qed
qed

section \<open>The subscriber\<close>

text \<open>While a subscriber has not lagged, it has received exactly the items after the one it started
  from, up to its offset.\<close>

definition sub_inv :: "'v list \<Rightarrow> 'v Subscriber \<Rightarrow> bool" where
  "sub_inv hist u \<longleftrightarrow>
     (case started u of
        None \<Rightarrow> sub_offset u = -1 \<and> delivered u = [] \<and> pc u = Reading
      | Some i \<Rightarrow> \<not> lagged u \<longrightarrow>
          0 \<le> i \<and> i \<le> sub_offset u \<and> sub_offset u \<le> int (length hist) \<and>
          delivered u = take (nat (sub_offset u - i)) (drop (nat i) hist))"

lemma sub_inv_append: "sub_inv hist u \<Longrightarrow> sub_inv (hist @ vs) u"
  by (auto simp: sub_inv_def split: option.splits)

lemma read_first:
  assumes "stream_inv s hist"
  shows "doRead s (-1) = Some ([], int (length hist))"
  using lastID_length [OF assms] by (simp add: doRead_def)

lemma read_inv:
  assumes "stream_inv s hist" and "sub_inv hist u" and "subscriber_read ok s u = Some u'"
  shows "sub_inv hist u'"
proof (cases "started u")
  case None
  then show ?thesis using assms(2,3) read_first [OF assms(1)]
    by (auto simp: sub_inv_def subscriber_read_def)
next
  case (Some i)
  show ?thesis
  proof (cases "lagged u'")
    case True
    then show ?thesis using assms(3) Some
      by (auto simp: sub_inv_def subscriber_read_def Let_def split: option.splits if_splits)
  next
    case False
    let ?x = "nat (sub_offset u)" and ?ss = "nat (segmentSize s)"
    have nl: "\<not> lagged u" "\<not> (0 \<le> sub_offset u \<and> sub_offset u < segmentOffset s * segmentSize s)"
      using assms(3) False by (auto simp: subscriber_read_def Let_def split: option.splits if_splits)
    then have u: "0 \<le> i" "i \<le> sub_offset u" "sub_offset u \<le> int (length hist)"
      "delivered u = take (nat (sub_offset u - i)) (drop (nat i) hist)"
      using assms(2) Some by (auto simp: sub_inv_def)
    have pos: "0 < segmentSize s" "0 \<le> segmentOffset s" using assms(1) by (auto simp: stream_inv_def)
    have "nat (segmentOffset s) * ?ss \<le> ?x"
      using nl(2) u(1,2) pos by (simp add: nat_mult_distrib [symmetric] nat_mono)
    from doRead_retained [OF assms(1) this] u
    have rd: "doRead s (sub_offset u) =
        Some (read_items ?ss hist ?x, int (?x + length (read_items ?ss hist ?x)))" by simp
    let ?k = "length (read_items ?ss hist ?x)"
    have "?k \<le> length hist - ?x" by (simp add: read_items_def)
    then have "sub_offset u + int ?k \<le> int (length hist)" using u by linarith
    moreover have "delivered u @ read_items ?ss hist ?x = take (nat (sub_offset u - i) + ?k) (drop (nat i) hist)"
    proof -
      have "nat (sub_offset u - i) + nat i = ?x" using u by simp
      then have "drop (nat (sub_offset u - i)) (drop (nat i) hist) = drop ?x hist" by simp
      then show ?thesis using read_items_take [of ?ss hist ?x] by (simp add: u(4) take_add)
    qed
    moreover have "nat (int (?x + ?k) - i) = nat (sub_offset u - i) + ?k" using u by linarith
    ultimately show ?thesis
      using assms(3) rd Some u False
      by (auto simp: sub_inv_def subscriber_read_def Let_def split: if_splits)
  qed
qed

lemma step_inv:
  assumes "sub_step (s, u) vs (s', u')" and "stream_inv s hist" and "sub_inv hist u"
  shows "stream_inv s' (hist @ vs) \<and> sub_inv (hist @ vs) u' \<and> (\<forall>i. started u = Some i \<longrightarrow> started u' = Some i)"
  using assms(1)
proof (rule sub_stepE)
  fix i
  assume "Stream_Add s vs = Some (i, s')" and "u' = u"
  with Stream_Add_ok [OF assms(2), of vs] sub_inv_append [OF assms(3), of vs] show ?thesis by auto
next
  fix ok
  assume r: "subscriber_read ok s u = Some u'" and "s' = s" "vs = []"
  have "\<forall>i. started u = Some i \<longrightarrow> started u' = Some i"
    using r by (auto simp: subscriber_read_def Let_def split: option.splits)
  with read_inv [OF assms(2,3) r] assms(2) \<open>s' = s\<close> \<open>vs = []\<close> show ?thesis by simp
qed (use assms in \<open>auto simp: sub_inv_def split: option.splits\<close>)

lemma run_inv:
  assumes "sub_run (s, u) items (s', u')" and "stream_inv s hist" and "sub_inv hist u"
  shows "stream_inv s' (hist @ items) \<and> sub_inv (hist @ items) u' \<and> (\<forall>i. started u = Some i \<longrightarrow> started u' = Some i)"
  using assms(1)
proof (induction "(s, u)" items "(s', u')" arbitrary: s' u' rule: sub_run.induct)
  case sub_run_refl
  then show ?case using assms(2,3) by simp
next
  case (sub_run_step items d vs)
  obtain s1 u1 where d: "d = (s1, u1)" by force
  from sub_run_step.hyps(2) [OF d] have h: "stream_inv s1 (hist @ items)" "sub_inv (hist @ items) u1"
    "\<forall>i. started u = Some i \<longrightarrow> started u1 = Some i" by blast+
  from step_inv [OF sub_run_step.hyps(3) [unfolded d] h(1,2)] h(3) show ?case by simp
qed

text \<open>A stream of one-item segments before and after its first item.\<close>

lemma one_item_stream:
  obtains s0 s1 :: "'v Stream" where "NewStream 1 1 = Some s0" and "cond s0 = \<lparr>ch = 0\<rparr>"
    and "Stream_Add s0 [v] = Some (1, s1)" and "cond s1 = \<lparr>ch = 1\<rparr>" and "segmentOffset s1 * segmentSize s1 = 0"
    and "doRead s0 (-1) = Some ([], 0)" and "doRead s1 0 = Some ([v], 1)"
proof -
  obtain s0 :: "'v Stream" where s0: "NewStream 1 1 = Some s0" "cond s0 = \<lparr>ch = 0\<rparr>"
    by (simp add: NewStream_def signed_divide_int_def NewCond_def)
  note new = NewStream_inv [OF s0(1)]
  obtain s1 where s1: "Stream_Add s0 [v] = Some (1, s1)" "stream_inv s1 [v]" "segmentSize s1 = 1"
    "maxSegments s1 = maxSegments s0" "cond s1 = \<lparr>ch = 1\<rparr>"
    using Stream_Add_ok [of s0 "[]" "[v]"] new s0(2) by (auto simp: Broadcast_def)
  have off: "nat (segmentOffset s1) * nat (segmentSize s1) \<le> 0"
    by (rule retained [OF s1(2)]) (use s1 new in simp)
  have "segmentOffset s1 = 0" using off s1(2,3) by (simp add: stream_inv_def)
  moreover have "doRead s1 0 = Some ([v], 1)"
    using doRead_retained [OF s1(2) off] s1(3) by (simp add: read_items_def)
  ultimately show thesis
    using that [OF s0 s1(1,5)] read_first [OF new(1)] by simp
qed

section \<open>Properties\<close>

text \<open>C21: Publishing never panics, and every reader that is at most \<open>capacity\<close> items behind gets
  exactly the items after its offset: one read returns the rest of the offset's segment and the id
  of its last item, and \<open>ReadAllNonBlocking\<close> terminates with all of them.\<close>

theorem stream_reads:
  assumes "NewStream ss capacity = Some s0" and "0 < ss"
    and "x \<le> length (concat batches)" and "int (length (concat batches)) \<le> int x + capacity"
  shows "\<exists>s. publish_all s0 batches = Some s \<and>
    ReadNonBlocking s (int x) =
      (let items = take (nat ss - x mod nat ss) (drop x (concat batches)) in Some (items, int (x + length items))) \<and>
    ReadAllNonBlocking s (int x) = Some (drop x (concat batches), int (length (concat batches)))"
proof -
  note new = NewStream_inv [OF assms(1,2)]
  from publish_all_ok [OF new(1), of batches] obtain s where s: "publish_all s0 batches = Some s"
    "stream_inv s (concat batches)" "segmentSize s = ss" "maxSegments s = maxSegments s0"
    using new(2) by auto
  have "nat (segmentOffset s) * nat (segmentSize s) \<le> x"
    by (rule retained [OF s(2)]) (use assms(4) new(3) in \<open>simp add: s(3,4)\<close>)
  from doRead_retained [OF s(2) this assms(3)] read_all_retained [OF s(2) this assms(3), of "[]"] s
  show ?thesis
    by (auto simp: ReadNonBlocking_def ReadAllNonBlocking_def read_items_def Let_def)
qed

theorem stream_reads_witness:
  "\<exists>s0 s. NewStream 2 3 = Some s0 \<and> publish_all s0 [[1, 2 :: int], [3, 4, 5]] = Some s \<and>
    ReadAllNonBlocking s 3 = Some ([4, 5], 5)"
proof -
  define s0 :: "int Stream" where
    "s0 = \<lparr>segments = New [], segmentSize = 2, maxSegments = 2, segmentOffset = 0, cond = NewCond\<rparr>"
  have "NewStream 2 3 = Some s0" by (simp add: NewStream_def signed_divide_int_def s0_def)
  from stream_reads [OF this, of 3 "[[1, 2 :: int], [3, 4, 5]]"] this show ?thesis
    by (auto simp: numeral_3_eq_3)
qed

text \<open>C20: A subscriber receives exactly what is published after its first read, in order, without loss and without
  repetition, in every interleaving with the publishers: what the callback has got is always a prefix of the
  items published since then, and it is all of them whenever a read finds nothing new. The one condition is that
  the subscriber was never so far behind that a read found the segment of its offset pruned.\<close>

theorem subscriber_receives:
  assumes "NewStream ss capacity = Some s0" and "0 < ss"
    and "sub_run (s0, NewSubscriber) earlier (s1, NewSubscriber)" and "sub_step (s1, NewSubscriber) [] (s1, u1)"
    and "sub_run (s1, u1) later (s, u)" and "\<not> lagged u"
  shows "\<exists>k\<le>length later. delivered u = take k later \<and> sub_offset u = int (length earlier + k) \<and>
    (\<forall>j. doRead s (sub_offset u) = Some ([], j) \<longrightarrow> delivered u = later)"
proof -
  have "sub_inv [] NewSubscriber" by (simp add: sub_inv_def NewSubscriber_def)
  from run_inv [OF assms(3) NewStream_inv(1) [OF assms(1,2)] this] have 1: "stream_inv s1 earlier" "sub_inv earlier NewSubscriber" by auto
  from step_inv [OF assms(4) 1] have 2: "sub_inv earlier u1" by simp
  have "started u1 = Some (int (length earlier))"
    using assms(4) read_first [OF 1(1)] by (cases rule: sub_stepE) (auto simp: NewSubscriber_def subscriber_read_def Let_def split: if_splits)
  with run_inv [OF assms(5) 1(1) 2] have 3: "stream_inv s (earlier @ later)" "sub_inv (earlier @ later) u" "started u = Some (int (length earlier))"
    by auto
  define k where "k = nat (sub_offset u) - length earlier"
  from 3(2,3) assms(6) have b: "int (length earlier) \<le> sub_offset u" "sub_offset u \<le> int (length (earlier @ later))"
    and d: "delivered u = take (nat (sub_offset u - int (length earlier))) later"
    by (auto simp: sub_inv_def)
  then have k: "sub_offset u = int (length earlier + k)" "k \<le> length later" "nat (sub_offset u - int (length earlier)) = k"
    by (auto simp: k_def)
  have "k = length later" if "doRead s (sub_offset u) = Some ([], j)" for j
    using doRead_empty [OF 3(1), of "length earlier + k" j] that k(1,2) by simp
  then show ?thesis using d k by (intro exI [of _ k]) auto
qed

theorem subscriber_receives_witness:
  "\<exists>s0 s1 u1 s u. NewStream 1 1 = Some s0 \<and> sub_run (s0, NewSubscriber) [5] (s1, NewSubscriber) \<and>
    sub_step (s1, NewSubscriber) [] (s1, u1) \<and> sub_run (s1, u1) [7] (s, u) \<and> delivered u = [7 :: int]"
proof -
  obtain s0 :: "int Stream" where s0: "NewStream 1 1 = Some s0" by (simp add: NewStream_def signed_divide_int_def)
  note new = NewStream_inv [OF s0]
  from Stream_Add_ok [OF new(1), of "[5]"] new obtain i s1 where s1: "Stream_Add s0 [5] = Some (i, s1)" "stream_inv s1 [5]"
    "segmentSize s1 = 1" "1 \<le> maxSegments s1" by auto
  from Stream_Add_ok [OF s1(2), of "[7]"] s1(3,4) obtain j s where s: "Stream_Add s1 [7] = Some (j, s)" "stream_inv s [5, 7]"
    "segmentSize s = 1" "1 \<le> maxSegments s" "cond s = Broadcast (cond s1)" by auto
  have off: "nat (segmentOffset s) * nat (segmentSize s) \<le> 1" by (rule retained [OF s(2)]) (use s in simp)
  have rd: "doRead s 1 = Some ([7], 2)" using doRead_retained [OF s(2) off] s(3) by (simp add: read_items_def)
  define u where "u = (\<lambda>p k d. \<lparr>pc = p, sub_offset = k, started = Some 1, delivered = d :: int list, lagged = False\<rparr>)"
  have r0: "sub_run (s0, NewSubscriber) [5] (s1, NewSubscriber)"
    using sub_run_step [OF sub_run_refl sub_step.publish [OF _ s1(1)]] by simp
  have r1: "sub_step (s1, NewSubscriber) [] (s1, u Unlocked 1 [])"
    by (rule sub_step.read [where callback_ok = True]) (simp_all add: NewSubscriber_def subscriber_read_def read_first [OF s1(2)] u_def)
  have c: "sub_step (s1, u Unlocked 1 []) [] (s1, u (Waiting (ch (cond s1))) 1 [])"
    using sub_step.capture [of "u Unlocked 1 []" s1] by (simp add: u_def wait_capture_def)
  have p: "sub_step (s1, u (Waiting (ch (cond s1))) 1 []) [7] (s, u (Waiting (ch (cond s1))) 1 [])"
    by (rule sub_step.publish [OF _ s(1)]) simp
  have w: "sub_step (s, u (Waiting (ch (cond s1))) 1 []) [] (s, u Reading 1 [])"
    using sub_step.wake [of "u (Waiting (ch (cond s1))) 1 []" "ch (cond s1)" s] by (simp add: u_def wait_signaled_def s(5) Broadcast_def)
  have d: "sub_step (s, u Reading 1 []) [] (s, u Reading 2 [7])"
    by (rule sub_step.read [where callback_ok = True]) (use off s(2,3) in \<open>auto simp: subscriber_read_def u_def rd stream_inv_def\<close>)
  from sub_run_step [OF sub_run_step [OF sub_run_step [OF sub_run_step [OF sub_run_refl c] p] w] d]
  have r2: "sub_run (s1, u Unlocked 1 []) [7] (s, u Reading 2 [7])" by simp
  have "delivered (u Reading 2 [7]) = [7]"
    using subscriber_receives [OF s0 _ r0 r1 r2] by (auto simp: u_def)
  with s0 r0 r1 r2 show ?thesis by blast
qed

text \<open>\<open>ReadBlocking\<close> releases the read lock before \<open>Cond.Wait\<close> takes the channel. A publication in
  between is missed: the subscriber then waits on the new channel although an unread item is
  there, and only another publication or the cancellation of the context moves it.\<close>

lemma ReadBlocking_lost_wakeup:
  "\<exists>s0 s u. NewStream 1 1 = Some s0 \<and> sub_run (s0, NewSubscriber) [7] (s, u) \<and>
     doRead s (sub_offset u) = Some ([7 :: int], 1) \<and>
     (\<forall>vs s' u'. sub_step (s, u) vs (s', u') \<longrightarrow> vs \<noteq> [] \<or> pc u' = Stopped)"
proof -
  obtain s0 s1 :: "int Stream" where s: "NewStream 1 1 = Some s0" "cond s0 = \<lparr>ch = 0\<rparr>"
    "Stream_Add s0 [7] = Some (1, s1)" "cond s1 = \<lparr>ch = 1\<rparr>" "segmentOffset s1 * segmentSize s1 = 0"
    "doRead s0 (-1) = Some ([], 0)" "doRead s1 0 = Some ([7], 1)"
    by (rule one_item_stream)
  define u where "u = \<lparr>pc = Unlocked, sub_offset = 0, started = Some 0, delivered = [] :: int list, lagged = False\<rparr>"
  have "sub_step (s0, NewSubscriber) [] (s0, u)"
    by (rule sub_step.read [where callback_ok = True])
      (simp_all add: NewSubscriber_def subscriber_read_def s u_def)
  moreover have "sub_step (s0, u) [7] (s1, u)"
    by (rule sub_step.publish [OF _ s(3)]) simp
  moreover have "sub_step (s1, u) [] (s1, u\<lparr>pc := Waiting 1\<rparr>)"
    using sub_step.capture [of u s1] by (simp add: wait_capture_def s u_def)
  ultimately have r: "sub_run (s0, NewSubscriber) [7] (s1, u\<lparr>pc := Waiting 1\<rparr>)"
    using sub_run_step [OF sub_run_step [OF sub_run_step [OF sub_run_refl]]] by fastforce
  have "vs \<noteq> [] \<or> pc u' = Stopped"
    if "sub_step (s1, u\<lparr>pc := Waiting 1\<rparr>) vs (s', u')" for vs s' u'
    using that by (cases rule: sub_stepE) (auto simp: wait_signaled_def s)
  with r s show ?thesis
    by (intro exI [of _ s0] exI [of _ s1] exI [of _ "u\<lparr>pc := Waiting 1\<rparr>"]) (simp add: u_def)
qed

end
