(* ===== verification/Go_Strings.thy ===== *)
theory Go_Strings
  imports Gateway_Prelude
begin

text \<open>
  The parts of Go's standard library on strings that the gateway uses: the decimal parsers of
  \<open>strconv\<close> with their two error kinds, \<open>strconv.Itoa\<close>, and the searching and splitting functions
  of \<open>strings\<close>. A Go string is a list of characters, one per byte.
\<close>

section \<open>strconv\<close>

datatype num_error = ErrSyntax | ErrRange

definition digit_val :: "char \<Rightarrow> nat option" where
  "digit_val c = (let n = of_char c :: nat in if 48 \<le> n \<and> n \<le> 57 then Some (n - 48) else None)"

text \<open>The digit loop of \<open>strconv.ParseUint(s, 10, bits)\<close>; \<open>maxv\<close> is \<open>1<<bits - 1\<close>.\<close>

fun uint_loop :: "nat \<Rightarrow> nat \<Rightarrow> string \<Rightarrow> num_error + nat" where
  "uint_loop maxv n [] = Inr n"
| "uint_loop maxv n (c # cs) =
     (case digit_val c of
        None \<Rightarrow> Inl ErrSyntax
      | Some d \<Rightarrow> if maxv < n * 10 + d then Inl ErrRange else uint_loop maxv (n * 10 + d) cs)"

definition ParseUint :: "string \<Rightarrow> nat \<Rightarrow> num_error + nat" where
  "ParseUint s bits = (if s = [] then Inl ErrSyntax else uint_loop (2 ^ bits - 1) 0 s)"

text \<open>\<open>strconv.ParseInt(s, 10, bits)\<close>: an optional sign, then an unsigned number below the cutoff.\<close>

definition ParseInt :: "string \<Rightarrow> nat \<Rightarrow> num_error + int" where
  "ParseInt s bits =
     (if s = [] then Inl ErrSyntax
      else
        let neg = (hd s = CHR ''-'');
            body = (if hd s = CHR ''-'' \<or> hd s = CHR ''+'' then tl s else s)
        in case ParseUint body bits of
             Inl e \<Rightarrow> Inl e
           | Inr un \<Rightarrow>
               if \<not> neg \<and> 2 ^ (bits - 1) \<le> un then Inl ErrRange
               else if neg \<and> 2 ^ (bits - 1) < un then Inl ErrRange
               else Inr (if neg then - int un else int un))"

text \<open>\<open>strconv.Atoi\<close> on a 64-bit platform.\<close>

definition Atoi :: "string \<Rightarrow> num_error + int" where
  "Atoi s = ParseInt s 64"

fun nat_digits :: "nat \<Rightarrow> string" where
  "nat_digits n =
     (if n < 10 then [char_of (48 + n)] else nat_digits (n div 10) @ [char_of (48 + n mod 10)])"

declare nat_digits.simps [simp del]

definition Itoa :: "int \<Rightarrow> string" where
  "Itoa x = (if x < 0 then CHR ''-'' # nat_digits (nat (- x)) else nat_digits (nat x))"

section \<open>strings\<close>

text \<open>The conversion \<open>[]byte(s)\<close>.\<close>

definition str_bytes :: "string \<Rightarrow> bytes" where
  "str_bytes s = map of_char s"

fun HasPrefix :: "'a list \<Rightarrow> 'a list \<Rightarrow> bool" where
  "HasPrefix s [] = True"
| "HasPrefix [] (p # ps) = False"
| "HasPrefix (c # cs) (p # ps) = (c = p \<and> HasPrefix cs ps)"

text \<open>\<open>unicode.IsSpace\<close>: the UTF-8 encodings of the white-space characters. They are valid and self-synchronizing, so that
  \<open>strings.TrimSpace\<close>, which decodes characters from either end, removes exactly these byte sequences.\<close>

definition white_space :: "string list" where
  "white_space = map (map char_of)
     ([[9], [10], [11], [12], [13], [32], [0xC2, 0x85], [0xC2, 0xA0], [0xE1, 0x9A, 0x80]] @
      map (\<lambda>k. [0xE2, 0x80, 0x80 + k]) [0..<11] @
      [[0xE2, 0x80, 0xA8], [0xE2, 0x80, 0xA9], [0xE2, 0x80, 0xAF], [0xE2, 0x81, 0x9F], [0xE3, 0x80, 0x80 :: nat]])"

function trim_left :: "string list \<Rightarrow> string \<Rightarrow> string" where
  "trim_left ps s =
     (case find (\<lambda>p. p \<noteq> [] \<and> HasPrefix s p) ps of
        None \<Rightarrow> s
      | Some p \<Rightarrow> trim_left ps (drop (length p) s))"
  by pat_completeness auto
termination
proof (relation "measure (\<lambda>(ps, s). length s)")
  fix ps s p
  assume "find (\<lambda>p. p \<noteq> [] \<and> HasPrefix s p) ps = Some p"
  then have "p \<noteq> []" "HasPrefix s p" by (auto simp: find_Some_iff)
  then show "((ps, drop (length p) s), ps, s) \<in> measure (\<lambda>(ps, s). length s)" by (cases p; cases s) auto
qed simp

declare trim_left.simps [simp del]

definition TrimSpace :: "string \<Rightarrow> string" where
  "TrimSpace s = rev (trim_left (map rev white_space) (rev (trim_left white_space s)))"

definition TrimPrefix :: "'a list \<Rightarrow> 'a list \<Rightarrow> 'a list" where
  "TrimPrefix s p = (if HasPrefix s p then drop (length p) s else s)"

fun Contains :: "string \<Rightarrow> string \<Rightarrow> bool" where
  "Contains [] p = (p = [])"
| "Contains (c # cs) p = (HasPrefix (c # cs) p \<or> Contains cs p)"

text \<open>\<open>strings.Cut(s, sep)\<close> for a one-byte separator: the text before and after the first one.\<close>

fun Cut :: "string \<Rightarrow> char \<Rightarrow> string \<times> string \<times> bool" where
  "Cut [] sep = ([], [], False)"
| "Cut (c # cs) sep =
     (if c = sep then ([], cs, True)
      else case Cut cs sep of (b, a, ok) \<Rightarrow> if ok then (c # b, a, True) else (c # cs, [], False))"

fun Split :: "string \<Rightarrow> char \<Rightarrow> string list" where
  "Split [] sep = [[]]"
| "Split (c # cs) sep =
     (if c = sep then [] # Split cs sep
      else case Split cs sep of p # ps \<Rightarrow> (c # p) # ps | [] \<Rightarrow> [[c]])"

section \<open>Lemmas\<close>

lemma uint_loop_bound: "n \<le> maxv \<Longrightarrow> uint_loop maxv n s = Inr m \<Longrightarrow> m \<le> maxv"
  by (induction maxv n s rule: uint_loop.induct) (auto split: option.splits if_splits)

lemma uint_loop_digits:
  "uint_loop maxv n s = Inr m \<Longrightarrow> c \<in> set s \<Longrightarrow> digit_val c \<noteq> None"
  by (induction maxv n s rule: uint_loop.induct) (auto split: option.splits if_splits)

lemma ParseUint_bound: "ParseUint s bits = Inr m \<Longrightarrow> m < 2 ^ bits"
proof -
  assume "ParseUint s bits = Inr m"
  then have "m \<le> 2 ^ bits - 1"
    using uint_loop_bound [of 0 "2 ^ bits - 1" s m] by (simp add: ParseUint_def split: if_splits)
  moreover have "(0 :: nat) < 2 ^ bits" by simp
  ultimately show ?thesis by linarith
qed

lemma ParseInt_64_range: "ParseInt s 64 = Inr x \<Longrightarrow> is_i64 x"
  by (auto simp: ParseInt_def Let_def is_i64_def minInt64_def maxInt64_def
      split: if_splits sum.splits)

text \<open>A text that begins and ends with a visible ASCII character is not trimmed.\<close>

definition visible_ascii :: "char \<Rightarrow> bool" where
  "visible_ascii c \<longleftrightarrow> 33 \<le> (of_char c :: nat) \<and> (of_char c :: nat) < 128"

lemma HasPrefix_hd: "HasPrefix s p \<Longrightarrow> p \<noteq> [] \<Longrightarrow> s \<noteq> [] \<and> hd s = hd p"
  by (cases s; cases p) auto

lemma white_space_ends: "p \<in> set white_space \<Longrightarrow> \<not> visible_ascii (hd p) \<and> \<not> visible_ascii (last p)"
  by (auto simp: white_space_def visible_ascii_def of_char_of)

lemma trim_left_id:
  assumes "s \<noteq> []" and "visible_ascii (hd s)" and "\<forall>p\<in>set ps. \<not> visible_ascii (hd p)"
  shows "trim_left ps s = s"
proof -
  have "\<not> (p \<noteq> [] \<and> HasPrefix s p)" if "p \<in> set ps" for p using HasPrefix_hd [of s p] assms that by auto
  then have "find (\<lambda>p. p \<noteq> [] \<and> HasPrefix s p) ps = None" by (simp add: find_None_iff)
  then show ?thesis by (subst trim_left.simps) simp
qed

lemma TrimSpace_visible:
  assumes "s \<noteq> []" and "visible_ascii (hd s)" and "visible_ascii (last s)"
  shows "TrimSpace s = s"
proof -
  have "p \<noteq> []" if "p \<in> set white_space" for p using that by (auto simp: white_space_def)
  then have "\<forall>p\<in>set (map rev white_space). \<not> visible_ascii (hd p)" using white_space_ends by (auto simp: hd_rev)
  then show ?thesis
    using assms white_space_ends trim_left_id [of s white_space] trim_left_id [of "rev s" "map rev white_space"]
    by (simp add: TrimSpace_def hd_rev)
qed

text \<open>The parser accepts the digit strings whose value is in range, and returns the value.\<close>

definition all_digits :: "string \<Rightarrow> bool" where
  "all_digits s \<longleftrightarrow> (\<forall>c\<in>set s. digit_val c \<noteq> None)"

definition decimal_from :: "nat \<Rightarrow> string \<Rightarrow> nat" where
  "decimal_from n s = foldl (\<lambda>n c. n * 10 + the (digit_val c)) n s"

lemma decimal_from_ge: "n \<le> decimal_from n s"
proof (induction s arbitrary: n)
  case (Cons c s)
  have "n \<le> n * 10 + the (digit_val c)" by simp
  also have "\<dots> \<le> decimal_from (n * 10 + the (digit_val c)) s" by (rule Cons.IH)
  finally show ?case by (simp add: decimal_from_def)
qed (simp add: decimal_from_def)

lemma uint_loop_iff: "n \<le> maxv \<Longrightarrow> uint_loop maxv n s = Inr m \<longleftrightarrow> all_digits s \<and> m = decimal_from n s \<and> m \<le> maxv"
proof (induction s arbitrary: n)
  case (Cons c s)
  show ?case
  proof (cases "digit_val c")
    case (Some d)
    have "maxv < n * 10 + d \<Longrightarrow> maxv < decimal_from (n * 10 + d) s" using decimal_from_ge [of "n * 10 + d" s] by linarith
    then show ?thesis using Some Cons.IH [of "n * 10 + d"] by (auto simp: all_digits_def decimal_from_def)
  qed (simp add: all_digits_def)
qed (auto simp: all_digits_def decimal_from_def)

lemma digit_val_digit: "d < 10 \<Longrightarrow> digit_val (char_of (48 + d)) = Some d"
  by (simp add: digit_val_def of_char_of)

lemma nat_digits_nonempty [simp]: "nat_digits n \<noteq> []"
  by (subst nat_digits.simps) simp

lemma uint_loop_append:
  "uint_loop maxv n (s @ t) = bindR (uint_loop maxv n s) (\<lambda>m. uint_loop maxv m t)"
  by (induction maxv n s rule: uint_loop.induct) (auto split: option.splits)

text \<open>Printing then parsing a number in range gives it back.\<close>

lemma uint_loop_nat_digits: "n \<le> maxv \<Longrightarrow> uint_loop maxv 0 (nat_digits n) = Inr n"
proof (induction n rule: nat_digits.induct)
  case (1 n)
  show ?case
  proof (cases "n < 10")
    case True
    with 1 show ?thesis by (subst nat_digits.simps) (simp add: digit_val_digit)
  next
    case False
    then have "uint_loop maxv 0 (nat_digits (n div 10)) = Inr (n div 10)"
      using 1 by simp
    with False 1 show ?thesis
      by (subst nat_digits.simps) (simp add: uint_loop_append digit_val_digit)
  qed
qed

lemma digit_val_sign: "digit_val (CHR ''-'') = None" "digit_val (CHR ''+'') = None"
  by (simp_all add: digit_val_def)

lemma hd_nat_digits: "hd (nat_digits n) \<noteq> CHR ''-'' \<and> hd (nat_digits n) \<noteq> CHR ''+''"
proof (induction n rule: nat_digits.induct)
  case (1 n)
  have "char_of (48 + d) \<noteq> CHR ''-'' \<and> char_of (48 + d) \<noteq> CHR ''+''" if "d < 10" for d :: nat
    using that digit_val_digit [of d]
    by (metis digit_val_def option.distinct(1) digit_val_sign)
  with 1 show ?case by (subst (1 2) nat_digits.simps) auto
qed

lemma ParseInt_Itoa: "is_i64 x \<Longrightarrow> ParseInt (Itoa x) 64 = Inr x"
proof -
  assume x: "is_i64 x"
  have n: "nat \<bar>x\<bar> \<le> 2 ^ 64 - 1"
    using x by (simp add: is_i64_def minInt64_def maxInt64_def nat_le_iff abs_le_iff)
  show ?thesis
  proof (cases "x < 0")
    case True
    have "nat (- x) \<le> 9223372036854775808"
      using x by (simp add: is_i64_def minInt64_def nat_le_iff)
    with True n x uint_loop_nat_digits [of "nat (- x)" "2 ^ 64 - 1"] show ?thesis
      by (simp add: Itoa_def ParseInt_def ParseUint_def Let_def is_i64_def minInt64_def)
  next
    case False
    have "nat x \<le> nat 9223372036854775807"
      using x by (intro nat_mono) (simp add: is_i64_def maxInt64_def)
    then have "nat x < 9223372036854775808" by simp
    with False n x uint_loop_nat_digits [of "nat x" "2 ^ 64 - 1"] hd_nat_digits [of "nat x"] show ?thesis
      by (simp add: Itoa_def ParseInt_def ParseUint_def Let_def is_i64_def maxInt64_def)
  qed
qed

lemma Itoa_digits: "0 \<le> x \<Longrightarrow> c \<in> set (Itoa x) \<Longrightarrow> digit_val c \<noteq> None"
  using uint_loop_digits [OF uint_loop_nat_digits [OF order_refl]] by (simp add: Itoa_def)

lemma Itoa_nonempty [simp]: "Itoa x \<noteq> []"
  by (simp add: Itoa_def)

lemma HasPrefix_iff: "HasPrefix s p \<longleftrightarrow> (\<exists>t. s = p @ t)"
  by (induction s p rule: HasPrefix.induct) auto

lemma HasPrefix_append [simp]: "HasPrefix (p @ t) p"
  by (auto simp: HasPrefix_iff)

lemma TrimPrefix_append [simp]: "TrimPrefix (p @ t) p = t"
  by (simp add: TrimPrefix_def)

lemma Contains_iff: "Contains s p \<longleftrightarrow> (\<exists>a b. s = a @ p @ b)"
proof (induction s)
  case Nil
  then show ?case by auto
next
  case IH: (Cons c cs)
  show ?case
  proof
    assume "Contains (c # cs) p"
    with IH show "\<exists>a b. c # cs = a @ p @ b"
      by (auto simp: HasPrefix_iff intro: exI [of _ "[]"]) (metis append_Cons)
  next
    assume "\<exists>a b. c # cs = a @ p @ b"
    then obtain a b where ab: "c # cs = a @ p @ b" by blast
    then show "Contains (c # cs) p"
    proof (cases a)
      case Nil
      with ab have "HasPrefix (c # cs) p" by simp
      then show ?thesis by simp
    next
      case (Cons d a')
      with ab have "cs = a' @ p @ b" by simp
      then show ?thesis using IH.IH by auto
    qed
  qed
qed

lemma Cut_notin: "sep \<notin> set s \<Longrightarrow> Cut s sep = (s, [], False)"
  by (induction s sep rule: Cut.induct) auto

lemma Cut_append [simp]: "sep \<notin> set a \<Longrightarrow> Cut (a @ sep # b) sep = (a, b, True)"
  by (induction a) auto

lemma of_char_byte_inj: "(of_char c :: byte) = of_char d \<longleftrightarrow> c = d"
proof -
  have u: "unat (of_char c :: byte) = of_char c" for c
    using nat_of_char_less_256 [of c] unat_of_nat [where ?'a = 8, of "of_char c"] by (simp add: of_nat_of_char)
  show ?thesis using u [of c] u [of d] of_char_eq_iff [where ?'a = nat, of c d] by metis
qed

lemma str_bytes_inj [simp]: "str_bytes s = str_bytes t \<longleftrightarrow> s = t"
  by (simp add: str_bytes_def inj_map_eq_map inj_def of_char_byte_inj)

lemma str_bytes_append [simp]: "str_bytes (s @ t) = str_bytes s @ str_bytes t"
  by (simp add: str_bytes_def)

lemma length_str_bytes [simp]: "length (str_bytes s) = length s"
  by (simp add: str_bytes_def)

end
