(* ===== verification/Block_Fetch.thy ===== *)
theory Block_Fetch
  imports Go_Strings
begin

text \<open>
  Fetching one block in \<open>internal/blocksync/syncer.go\<close>: the classification of node errors by the
  text of the message, the retry loop \<open>fetchWithRetry\<close>, and \<open>fetchBlockByNum\<close>, which joins
  the three concurrent requests. What the node answers, and when the context is cancelled, is an
  input of the definitions.
\<close>

section \<open>Definitions\<close>

definition retryAttempts :: int where
  "retryAttempts = 10"

definition NotFoundErr :: string where
  "NotFoundErr = ''is not available''"

subsection \<open>Messages of the node\<close>

text \<open>Regular expressions of the source are literals with \<open>\d+\<close> in between; \<open>\d+\<close> is greedy, and
  the literal after it does not start with a digit, so that matching is deterministic. The regexps
  are not anchored: the leftmost position where the pattern matches counts.\<close>

definition is_digit :: "char \<Rightarrow> bool" where
  "is_digit c \<longleftrightarrow> digit_val c \<noteq> None"

definition match_lit :: "string \<Rightarrow> string \<Rightarrow> string option" where
  "match_lit p s = (if HasPrefix s p then Some (drop (length p) s) else None)"

definition match_digits :: "string \<Rightarrow> (string \<times> string) option" where
  "match_digits s =
     (case takeWhile is_digit s of [] \<Rightarrow> None | ds \<Rightarrow> Some (ds, dropWhile is_digit s))"

definition ahead_at :: "string \<Rightarrow> bool" where
  "ahead_at s =
     (case Option.bind (match_lit ''height '' s) match_digits of
        None \<Rightarrow> False
      | Some (_, s1) \<Rightarrow>
          (case Option.bind (match_lit '' must be less than or equal to the current blockchain height '' s1) match_digits of
             None \<Rightarrow> False
           | Some _ \<Rightarrow> True))"

fun aheadOfHeadHeightRE :: "string \<Rightarrow> bool" where
  "aheadOfHeadHeightRE [] = ahead_at []"
| "aheadOfHeadHeightRE (c # cs) = (ahead_at (c # cs) \<or> aheadOfHeadHeightRE cs)"

fun lowestAvailableHeightRE :: "string \<Rightarrow> string option" where
  "lowestAvailableHeightRE [] = None"
| "lowestAvailableHeightRE (c # cs) =
     (case Option.bind (match_lit ''lowest height is '' (c # cs)) match_digits of
        Some (ds, _) \<Rightarrow> Some ds
      | None \<Rightarrow> lowestAvailableHeightRE cs)"

text \<open>Errors: the sentinel \<open>ErrBlockUnavailable\<close>, the error of a finished context, or an error of
  the node with its message.\<close>

datatype fetch_error = ErrBlockUnavailable | CtxErr | NodeErr string

fun err_text :: "fetch_error \<Rightarrow> string" where
  "err_text ErrBlockUnavailable = ''block not available''"
| "err_text CtxErr = ''context canceled''"
| "err_text (NodeErr m) = m"

definition isNotFound :: "fetch_error \<Rightarrow> bool" where
  "isNotFound e \<longleftrightarrow> Contains (err_text e) NotFoundErr"

definition isAheadOfChainHead :: "fetch_error \<Rightarrow> bool" where
  "isAheadOfChainHead e \<longleftrightarrow> aheadOfHeadHeightRE (err_text e)"

definition LowestAvailableHeight :: "string option \<Rightarrow> int \<times> bool" where
  "LowestAvailableHeight err =
     (case err of
        None \<Rightarrow> (0, False)
      | Some msg \<Rightarrow>
          (case lowestAvailableHeightRE msg of
             None \<Rightarrow> (0, False)
           | Some ds \<Rightarrow>
               (case ParseInt ds 64 of
                  Inl _ \<Rightarrow> (0, False)
                | Inr height \<Rightarrow> if height \<le> 0 then (0, False) else (height, True))))"

subsection \<open>The retry loop\<close>

text \<open>What one iteration of the loop meets: a finished context at its start, the answer of the
  request, and a context that finishes during the delay after a failure. A list of these is one
  course of events; \<open>None\<close> means that the course ends before the loop does.\<close>

record 'v attempt =
  ctx_done :: bool
  answer :: "fetch_error + 'v"
  done_in_delay :: bool

fun retry_loop :: "bool \<Rightarrow> int \<Rightarrow> 'v attempt list \<Rightarrow> (fetch_error + 'v) option" where
  "retry_loop allowGaps att [] = None"
| "retry_loop allowGaps att (a # as) =
     (if ctx_done a then Some (Inl CtxErr)
      else case answer a of
        Inr v \<Rightarrow> Some (Inr v)
      | Inl err \<Rightarrow>
          if isAheadOfChainHead err then
            (if done_in_delay a then Some (Inl CtxErr) else retry_loop allowGaps att as)
          else if allowGaps \<and> isNotFound err then Some (Inl ErrBlockUnavailable)
          else if att = retryAttempts - 1 then Some (Inl err)
          else if done_in_delay a then Some (Inl CtxErr)
          else retry_loop allowGaps (att + 1) as)"

definition fetchWithRetry :: "bool \<Rightarrow> 'v attempt list \<Rightarrow> (fetch_error + 'v) option" where
  "fetchWithRetry allowGaps as = retry_loop allowGaps 0 as"

subsection \<open>Joining the requests\<close>

record ('blk, 'res, 'val) NewBlockData =
  Height :: int
  Block :: "'blk option"
  BlockResults :: "'res option"
  ActiveSet :: "'val list"
  Skipped :: bool

text \<open>\<open>fetchBlockByNum\<close> waits for the three requests (the validators only when asked for) and then
  looks at the error channel: with errors it returns the one that arrived first, which may be any
  of them. The result is a list of the values that can be returned.\<close>

definition errors_of :: "(fetch_error + 'v) \<Rightarrow> fetch_error list" where
  "errors_of r = (case r of Inl e \<Rightarrow> [e] | Inr _ \<Rightarrow> [])"

definition fetchBlockByNum ::
  "bool \<Rightarrow> int \<Rightarrow> fetch_error + 'blk \<Rightarrow> fetch_error + 'res \<Rightarrow> fetch_error + 'val list
    \<Rightarrow> (fetch_error + ('blk, 'res, 'val) NewBlockData) list" where
  "fetchBlockByNum fetchValidators height rb rr rv =
     (let errC = errors_of rb @ errors_of rr @ (if fetchValidators then errors_of rv else [])
      in if errC \<noteq> [] then map Inl errC
         else [Inr \<lparr>Height = i64 height,
                    Block = (case rb of Inr b \<Rightarrow> Some b | Inl _ \<Rightarrow> None),
                    BlockResults = (case rr of Inr r \<Rightarrow> Some r | Inl _ \<Rightarrow> None),
                    ActiveSet = (if fetchValidators then (case rv of Inr v \<Rightarrow> v | Inl _ \<Rightarrow> []) else []),
                    Skipped = False\<rparr>])"

text \<open>What a job does with the result: leave, mark the height as skipped, or try again.\<close>

datatype ('blk, 'res, 'val) job_action =
    LeaveJob
  | DeliverBlock "('blk, 'res, 'val) NewBlockData"
  | FetchAgain

definition after_fetch ::
  "bool \<Rightarrow> bool \<Rightarrow> int \<Rightarrow> fetch_error + ('blk, 'res, 'val) NewBlockData \<Rightarrow> ('blk, 'res, 'val) job_action" where
  "after_fetch allowGaps isDone height r =
     (case r of
        Inr b \<Rightarrow> DeliverBlock b
      | Inl err \<Rightarrow>
          if err = CtxErr \<or> isDone then LeaveJob
          else if err = ErrBlockUnavailable \<and> allowGaps then
            DeliverBlock \<lparr>Height = i64 height, Block = None, BlockResults = None, ActiveSet = [], Skipped = True\<rparr>
          else FetchAgain)"

section \<open>Lemmas\<close>

text \<open>The outcome of the retry loop without cancellation, written on the answers alone: answers
  of a node that is behind the height do not count; then the first success, the first missing
  block when gaps are allowed, or the tenth failure.\<close>

fun counted :: "'v attempt list \<Rightarrow> (fetch_error + 'v) list" where
  "counted [] = []"
| "counted (a # as) =
     (case answer a of
        Inl err \<Rightarrow> if isAheadOfChainHead err then counted as else answer a # counted as
      | Inr _ \<Rightarrow> answer a # counted as)"

definition final_answer :: "bool \<Rightarrow> fetch_error + 'v \<Rightarrow> bool" where
  "final_answer allowGaps r = (case r of Inr _ \<Rightarrow> True | Inl e \<Rightarrow> allowGaps \<and> isNotFound e)"

definition report :: "bool \<Rightarrow> fetch_error + 'v \<Rightarrow> fetch_error + 'v" where
  "report allowGaps r =
     (case r of Inr v \<Rightarrow> Inr v | Inl e \<Rightarrow> if allowGaps \<and> isNotFound e then Inl ErrBlockUnavailable else Inl e)"

definition retry_spec :: "bool \<Rightarrow> nat \<Rightarrow> (fetch_error + 'v) list \<Rightarrow> (fetch_error + 'v) option" where
  "retry_spec allowGaps n rs =
     (case dropWhile (\<lambda>r. \<not> final_answer allowGaps r) (take n rs) of
        r # _ \<Rightarrow> Some (report allowGaps r)
      | [] \<Rightarrow> if n \<le> length rs then Some (report allowGaps (rs ! (n - 1))) else None)"

lemma retry_loop_spec:
  assumes "\<forall>a\<in>set as. \<not> ctx_done a \<and> \<not> done_in_delay a" and "0 \<le> att" and "att < retryAttempts"
  shows "retry_loop allowGaps att as = retry_spec allowGaps (nat (retryAttempts - att)) (counted as)"
  using assms
proof (induction as arbitrary: att)
  case Nil
  then show ?case by (simp add: retry_spec_def retryAttempts_def)
next
  case (Cons a as)
  define m where "m = nat (retryAttempts - att) - 1"
  have m: "nat (retryAttempts - att) = Suc m" using Cons.prems by (simp add: m_def)
  show ?case
  proof (cases "answer a")
    case (Inr v)
    then show ?thesis using Cons.prems m by (simp add: retry_spec_def final_answer_def report_def)
  next
    case (Inl err)
    consider (ahead) "isAheadOfChainHead err" | (missing) "\<not> isAheadOfChainHead err" "allowGaps \<and> isNotFound err"
      | (last) "\<not> isAheadOfChainHead err" "\<not> (allowGaps \<and> isNotFound err)" "m = 0"
      | (more) "\<not> isAheadOfChainHead err" "\<not> (allowGaps \<and> isNotFound err)" "m \<noteq> 0" by blast
    then show ?thesis
    proof cases
      case ahead
      then show ?thesis using Cons Inl by simp
    next
      case missing
      then show ?thesis using Cons.prems Inl m by (simp add: retry_spec_def final_answer_def report_def)
    next
      case last
      then have "att = retryAttempts - 1" using m by (simp add: retryAttempts_def)
      with last show ?thesis
        using Cons.prems Inl by (auto simp: retry_spec_def final_answer_def report_def retryAttempts_def)
    next
      case more
      then have att: "att \<noteq> retryAttempts - 1" "att + 1 < retryAttempts" "nat (retryAttempts - (att + 1)) = m"
        using m Cons.prems by linarith+
      then have "retry_loop allowGaps (att + 1) as = retry_spec allowGaps m (counted as)"
        using Cons by simp
      moreover have "retry_spec allowGaps (Suc m) (Inl err # counted as) = retry_spec allowGaps m (counted as)"
        using more by (cases m) (simp_all add: retry_spec_def final_answer_def cong: list.case_cong)
      ultimately show ?thesis using more att(1) Cons.prems Inl m by auto
    qed
  qed
qed

text \<open>The height a pruned node names in its message is read back.\<close>

lemma LowestAvailableHeight_reads:
  assumes "0 < h" and "h \<le> maxInt64" and "\<not> is_digit c"
  shows "LowestAvailableHeight (Some (''height 1 is not available, lowest height is '' @ Itoa h @ c # rest)) = (h, True)"
proof -
  have d: "takeWhile is_digit (Itoa h @ c # rest) = Itoa h" and ne: "Itoa h \<noteq> []"
    using assms Itoa_digits [of h] by (auto simp: takeWhile_append1 takeWhile_append2 is_digit_def)
  have "lowestAvailableHeightRE (''height 1 is not available, lowest height is '' @ Itoa h @ c # rest) = Some (Itoa h)"
    using d ne by (simp add: match_lit_def match_digits_def split: list.splits)
  moreover have "ParseInt (Itoa h) 64 = Inr h"
    using assms by (intro ParseInt_Itoa) (simp add: is_i64_def minInt64_def)
  ultimately show ?thesis using assms(1) by (simp add: LowestAvailableHeight_def)
qed

section \<open>Properties\<close>

text \<open>C15: Without cancellation the retry loop answers as documented: it waits as long as the node
  is behind the height without using up an attempt, returns the first success among ten answers, a
  missing block at once when gaps are allowed, and otherwise the tenth error; ten counted answers
  are always enough for it to return.\<close>

theorem fetchWithRetry_outcome:
  assumes "\<forall>a\<in>set as. \<not> ctx_done a \<and> \<not> done_in_delay a"
  shows "fetchWithRetry allowGaps as = retry_spec allowGaps 10 (counted as) \<and>
    (10 \<le> length (counted as) \<longrightarrow> fetchWithRetry allowGaps as \<noteq> None)"
proof -
  have "fetchWithRetry allowGaps as = retry_spec allowGaps 10 (counted as)"
    using retry_loop_spec [OF assms, of 0 allowGaps] by (simp add: fetchWithRetry_def retryAttempts_def)
  moreover have "10 \<le> length rs \<Longrightarrow> retry_spec allowGaps 10 rs \<noteq> None" for rs :: "(fetch_error + 'a) list"
    by (simp add: retry_spec_def split: list.splits)
  ultimately show ?thesis by metis
qed

definition example_attempts :: "int attempt list" where
  "example_attempts =
     [\<lparr>ctx_done = False, answer = Inl (NodeErr ''height 7 must be less than or equal to the current blockchain height 6''), done_in_delay = False\<rparr>,
      \<lparr>ctx_done = False, answer = Inl (NodeErr ''timeout''), done_in_delay = False\<rparr>,
      \<lparr>ctx_done = False, answer = Inr 7, done_in_delay = False\<rparr>]"

theorem fetchWithRetry_outcome_witness:
  "fetchWithRetry True example_attempts = Some (Inr 7) \<and> counted example_attempts = [Inl (NodeErr ''timeout''), Inr 7]"
proof -
  have a: "isAheadOfChainHead (NodeErr ''height 7 must be less than or equal to the current blockchain height 6'')"
    "\<not> isAheadOfChainHead (NodeErr ''timeout'')" "\<not> isNotFound (NodeErr ''timeout'')"
    by (simp_all add: isAheadOfChainHead_def isNotFound_def NotFoundErr_def ahead_at_def match_lit_def
        match_digits_def is_digit_def digit_val_def)
  have c: "counted example_attempts = [Inl (NodeErr ''timeout''), Inr 7]"
    using a by (simp add: example_attempts_def)
  have "\<forall>a\<in>set example_attempts. \<not> ctx_done a \<and> \<not> done_in_delay a"
    by (simp add: example_attempts_def)
  from fetchWithRetry_outcome [OF this, of True] c a show ?thesis
    by (simp add: retry_spec_def final_answer_def report_def)
qed

end
