(* ===== verification/Block_Getter.thy ===== *)
theory Block_Getter
  imports Block_Fetch "HOL-Library.AList"
begin

text \<open>
  The concurrent block getter of \<open>internal/blocksync/syncer.go\<close> and its consumers \<open>SyncRange\<close>
  and \<open>SyncForward\<close>. Jobs take heights from a shared counter, fetch blocks and put them into a
  map; the announcer moves them to a channel in height order; the consumer takes them from the
  channel. Every goroutine is a program counter, every lock-protected section one step, and the
  steps interleave freely. What the node answers is chosen by the step.
\<close>

section \<open>Definitions\<close>

datatype BlockGetterDirection = Forward | Backward | OtherDirection string

datatype ('blk, 'res, 'val) ann_pc =
    AnnTop int
  | AnnLookup int
  | AnnWaiting int
  | AnnSend int "('blk, 'res, 'val) NewBlockData"
  | AnnExit

datatype ('blk, 'res, 'val) job_pc =
    JobNext
  | JobTop int
  | JobFetching int
  | JobStore int "('blk, 'res, 'val) NewBlockData"
  | JobThrottled
  | JobExit

text \<open>\<open>newBlocksMap\<close> is an association list without duplicate keys; \<open>newBlocksC\<close> is the content of
  the channel. \<open>closing\<close> is the progress of \<open>Close\<close>. \<open>sent\<close> and \<open>assigned\<close> are ghosts: all blocks
  ever put on the channel, and the number of heights handed to jobs.\<close>

record ('blk, 'res, 'val) blockGetter =
  direction :: BlockGetterDirection
  allowGaps :: bool
  fetchValidators :: bool
  height :: int
  newBlocksC :: "('blk, 'res, 'val) NewBlockData list"
  newBlocksC_closed :: bool
  newBlocksMap :: "(int \<times> ('blk, 'res, 'val) NewBlockData) list"
  ctxDone :: bool
  closeC :: bool
  closing :: bool
  announcer :: "('blk, 'res, 'val) ann_pc"
  jobs :: "('blk, 'res, 'val) job_pc list"
  sent :: "('blk, 'res, 'val) NewBlockData list"
  assigned :: nat

text \<open>\<open>announceBlocks\<close> starts one below the initial height in the backward direction.\<close>

definition newBlockGetter ::
  "int \<Rightarrow> nat \<Rightarrow> BlockGetterDirection \<Rightarrow> bool \<Rightarrow> bool \<Rightarrow> ('blk, 'res, 'val) blockGetter" where
  "newBlockGetter initHeight parallelJobs dir gaps vals =
     \<lparr>direction = dir, allowGaps = gaps, fetchValidators = vals, height = initHeight,
      newBlocksC = [], newBlocksC_closed = False, newBlocksMap = [], ctxDone = False, closeC = False,
      closing = False,
      announcer = AnnTop (if dir = Backward then u64 (initHeight - 1) else initHeight),
      jobs = replicate parallelJobs JobNext, sent = [], assigned = 0\<rparr>"

definition isDone :: "('blk, 'res, 'val) blockGetter \<Rightarrow> bool" where
  "isDone b \<longleftrightarrow> closeC b \<or> ctxDone b"

text \<open>\<open>jobCond.Signal\<close> wakes the announcer, the only goroutine that waits.\<close>

definition cond_signal :: "('blk, 'res, 'val) blockGetter \<Rightarrow> ('blk, 'res, 'val) blockGetter" where
  "cond_signal b = (case announcer b of AnnWaiting h \<Rightarrow> b\<lparr>announcer := AnnLookup h\<rparr> | _ \<Rightarrow> b)"

subsection \<open>The jobs\<close>

definition getHeightToFetch :: "('blk, 'res, 'val) blockGetter \<Rightarrow> int \<times> ('blk, 'res, 'val) blockGetter" where
  "getHeightToFetch b =
     (height b,
      b\<lparr>height := (case direction b of
                     Forward \<Rightarrow> u64 (height b + 1)
                   | Backward \<Rightarrow> u64 (height b - 1)
                   | OtherDirection _ \<Rightarrow> height b),
        assigned := Suc (assigned b)\<rparr>)"

definition set_job :: "nat \<Rightarrow> ('blk, 'res, 'val) job_pc \<Rightarrow> ('blk, 'res, 'val) blockGetter \<Rightarrow> ('blk, 'res, 'val) blockGetter" where
  "set_job i p b = b\<lparr>jobs := (jobs b)[i := p]\<rparr>"

definition tooFarFromHead :: "('blk, 'res, 'val) blockGetter \<Rightarrow> bool" where
  "tooFarFromHead b \<longleftrightarrow> length (newBlocksMap b) > 1024 * length (jobs b)"

text \<open>One step of job \<open>i\<close>, with \<open>r\<close> the result of \<open>fetchBlockByNum\<close> where the step uses one.\<close>

definition job_step ::
  "nat \<Rightarrow> fetch_error + ('blk, 'res, 'val) NewBlockData \<Rightarrow> ('blk, 'res, 'val) blockGetter \<Rightarrow> ('blk, 'res, 'val) blockGetter" where
  "job_step i r b =
     (case jobs b ! i of
        JobNext \<Rightarrow> (case getHeightToFetch b of (h, b') \<Rightarrow> set_job i (JobTop h) b')
      | JobTop h \<Rightarrow> if isDone b then set_job i JobExit b else set_job i (JobFetching h) b
      | JobFetching h \<Rightarrow>
          (case after_fetch (allowGaps b) (isDone b) h r of
             LeaveJob \<Rightarrow> set_job i JobExit b
           | DeliverBlock d \<Rightarrow> set_job i (JobStore h d) b
           | FetchAgain \<Rightarrow> set_job i (JobTop h) b)
      | JobStore h d \<Rightarrow>
          let b' = cond_signal (b\<lparr>newBlocksMap := AList.update h d (newBlocksMap b)\<rparr>)
          in set_job i (if tooFarFromHead b' then JobThrottled else JobNext) b'
      | JobThrottled \<Rightarrow> if tooFarFromHead b then b else set_job i JobNext b
      | JobExit \<Rightarrow> b)"

subsection \<open>The announcer\<close>

definition ann_exit :: "('blk, 'res, 'val) blockGetter \<Rightarrow> ('blk, 'res, 'val) blockGetter" where
  "ann_exit b = b\<lparr>newBlocksC_closed := True, announcer := AnnExit\<rparr>"

text \<open>After a send: forward continues with the next height, backward stops at 0, and an unknown
  direction stops.\<close>

definition ann_after_send :: "int \<Rightarrow> ('blk, 'res, 'val) blockGetter \<Rightarrow> ('blk, 'res, 'val) blockGetter" where
  "ann_after_send h b =
     (case direction b of
        Forward \<Rightarrow> b\<lparr>announcer := AnnTop (u64 (h + 1))\<rparr>
      | Backward \<Rightarrow> if u64 (h - 1) = 0 then ann_exit b else b\<lparr>announcer := AnnTop (u64 (h - 1))\<rparr>
      | OtherDirection _ \<Rightarrow> ann_exit b)"

text \<open>A step of the announcer; a send blocks while the channel is full.\<close>

definition announce_step :: "('blk, 'res, 'val) blockGetter \<Rightarrow> ('blk, 'res, 'val) blockGetter" where
  "announce_step b =
     (case announcer b of
        AnnTop h \<Rightarrow> if isDone b then ann_exit b else b\<lparr>announcer := AnnLookup h\<rparr>
      | AnnLookup h \<Rightarrow>
          (case map_of (newBlocksMap b) h of
             Some ev \<Rightarrow> b\<lparr>newBlocksMap := AList.delete h (newBlocksMap b), announcer := AnnSend h ev\<rparr>
           | None \<Rightarrow> if isDone b then ann_exit b else b\<lparr>announcer := AnnWaiting h\<rparr>)
      | AnnWaiting h \<Rightarrow> b
      | AnnSend h ev \<Rightarrow>
          if length (newBlocksC b) < 100 * length (jobs b) then
            ann_after_send h (b\<lparr>newBlocksC := newBlocksC b @ [ev], sent := sent b @ [ev]\<rparr>)
          else b
      | AnnExit \<Rightarrow> b)"

text \<open>\<open>Close\<close> signals first and closes \<open>closeC\<close> afterwards.\<close>

definition close_step :: "('blk, 'res, 'val) blockGetter \<Rightarrow> ('blk, 'res, 'val) blockGetter" where
  "close_step b = (if closing b then b\<lparr>closeC := True\<rparr> else cond_signal (b\<lparr>closing := True\<rparr>))"

subsection \<open>The consumer\<close>

datatype 'e sync_error =
    NegativeStart int
  | StreamClosed
  | HeightMismatch int int
  | CtxCanceled
  | HandlerErr 'e

datatype 'e sync_pc = Receiving | Returned "'e sync_error option"

text \<open>The loop of \<open>SyncRange\<close>; for \<open>SyncForward\<close> the end is \<open>None\<close>. \<open>handled\<close> is what the handler
  was called with, and \<open>consumed\<close> what was taken from the channel.\<close>

record ('blk, 'res, 'val, 'e) Sync =
  sync_pc :: "'e sync_pc"
  expected :: int
  sync_end :: "int option"
  handled :: "('blk, 'res, 'val) NewBlockData list"
  consumed :: "('blk, 'res, 'val) NewBlockData list"

definition in_range :: "('blk, 'res, 'val, 'e) Sync \<Rightarrow> bool" where
  "in_range c = (case sync_end c of None \<Rightarrow> True | Some e \<Rightarrow> expected c \<le> e)"

definition sync_return :: "'e sync_error option \<Rightarrow> ('blk, 'res, 'val, 'e) Sync \<Rightarrow> ('blk, 'res, 'val, 'e) Sync" where
  "sync_return r c = c\<lparr>sync_pc := Returned r\<rparr>"

text \<open>The body of the loop for a block taken from the channel; \<open>hr\<close> is what the handler returns.\<close>

definition sync_block ::
  "'e option \<Rightarrow> ('blk, 'res, 'val) NewBlockData \<Rightarrow> ('blk, 'res, 'val, 'e) Sync \<Rightarrow> ('blk, 'res, 'val, 'e) Sync" where
  "sync_block hr nextBlock c0 =
     (let c = c0\<lparr>consumed := consumed c0 @ [nextBlock]\<rparr>
      in if Height nextBlock \<noteq> expected c then
           sync_return (Some (HeightMismatch (expected c) (Height nextBlock))) c
         else if \<not> Skipped nextBlock then
           let c' = c\<lparr>handled := handled c @ [nextBlock]\<rparr>
           in (case hr of
                 Some e \<Rightarrow> sync_return (Some (HandlerErr e)) c'
               | None \<Rightarrow> c'\<lparr>expected := i64 (expected c + 1)\<rparr>)
         else c\<lparr>expected := i64 (expected c + 1)\<rparr>)"

text \<open>One turn of the consumer: the loop condition, then the \<open>select\<close>. When the context is done and
  a block is there, either case may be chosen; \<open>prefer_ctx\<close> is that choice. A turn that finds
  neither waits.\<close>

definition consumer_step ::
  "bool \<Rightarrow> 'e option \<Rightarrow> ('blk, 'res, 'val) blockGetter \<Rightarrow> ('blk, 'res, 'val, 'e) Sync
    \<Rightarrow> ('blk, 'res, 'val) blockGetter \<times> ('blk, 'res, 'val, 'e) Sync" where
  "consumer_step prefer_ctx hr b c =
     (if sync_pc c \<noteq> Receiving then (b, c)
      else if \<not> in_range c then (b, sync_return None c)
      else if ctxDone b \<and> prefer_ctx then (b, sync_return (Some CtxCanceled) c)
      else case newBlocksC b of
             nextBlock # rest \<Rightarrow> (b\<lparr>newBlocksC := rest\<rparr>, sync_block hr nextBlock c)
           | [] \<Rightarrow> if newBlocksC_closed b then (b, sync_return (Some StreamClosed) c) else (b, c))"

definition start_sync :: "int \<Rightarrow> int option \<Rightarrow> ('blk, 'res, 'val, 'e) Sync" where
  "start_sync start e =
     (let c = \<lparr>sync_pc = Receiving, expected = start, sync_end = e, handled = [], consumed = []\<rparr>
      in if start < 0 then sync_return (Some (NegativeStart start)) c
         else case e of
                Some en \<Rightarrow> if en < start then sync_return None c else c
              | None \<Rightarrow> c)"

definition NewSyncer_jobs :: "int \<Rightarrow> nat" where
  "NewSyncer_jobs n = (if n \<le> 0 then 1 else nat n)"

subsection \<open>The system\<close>

type_synonym ('blk, 'res, 'val, 'e) system =
  "('blk, 'res, 'val) blockGetter \<times> ('blk, 'res, 'val, 'e) Sync"

inductive sync_step :: "('blk, 'res, 'val, 'e) system \<Rightarrow> ('blk, 'res, 'val, 'e) system \<Rightarrow> bool" where
  job: "i < length (jobs b) \<Longrightarrow>
    (\<forall>h. jobs b ! i = JobFetching h \<longrightarrow> (\<exists>rb rr rv. r \<in> set (fetchBlockByNum (fetchValidators b) h rb rr rv))) \<Longrightarrow>
    sync_step (b, c) (job_step i r b, c)"
| announce: "sync_step (b, c) (announce_step b, c)"
| consume: "consumer_step prefer_ctx hr b c = (b', c') \<Longrightarrow> sync_step (b, c) (b', c')"
| close: "sync_pc c \<noteq> Receiving \<Longrightarrow> sync_step (b, c) (close_step b, c)"
| cancel: "sync_step (b, c) (b\<lparr>ctxDone := True\<rparr>, c)"

text \<open>\<open>SyncRange\<close> and \<open>SyncForward\<close> start the getter forward; \<open>SyncForward\<close> never allows gaps. An
  early return starts no goroutine.\<close>

definition no_getter :: "int \<Rightarrow> ('blk, 'res, 'val) blockGetter" where
  "no_getter start = (newBlockGetter start 0 Forward False False)\<lparr>announcer := AnnExit\<rparr>"

definition SyncRange :: "int \<Rightarrow> int \<Rightarrow> int \<Rightarrow> bool \<Rightarrow> bool \<Rightarrow> ('blk, 'res, 'val, 'e) system" where
  "SyncRange n start en gaps vals =
     (if start < 0 \<or> en < start then no_getter (u64 start)
      else newBlockGetter (u64 start) (NewSyncer_jobs n) Forward gaps vals,
      start_sync start (Some en))"

definition SyncForward :: "int \<Rightarrow> int \<Rightarrow> bool \<Rightarrow> ('blk, 'res, 'val, 'e) system" where
  "SyncForward n start vals =
     (if start < 0 then no_getter (u64 start)
      else newBlockGetter (u64 start) (NewSyncer_jobs n) Forward False vals,
      start_sync start None)"

end
