(* ===== verification/Block_Sync.thy ===== *)
theory Block_Sync
  imports Block_Getter
begin

text \<open>
  Invariants of the block getter and its consumers, and what \<open>SyncRange\<close> and \<open>SyncForward\<close>
  guarantee in every interleaving: blocks are handled in height order, none is missing and none is
  handled twice.
\<close>

section \<open>What every step keeps\<close>

text \<open>A block belongs to the height under which it is kept, and only a getter that allows gaps
  skips one.\<close>

definition block_at :: "bool \<Rightarrow> int \<Rightarrow> ('blk, 'res, 'val) NewBlockData \<Rightarrow> bool" where
  "block_at gaps k d \<longleftrightarrow> Height d = i64 k \<and> (Skipped d \<longrightarrow> gaps)"

fun job_ok :: "bool \<Rightarrow> ('blk, 'res, 'val) job_pc \<Rightarrow> bool" where
  "job_ok gaps (JobStore h d) = block_at gaps h d"
| "job_ok gaps _ = True"

fun ann_ok :: "bool \<Rightarrow> int \<Rightarrow> ('blk, 'res, 'val) ann_pc \<Rightarrow> bool" where
  "ann_ok gaps n (AnnTop h) \<longleftrightarrow> h = u64 n"
| "ann_ok gaps n (AnnLookup h) \<longleftrightarrow> h = u64 n"
| "ann_ok gaps n (AnnWaiting h) \<longleftrightarrow> h = u64 n"
| "ann_ok gaps n (AnnSend h d) \<longleftrightarrow> h = u64 n \<and> block_at gaps h d"
| "ann_ok gaps n AnnExit \<longleftrightarrow> True"

definition blocks_from :: "bool \<Rightarrow> int \<Rightarrow> ('blk, 'res, 'val) NewBlockData list \<Rightarrow> bool" where
  "blocks_from gaps start ds \<longleftrightarrow> (\<forall>i<length ds. block_at gaps (start + int i) (ds ! i))"

definition getter_inv :: "int \<Rightarrow> ('blk, 'res, 'val) blockGetter \<Rightarrow> bool" where
  "getter_inv start b \<longleftrightarrow>
     direction b = Forward \<and>
     (\<forall>(k, d)\<in>set (newBlocksMap b). block_at (allowGaps b) k d) \<and>
     (\<forall>p\<in>set (jobs b). job_ok (allowGaps b) p) \<and>
     ann_ok (allowGaps b) (start + int (length (sent b))) (announcer b) \<and>
     blocks_from (allowGaps b) start (sent b)"

text \<open>A consumer that goes on has handled every block it took except the skipped ones.\<close>

definition caught_up :: "int \<Rightarrow> ('blk, 'res, 'val, 'e) Sync \<Rightarrow> bool" where
  "caught_up start c \<longleftrightarrow>
     expected c = i64 (start + int (length (consumed c))) \<and>
     handled c = filter (\<lambda>d. \<not> Skipped d) (consumed c)"

definition consumer_inv :: "int \<Rightarrow> ('blk, 'res, 'val, 'e) Sync \<Rightarrow> bool" where
  "consumer_inv start c \<longleftrightarrow>
     (case sync_pc c of
        Receiving \<Rightarrow> caught_up start c
      | Returned None \<Rightarrow> caught_up start c \<and> \<not> in_range c
      | Returned (Some (HeightMismatch _ _)) \<Rightarrow> False
      | Returned (Some _) \<Rightarrow> True)"

definition system_inv :: "int \<Rightarrow> ('blk, 'res, 'val, 'e) system \<Rightarrow> bool" where
  "system_inv start s \<longleftrightarrow>
     (case s of (b, c) \<Rightarrow> getter_inv start b \<and> consumer_inv start c \<and> sent b = consumed c @ newBlocksC b)"

lemma block_at_u64 [simp]: "block_at gaps (u64 k) d = block_at gaps k d"
  by (simp add: block_at_def)

lemma blocks_from_append:
  "blocks_from gaps start (xs @ [d]) \<longleftrightarrow> blocks_from gaps start xs \<and> block_at gaps (start + int (length xs)) d"
  by (auto simp: blocks_from_def nth_append less_Suc_eq)

lemma blocks_from_prefix:
  assumes "blocks_from gaps start (xs @ ys)"
  shows "blocks_from gaps start xs"
  unfolding blocks_from_def
proof (intro allI impI)
  fix i
  assume "i < length xs"
  then show "block_at gaps (start + int i) (xs ! i)"
    using assms [unfolded blocks_from_def, rule_format, of i] by (simp add: nth_append)
qed

lemma set_AList_update: "set (AList.update k v al) \<subseteq> insert (k, v) (set al)"
  by (induction al) auto

lemma fetchBlockByNum_height:
  assumes "r \<in> set (fetchBlockByNum vals h rb rr rv)" and "after_fetch gaps done h r = DeliverBlock d"
  shows "block_at gaps h d"
  using assms
  by (auto simp: fetchBlockByNum_def after_fetch_def block_at_def Let_def split: if_splits sum.splits)

lemma set_job_simps [simp]:
  "direction (set_job i p b) = direction b" "allowGaps (set_job i p b) = allowGaps b"
  "newBlocksMap (set_job i p b) = newBlocksMap b" "announcer (set_job i p b) = announcer b"
  "sent (set_job i p b) = sent b" "newBlocksC (set_job i p b) = newBlocksC b"
  "jobs (set_job i p b) = (jobs b)[i := p]" "assigned (set_job i p b) = assigned b"
  "height (set_job i p b) = height b" "isDone (set_job i p b) = isDone b"
  by (simp_all add: set_job_def isDone_def)

lemma cond_signal_simps [simp]:
  "direction (cond_signal b) = direction b" "allowGaps (cond_signal b) = allowGaps b"
  "newBlocksMap (cond_signal b) = newBlocksMap b" "jobs (cond_signal b) = jobs b"
  "sent (cond_signal b) = sent b" "newBlocksC (cond_signal b) = newBlocksC b"
  "assigned (cond_signal b) = assigned b" "height (cond_signal b) = height b" "isDone (cond_signal b) = isDone b"
  "ann_ok gaps n (announcer (cond_signal b)) = ann_ok gaps n (announcer b)"
  by (simp_all add: cond_signal_def isDone_def split: ann_pc.split)

lemma getter_inv_cond_signal [simp]: "getter_inv start (cond_signal b) = getter_inv start b"
  by (simp add: getter_inv_def)

lemma getter_inv_set_job:
  "getter_inv start b \<Longrightarrow> job_ok (allowGaps b) p \<Longrightarrow> getter_inv start (set_job i p b)"
  using set_update_subset_insert [of "jobs b" i p] by (auto simp: getter_inv_def)

lemma getter_inv_height: "getter_inv start (b\<lparr>height := h, assigned := n\<rparr>) = getter_inv start b"
  by (simp add: getter_inv_def)

lemma job_step_inv:
  assumes "getter_inv start b" and "i < length (jobs b)"
    and "\<forall>h. jobs b ! i = JobFetching h \<longrightarrow> (\<exists>rb rr rv. r \<in> set (fetchBlockByNum (fetchValidators b) h rb rr rv))"
  shows "getter_inv start (job_step i r b)"
proof (cases "jobs b ! i")
  case JobNext
  then show ?thesis
    using assms(1) by (simp add: job_step_def getHeightToFetch_def getter_inv_set_job getter_inv_height)
next
  case (JobFetching h)
  then show ?thesis
    using assms fetchBlockByNum_height
    by (auto simp: job_step_def intro!: getter_inv_set_job split: job_action.splits)
next
  case (JobStore h d)
  then have "block_at (allowGaps b) h d"
    using assms(1,2) nth_mem [of i "jobs b"] by (fastforce simp: getter_inv_def)
  then have "getter_inv start (b\<lparr>newBlocksMap := AList.update h d (newBlocksMap b)\<rparr>)"
    using assms(1) set_AList_update [of h d "newBlocksMap b"] by (fastforce simp: getter_inv_def)
  with JobStore show ?thesis by (simp add: job_step_def Let_def getter_inv_set_job)
qed (use assms(1) in \<open>simp_all add: job_step_def getter_inv_set_job\<close>)

lemma announce_step_inv:
  assumes "getter_inv start b"
  shows "getter_inv start (announce_step b)"
proof (cases "announcer b")
  case (AnnLookup h)
  have "block_at (allowGaps b) h ev" if "map_of (newBlocksMap b) h = Some ev" for ev
    using assms map_of_SomeD [OF that] by (auto simp: getter_inv_def)
  moreover have "set (AList.delete h (newBlocksMap b)) \<subseteq> set (newBlocksMap b)"
    by (auto simp: AList.delete_eq)
  ultimately show ?thesis
    using assms AnnLookup
    by (fastforce simp: announce_step_def getter_inv_def ann_exit_def split: option.splits)
next
  case (AnnSend h ev)
  then show ?thesis
    using assms
    by (auto simp: announce_step_def getter_inv_def ann_after_send_def blocks_from_append ac_simps)
qed (use assms in \<open>simp_all add: announce_step_def getter_inv_def ann_exit_def\<close>)

lemma sync_block_inv:
  assumes "consumer_inv start c" and "sync_pc c = Receiving" and "block_at gaps (start + int (length (consumed c))) d"
  shows "consumer_inv start (sync_block hr d c)" and "consumed (sync_block hr d c) = consumed c @ [d]"
proof -
  have u: "caught_up start c" using assms(1,2) by (simp add: consumer_inv_def)
  have h: "Height d = expected c" using assms(3) u by (simp add: block_at_def caught_up_def)
  have e: "i64 (expected c + 1) = i64 (start + int (length (consumed c @ [d])))"
    using u by (simp add: caught_up_def algebra_simps)
  show "consumed (sync_block hr d c) = consumed c @ [d]"
    by (simp add: sync_block_def sync_return_def Let_def split: option.split)
  show "consumer_inv start (sync_block hr d c)"
  proof (cases "Skipped d")
    case True
    have "caught_up start (c\<lparr>consumed := consumed c @ [d], expected := i64 (expected c + 1)\<rparr>)"
      using u e True by (simp add: caught_up_def)
    with h True assms(2) show ?thesis by (simp add: consumer_inv_def sync_block_def Let_def)
  next
    case False
    have "caught_up start (c\<lparr>consumed := consumed c @ [d], handled := handled c @ [d], expected := i64 (expected c + 1)\<rparr>)"
      using u e False by (simp add: caught_up_def)
    with h False assms(2) show ?thesis
      by (cases hr) (simp_all add: consumer_inv_def sync_block_def sync_return_def Let_def)
  qed
qed

lemma sync_return_simps [simp]:
  "in_range (sync_return r c) = in_range c" "caught_up start (sync_return r c) = caught_up start c"
  "sync_pc (sync_return r c) = Returned r" "consumed (sync_return r c) = consumed c"
  by (simp_all add: in_range_def caught_up_def sync_return_def split: option.split)

lemma sync_return_inv:
  assumes "consumer_inv start c" and "sync_pc c = Receiving" and "r = None \<longrightarrow> \<not> in_range c"
    and "\<forall>e g. r \<noteq> Some (HeightMismatch e g)"
  shows "consumer_inv start (sync_return r c)"
proof (cases r)
  case None
  with assms show ?thesis by (simp add: consumer_inv_def)
next
  case (Some e)
  with assms show ?thesis by (cases e) (simp_all add: consumer_inv_def)
qed

lemma consumer_step_inv:
  assumes "system_inv start (b, c)" and "consumer_step prefer_ctx hr b c = (b', c')"
  shows "system_inv start (b', c')"
proof (cases "sync_pc c = Receiving \<and> in_range c \<and> \<not> (ctxDone b \<and> prefer_ctx) \<and> newBlocksC b \<noteq> []")
  case True
  then obtain d rest where q: "newBlocksC b = d # rest" by (cases "newBlocksC b") auto
  have inv: "getter_inv start b" "consumer_inv start c" "sent b = consumed c @ newBlocksC b"
    using assms(1) by (simp_all add: system_inv_def)
  have "blocks_from (allowGaps b) start ((consumed c @ [d]) @ rest)"
    using inv q by (simp add: getter_inv_def)
  from blocks_from_prefix [OF this]
  have "block_at (allowGaps b) (start + int (length (consumed c))) d" by (simp add: blocks_from_append)
  moreover have "b' = b\<lparr>newBlocksC := rest\<rparr>" "c' = sync_block hr d c"
    using True q assms(2) by (auto simp: consumer_step_def)
  moreover have "getter_inv start (b\<lparr>newBlocksC := rest\<rparr>) = getter_inv start b" by (simp add: getter_inv_def)
  ultimately show ?thesis
    using sync_block_inv [of start c "allowGaps b" d hr] True q inv by (simp add: system_inv_def)
next
  case False
  then have "b' = b \<and> (c' = c \<or> sync_pc c = Receiving \<and> (\<exists>r. c' = sync_return r c \<and> (r = None \<longrightarrow> \<not> in_range c) \<and>
      (\<forall>e g. r \<noteq> Some (HeightMismatch e g))))"
    using assms(2) by (auto simp: consumer_step_def split: if_splits list.splits)
  with assms(1) sync_return_inv [of start c] show ?thesis by (auto simp: system_inv_def sync_return_def)
qed

lemma announce_step_channel: "\<exists>ds. sent (announce_step b) = sent b @ ds \<and> newBlocksC (announce_step b) = newBlocksC b @ ds"
  by (cases "announcer b")
    (auto simp: announce_step_def ann_exit_def ann_after_send_def split: option.splits BlockGetterDirection.splits)

lemma job_step_channel [simp]:
  "sent (job_step i r b) = sent b" "newBlocksC (job_step i r b) = newBlocksC b"
  by (auto simp: job_step_def getHeightToFetch_def Let_def split: job_pc.splits job_action.splits)

lemma sync_step_inv:
  assumes "sync_step s s'" and "system_inv start s"
  shows "system_inv start s'"
  using assms
proof (cases rule: sync_step.cases)
  case (job i b r c)
  with assms(2) job_step_inv [of start b i r] show ?thesis by (simp add: system_inv_def)
next
  case (announce b c)
  with assms(2) announce_step_inv [of start b] announce_step_channel [of b] show ?thesis
    by (auto simp: system_inv_def)
next
  case (consume prefer_ctx hr b c b' c')
  with assms(2) consumer_step_inv show ?thesis by blast
next
  case (close c b)
  moreover have "getter_inv start (b\<lparr>closing := True\<rparr>) = getter_inv start b"
    "getter_inv start (b\<lparr>closeC := True\<rparr>) = getter_inv start b" by (simp_all add: getter_inv_def)
  ultimately show ?thesis using assms(2) by (simp add: system_inv_def close_step_def)
next
  case (cancel b c)
  moreover have "getter_inv start (b\<lparr>ctxDone := True\<rparr>) = getter_inv start b" by (simp add: getter_inv_def)
  ultimately show ?thesis using assms(2) by (simp add: system_inv_def)
qed

lemma reachable_system_inv:
  "sync_step\<^sup>*\<^sup>* s s' \<Longrightarrow> system_inv start s \<Longrightarrow> system_inv start s'"
  by (induction rule: rtranclp_induct) (auto intro: sync_step_inv)

lemma SyncRange_init: "is_i64 start \<Longrightarrow> system_inv start (SyncRange n start en gaps vals)"
  by (auto simp: SyncRange_def system_inv_def getter_inv_def consumer_inv_def newBlockGetter_def no_getter_def
      caught_up_def start_sync_def sync_return_def blocks_from_def in_range_def Let_def)

lemma SyncForward_init: "is_i64 start \<Longrightarrow> system_inv start (SyncForward n start vals)"
  by (auto simp: SyncForward_def system_inv_def getter_inv_def consumer_inv_def newBlockGetter_def no_getter_def
      caught_up_def start_sync_def sync_return_def blocks_from_def in_range_def Let_def)

subsection \<open>The bound of the range\<close>

lemma sync_step_allowGaps: "sync_step (b, c) (b', c') \<Longrightarrow> allowGaps b' = allowGaps b"
  by (erule sync_step.cases)
    (auto simp: job_step_def announce_step_def ann_exit_def ann_after_send_def consumer_step_def close_step_def
      getHeightToFetch_def Let_def
      split: job_pc.splits job_action.splits ann_pc.splits option.splits BlockGetterDirection.splits
        if_splits list.splits)

lemma sync_block_frame:
  "sync_end (sync_block hr d c) = sync_end c" "consumed (sync_block hr d c) = consumed c @ [d]"
  by (simp_all add: sync_block_def sync_return_def Let_def split: option.split)

lemma consumer_step_consumed:
  assumes "consumer_step prefer_ctx hr b c = (b', c')"
  shows "sync_end c' = sync_end c \<and>
    (consumed c' = consumed c \<or> sync_pc c = Receiving \<and> in_range c \<and> length (consumed c') = Suc (length (consumed c)))"
  using assms
  by (auto simp: consumer_step_def sync_block_frame sync_return_def split: if_splits list.splits)

lemma sync_step_bound:
  assumes "sync_step (b, c) (b', c')" and "system_inv start (b, c)" and "sync_end c = Some en"
    and "0 \<le> start" and "en < maxInt64" and "start + int (length (consumed c)) \<le> en + 1"
  shows "sync_end c' = Some en \<and> start + int (length (consumed c')) \<le> en + 1"
proof -
  have "start + int (length (consumed c)) \<le> en" if r: "sync_pc c = Receiving" "in_range c"
  proof -
    have "is_i64 (start + int (length (consumed c)))"
      using assms(4,5,6) by (simp add: is_i64_def minInt64_def)
    moreover have "caught_up start c" using assms(2) r(1) by (simp add: system_inv_def consumer_inv_def)
    ultimately have "expected c = start + int (length (consumed c))" by (simp add: caught_up_def)
    then show ?thesis using r(2) assms(3) by (simp add: in_range_def)
  qed
  moreover have "sync_end c' = sync_end c \<and>
    (consumed c' = consumed c \<or> sync_pc c = Receiving \<and> in_range c \<and> length (consumed c') = Suc (length (consumed c)))"
    using assms(1) by (cases rule: sync_step.cases) (auto dest: consumer_step_consumed)
  ultimately show ?thesis using assms(3,6) by auto
qed

lemma reachable_bound:
  assumes "sync_step\<^sup>*\<^sup>* (b, c) (b', c')" and "system_inv start (b, c)" and "sync_end c = Some en"
    and "0 \<le> start" and "en < maxInt64" and "start + int (length (consumed c)) \<le> en + 1"
  shows "sync_end c' = Some en \<and> start + int (length (consumed c')) \<le> en + 1 \<and> allowGaps b' = allowGaps b"
  using assms(1)
proof (induction "(b', c')" arbitrary: b' c' rule: rtranclp_induct)
  case base
  then show ?case using assms by simp
next
  case (step y)
  obtain b1 c1 where y: "y = (b1, c1)" by force
  have i: "system_inv start (b1, c1)" using reachable_system_inv [OF step.hyps(1) assms(2)] y by simp
  show ?case
    using sync_step_bound [OF step.hyps(2) [unfolded y] i _ assms(4,5)] step.hyps(3) [OF y]
      sync_step_allowGaps [OF step.hyps(2) [unfolded y]] by simp
qed

lemma blocks_from_Height:
  assumes "blocks_from gaps start ds"
  shows "map Height ds = map (\<lambda>i. i64 (start + int i)) [0..<length ds]" and "\<forall>d\<in>set ds. Skipped d \<longrightarrow> gaps"
proof -
  show "map Height ds = map (\<lambda>i. i64 (start + int i)) [0..<length ds]"
    using assms by (intro nth_equalityI) (simp_all add: blocks_from_def block_at_def)
  show "\<forall>d\<in>set ds. Skipped d \<longrightarrow> gaps"
    using assms by (auto simp: blocks_from_def block_at_def in_set_conv_nth)
qed

lemma system_inv_consumed:
  "system_inv start (b, c) \<Longrightarrow> blocks_from (allowGaps b) start (consumed c)"
  by (auto simp: system_inv_def getter_inv_def intro: blocks_from_prefix)

lemma map_upt_upto: "map (\<lambda>i. start + int i) [0..<n] = [start..start + int n - 1]"
proof (induction n)
  case (Suc n)
  have "[start..start + int (Suc n) - 1] = [start..start + int n - 1] @ [start + int n]"
    using upto_rec2 [of start "start + int n"] by simp
  with Suc show ?case by simp
qed simp

subsection \<open>Runs\<close>

text \<open>A run given by the scheduler's choices; the answers of the node are part of a job's move.\<close>

datatype ('blk, 'res, 'val, 'e) sync_move =
    JobMove nat "fetch_error + 'blk" "fetch_error + 'res" "fetch_error + 'val list"
  | AnnounceMove
  | ConsumeMove bool "'e option"
  | CloseMove
  | CancelMove

fun job_height :: "('blk, 'res, 'val) job_pc \<Rightarrow> int option" where
  "job_height (JobTop h) = Some h"
| "job_height (JobFetching h) = Some h"
| "job_height (JobStore h d) = Some h"
| "job_height _ = None"

fun do_move :: "('blk, 'res, 'val, 'e) sync_move \<Rightarrow> ('blk, 'res, 'val, 'e) system \<Rightarrow> ('blk, 'res, 'val, 'e) system" where
  "do_move (JobMove i rb rr rv) (b, c) =
     (if i < length (jobs b) then
        (let h = (case job_height (jobs b ! i) of Some h \<Rightarrow> h | None \<Rightarrow> 0)
         in (job_step i (hd (fetchBlockByNum (fetchValidators b) h rb rr rv)) b, c))
      else (b, c))"
| "do_move AnnounceMove (b, c) = (announce_step b, c)"
| "do_move (ConsumeMove prefer_ctx hr) (b, c) = consumer_step prefer_ctx hr b c"
| "do_move CloseMove (b, c) = (if sync_pc c \<noteq> Receiving then close_step b else b, c)"
| "do_move CancelMove (b, c) = (b\<lparr>ctxDone := True\<rparr>, c)"

lemma fetchBlockByNum_nonempty: "hd (fetchBlockByNum vals h rb rr rv) \<in> set (fetchBlockByNum vals h rb rr rv)"
  by (simp add: fetchBlockByNum_def Let_def)

lemma do_move_step: "do_move m s = s \<or> sync_step s (do_move m s)"
proof (cases s)
  case (Pair b c)
  show ?thesis
  proof (cases m)
    case (JobMove i rb rr rv)
    then show ?thesis
      using Pair
      by (auto simp: Let_def intro!: sync_step.job) (rule exI, rule exI, rule exI, rule fetchBlockByNum_nonempty)
  next
    case (ConsumeMove p hr)
    then show ?thesis using Pair by (cases "consumer_step p hr b c") (auto intro: sync_step.consume)
  qed (use Pair in \<open>auto intro: sync_step.intros\<close>)
qed

lemma moves_reachable: "sync_step\<^sup>*\<^sup>* s (fold do_move ms s)"
proof (induction ms arbitrary: s)
  case (Cons m ms)
  have "sync_step\<^sup>*\<^sup>* s (do_move m s)" using do_move_step [of m s] by auto
  with Cons.IH [of "do_move m s"] show ?case by simp
qed simp

subsection \<open>No height is lost\<close>

text \<open>Where the \<open>k\<close>-th height handed out is: already sent, in the announcer's hands, in the map, with
  a job, or given up because a job has left.\<close>

definition accounted :: "int \<Rightarrow> ('blk, 'res, 'val) blockGetter \<Rightarrow> nat \<Rightarrow> bool" where
  "accounted start b k \<longleftrightarrow>
     k < length (sent b) \<or>
     (\<exists>d. announcer b = AnnSend (u64 (start + int k)) d) \<or>
     u64 (start + int k) \<in> fst ` set (newBlocksMap b) \<or>
     Some (u64 (start + int k)) \<in> job_height ` set (jobs b) \<or>
     JobExit \<in> set (jobs b)"

definition accounted_inv :: "int \<Rightarrow> ('blk, 'res, 'val) blockGetter \<Rightarrow> bool" where
  "accounted_inv start b \<longleftrightarrow>
     height b = u64 (start + int (assigned b)) \<and>
     (assigned b \<le> 2 ^ 64 \<longrightarrow> (\<forall>k<assigned b. accounted start b k))"

lemma set_update_keep:
  assumes "x \<in> set xs" and "x \<noteq> xs ! i"
  shows "x \<in> set (xs[i := y])"
  using assms by (metis in_set_conv_nth length_list_update nth_list_update_neq)

lemma job_update_keep:
  assumes "Some h \<in> job_height ` set (jobs b)"
  shows "job_height (jobs b ! i) = Some h \<or> Some h \<in> job_height ` set ((jobs b)[i := p])"
  using assms set_update_keep [of _ "jobs b" i p] by (metis (no_types, lifting) image_iff)

lemma exit_update_keep:
  assumes "JobExit \<in> set (jobs b)" and "jobs b ! i \<noteq> JobExit"
  shows "JobExit \<in> set ((jobs b)[i := p])"
  using assms set_update_keep by metis

lemma u64_add_inj:
  assumes "u64 (x + int j) = u64 (x + int k)" and "j < 2 ^ 64" and "k < 2 ^ 64"
  shows "j = k"
proof -
  have "(x + int j) mod 2 ^ 64 = (x + int k) mod 2 ^ 64"
    using assms(1) by (simp add: u64_def take_bit_eq_mod)
  then have "int j mod 2 ^ 64 = int k mod 2 ^ 64" by (metis add_diff_cancel_left' mod_diff_cong)
  then show ?thesis using assms(2,3) by simp
qed

text \<open>A job moves a height on, or takes the next one.\<close>

lemma accounted_set_job:
  assumes "accounted start b k" and "jobs b ! i \<noteq> JobExit" and "i < length (jobs b)"
    and "job_height (jobs b ! i) = Some (u64 (start + int k)) \<Longrightarrow>
      job_height p = Some (u64 (start + int k)) \<or> p = JobExit \<or> u64 (start + int k) \<in> fst ` set (newBlocksMap b)"
  shows "accounted start (set_job i p b) k"
proof -
  have "p \<in> set ((jobs b)[i := p])" using assms(3) by (rule set_update_memI)
  then show ?thesis
    using assms job_update_keep [of "u64 (start + int k)" b i p] exit_update_keep [of b i p]
    unfolding accounted_def by (auto simp: image_iff) metis+
qed

lemma accounted_cond_signal [simp]: "accounted start (cond_signal b) k = accounted start b k"
  by (auto simp: accounted_def cond_signal_def split: ann_pc.split)

lemma keys_update [simp]: "fst ` set (AList.update h d al) = insert h (fst ` set al)"
  using AList.dom_update [of h d al] by simp

lemma keys_delete [simp]: "fst ` set (AList.delete h al) = fst ` set al - {h}"
  by (auto simp: AList.delete_eq image_iff)

lemma accounted_store:
  "accounted start b k \<Longrightarrow> accounted start (b\<lparr>newBlocksMap := AList.update h d (newBlocksMap b)\<rparr>) k"
  by (auto simp: accounted_def)

lemma accounted_counter [simp]: "accounted start (b\<lparr>height := h, assigned := n\<rparr>) k = accounted start b k"
  by (simp add: accounted_def)

lemma accounted_inv_frame [simp]:
  "accounted_inv start (b\<lparr>newBlocksC := x\<rparr>) = accounted_inv start b"
  "accounted_inv start (b\<lparr>closing := y\<rparr>) = accounted_inv start b"
  "accounted_inv start (b\<lparr>closeC := y\<rparr>) = accounted_inv start b"
  "accounted_inv start (b\<lparr>ctxDone := y\<rparr>) = accounted_inv start b"
  "accounted_inv start (cond_signal b) = accounted_inv start b"
  by (simp_all add: accounted_inv_def) (simp_all add: accounted_def)

lemma job_next_accounted:
  assumes "accounted_inv start b" and "direction b = Forward" and "i < length (jobs b)" and "jobs b ! i = JobNext"
  shows "accounted_inv start (job_step i r b)"
proof -
  let ?b = "set_job i (JobTop (height b)) (b\<lparr>height := u64 (height b + 1), assigned := Suc (assigned b)\<rparr>)"
  have st: "job_step i r b = ?b" using assms(2,4) by (simp add: job_step_def getHeightToFetch_def)
  have "accounted start ?b k" if "Suc (assigned b) \<le> 2 ^ 64" "k < Suc (assigned b)" for k
  proof (cases "k = assigned b")
    case True
    have "JobTop (height b) \<in> set ((jobs b)[i := JobTop (height b)])" using assms(3) by (rule set_update_memI)
    then show ?thesis using True assms(1) by (force simp: accounted_def accounted_inv_def)
  next
    case False
    then have "accounted start b k" using that assms(1) by (simp add: accounted_inv_def)
    then show ?thesis using assms(3,4) by (intro accounted_set_job) auto
  qed
  then show ?thesis using assms(1) unfolding st by (simp add: accounted_inv_def algebra_simps)
qed

lemma job_step_accounted:
  assumes "accounted_inv start b" and "direction b = Forward" and "i < length (jobs b)"
  shows "accounted_inv start (job_step i r b)"
proof (cases "jobs b ! i = JobNext")
  case True
  then show ?thesis using job_next_accounted assms by blast
next
  case False
  have frame: "height (job_step i r b) = height b" "assigned (job_step i r b) = assigned b"
    using False by (simp_all add: job_step_def Let_def split: job_pc.split job_action.split)
  have "accounted start (job_step i r b) k" if "accounted start b k" for k
  proof (cases "jobs b ! i")
    case (JobStore h d)
    let ?b = "cond_signal (b\<lparr>newBlocksMap := AList.update h d (newBlocksMap b)\<rparr>)"
    have "accounted start ?b k" using accounted_store [OF that] by simp
    then have "accounted start (set_job i p ?b) k" for p
      using assms(3) JobStore by (intro accounted_set_job) auto
    then show ?thesis using JobStore by (simp add: job_step_def Let_def)
  qed (use that assms(3) False in \<open>auto simp: job_step_def intro!: accounted_set_job split: job_action.split\<close>)
  with assms(1) frame show ?thesis by (auto simp: accounted_inv_def)
qed

lemma announce_step_accounted:
  assumes "accounted_inv start b" and "getter_inv start b"
  shows "accounted_inv start (announce_step b)"
proof -
  have fwd: "direction b = Forward" using assms(2) by (simp add: getter_inv_def)
  have frame: "height (announce_step b) = height b" "assigned (announce_step b) = assigned b"
    by (simp_all add: announce_step_def ann_exit_def ann_after_send_def
        split: ann_pc.split option.split BlockGetterDirection.split)
  have "accounted start (announce_step b) k" if acc: "accounted start b k" and k: "k < 2 ^ 64" for k
  proof (cases "announcer b")
    case (AnnLookup h)
    then show ?thesis
      using acc by (auto simp: announce_step_def accounted_def ann_exit_def split: option.split)
  next
    case (AnnSend h d)
    then have h: "h = u64 (start + int (length (sent b)))" using assms(2) by (simp add: getter_inv_def)
    have "k \<le> length (sent b)" if "u64 (start + int k) = h"
      using u64_add_inj [of start k "length (sent b)"] that h k by (cases "length (sent b) < 2 ^ 64") auto
    then show ?thesis
      using acc AnnSend fwd by (auto simp: announce_step_def accounted_def ann_after_send_def)
  qed (use acc in \<open>auto simp: announce_step_def accounted_def ann_exit_def\<close>)
  with assms(1) frame show ?thesis by (auto simp: accounted_inv_def)
qed

lemma sync_step_accounted:
  assumes "sync_step (b, c) (b', c')" and "accounted_inv start b" and "getter_inv start b"
  shows "accounted_inv start b'"
  using assms(1)
proof (cases rule: sync_step.cases)
  case (job i r)
  then show ?thesis using assms(2,3) job_step_accounted by (auto simp: getter_inv_def)
next
  case announce
  then show ?thesis using assms(2,3) announce_step_accounted by blast
next
  case (consume prefer_ctx hr)
  then have "b' = b \<or> (\<exists>rest. b' = b\<lparr>newBlocksC := rest\<rparr>)"
    by (auto simp: consumer_step_def split: if_splits list.splits)
  then show ?thesis using assms(2) by auto
next
  case close
  then show ?thesis using assms(2) by (simp add: close_step_def)
next
  case cancel
  then show ?thesis using assms(2) by simp
qed

lemma reachable_accounted:
  assumes "sync_step\<^sup>*\<^sup>* (b, c) (b', c')" and "system_inv start (b, c)" and "accounted_inv start b"
  shows "accounted_inv start b'"
  using assms(1)
proof (induction "(b', c')" arbitrary: b' c' rule: rtranclp_induct)
  case base
  then show ?case using assms(3) by simp
next
  case (step y)
  obtain b1 c1 where y: "y = (b1, c1)" by force
  have "getter_inv start b1"
    using reachable_system_inv [OF step.hyps(1) assms(2)] y by (simp add: system_inv_def)
  then show ?case using sync_step_accounted step.hyps(2,3) y by blast
qed

lemma SyncRange_reach:
  fixes c :: "('blk, 'res, 'val, 'e) Sync"
  assumes "0 \<le> start" and "start \<le> en" and "en < maxInt64"
    and "sync_step\<^sup>*\<^sup>* (SyncRange n start en gaps vals) (b, c)"
  shows "(\<forall>e g. sync_pc c \<noteq> Returned (Some (HeightMismatch e g))) \<and>
    map Height (consumed c) = [start..start + int (length (consumed c)) - 1] \<and>
    (\<forall>d\<in>set (consumed c). Skipped d \<longrightarrow> gaps) \<and>
    (sync_pc c = Returned None \<longrightarrow>
       map Height (consumed c) = [start..en] \<and> handled c = filter (\<lambda>d. \<not> Skipped d) (consumed c))"
proof -
  have i64: "is_i64 start" using assms(1,2,3) by (simp add: is_i64_def minInt64_def)
  obtain b0 and c0 :: "('blk, 'res, 'val, 'e) Sync" where s0: "SyncRange n start en gaps vals = (b0, c0)" by force
  have c0: "sync_end c0 = Some en" "consumed c0 = []" "allowGaps b0 = gaps"
    using s0 assms(1,2) by (auto simp: SyncRange_def start_sync_def newBlockGetter_def Let_def)
  have inv0: "system_inv start (b0, c0)" unfolding s0 [symmetric] by (rule SyncRange_init [OF i64])
  have inv: "system_inv start (b, c)" using reachable_system_inv [OF assms(4) [unfolded s0] inv0] .
  have bd: "sync_end c = Some en" "start + int (length (consumed c)) \<le> en + 1" "allowGaps b = gaps"
    using reachable_bound [OF assms(4) [unfolded s0] inv0 c0(1) assms(1,3)] c0 assms(2) by auto
  note bf = blocks_from_Height [OF system_inv_consumed [OF inv]]
  have "i64 (start + int i) = start + int i" if "i < length (consumed c)" for i
    using that bd(2) assms(1,3) by (intro i64_id) (simp add: is_i64_def minInt64_def)
  then have heights: "map Height (consumed c) = [start..start + int (length (consumed c)) - 1]"
    unfolding bf(1) map_upt_upto [symmetric] by simp
  have ret: "start + int (length (consumed c)) = en + 1 \<and> handled c = filter (\<lambda>d. \<not> Skipped d) (consumed c)"
    if "sync_pc c = Returned None"
  proof -
    have u: "caught_up start c" "\<not> in_range c" using inv that by (auto simp: system_inv_def consumer_inv_def)
    have "is_i64 (start + int (length (consumed c)))" using bd(2) assms(1,3) by (simp add: is_i64_def minInt64_def)
    then have "expected c = start + int (length (consumed c))" using u(1) by (simp add: caught_up_def)
    then show ?thesis using u bd by (simp add: in_range_def caught_up_def)
  qed
  have mis: "\<forall>e g. sync_pc c \<noteq> Returned (Some (HeightMismatch e g))"
    using inv by (auto simp: system_inv_def consumer_inv_def)
  show ?thesis
  proof (intro conjI impI)
    assume "sync_pc c = Returned None"
    from ret [OF this] show "map Height (consumed c) = [start..en]"
      and "handled c = filter (\<lambda>d. \<not> Skipped d) (consumed c)" using heights by simp_all
  qed (use mis heights bf(2) bd(3) in simp_all)
qed

section \<open>Properties\<close>

text \<open>C3: \<open>SyncRange\<close> in every interleaving of jobs, announcer, consumer and cancellation: it never
  fails on the order of heights; the blocks it takes have consecutive heights from the start;
  a block is skipped only when gaps are allowed; and when it returns without an error it has
  handled every block from start to end in order, except the skipped ones.\<close>

theorem SyncRange_delivers:
  fixes c :: "('blk, 'res, 'val, 'e) Sync"
  assumes "0 \<le> start" and "start \<le> en" and "en < maxInt64"
    and "sync_step\<^sup>*\<^sup>* (SyncRange n start en gaps vals) (b, c)"
  shows "(\<forall>e g. sync_pc c \<noteq> Returned (Some (HeightMismatch e g))) \<and>
    map Height (consumed c) = [start..start + int (length (consumed c)) - 1] \<and>
    (\<forall>d\<in>set (consumed c). Skipped d \<longrightarrow> gaps) \<and>
    (sync_pc c = Returned None \<longrightarrow>
       map Height (consumed c) = [start..en] \<and> handled c = filter (\<lambda>d. \<not> Skipped d) (consumed c))"
  by (rule SyncRange_reach [OF assms])

definition example_moves :: "(int, int, int, int) sync_move list" where
  "example_moves = replicate 4 (JobMove 0 (Inr 30) (Inr 31) (Inr [])) @ replicate 3 AnnounceMove @ replicate 2 (ConsumeMove False None)"

theorem SyncRange_delivers_witness:
  "(let (b, c) = fold do_move example_moves (SyncRange 1 3 3 False False)
    in sync_pc c = Returned None \<and> map Height (consumed c) = [3..3])"
proof -
  obtain b c where r: "fold do_move example_moves (SyncRange 1 3 3 False False) = (b, c)" by force
  have "sync_pc (snd (fold do_move example_moves (SyncRange 1 3 3 False False))) = Returned None"
    by code_simp
  then have "sync_pc c = Returned None" by (simp add: r)
  have reach: "sync_step\<^sup>*\<^sup>* (SyncRange 1 3 3 False False) (b, c)"
    unfolding r [symmetric] by (rule moves_reachable)
  have range: "(0 :: int) \<le> 3" "(3 :: int) \<le> 3" "3 < maxInt64" by (simp_all add: maxInt64_def)
  have "map Height (consumed c) = [3..3]"
    using SyncRange_delivers [OF range reach] \<open>sync_pc c = Returned None\<close> by blast
  then show ?thesis using \<open>sync_pc c = Returned None\<close> by (simp add: r)
qed


text \<open>C14: While its jobs run, the getter loses no height: every height handed to a job has been sent
  on the channel, is with the announcer, waits in the map, or is being fetched, and what was sent
  is what the consumer took followed by what is in the channel.\<close>

theorem SyncForward_accounts:
  fixes c :: "('blk, 'res, 'val, 'e) Sync"
  assumes "0 \<le> start" and "start \<le> maxInt64"
    and "sync_step\<^sup>*\<^sup>* (SyncForward n start vals) (b, c)"
    and "JobExit \<notin> set (jobs b)" and "assigned b \<le> 2 ^ 64" and "k < assigned b"
  shows "sent b = consumed c @ newBlocksC b \<and>
    (k < length (sent b) \<and> Height (sent b ! k) = i64 (start + int k) \<or>
     (\<exists>d. announcer b = AnnSend (u64 (start + int k)) d) \<or>
     u64 (start + int k) \<in> fst ` set (newBlocksMap b) \<or>
     (\<exists>p\<in>set (jobs b). job_height p = Some (u64 (start + int k))))"
proof -
  have i64: "is_i64 start" using assms(1,2) by (simp add: is_i64_def minInt64_def)
  obtain b0 and c0 :: "('blk, 'res, 'val, 'e) Sync" where s0: "SyncForward n start vals = (b0, c0)" by force
  have inv0: "system_inv start (b0, c0)" unfolding s0 [symmetric] by (rule SyncForward_init [OF i64])
  have "b0 = newBlockGetter (u64 start) (NewSyncer_jobs n) Forward False vals"
    using s0 assms(1) by (simp add: SyncForward_def)
  then have acc0: "accounted_inv start b0" by (simp add: accounted_inv_def newBlockGetter_def)
  note r = assms(3) [unfolded s0]
  have inv: "getter_inv start b" "sent b = consumed c @ newBlocksC b"
    using reachable_system_inv [OF r inv0] by (simp_all add: system_inv_def)
  have "accounted start b k"
    using reachable_accounted [OF r inv0 acc0] assms(5,6) by (simp add: accounted_inv_def)
  moreover have "Height (sent b ! k) = i64 (start + int k)" if "k < length (sent b)"
    using inv(1) that by (simp add: getter_inv_def blocks_from_def block_at_def)
  ultimately show ?thesis using assms(4) inv(2) by (force simp: accounted_def)
qed

definition forward_moves :: "(int, int, int, int) sync_move list" where
  "forward_moves = JobMove 1 (Inr 30) (Inr 31) (Inr []) # example_moves"

theorem SyncForward_accounts_witness:
  "(let (b, c) = fold do_move forward_moves (SyncForward 2 3 False)
    in assigned b = 2 \<and> (3 \<in> fst ` set (newBlocksMap b) \<or> (\<exists>p\<in>set (jobs b). job_height p = Some 3)))"
proof -
  obtain b c where r: "fold do_move forward_moves (SyncForward 2 3 False) = (b, c)" by force
  have "let b = fst (fold do_move forward_moves (SyncForward 2 3 False))
    in assigned b = 2 \<and> sent b = [] \<and> list_all (\<lambda>p. p \<noteq> JobExit) (jobs b) \<and> announcer b = AnnWaiting 3"
    by code_simp
  then have f: "assigned b = 2" "sent b = []" "JobExit \<notin> set (jobs b)" "announcer b = AnnWaiting 3"
    by (auto simp: r Let_def list_all_iff)
  have "sync_step\<^sup>*\<^sup>* (SyncForward 2 3 False) (b, c)"
    unfolding r [symmetric] by (rule moves_reachable)
  from SyncForward_accounts [OF _ _ this, of 0] f show ?thesis
    by (auto simp: r maxInt64_def u64_id maxUint64_def)
qed

section \<open>Shutdown\<close>

text \<open>\<open>Close\<close> signals the condition variable before it closes \<open>closeC\<close>. An announcer that is woken in
  between finds nothing and waits again; when the jobs then leave, nobody wakes it any more.\<close>

lemma announcer_stuck_step:
  assumes "sync_step (b, c) (b', c')" and "announcer b = AnnWaiting h" and "closing b" and "\<forall>p\<in>set (jobs b). p = JobExit"
  shows "announcer b' = AnnWaiting h \<and> closing b' \<and> (\<forall>p\<in>set (jobs b'). p = JobExit)"
  using assms(1)
proof (cases rule: sync_step.cases)
  case (job i r)
  then have "jobs b ! i = JobExit" using assms(4) by simp
  then have "job_step i r b = b" by (simp add: job_step_def)
  then show ?thesis using job assms by simp
next
  case (consume prefer_ctx hr)
  then show ?thesis using assms by (auto simp: consumer_step_def split: if_splits list.splits)
qed (use assms in \<open>simp_all add: announce_step_def close_step_def\<close>)

lemma announcer_stuck:
  assumes "sync_step\<^sup>*\<^sup>* (b, c) (b', c')" and "announcer b = AnnWaiting h" and "closing b" and "\<forall>p\<in>set (jobs b). p = JobExit"
  shows "announcer b' = AnnWaiting h"
proof -
  have "announcer b' = AnnWaiting h \<and> closing b' \<and> (\<forall>p\<in>set (jobs b'). p = JobExit)"
    using assms(1)
  proof (induction "(b', c')" arbitrary: b' c' rule: rtranclp_induct)
    case (step y)
    then show ?case using announcer_stuck_step by (cases y) blast
  qed (use assms in simp)
  then show ?thesis by blast
qed

definition leak_moves :: "(int, int, int, int) sync_move list" where
  "leak_moves = example_moves @ [JobMove 0 (Inr 1) (Inr 1) (Inr []), AnnounceMove, AnnounceMove, CloseMove, AnnounceMove,
     CloseMove, JobMove 0 (Inr 1) (Inr 1) (Inr [])]"

lemma announcer_leaks:
  "\<exists>b c. sync_step\<^sup>*\<^sup>* (SyncRange 1 3 3 False False :: (int, int, int, int) system) (b, c) \<and> isDone b \<and>
     (\<forall>b' c'. sync_step\<^sup>*\<^sup>* (b, c) (b', c') \<longrightarrow> announcer b' = AnnWaiting 4)"
proof -
  let ?s = "SyncRange 1 3 3 False False :: (int, int, int, int) system"
  obtain b c where r: "fold do_move leak_moves ?s = (b, c)" by force
  have "let b = fst (fold do_move leak_moves ?s)
    in announcer b = AnnWaiting 4 \<and> closing b \<and> isDone b \<and> list_all (\<lambda>p. p = JobExit) (jobs b)"
    by code_simp
  then have f: "announcer b = AnnWaiting 4" "closing b" "isDone b" "\<forall>p\<in>set (jobs b). p = JobExit"
    by (auto simp: r Let_def list_all_iff)
  have "sync_step\<^sup>*\<^sup>* ?s (b, c)" unfolding r [symmetric] by (rule moves_reachable)
  with f announcer_stuck show ?thesis by blast
qed

text \<open>A job that is throttled because the map is too full polls the map only, and not \<open>isDone\<close>. Once
  the announcer has left, the map never shrinks and the job polls forever.\<close>

lemma length_AList_update: "length al \<le> length (AList.update k v al)"
  by (induction al) auto

lemma throttled_stuck_step:
  assumes "sync_step (b, c) (b', c')" and "announcer b = AnnExit" and "i < length (jobs b)"
    and "jobs b ! i = JobThrottled" and "tooFarFromHead b"
  shows "announcer b' = AnnExit \<and> i < length (jobs b') \<and> jobs b' ! i = JobThrottled \<and> tooFarFromHead b'"
  using assms(1)
proof (cases rule: sync_step.cases)
  case (job j r)
  show ?thesis
  proof (cases "j = i")
    case True
    then show ?thesis using job assms by (simp add: job_step_def)
  next
    case False
    have "length (newBlocksMap b) \<le> length (newBlocksMap (job_step j r b))"
      by (simp add: job_step_def getHeightToFetch_def Let_def length_AList_update split: job_pc.split job_action.split)
    moreover have "announcer (job_step j r b) = AnnExit" "jobs (job_step j r b) ! i = jobs b ! i"
      "length (jobs (job_step j r b)) = length (jobs b)"
      using False assms(2)
      by (auto simp: job_step_def getHeightToFetch_def Let_def cond_signal_def split: job_pc.split job_action.split)
    ultimately show ?thesis using job assms by (simp add: tooFarFromHead_def)
  qed
next
  case (consume prefer_ctx hr)
  then show ?thesis using assms by (auto simp: consumer_step_def tooFarFromHead_def split: if_splits list.splits)
qed (use assms in \<open>simp_all add: announce_step_def close_step_def cond_signal_def tooFarFromHead_def\<close>)

lemma throttled_job_never_leaves:
  assumes "sync_step\<^sup>*\<^sup>* (b, c) (b', c')" and "announcer b = AnnExit" and "i < length (jobs b)"
    and "jobs b ! i = JobThrottled" and "tooFarFromHead b"
  shows "jobs b' ! i = JobThrottled"
proof -
  have "announcer b' = AnnExit \<and> i < length (jobs b') \<and> jobs b' ! i = JobThrottled \<and> tooFarFromHead b'"
    using assms(1)
  proof (induction "(b', c')" arbitrary: b' c' rule: rtranclp_induct)
    case (step y)
    then show ?case using throttled_stuck_step by (cases y) blast
  qed (use assms in simp)
  then show ?thesis by blast
qed

end
