(* ===== verification/Sync_Liveness.thy ===== *)
theory Sync_Liveness
  imports Block_Sync "HOL-Library.Multiset"
begin

text \<open>
  \<open>SyncRange\<close> does not get stuck: the heights in flight are exactly those handed out and not yet
  sent, the announcer never sleeps over a block that is there, and so, as long as nobody cancels and
  no job has left, every reachable state can still go on to the end of the range.
\<close>

section \<open>The heights in flight\<close>

fun announced :: "('blk, 'res, 'val) ann_pc \<Rightarrow> int multiset" where
  "announced (AnnSend h d) = {#h#}"
| "announced _ = {#}"

definition held :: "('blk, 'res, 'val) job_pc \<Rightarrow> int multiset" where
  "held p = (case job_height p of Some h \<Rightarrow> {#h#} | None \<Rightarrow> {#})"

definition in_flight :: "('blk, 'res, 'val) blockGetter \<Rightarrow> int multiset" where
  "in_flight b = announced (announcer b) + mset (map fst (newBlocksMap b)) + sum_list (map held (jobs b))"

definition pending :: "int \<Rightarrow> ('blk, 'res, 'val) blockGetter \<Rightarrow> int multiset" where
  "pending start b = mset (map (\<lambda>k. u64 (start + int k)) [length (sent b)..<assigned b])"

text \<open>What a job that leaves was holding is lost.\<close>

definition flight_inv :: "int \<Rightarrow> ('blk, 'res, 'val) blockGetter \<Rightarrow> bool" where
  "flight_inv start b \<longleftrightarrow>
     height b = u64 (start + int (assigned b)) \<and>
     (assigned b \<le> 2 ^ 64 \<longrightarrow> length (sent b) \<le> assigned b \<and>
       (\<exists>lost. in_flight b + lost = pending start b \<and> (lost \<noteq> {#} \<longrightarrow> JobExit \<in> set (jobs b))))"

lemma sum_list_map_update:
  fixes f :: "'a \<Rightarrow> 'b :: comm_monoid_add"
  shows "i < length xs \<Longrightarrow> sum_list (map f (xs[i := y])) + f (xs ! i) = sum_list (map f xs) + f y"
proof (induction xs arbitrary: i)
  case (Cons x xs)
  then show ?case by (cases i) (simp_all add: ac_simps)
qed simp

lemma pending_distinct:
  assumes "assigned b \<le> 2 ^ 64"
  shows "count (pending start b) h \<le> 1"
proof -
  have "inj_on (\<lambda>k. u64 (start + int k)) {length (sent b)..<assigned b}"
    using assms u64_add_inj [of start] by (intro inj_onI) simp
  then have "distinct (map (\<lambda>k. u64 (start + int k)) [length (sent b)..<assigned b])"
    by (simp add: distinct_map)
  then show ?thesis unfolding pending_def distinct_count_atmost_1 by simp
qed

lemma pending_next:
  assumes "length (sent b) \<le> assigned b" and "sent b' = sent b" and "assigned b' = Suc (assigned b)"
  shows "pending start b' = add_mset (u64 (start + int (assigned b))) (pending start b)"
  using assms by (simp add: pending_def)

lemma pending_sent:
  assumes "length (sent b) < assigned b"
  shows "pending start b = add_mset (u64 (start + int (length (sent b))))
    (mset (map (\<lambda>k. u64 (start + int k)) [Suc (length (sent b))..<assigned b]))"
  using assms by (simp add: pending_def upt_conv_Cons)

lemma flight_pending:
  assumes "flight_inv start b" and "assigned b \<le> 2 ^ 64" and "JobExit \<notin> set (jobs b)"
  shows "in_flight b = pending start b"
  using assms by (auto simp: flight_inv_def)

lemma flight_distinct:
  assumes "flight_inv start b" and "assigned b \<le> 2 ^ 64"
  shows "count (in_flight b) h \<le> 1" and "distinct (map fst (newBlocksMap b))"
proof -
  from assms obtain lost where "in_flight b + lost = pending start b" by (auto simp: flight_inv_def)
  then have c: "count (in_flight b) h \<le> 1" for h
    using pending_distinct [OF assms(2), of start h] by (metis add_leD1 count_union)
  then show "count (in_flight b) h \<le> 1" .
  have "count (mset (map fst (newBlocksMap b))) h \<le> 1" for h using c [of h] by (simp add: in_flight_def)
  then show "distinct (map fst (newBlocksMap b))"
    unfolding distinct_count_atmost_1 by (auto simp: le_Suc_eq count_mset_0_iff simp del: mset_map)
qed

subsection \<open>The steps keep it\<close>

text \<open>A job that changes its program counter, with the map changed to match.\<close>

lemma in_flight_set_job:
  assumes "i < length (jobs b)"
  shows "in_flight (set_job i p b) + held (jobs b ! i) = in_flight b + held p"
  using sum_list_map_update [OF assms, of held p] by (simp add: in_flight_def ac_simps)

lemma in_flight_cond_signal [simp]: "in_flight (cond_signal b) = in_flight b"
  by (simp add: in_flight_def) (simp add: cond_signal_def split: ann_pc.split)

lemma pending_simps [simp]:
  "pending start (set_job i p b) = pending start b" "pending start (cond_signal b) = pending start b"
  "pending start (b\<lparr>newBlocksMap := m\<rparr>) = pending start b" "pending start (b\<lparr>newBlocksC := q\<rparr>) = pending start b"
  "pending start (b\<lparr>announcer := a\<rparr>) = pending start b"
  by (simp_all add: pending_def)

lemma mset_update_new: "k \<notin> fst ` set al \<Longrightarrow> mset (map fst (AList.update k v al)) = add_mset k (mset (map fst al))"
  by (induction al) auto

lemma mset_delete_old:
  assumes "distinct (map fst al)" and "k \<in> fst ` set al"
  shows "mset (map fst al) = add_mset k (mset (map fst (AList.delete k al)))"
  using assms
proof (induction al)
  case (Cons a al)
  show ?case
  proof (cases "fst a = k")
    case True
    with Cons.prems(1) have "k \<notin> fst ` set al" by simp
    then have "AList.delete k al = al" unfolding AList.delete_eq filter_id_conv by force
    with True show ?thesis by (auto simp: AList.delete_eq split_def)
  qed (use Cons in \<open>auto simp: AList.delete_eq\<close>)
qed simp

lemma held_simps [simp]:
  "held JobNext = {#}" "held (JobTop h) = {#h#}" "held (JobFetching h) = {#h#}" "held (JobStore h d) = {#h#}"
  "held JobThrottled = {#}" "held JobExit = {#}"
  by (simp_all add: held_def)

lemma held_le:
  assumes "i < length (jobs b)"
  shows "held (jobs b ! i) \<subseteq># sum_list (map held (jobs b))"
proof -
  have "sum_list (map held ((jobs b)[i := JobNext])) + held (jobs b ! i) = sum_list (map held (jobs b))"
    using sum_list_map_update [OF assms, of held JobNext] by simp
  then show ?thesis by (metis mset_subset_eq_add_right)
qed

text \<open>A step of a job that keeps what it holds.\<close>

lemma flight_inv_job_keeps:
  assumes "flight_inv start b" and "i < length (jobs b)" and "held p = held (jobs b ! i)"
    and "jobs b ! i \<noteq> JobExit"
  shows "flight_inv start (set_job i p b)"
proof -
  have e: "in_flight (set_job i p b) = in_flight b"
    using in_flight_set_job [OF assms(2), of p] assms(3) by simp
  have "JobExit \<in> set ((jobs b)[i := p])" if "JobExit \<in> set (jobs b)"
    using that assms(4) by (rule exit_update_keep)
  then show ?thesis using assms(1) by (auto simp: flight_inv_def e)
qed

lemma flight_inv_job_exit:
  assumes "flight_inv start b" and "i < length (jobs b)"
  shows "flight_inv start (set_job i JobExit b)"
proof -
  have "in_flight (set_job i JobExit b) + (held (jobs b ! i) + lost) = in_flight b + lost" for lost
    using in_flight_set_job [OF assms(2), of JobExit] by (simp add: ac_simps)
  moreover have "JobExit \<in> set ((jobs b)[i := JobExit])" using assms(2) by (rule set_update_memI)
  ultimately show ?thesis using assms(1) unfolding flight_inv_def by (auto, metis)
qed


lemma flight_inv_next:
  assumes "flight_inv start b" and "direction b = Forward" and "i < length (jobs b)" and "jobs b ! i = JobNext"
  shows "flight_inv start (job_step i r b)"
proof -
  let ?b = "b\<lparr>height := u64 (height b + 1), assigned := Suc (assigned b)\<rparr>"
  let ?b' = "set_job i (JobTop (height b)) ?b"
  have st: "job_step i r b = ?b'" using assms(2,4) by (simp add: job_step_def getHeightToFetch_def)
  have h: "height b = u64 (start + int (assigned b))" using assms(1) by (simp add: flight_inv_def)
  have fl: "in_flight ?b' = add_mset (height b) (in_flight b)"
    using in_flight_set_job [of i ?b "JobTop (height b)"] assms(3,4) by (simp add: in_flight_def)
  have "JobExit \<in> set ((jobs b)[i := p])" if "JobExit \<in> set (jobs b)" for p
    using that assms(4) by (auto intro: exit_update_keep)
  moreover have "pending start ?b' = add_mset (height b) (pending start b)" if "length (sent b) \<le> assigned b"
    using pending_next [OF that, of ?b'] h by simp
  moreover have "height ?b' = u64 (start + int (assigned ?b'))" using h by (simp add: algebra_simps)
  moreover have "sent ?b' = sent b" "assigned ?b' = Suc (assigned b)" "jobs ?b' = (jobs b)[i := JobTop (height b)]" by simp_all
  ultimately show ?thesis
    using assms(1) unfolding st flight_inv_def fl
    by (metis (no_types, lifting) Suc_leD le_SucI union_mset_add_mset_left)
qed

lemma flight_inv_store:
  assumes "flight_inv start b" and "i < length (jobs b)" and "jobs b ! i = JobStore h d" and "held p = {#}"
  shows "flight_inv start (set_job i p (cond_signal (b\<lparr>newBlocksMap := AList.update h d (newBlocksMap b)\<rparr>)))"
proof -
  let ?b = "cond_signal (b\<lparr>newBlocksMap := AList.update h d (newBlocksMap b)\<rparr>)"
  have fl: "in_flight (set_job i p ?b) = in_flight b" if "assigned b \<le> 2 ^ 64"
  proof -
    have "count (sum_list (map held (jobs b))) h \<ge> 1"
      using mset_subset_eq_count [OF held_le [OF assms(2)], of h] assms(3) by simp
    then have "count (mset (map fst (newBlocksMap b))) h = 0"
      using flight_distinct(1) [OF assms(1) that, of h] unfolding in_flight_def count_union by linarith
    then have "h \<notin> fst ` set (newBlocksMap b)" by (simp add: count_mset_0_iff del: mset_map)
    then have "in_flight (b\<lparr>newBlocksMap := AList.update h d (newBlocksMap b)\<rparr>) = add_mset h (in_flight b)"
      by (simp add: in_flight_def mset_update_new del: mset_map)
    then show ?thesis using in_flight_set_job [of i ?b p] assms(2,3,4) by simp
  qed
  have "JobExit \<in> set ((jobs b)[i := p])" if "JobExit \<in> set (jobs b)"
    using that assms(3) by (auto intro: exit_update_keep)
  then show ?thesis using assms(1) fl by (auto simp: flight_inv_def)
qed

lemma job_step_flight:
  assumes "flight_inv start b" and "direction b = Forward" and "i < length (jobs b)"
  shows "flight_inv start (job_step i r b)"
proof (cases "jobs b ! i")
  case JobNext
  then show ?thesis by (rule flight_inv_next [OF assms])
next
  case (JobStore h d)
  then show ?thesis
    using flight_inv_store [OF assms(1,3) JobStore] by (simp add: job_step_def Let_def)
qed (use assms in \<open>auto simp: job_step_def intro: flight_inv_job_keeps flight_inv_job_exit split: job_action.split\<close>)

lemma flight_inv_frame [simp]:
  "flight_inv start (b\<lparr>newBlocksC := x\<rparr>) = flight_inv start b"
  "flight_inv start (b\<lparr>closing := y\<rparr>) = flight_inv start b"
  "flight_inv start (b\<lparr>closeC := y\<rparr>) = flight_inv start b"
  "flight_inv start (b\<lparr>ctxDone := y\<rparr>) = flight_inv start b"
  "flight_inv start (b\<lparr>newBlocksC_closed := y\<rparr>) = flight_inv start b"
  "flight_inv start (cond_signal b) = flight_inv start b"
  by (simp_all add: flight_inv_def in_flight_def pending_def)
    (simp add: cond_signal_def split: ann_pc.split)

text \<open>The announcer takes a block out of the map, and puts it on the channel.\<close>

lemma flight_inv_ann:
  assumes "flight_inv start b" and "announced a = announced (announcer b)"
  shows "flight_inv start (b\<lparr>announcer := a\<rparr>)"
  using assms by (simp add: flight_inv_def in_flight_def)

lemma flight_inv_take:
  assumes "flight_inv start b" and "announcer b = AnnLookup h" and "h \<in> fst ` set (newBlocksMap b)"
  shows "flight_inv start (b\<lparr>newBlocksMap := AList.delete h (newBlocksMap b), announcer := AnnSend h ev\<rparr>)"
proof -
  have "in_flight (b\<lparr>newBlocksMap := AList.delete h (newBlocksMap b), announcer := AnnSend h ev\<rparr>) = in_flight b"
    if "assigned b \<le> 2 ^ 64"
    using mset_delete_old [OF flight_distinct(2) [OF assms(1) that] assms(3)] assms(2)
    by (simp add: in_flight_def del: mset_map)
  then show ?thesis using assms(1) by (auto simp: flight_inv_def pending_def)
qed

lemma flight_inv_send:
  assumes "flight_inv start b" and "announcer b = AnnSend (u64 (start + int (length (sent b)))) ev"
  shows "flight_inv start (b\<lparr>newBlocksC := q, sent := sent b @ [ev], announcer := AnnTop h\<rparr>)"
proof -
  let ?h = "u64 (start + int (length (sent b)))" and ?b = "b\<lparr>newBlocksC := q, sent := sent b @ [ev], announcer := AnnTop h\<rparr>"
  have fl: "in_flight b = add_mset ?h (in_flight ?b)" using assms(2) by (simp add: in_flight_def)
  have "length (sent b) < assigned b \<and> (\<exists>lost. in_flight ?b + lost = pending start ?b \<and> (lost \<noteq> {#} \<longrightarrow> JobExit \<in> set (jobs b)))"
    if "assigned b \<le> 2 ^ 64"
  proof -
    from assms(1) that obtain lost where l: "in_flight b + lost = pending start b" "lost \<noteq> {#} \<longrightarrow> JobExit \<in> set (jobs b)"
      and le: "length (sent b) \<le> assigned b" by (auto simp: flight_inv_def)
    have "pending start b \<noteq> {#}" using l(1) fl by auto
    then have lt: "length (sent b) < assigned b" using le by (auto simp: pending_def)
    have "pending start b = add_mset ?h (pending start ?b)" using pending_sent [OF lt, of start] by (simp add: pending_def)
    then have "in_flight ?b + lost = pending start ?b" using l(1) fl by simp
    then show ?thesis using lt l(2) by blast
  qed
  then show ?thesis using assms(1) by (auto simp: flight_inv_def Suc_le_eq)
qed

lemma announce_step_flight:
  assumes "flight_inv start b" and "getter_inv start b"
  shows "flight_inv start (announce_step b)"
proof (cases "announcer b")
  case (AnnLookup h)
  show ?thesis
  proof (cases "map_of (newBlocksMap b) h")
    case None
    then show ?thesis
      using AnnLookup flight_inv_ann [OF assms(1)] flight_inv_ann [of start "b\<lparr>newBlocksC_closed := True\<rparr>" AnnExit] assms(1)
      by (simp add: announce_step_def ann_exit_def)
  next
    case (Some ev)
    then have "h \<in> fst ` set (newBlocksMap b)" by (force dest: map_of_SomeD)
    then show ?thesis using AnnLookup Some flight_inv_take [OF assms(1) AnnLookup] by (simp add: announce_step_def)
  qed
next
  case (AnnSend h ev)
  then have "h = u64 (start + int (length (sent b)))" "direction b = Forward" using assms(2) by (simp_all add: getter_inv_def)
  then show ?thesis
    using AnnSend assms(1) flight_inv_send [of start b ev] by (simp add: announce_step_def ann_after_send_def)
qed (use assms(1) flight_inv_ann [OF assms(1)] flight_inv_ann [of start "b\<lparr>newBlocksC_closed := True\<rparr>" AnnExit]
      in \<open>simp_all add: announce_step_def ann_exit_def\<close>)

section \<open>No goroutine sleeps over its work\<close>

text \<open>Nothing is closed while the consumer receives; the announcer leaves only when the getter is done;
  and it waits only while the block it waits for is not in the map.\<close>

definition awake :: "('blk, 'res, 'val, 'e) system \<Rightarrow> bool" where
  "awake s \<longleftrightarrow>
     (case s of (b, c) \<Rightarrow>
        (sync_pc c = Receiving \<longrightarrow> \<not> closing b \<and> \<not> closeC b) \<and>
        (\<not> isDone b \<longrightarrow> announcer b \<noteq> AnnExit \<and> \<not> newBlocksC_closed b) \<and>
        (\<forall>h. announcer b = AnnWaiting h \<longrightarrow> map_of (newBlocksMap b) h = None))"

lemma job_step_frame:
  "closing (job_step i r b) = closing b" "closeC (job_step i r b) = closeC b" "ctxDone (job_step i r b) = ctxDone b"
  "newBlocksC_closed (job_step i r b) = newBlocksC_closed b" "length (jobs (job_step i r b)) = length (jobs b)"
  by (auto simp: job_step_def getHeightToFetch_def set_job_def cond_signal_def Let_def
      split: job_pc.splits job_action.splits ann_pc.splits)

lemma announce_step_frame:
  "closing (announce_step b) = closing b" "closeC (announce_step b) = closeC b" "ctxDone (announce_step b) = ctxDone b"
  "jobs (announce_step b) = jobs b"
  by (auto simp: announce_step_def ann_exit_def ann_after_send_def
      split: ann_pc.splits option.splits BlockGetterDirection.splits)

lemma cond_signal_announcer:
  "announcer (cond_signal b) \<noteq> AnnWaiting h" "announcer (cond_signal b) = AnnExit \<longleftrightarrow> announcer b = AnnExit"
  by (auto simp: cond_signal_def split: ann_pc.splits)

lemma job_step_announcer:
  "announcer (job_step i r b) = announcer b \<and> newBlocksMap (job_step i r b) = newBlocksMap b \<or>
    (\<forall>h. announcer (job_step i r b) \<noteq> AnnWaiting h) \<and> (announcer (job_step i r b) = AnnExit \<longleftrightarrow> announcer b = AnnExit)"
proof (cases "jobs b ! i")
  case (JobStore h d)
  then show ?thesis by (simp add: job_step_def Let_def cond_signal_announcer)
qed (auto simp: job_step_def getHeightToFetch_def Let_def split: job_action.splits)

lemma job_step_awake:
  assumes "awake (b, c)"
  shows "awake (job_step i r b, c)"
  using job_step_announcer [of i r b]
  by (elim disjE conjE) (use assms in \<open>simp_all add: awake_def job_step_frame isDone_def\<close>)

lemma announce_step_awake:
  assumes "awake (b, c)" and "direction b = Forward"
  shows "awake (announce_step b, c)"
proof (cases "announcer b")
  case (AnnLookup h)
  then show ?thesis
    using assms(1)
    by (auto simp: awake_def announce_step_def ann_exit_def isDone_def split: option.splits)
qed (use assms in \<open>auto simp: awake_def announce_step_def ann_exit_def ann_after_send_def isDone_def\<close>)

lemma consumer_step_awake:
  assumes "awake (b, c)" and "consumer_step prefer_ctx hr b c = (b', c')"
  shows "awake (b', c')"
proof -
  have "b' = b \<or> (\<exists>q. b' = b\<lparr>newBlocksC := q\<rparr>)" and "sync_pc c' = Receiving \<longrightarrow> sync_pc c = Receiving"
    using assms(2) by (auto simp: consumer_step_def split: if_splits list.splits)
  then show ?thesis using assms(1) by (auto simp: awake_def isDone_def)
qed

lemma close_step_awake: "awake (b, c) \<Longrightarrow> sync_pc c \<noteq> Receiving \<Longrightarrow> awake (close_step b, c)"
  by (auto simp: awake_def close_step_def isDone_def cond_signal_def split: ann_pc.splits)

text \<open>All the invariants of a run of \<open>SyncRange\<close> together.\<close>

definition run_inv :: "int \<Rightarrow> ('blk, 'res, 'val, 'e) system \<Rightarrow> bool" where
  "run_inv start s \<longleftrightarrow> system_inv start s \<and> flight_inv start (fst s) \<and> awake s \<and> jobs (fst s) \<noteq> []"

lemma sync_step_run_inv:
  assumes "sync_step s s'" and "run_inv start s"
  shows "run_inv start s'"
proof -
  have sys: "system_inv start s'" using assms(2) sync_step_inv [OF assms(1)] unfolding run_inv_def by blast
  have "flight_inv start (fst s') \<and> awake s' \<and> jobs (fst s') \<noteq> []"
    using assms(1)
  proof (cases rule: sync_step.cases)
    case (job i b r c)
    have "jobs (job_step i r b) \<noteq> []" using job(3) job_step_frame(5) [of i r b] by (cases "jobs (job_step i r b)") auto
    then show ?thesis
      using job assms(2) job_step_flight [of start b i r] job_step_awake [of b c i r]
      by (simp add: run_inv_def system_inv_def getter_inv_def)
  next
    case (announce b c)
    have g: "getter_inv start b" "direction b = Forward" "flight_inv start b" "awake (b, c)" "jobs b \<noteq> []"
      using assms(2) announce by (auto simp: run_inv_def system_inv_def getter_inv_def)
    show ?thesis
      using announce announce_step_flight [OF g(3,1)] announce_step_awake [OF g(4,2)] g(5) by (simp add: announce_step_frame)
  next
    case (consume prefer_ctx hr b c b' c')
    have "b' = b \<or> (\<exists>q. b' = b\<lparr>newBlocksC := q\<rparr>)"
      using consume(3) by (auto simp: consumer_step_def split: if_splits list.splits)
    then show ?thesis using consume assms(2) consumer_step_awake [of b c] by (auto simp: run_inv_def)
  next
    case (close c b)
    then show ?thesis using assms(2) close_step_awake [of b c] by (auto simp: run_inv_def close_step_def)
  next
    case (cancel b c)
    then show ?thesis using assms(2) by (auto simp: run_inv_def awake_def isDone_def)
  qed
  with sys show ?thesis by (simp add: run_inv_def)
qed

lemma reachable_run_inv: "sync_step\<^sup>*\<^sup>* s s' \<Longrightarrow> run_inv start s \<Longrightarrow> run_inv start s'"
  by (induction rule: rtranclp_induct) (auto intro: sync_step_run_inv)

lemma SyncRange_run_inv:
  assumes "0 \<le> start" and "start \<le> en" and "en < maxInt64"
  shows "run_inv start (SyncRange n start en gaps vals)"
proof -
  have "is_i64 start" using assms by (simp add: is_i64_def minInt64_def)
  then have "system_inv start (SyncRange n start en gaps vals)" by (rule SyncRange_init)
  moreover have "sum_list (replicate k {#}) = {#}" for k by (induction k) auto
  ultimately show ?thesis
    using assms
    by (auto simp: run_inv_def SyncRange_def flight_inv_def in_flight_def pending_def awake_def newBlockGetter_def
        NewSyncer_jobs_def start_sync_def Let_def isDone_def)
qed

section \<open>Progress\<close>

definition healthy :: "int \<Rightarrow> int \<Rightarrow> ('blk, 'res, 'val, 'e) system \<Rightarrow> bool" where
  "healthy start en s \<longleftrightarrow> run_inv start s \<and>
     (case s of (b, c) \<Rightarrow>
        sync_pc c = Receiving \<and> \<not> ctxDone b \<and> JobExit \<notin> set (jobs b) \<and> assigned b \<le> 2 ^ 64 \<and>
        sync_end c = Some en \<and> start + int (length (consumed c)) \<le> en + 1)"

text \<open>How far the getter is from sending the next block: the announcer has it, it is in the map, or the
  jobs have to bring it.\<close>

fun job_rank :: "('blk, 'res, 'val) job_pc \<Rightarrow> nat" where
  "job_rank (JobStore h d) = 0"
| "job_rank (JobFetching h) = 1"
| "job_rank (JobTop h) = 2"
| "job_rank JobNext = 3"
| "job_rank JobThrottled = 4"
| "job_rank JobExit = 5"

definition needed :: "int \<Rightarrow> ('blk, 'res, 'val) blockGetter \<Rightarrow> int" where
  "needed start b = u64 (start + int (length (sent b)))"

definition stage :: "int \<Rightarrow> ('blk, 'res, 'val) blockGetter \<Rightarrow> nat" where
  "stage start b =
     (case announcer b of
        AnnSend h d \<Rightarrow> 0
      | a \<Rightarrow> if map_of (newBlocksMap b) (needed start b) \<noteq> None then (case a of AnnLookup h \<Rightarrow> 1 | _ \<Rightarrow> 2)
            else 3 + sum_list (map job_rank (jobs b)))"

lemma job_rank_update:
  assumes "i < length js" and "job_rank p < job_rank (js ! i)"
  shows "sum_list (map job_rank (js[i := p])) < sum_list (map job_rank js)"
  using sum_list_map_update [OF assms(1), of job_rank p] assms(2) by simp

text \<open>When the next block is neither with the announcer nor in the map, some job can move towards it.\<close>

lemma missing_block:
  assumes "flight_inv start b" and "assigned b \<le> 2 ^ 64" and "JobExit \<notin> set (jobs b)" and "jobs b \<noteq> []"
    and "announced (announcer b) = {#}" and "map_of (newBlocksMap b) (needed start b) = None"
  obtains (held) i where "i < length (jobs b)" "job_height (jobs b ! i) = Some (needed start b)"
  | (free) i where "i < length (jobs b)" "newBlocksMap b = []" "assigned b = length (sent b)" "jobs b ! i \<in> {JobNext, JobThrottled}"
proof -
  have fl: "in_flight b = pending start b" by (rule flight_pending [OF assms(1-3)])
  have le: "length (sent b) \<le> assigned b" using assms(1,2) by (simp add: flight_inv_def)
  show thesis
  proof (cases "length (sent b) = assigned b")
    case True
    then have e: "in_flight b = {#}" using fl by (simp add: pending_def)
    have i: "0 < length (jobs b)" using assms(4) by simp
    then have "held (jobs b ! 0) = {#}" using held_le [OF i] e by (simp add: in_flight_def)
    then have "jobs b ! 0 \<in> {JobNext, JobThrottled}"
      using nth_mem [OF i] assms(3) by (cases "jobs b ! 0") auto
    moreover have "newBlocksMap b = []" using e by (simp add: in_flight_def)
    ultimately show thesis using free [OF i] True by simp
  next
    case False
    then have lt: "length (sent b) < assigned b" using le by simp
    have "needed start b \<in># in_flight b" unfolding fl pending_sent [OF lt] needed_def by simp
    moreover have "needed start b \<notin># mset (map fst (newBlocksMap b))"
      using assms(6) by (simp add: map_of_eq_None_iff)
    ultimately have "needed start b \<in># sum_list (map held (jobs b))" using assms(5) by (simp add: in_flight_def)
    then obtain p where p: "p \<in> set (jobs b)" "needed start b \<in># held p" by auto
    then obtain i where "i < length (jobs b)" "jobs b ! i = p" by (auto simp: in_set_conv_nth)
    then show thesis using held [of i] p(2) by (cases p) auto
  qed
qed

lemma map_of_update: "map_of (AList.update k v al) k = Some v"
  by (simp add: update_conv')

lemma job_moves:
  assumes "flight_inv start b" and "assigned b \<le> 2 ^ 64" and "JobExit \<notin> set (jobs b)" and "jobs b \<noteq> []"
    and "announced (announcer b) = {#}" and "map_of (newBlocksMap b) (needed start b) = None"
    and "\<not> isDone b" and "direction b = Forward" and "length (sent b) < 2 ^ 64" and "announcer b \<noteq> AnnExit"
  obtains i r where "i < length (jobs b)"
    "\<forall>h. jobs b ! i = JobFetching h \<longrightarrow> (\<exists>rb rr rv. r \<in> set (fetchBlockByNum (fetchValidators b) h rb rr rv))"
    "JobExit \<notin> set (jobs (job_step i r b))" "assigned (job_step i r b) \<le> 2 ^ 64" "stage start (job_step i r b) < stage start b"
proof -
  have st: "stage start b = 3 + sum_list (map job_rank (jobs b))" using assms(5,6) by (cases "announcer b") (simp_all add: stage_def)
  have upd: "JobExit \<notin> set ((jobs b)[i := p])" if "p \<noteq> JobExit" for i p
    using that assms(3) set_update_subset_insert [of "jobs b" i p] by auto
  have rank: "stage start b' < stage start b"
    if "announcer b' = announcer b" "newBlocksMap b' = newBlocksMap b" "sent b' = sent b" "jobs b' = (jobs b)[i := p]"
      "i < length (jobs b)" "job_rank p < job_rank (jobs b ! i)" for b' i p
  proof -
    have "stage start b' = 3 + sum_list (map job_rank (jobs b'))"
      using assms(5,6) that by (cases "announcer b") (simp_all add: stage_def needed_def)
    then show ?thesis using st that(4) job_rank_update [OF that(5,6)] by simp
  qed
  note js = job_step_def getHeightToFetch_def Let_def
  consider (held) i where "i < length (jobs b)" "job_height (jobs b ! i) = Some (needed start b)"
    | (free) i where "i < length (jobs b)" "newBlocksMap b = []" "assigned b = length (sent b)" "jobs b ! i \<in> {JobNext, JobThrottled}"
    by (rule missing_block [OF assms(1-6)])
  then show thesis
  proof cases
    case (held i)
    show thesis
    proof (cases "jobs b ! i")
      case (JobTop h)
      then have s: "job_step i (Inl CtxErr) b = set_job i (JobFetching h) b" using assms(7) by (simp add: js)
      show thesis using that [of i "Inl CtxErr"] held(1) JobTop assms(2) upd rank [of "set_job i (JobFetching h) b" i "JobFetching h"] by (simp add: s)
    next
      case (JobFetching h)
      have "\<exists>r rb rr rv d. r \<in> set (fetchBlockByNum (fetchValidators b) h rb rr rv) \<and> job_step i r b = set_job i (JobStore h d) b"
        using JobFetching
        by (intro exI [of _ "Inr _"] exI [of _ "Inr undefined"] exI [of _ "Inr []"] exI conjI)
          (auto simp: js fetchBlockByNum_def errors_of_def after_fetch_def)
      then obtain r rb rr rv d where r: "r \<in> set (fetchBlockByNum (fetchValidators b) h rb rr rv)"
        and s: "job_step i r b = set_job i (JobStore h d) b" by blast
      have "\<forall>h. jobs b ! i = JobFetching h \<longrightarrow> (\<exists>rb rr rv. r \<in> set (fetchBlockByNum (fetchValidators b) h rb rr rv))"
        using JobFetching r by auto
      then show thesis
        using that [OF held(1), of r] JobFetching held(1) assms(2) upd rank [of "set_job i (JobStore h d) b" i "JobStore h d"] by (simp add: s)
    next
      case (JobStore h d)
      then have h: "h = needed start b" using held(2) by simp
      obtain p where p: "p \<noteq> JobExit" and s: "job_step i (Inl CtxErr) b = set_job i p (cond_signal (b\<lparr>newBlocksMap := AList.update h d (newBlocksMap b)\<rparr>))"
        using JobStore that [of "if tooFarFromHead (cond_signal (b\<lparr>newBlocksMap := AList.update h d (newBlocksMap b)\<rparr>)) then JobThrottled else JobNext"]
        by (simp add: js)
      have "stage start (job_step i (Inl CtxErr) b) \<le> 2"
        unfolding s using assms(5,10) h by (cases "announcer b") (simp_all add: stage_def needed_def cond_signal_def map_of_update)
      then show thesis using that [of i "Inl CtxErr"] held(1) JobStore assms(2) upd [OF p] st by (simp add: s)
    qed (use held(2) in simp_all)
  next
    case (free i)
    show thesis
    proof (cases "jobs b ! i = JobNext")
      case True
      let ?b = "set_job i (JobTop (height b)) (b\<lparr>height := u64 (height b + 1), assigned := Suc (assigned b)\<rparr>)"
      have s: "job_step i (Inl CtxErr) b = ?b" using True assms(8) by (simp add: js)
      show thesis using that [of i "Inl CtxErr"] free(1,3) True assms(9) upd rank [of ?b i "JobTop (height b)"] by (simp add: s)
    next
      case False
      then have "jobs b ! i = JobThrottled" using free(4) by simp
      moreover from this have s: "job_step i (Inl CtxErr) b = set_job i JobNext b" using free(2) by (simp add: js tooFarFromHead_def)
      ultimately show thesis using that [of i "Inl CtxErr"] free(1) assms(2) upd rank [of "set_job i JobNext b" i JobNext] by (simp add: s)
    qed
  qed
qed

text \<open>A step that keeps the getter healthy.\<close>

lemma healthy_step:
  assumes "healthy start en (b, c)" and "sync_step (b, c) (b', c')" and "0 \<le> start" and "en < maxInt64"
    and "sync_pc c' = Receiving" and "\<not> ctxDone b'" and "JobExit \<notin> set (jobs b')" and "assigned b' \<le> 2 ^ 64"
  shows "healthy start en (b', c')"
  using assms sync_step_run_inv [OF assms(2), of start] sync_step_bound [OF assms(2), of start en]
  by (auto simp: healthy_def run_inv_def)

lemma next_block_sent:
  assumes "healthy start en (b, c)" and "newBlocksC b = []" and "start + int (length (consumed c)) \<le> en"
    and "0 \<le> start" and "en < maxInt64"
  shows "\<exists>b'. sync_step (b, c) (b', c) \<and> healthy start en (b', c) \<and> (newBlocksC b' = [] \<longrightarrow> stage start b' < stage start b)"
proof -
  note hs = healthy_step [OF assms(1) _ assms(4,5)]
  have h: "sync_pc c = Receiving" "\<not> ctxDone b" "JobExit \<notin> set (jobs b)" "assigned b \<le> 2 ^ 64" "jobs b \<noteq> []" "flight_inv start b"
    and inv: "getter_inv start b" "awake (b, c)" and sent: "sent b = consumed c"
    using assms(1,2) by (auto simp: healthy_def run_inv_def system_inv_def)
  have nd: "\<not> isDone b" "announcer b \<noteq> AnnExit" and fwd: "direction b = Forward"
    and ok: "ann_ok (allowGaps b) (start + int (length (sent b))) (announcer b)"
    using h(1,2) inv by (auto simp: awake_def isDone_def getter_inv_def)
  have len: "length (sent b) < 2 ^ 64" using assms(3-5) sent by (simp add: maxInt64_def)
  have ann: ?thesis if "newBlocksC (announce_step b) = [] \<Longrightarrow> stage start (announce_step b) < stage start b"
      "assigned (announce_step b) = assigned b"
    using that hs [of "announce_step b" c] h sync_step.announce [of b c] announce_step_frame [of b] by metis
  show ?thesis
  proof (cases "announced (announcer b) = {#} \<and> map_of (newBlocksMap b) (needed start b) = None")
    case True
    from job_moves [OF h(6,4,3,5) conjunct1 [OF True] conjunct2 [OF True] nd(1) fwd len nd(2)] obtain i r where
      j: "i < length (jobs b)" "\<forall>h. jobs b ! i = JobFetching h \<longrightarrow> (\<exists>rb rr rv. r \<in> set (fetchBlockByNum (fetchValidators b) h rb rr rv))"
        "JobExit \<notin> set (jobs (job_step i r b))" "assigned (job_step i r b) \<le> 2 ^ 64" "stage start (job_step i r b) < stage start b" .
    note st = sync_step.job [OF j(1,2)]
    have "healthy start en (job_step i r b, c)" using hs [OF st h(1) _ j(3,4)] h(2) by (simp add: job_step_frame)
    then show ?thesis using st j(5) by blast
  next
    case False
    then show ?thesis
      using ok nd fwd h(5) assms(2) inv(2)
      by (intro ann; cases "announcer b")
        (auto simp: announce_step_def ann_after_send_def stage_def needed_def awake_def split: option.split)
  qed
qed

lemma next_block_received:
  assumes "healthy start en (b, c)" and "newBlocksC b \<noteq> []" and "start + int (length (consumed c)) \<le> en"
    and "0 \<le> start" and "en < maxInt64"
  shows "\<exists>b' c'. sync_step (b, c) (b', c') \<and> healthy start en (b', c') \<and> length (consumed c') = Suc (length (consumed c))"
proof -
  obtain d rest where q: "newBlocksC b = d # rest" using assms(2) by (cases "newBlocksC b") auto
  have h: "sync_pc c = Receiving" "\<not> ctxDone b" "JobExit \<notin> set (jobs b)" "assigned b \<le> 2 ^ 64" "sync_end c = Some en"
    and inv: "getter_inv start b" "consumer_inv start c" "sent b = consumed c @ newBlocksC b"
    using assms(1) by (auto simp: healthy_def run_inv_def system_inv_def)
  have "is_i64 (start + int (length (consumed c)))" using assms(3-5) by (simp add: is_i64_def minInt64_def)
  then have e: "expected c = start + int (length (consumed c))" using inv(2) h(1) by (simp add: consumer_inv_def caught_up_def)
  have "blocks_from (allowGaps b) start ((consumed c @ [d]) @ rest)" using inv(1,3) q by (simp add: getter_inv_def)
  from blocks_from_prefix [OF this] have "Height d = i64 (start + int (length (consumed c)))"
    by (simp add: blocks_from_append block_at_def)
  then have hd: "Height d = expected c" using e inv(2) h(1) by (simp add: consumer_inv_def caught_up_def)
  have st: "consumer_step False None b c = (b\<lparr>newBlocksC := rest\<rparr>, sync_block None d c)"
    using h q e assms(3) by (simp add: consumer_step_def in_range_def)
  have "sync_pc (sync_block None d c) = Receiving" using h(1) hd by (simp add: sync_block_def Let_def)
  then have "healthy start en (b\<lparr>newBlocksC := rest\<rparr>, sync_block None d c)"
    using h by (intro healthy_step [OF assms(1) sync_step.consume [OF st] assms(4,5)]) simp_all
  then show ?thesis using sync_step.consume [OF st] sync_block_frame(2) [of None d c] by fastforce
qed

lemma block_received:
  assumes "healthy start en (b, c)" and "start + int (length (consumed c)) \<le> en" and "0 \<le> start" and "en < maxInt64"
  shows "\<exists>b' c'. sync_step\<^sup>*\<^sup>* (b, c) (b', c') \<and> healthy start en (b', c') \<and> length (consumed c') = Suc (length (consumed c))"
  using assms(1)
proof (induction "stage start b" arbitrary: b rule: less_induct)
  case less
  show ?case
  proof (cases "newBlocksC b = []")
    case False
    from next_block_received [OF less.prems False assms(2-4)] show ?thesis by blast
  next
    case True
    from next_block_sent [OF less.prems True assms(2-4)] obtain b1 where
      b1: "sync_step (b, c) (b1, c)" "healthy start en (b1, c)" "newBlocksC b1 = [] \<longrightarrow> stage start b1 < stage start b" by blast
    have "\<exists>b' c'. sync_step\<^sup>*\<^sup>* (b1, c) (b', c') \<and> healthy start en (b', c') \<and> length (consumed c') = Suc (length (consumed c))"
      using less.hyps [OF _ b1(2)] b1(3) next_block_received [OF b1(2) _ assms(2-4)] by blast
    then show ?thesis using b1(1) by (meson converse_rtranclp_into_rtranclp)
  qed
qed

lemma range_finishes:
  assumes "healthy start en (b, c)" and "0 \<le> start" and "en < maxInt64"
  shows "\<exists>b' c'. sync_step\<^sup>*\<^sup>* (b, c) (b', c') \<and> sync_pc c' = Returned None \<and> \<not> ctxDone b'"
  using assms(1)
proof (induction "nat (en + 1 - start) - length (consumed c)" arbitrary: b c)
  case 0
  have h: "sync_pc c = Receiving" "\<not> ctxDone b" "sync_end c = Some en" "start + int (length (consumed c)) \<le> en + 1" "consumer_inv start c"
    using 0(2) by (auto simp: healthy_def run_inv_def system_inv_def)
  have l: "start + int (length (consumed c)) = en + 1" using 0(1) h(4) by simp
  then have "is_i64 (start + int (length (consumed c)))" using assms(2,3) by (simp add: is_i64_def minInt64_def)
  then have "expected c = en + 1" using h(1,5) l by (simp add: consumer_inv_def caught_up_def)
  then have "consumer_step False None b c = (b, sync_return None c)" using h by (simp add: consumer_step_def in_range_def)
  from sync_step.consume [OF this] h(2) show ?case using sync_return_simps(3) [of None c] by blast
next
  case (Suc n)
  then have "start + int (length (consumed c)) \<le> en" by simp
  from block_received [OF Suc(3) this assms(2,3)] obtain b1 c1 where
    s: "sync_step\<^sup>*\<^sup>* (b, c) (b1, c1)" "healthy start en (b1, c1)" "length (consumed c1) = Suc (length (consumed c))" by blast
  have "n = nat (en + 1 - start) - length (consumed c1)" using Suc(2) s(3) by simp
  from Suc(1) [OF this s(2)] s(1) show ?case by (meson rtranclp_trans)
qed

section \<open>Properties\<close>

text \<open>C5: \<open>SyncRange\<close> cannot get stuck. Take any state it can reach in which it has not returned, the
  context is not done and no job has left: whatever the goroutines have done so far, however many
  requests failed, whoever waits on the condition or is throttled, the run can still go on, without
  cancellation, to a successful return with every height of the range taken in order. The range ends below the
  largest 64-bit height, and at most \<open>2 ^ 64\<close> heights have been assigned.\<close>

theorem SyncRange_can_finish:
  fixes c :: "('blk, 'res, 'val, 'e) Sync"
  assumes "0 \<le> start" and "start \<le> en" and "en < maxInt64"
    and "sync_step\<^sup>*\<^sup>* (SyncRange n start en gaps vals) (b, c)"
    and "sync_pc c = Receiving" and "\<not> ctxDone b" and "JobExit \<notin> set (jobs b)" and "assigned b \<le> 2 ^ 64"
  shows "\<exists>b' c'. sync_step\<^sup>*\<^sup>* (b, c) (b', c') \<and> sync_pc c' = Returned None \<and> \<not> ctxDone b' \<and> map Height (consumed c') = [start..en]"
proof -
  obtain b0 and c0 :: "('blk, 'res, 'val, 'e) Sync" where s0: "SyncRange n start en gaps vals = (b0, c0)" by force
  have inv0: "run_inv start (b0, c0)" unfolding s0 [symmetric] by (rule SyncRange_run_inv [OF assms(1-3)])
  have c0: "sync_end c0 = Some en" "consumed c0 = []" using s0 assms(1,2) by (auto simp: SyncRange_def start_sync_def Let_def)
  have "run_inv start (b, c)" by (rule reachable_run_inv [OF assms(4) [unfolded s0] inv0])
  moreover have "system_inv start (b0, c0)" using inv0 by (simp add: run_inv_def)
  ultimately have "healthy start en (b, c)"
    using assms(5-8) reachable_bound [OF assms(4) [unfolded s0] _ c0(1) assms(1,3)] c0(2) assms(2) by (simp add: healthy_def)
  from range_finishes [OF this assms(1,3)] obtain b' and c' :: "('blk, 'res, 'val, 'e) Sync" where
    f: "sync_step\<^sup>*\<^sup>* (b, c) (b', c')" "sync_pc c' = Returned None" "\<not> ctxDone b'" by blast
  have "sync_step\<^sup>*\<^sup>* (SyncRange n start en gaps vals) (b', c')" using assms(4) f(1) by (rule rtranclp_trans)
  with f show ?thesis using SyncRange_reach [OF assms(1-3)] by blast
qed

definition stalled_moves :: "(int, int, int, int) sync_move list" where
  "stalled_moves = [AnnounceMove, AnnounceMove, JobMove 0 (Inr 30) (Inr 31) (Inr []), JobMove 0 (Inr 30) (Inr 31) (Inr []),
     JobMove 0 (Inl ErrBlockUnavailable) (Inr 31) (Inr [])]"

theorem SyncRange_can_finish_witness:
  "(let (b, c) = fold do_move stalled_moves (SyncRange 1 3 4 False False)
    in announcer b = AnnWaiting 3 \<and> jobs b = [JobTop 3] \<and> (\<exists>b' c'. sync_step\<^sup>*\<^sup>* (b, c) (b', c') \<and> map Height (consumed c') = [3..4]))"
proof -
  let ?s = "fold do_move stalled_moves (SyncRange 1 3 4 False False)"
  obtain b c where r: "?s = (b, c)" by force
  have "announcer (fst ?s) = AnnWaiting 3" "jobs (fst ?s) = [JobTop 3]" "\<not> ctxDone (fst ?s)" "assigned (fst ?s) = 1"
    "sync_pc (snd ?s) = Receiving" by code_simp+
  then have f: "announcer b = AnnWaiting 3" "jobs b = [JobTop 3]" "\<not> ctxDone b" "assigned b = 1" "sync_pc c = Receiving" by (simp_all add: r)
  have reach: "sync_step\<^sup>*\<^sup>* (SyncRange 1 3 4 False False) (b, c)" unfolding r [symmetric] by (rule moves_reachable)
  have range: "(0 :: int) \<le> 3" "(3 :: int) \<le> 4" "4 < maxInt64" by (simp_all add: maxInt64_def)
  have "JobExit \<notin> set (jobs b)" "assigned b \<le> 2 ^ 64" using f by simp_all
  from SyncRange_can_finish [OF range reach f(5,3) this] have "\<exists>b' c'. sync_step\<^sup>*\<^sup>* (b, c) (b', c') \<and> map Height (consumed c') = [3..4]" by blast
  with f show ?thesis by (simp add: r)
qed

end
