(* ===== verification/Chain_Types.thy ===== *)
theory Chain_Types
  imports Go_Strings
begin

text \<open>
  The data the gateway passes around: ABCI events and results, Ethereum logs and transactions, the
  RPC shapes of \<open>internal/evm/rpc/types\<close> and \<open>internal/evm/rpc/virtual\<close>, and the functions of
  third-party packages the gateway calls, as the fields of the two records \<open>Eth_Lib\<close>
  (go-ethereum) and \<open>Chain_Lib\<close> (CometBFT, the Cosmos SDK and the Injective SDK). A value of a
  third-party type is a record of what its accessors return. A pointer that may be nil is an
  option, also inside slices (\<open>[]*RPCLog\<close> is a list of options); slices are lists, so that a nil
  and an empty slice are the same value.
\<close>

section \<open>Errors\<close>

text \<open>Go errors: an error made on the spot, a wrapped one, the sentinels, a block parse error with
  its cause, and a joined error. The text of an error is kept without its formatted arguments.\<close>

datatype sentinel = ErrBlockParse | ErrCacheMiss | Canceled

datatype go_error =
    Errorf string
  | Sentinel sentinel
  | Wrap go_error string
  | BlockParse string "go_error option"
  | Joined go_error go_error

text \<open>\<open>errors.Is\<close>, following \<open>Unwrap\<close> and the \<open>Is\<close> method of \<open>blockParseError\<close>.\<close>

fun errors_Is :: "go_error \<Rightarrow> sentinel \<Rightarrow> bool" where
  "errors_Is (Errorf m) t = False"
| "errors_Is (Sentinel s) t = (s = t)"
| "errors_Is (Wrap e m) t = errors_Is e t"
| "errors_Is (BlockParse m None) t = (t = ErrBlockParse)"
| "errors_Is (BlockParse m (Some e)) t = (t = ErrBlockParse \<or> errors_Is e t)"
| "errors_Is (Joined p s) t = (errors_Is p t \<or> errors_Is s t)"

definition newBlockParseError :: "go_error option \<Rightarrow> string \<Rightarrow> go_error" where
  "newBlockParseError err msg = BlockParse msg err"

definition newCacheMiss :: "string \<Rightarrow> go_error" where
  "newCacheMiss msg = Wrap (Sentinel ErrCacheMiss) msg"

section \<open>ABCI and CometBFT data\<close>

record EventAttribute =
  Key :: string
  Val :: string
  Indexed :: bool

record Event =
  EvType :: string
  Attributes :: "EventAttribute list"

record ExecTxResult =
  Code :: int
  Data :: bytes
  GasUsed :: int
  Events :: "Event list"
  Codespace :: string
  Log :: string

text \<open>\<open>cmtypes.Block\<close> with what \<open>Hash()\<close> and \<open>Size()\<close> return, the time as Unix seconds, and
  \<open>coretypes.ResultBlockResults\<close>.\<close>

record Header =
  h_Height :: int
  h_Hash :: bytes
  h_LastBlockID :: bytes
  h_AppHash :: bytes
  h_DataHash :: bytes
  h_ProposerAddress :: bytes
  h_Time :: int

record Block =
  b_Header :: Header
  b_Txs :: "bytes list"
  b_Hash :: bytes
  b_Size :: int

record ResultBlockResults =
  br_Height :: int
  br_TxResults :: "ExecTxResult option list"
  br_FinalizeBlockEvents :: "Event list"

section \<open>Ethereum data\<close>

text \<open>\<open>ethtypes.Log\<close>.\<close>

record EthLog =
  log_Address :: address
  log_Topics :: "hash list"
  log_Data :: bytes
  log_BlockNumber :: int
  log_TxHash :: hash
  log_TxIndex :: int
  log_BlockHash :: hash
  log_Index :: int
  log_Removed :: bool

text \<open>A log with address, topics and data only; Go sets the other fields to their zero values.\<close>

definition plain_log :: "address \<Rightarrow> hash list \<Rightarrow> bytes \<Rightarrow> EthLog" where
  "plain_log a ts d =
     \<lparr>log_Address = a, log_Topics = ts, log_Data = d, log_BlockNumber = 0, log_TxHash = 0, log_TxIndex = 0,
      log_BlockHash = 0, log_Index = 0, log_Removed = False\<rparr>"

record RPCLog =
  Address :: address
  Topics :: "hash list"
  LData :: bytes
  BlockNumber :: int
  TxHash :: hash
  TxIndex :: int
  BlockHash :: hash
  Index :: int
  Removed :: bool
  Virtual :: bool
  CosmosHash :: "hash option"
  CosmosMsgIndex :: "int option"

record AccessTuple =
  acc_Address :: address
  acc_StorageKeys :: "hash list"

text \<open>\<open>ethtypes.Transaction\<close>, \<open>ethtypes.Signer\<close>, and the messages of a Cosmos transaction:
  \<open>MsgEthereumTx\<close> with its methods, or any other message. \<open>GetExtensionOptions\<close> gives type URLs
  and is \<open>None\<close> for a transaction without that method.\<close>

record EthTx =
  et_Type :: int
  et_Protected :: bool
  et_ChainId :: int
  et_Gas :: int
  et_GasPrice :: int
  et_GasFeeCap :: int
  et_GasTipCap :: int
  et_Hash :: hash
  et_Data :: bytes
  et_Nonce :: int
  et_To :: "address option"
  et_Value :: int
  et_V :: int
  et_R :: int
  et_S :: int
  et_AccessList :: "AccessTuple list"

datatype Signer = LatestSignerForChainID int | FrontierSigner

record MsgEthereumTx =
  GetGas :: int
  EthMsg_Hash :: hash
  AsTransaction :: "EthTx option"
  GetSenderLegacy :: "Signer \<Rightarrow> go_error + address"

datatype Msg = EthereumMsg MsgEthereumTx | OtherMsg string

record SdkTx =
  GetMsgs :: "Msg list"
  GetExtensionOptions :: "string list option"

text \<open>\<open>rpctypes.RPCTransaction\<close>; the \<open>hexutil\<close> integer types are integers.\<close>

record RPCTransaction =
  tx_BlockHash :: "hash option"
  tx_BlockNumber :: "int option"
  tx_From :: address
  tx_Gas :: int
  tx_GasPrice :: "int option"
  tx_GasFeeCap :: "int option"
  tx_GasTipCap :: "int option"
  tx_Hash :: hash
  tx_Input :: bytes
  tx_Nonce :: int
  tx_To :: "address option"
  tx_TransactionIndex :: "int option"
  tx_Value :: "int option"
  tx_Type :: int
  tx_Accesses :: "AccessTuple list option"
  tx_ChainID :: "int option"
  tx_V :: "int option"
  tx_R :: "int option"
  tx_S :: "int option"
  tx_Virtual :: bool
  tx_CosmosHash :: "hash option"
  tx_CosmosMsgIndex :: "int option"

text \<open>\<open>virtual.Receipt\<close> and \<open>virtual.Tx\<close>.\<close>

record Receipt =
  r_Status :: int
  r_CumulativeGasUsed :: int
  r_GasUsed :: int
  r_Reason :: string
  r_VMError :: string
  r_Logs :: "RPCLog option list"
  r_TransactionHash :: hash
  r_BlockHash :: hash
  r_BlockNumber :: int
  r_TransactionIndex :: int
  r_EffectiveGasPrice :: "int option"
  r_From :: address
  r_To :: "address option"
  r_Type :: int

record VirtualTx =
  Transaction :: RPCTransaction
  TxReceipt :: Receipt

section \<open>Third-party functions\<close>

text \<open>\<open>evmtypes.Log\<close> and \<open>evmtypes.EventIBCHookCall\<close> of the Injective SDK.\<close>

record EvmLog =
  el_Address :: string
  el_Topics :: "string list"
  el_Data :: bytes

record EventIBCHookCall =
  ev_DestinationPort :: string
  ev_DestinationChannel :: string
  ev_Sequence :: int
  ev_Contract :: string
  ev_Input :: bytes
  ev_Success :: bool
  ev_ReturnData :: bytes
  ev_Error :: string
  ev_GasUsed :: int
  ev_Logs :: "EvmLog option list"

text \<open>go-ethereum: hashing, hex encodings, ABI packing of the two argument lists the gateway uses.\<close>

record Eth_Lib =
  Keccak256Hash :: "bytes \<Rightarrow> hash"
  IsHexAddress :: "string \<Rightarrow> bool"
  HexToAddress :: "string \<Rightarrow> address"
  Address_Hex :: "address \<Rightarrow> string"
  HexToHash :: "string \<Rightarrow> hash"
  Hash_Hex :: "hash \<Rightarrow> string"
  FromHex :: "string \<Rightarrow> bytes"
  hexutil_Decode :: "string \<Rightarrow> go_error + bytes"
  hexutil_Encode :: "bytes \<Rightarrow> string"
  DecodeBig :: "string \<Rightarrow> go_error + int"
  EncodeBig :: "int \<Rightarrow> string"
  Pack_denomAmount :: "string \<Rightarrow> int \<Rightarrow> go_error + bytes"
  Pack_summary :: "string \<Rightarrow> string \<Rightarrow> int \<Rightarrow> bool \<Rightarrow> bytes \<Rightarrow> string \<Rightarrow> go_error + bytes"
  CreateAddress :: "address \<Rightarrow> int \<Rightarrow> address"
  EmptyRootHash :: hash
  EmptyUncleHash :: hash
  BytesToBloom :: "bytes \<Rightarrow> bytes"

text \<open>The protobuf messages of a transaction response: \<open>sdk.TxMsgData\<close>, \<open>codectypes.Any\<close>,
  \<open>evmtypes.MsgEthereumTxResponse\<close> and its logs, each with the fields the gateway reads or writes and
  the others together in one field; and the JSON error the EVM module writes into the ABCI log.\<close>

record AnyMsg =
  TypeUrl :: string
  Value :: bytes

record TxMsgData =
  MsgResponses :: "AnyMsg list"
  md_rest :: bytes

record RespLog =
  rl_TxIndex :: int
  rl_Index :: int
  rl_rest :: bytes

record MsgEthereumTxResponse =
  resp_Logs :: "RespLog list"
  resp_rest :: bytes

record abciLogVMError =
  vm_Hash :: string
  vm_GasUsed :: int
  vm_Reason :: string
  vm_VMError :: string

text \<open>\<open>chaintypes.TxResult\<close> of the Injective SDK.\<close>

record TxResult =
  tr_Height :: int
  tr_TxIndex :: int
  tr_MsgIndex :: int
  tr_EthTxIndex :: int
  tr_Failed :: bool
  tr_GasUsed :: int
  tr_CumulativeGasUsed :: int

text \<open>\<open>coretypes.ResultTx\<close>, a transaction found by CometBFT.\<close>

record ResultTx =
  rt_Height :: int
  rt_Index :: int
  rt_TxResult :: ExecTxResult
  rt_Tx :: bytes

text \<open>CometBFT, Cosmos SDK, ibc-go and the Injective SDK. \<open>ParseTypedEvent\<close> is \<open>Inr None\<close> when the
  event decodes to another type; \<open>NewDec_RoundInt\<close> is \<open>LegacyNewDecFromStr\<close> followed by
  \<open>RoundInt\<close>.\<close>

record Chain_Lib =
  Tx_Hash :: "bytes \<Rightarrow> bytes"
  ParseCoinsNormalized :: "string \<Rightarrow> go_error + (string \<times> int) list"
  Bech32_Decode :: "string \<Rightarrow> go_error + bytes"
  ParseTypedEvent :: "Event \<Rightarrow> go_error + EventIBCHookCall option"
  ErrorAttributeKeyPrefix :: string
  IBCHookCallerAddressHex :: string
  LogsBloom_of :: "EthLog list \<Rightarrow> bytes"
  Merkle_Hash :: "bytes list \<Rightarrow> bytes"
  EffectiveGasPrice_of :: "int \<Rightarrow> int \<Rightarrow> int \<Rightarrow> int"
  TxDecoder :: "bytes \<Rightarrow> go_error + SdkTx"
  DecodeMsgLogs :: "bytes \<Rightarrow> int \<Rightarrow> int \<Rightarrow> go_error + EthLog option list"
  NewDec_RoundInt :: "string \<Rightarrow> go_error + int"
  Unmarshal_TxMsgData :: "bytes \<Rightarrow> go_error + TxMsgData"
  Marshal_TxMsgData :: "TxMsgData \<Rightarrow> go_error + bytes"
  Unmarshal_Response :: "bytes \<Rightarrow> go_error + MsgEthereumTxResponse"
  Marshal_Response :: "MsgEthereumTxResponse \<Rightarrow> go_error + bytes"
  Response_MessageName :: string
  sonic_vmError :: "string \<Rightarrow> go_error + abciLogVMError"
  json_vmError :: "string \<Rightarrow> go_error + abciLogVMError"
  EventTypeEthereumTx :: string
  evm_ModuleName :: string
  UndefinedCodespace :: string
  AttributeKeyEthereumTxHash :: string
  AttributeKeyTxIndex :: string
  AttributeKeyTxGasUsed :: string
  AttributeKeyEthereumTxFailed :: string

text \<open>A library in which every call fails or returns a zero value, the base of concrete instances.\<close>

definition null_chain :: Chain_Lib where
  "null_chain =
     \<lparr>Tx_Hash = (\<lambda>tx. []), ParseCoinsNormalized = (\<lambda>s. Inr []), Bech32_Decode = (\<lambda>s. Inl (Errorf ''bech32'')),
      ParseTypedEvent = (\<lambda>e. Inr None), ErrorAttributeKeyPrefix = ''ibccallbackerror-'',
      IBCHookCallerAddressHex = [], LogsBloom_of = (\<lambda>ls. []), Merkle_Hash = (\<lambda>bs. []),
      EffectiveGasPrice_of = (\<lambda>b c t. b), TxDecoder = (\<lambda>bs. Inl (Errorf ''decode tx'')),
      DecodeMsgLogs = (\<lambda>d i h. Inr []), NewDec_RoundInt = (\<lambda>s. Inl (Errorf ''decimal'')),
      Unmarshal_TxMsgData = (\<lambda>b. Inl (Errorf ''proto'')), Marshal_TxMsgData = (\<lambda>d. Inl (Errorf ''proto'')),
      Unmarshal_Response = (\<lambda>b. Inl (Errorf ''proto'')), Marshal_Response = (\<lambda>r. Inl (Errorf ''proto'')),
      Response_MessageName = ''injective.evm.v1.MsgEthereumTxResponse'',
      sonic_vmError = (\<lambda>s. Inl (Errorf ''json'')), json_vmError = (\<lambda>s. Inl (Errorf ''json'')),
      EventTypeEthereumTx = ''ethereum_tx'', evm_ModuleName = ''evm'', UndefinedCodespace = ''undefined'',
      AttributeKeyEthereumTxHash = ''ethereumTxHash'', AttributeKeyTxIndex = ''txIndex'',
      AttributeKeyTxGasUsed = ''txGasUsed'', AttributeKeyEthereumTxFailed = ''ethereumTxFailed''\<rparr>"

section \<open>Lemmas\<close>

lemma errors_Is_newBlockParseError [simp]: "errors_Is (newBlockParseError e m) ErrBlockParse"
  by (cases e) (simp_all add: newBlockParseError_def)

lemma errors_Is_newCacheMiss [simp]: "errors_Is (newCacheMiss m) s \<longleftrightarrow> s = ErrCacheMiss"
  by (auto simp: newCacheMiss_def)

end
