(* ===== verification/Virtual_Bank.thy ===== *)
theory Virtual_Bank
  imports Chain_Types
begin

text \<open>
  The projection of Cosmos bank events to Ethereum logs, \<open>internal/evm/rpc/virtual/bank/bank.go\<close>,
  and of IBC hook events, \<open>internal/evm/rpc/virtual/ibc/ibc.go\<close>. The arguments \<open>E\<close> and \<open>L\<close> are
  the third-party functions of \<open>Chain_Types\<close>.
\<close>

section \<open>Definitions: bank events\<close>

definition EventTypeTransfer :: string where "EventTypeTransfer = ''transfer''"
definition EventTypeCoinSpent :: string where "EventTypeCoinSpent = ''coin_spent''"
definition EventTypeCoinReceived :: string where "EventTypeCoinReceived = ''coin_received''"
definition EventTypeCoinbase :: string where "EventTypeCoinbase = ''coinbase''"
definition EventTypeBurn :: string where "EventTypeBurn = ''burn''"
definition AttributeMsgIndex :: string where "AttributeMsgIndex = ''msg_index''"
definition AttributeMode :: string where "AttributeMode = ''mode''"
definition ModeBeginBlock :: string where "ModeBeginBlock = ''BeginBlock''"

lemmas bank_constants = EventTypeTransfer_def EventTypeCoinSpent_def EventTypeCoinReceived_def
  EventTypeCoinbase_def EventTypeBurn_def AttributeMsgIndex_def AttributeMode_def ModeBeginBlock_def

definition ContractAddress :: "Eth_Lib \<Rightarrow> address" where
  "ContractAddress E = HexToAddress E ''0x0000000000000000000000000000000000000800''"

definition TopicTransfer :: "Eth_Lib \<Rightarrow> hash" where
  "TopicTransfer E = Keccak256Hash E (str_bytes ''NativeBankTransfer(bytes32,bytes32,string,uint256)'')"

definition TopicCoinSpent :: "Eth_Lib \<Rightarrow> hash" where
  "TopicCoinSpent E = Keccak256Hash E (str_bytes ''NativeBankCoinSpent(bytes32,string,uint256)'')"

definition TopicCoinReceived :: "Eth_Lib \<Rightarrow> hash" where
  "TopicCoinReceived E = Keccak256Hash E (str_bytes ''NativeBankCoinReceived(bytes32,string,uint256)'')"

definition TopicCoinbase :: "Eth_Lib \<Rightarrow> hash" where
  "TopicCoinbase E = Keccak256Hash E (str_bytes ''NativeBankCoinbase(bytes32,string,uint256)'')"

definition TopicBurn :: "Eth_Lib \<Rightarrow> hash" where
  "TopicBurn E = Keccak256Hash E (str_bytes ''NativeBankBurn(bytes32,string,uint256)'')"

record BankEvent =
  bk_Type :: string
  bk_Sender :: hash
  bk_Recipient :: hash
  bk_Actor :: hash
  bk_Denom :: string
  bk_Amount :: int
  bk_MsgIndex :: "int option"
  bk_Mode :: string

definition IsTrackedEventType :: "string \<Rightarrow> bool" where
  "IsTrackedEventType t \<longleftrightarrow>
     t \<in> {EventTypeTransfer, EventTypeCoinSpent, EventTypeCoinReceived, EventTypeCoinbase, EventTypeBurn}"

text \<open>A later attribute replaces an earlier one with the same key.\<close>

definition eventAttrs :: "EventAttribute list \<Rightarrow> (string \<rightharpoonup> string)" where
  "eventAttrs attrs = foldl (\<lambda>m a. m(Key a \<mapsto> Val a)) Map.empty attrs"

definition attr_or_empty :: "(string \<rightharpoonup> string) \<Rightarrow> string \<Rightarrow> string" where
  "attr_or_empty m k = (case m k of None \<Rightarrow> [] | Some v \<Rightarrow> v)"

text \<open>The index of a message: \<open>Atoi\<close> runs on the untrimmed text.\<close>

definition msg_index_of :: "string \<Rightarrow> go_error + int" where
  "msg_index_of raw =
     (case Atoi raw of
        Inl _ \<Rightarrow> Inl (Errorf ''strconv.Atoi'')
      | Inr idx \<Rightarrow> if idx < 0 then Inl (Errorf ''negative msg_index'') else Inr idx)"

definition bank_parseMsgIndex :: "(string \<rightharpoonup> string) \<Rightarrow> go_error + int option" where
  "bank_parseMsgIndex attrs =
     (case attrs AttributeMsgIndex of
        None \<Rightarrow> Inr None
      | Some raw \<Rightarrow> if TrimSpace raw = [] then Inr None else bindR (msg_index_of raw) (\<lambda>idx. Inr (Some idx)))"

definition isHex :: "string \<Rightarrow> bool" where
  "isHex v \<longleftrightarrow> v \<noteq> [] \<and>
     list_all (\<lambda>c. let n = of_char c :: nat in 48 \<le> n \<and> n \<le> 57 \<or> 97 \<le> n \<and> n \<le> 102 \<or> 65 \<le> n \<and> n \<le> 70) v"

text \<open>\<open>Inr None\<close> is \<open>ok = false\<close>.\<close>

definition decodeHexAddress :: "Eth_Lib \<Rightarrow> string \<Rightarrow> go_error + bytes option" where
  "decodeHexAddress E raw =
     (if HasPrefix raw ''0x'' \<or> HasPrefix raw ''0X'' then bindR (hexutil_Decode E raw) (\<lambda>bz. Inr (Some bz))
      else if length raw mod 2 \<noteq> 0 \<or> \<not> isHex raw then Inr None
      else bindR (hexutil_Decode E (''0x'' @ raw)) (\<lambda>bz. Inr (Some bz)))"

definition bytesToHash32 :: "bytes \<Rightarrow> go_error + hash" where
  "bytesToHash32 bz = (if 32 < length bz then Inl (Errorf ''address too long'') else Inr (bytes_to_hash bz))"

definition AddressBytes32 :: "Eth_Lib \<Rightarrow> Chain_Lib \<Rightarrow> string \<Rightarrow> go_error + hash" where
  "AddressBytes32 E L v0 =
     (let value = TrimSpace v0 in
      if value = [] then Inl (Errorf ''empty address'')
      else bindR (decodeHexAddress E value) (\<lambda>r.
        case r of
          Some bz \<Rightarrow> bytesToHash32 bz
        | None \<Rightarrow>
            (case Bech32_Decode L value of
               Inr bz \<Rightarrow> bytesToHash32 bz
             | Inl _ \<Rightarrow> bytesToHash32 (str_bytes value))))"

definition requiredAddress :: "Eth_Lib \<Rightarrow> Chain_Lib \<Rightarrow> (string \<rightharpoonup> string) \<Rightarrow> string \<Rightarrow> go_error + hash" where
  "requiredAddress E L attrs key =
     (case attrs key of
        None \<Rightarrow> Inl (Errorf ''missing address'')
      | Some raw \<Rightarrow>
          if TrimSpace raw = [] then Inl (Errorf ''missing address'')
          else wrapR (\<lambda>e. Wrap e ''invalid address'') (AddressBytes32 E L raw))"

text \<open>The \<open>switch\<close> of \<open>ParseEvent\<close>: which attributes name the accounts of an event.\<close>

definition set_accounts :: "Eth_Lib \<Rightarrow> Chain_Lib \<Rightarrow> (string \<rightharpoonup> string) \<Rightarrow> BankEvent \<Rightarrow> go_error + BankEvent" where
  "set_accounts E L attrs base =
     (let t = bk_Type base in
      if t = EventTypeTransfer then
        bindR (requiredAddress E L attrs ''sender'') (\<lambda>s.
        bindR (requiredAddress E L attrs ''recipient'') (\<lambda>r.
          Inr (base\<lparr>bk_Sender := s, bk_Recipient := r\<rparr>)))
      else if t = EventTypeCoinSpent then
        bindR (requiredAddress E L attrs ''spender'') (\<lambda>a. Inr (base\<lparr>bk_Actor := a\<rparr>))
      else if t = EventTypeCoinReceived then
        bindR (requiredAddress E L attrs ''receiver'') (\<lambda>a. Inr (base\<lparr>bk_Actor := a\<rparr>))
      else if t = EventTypeCoinbase then
        bindR (requiredAddress E L attrs ''minter'') (\<lambda>a. Inr (base\<lparr>bk_Actor := a\<rparr>))
      else if t = EventTypeBurn then
        bindR (requiredAddress E L attrs ''burner'') (\<lambda>a. Inr (base\<lparr>bk_Actor := a\<rparr>))
      else Inr base)"

text \<open>\<open>Inr None\<close> is \<open>matched = false\<close>.\<close>

definition bank_ParseEvent :: "Eth_Lib \<Rightarrow> Chain_Lib \<Rightarrow> Event \<Rightarrow> go_error + BankEvent list option" where
  "bank_ParseEvent E L event =
     (if \<not> IsTrackedEventType (EvType event) then Inr None
      else
        let attrs = eventAttrs (Attributes event) in
        case attrs ''amount'' of
          None \<Rightarrow> Inl (Errorf ''missing amount'')
        | Some amountRaw \<Rightarrow>
            bindR (wrapR (\<lambda>e. Wrap e ''invalid amount'') (ParseCoinsNormalized L amountRaw)) (\<lambda>coins.
            bindR (wrapR (\<lambda>e. Wrap e ''invalid msg_index'') (bank_parseMsgIndex attrs)) (\<lambda>msgIndex.
            bindR (set_accounts E L attrs
                     \<lparr>bk_Type = EvType event, bk_Sender = 0, bk_Recipient = 0, bk_Actor = 0, bk_Denom = [], bk_Amount = 0,
                      bk_MsgIndex = msgIndex, bk_Mode = attr_or_empty attrs AttributeMode\<rparr>) (\<lambda>base.
              Inr (Some (map (\<lambda>c. base\<lparr>bk_Denom := fst c, bk_Amount := snd c\<rparr>) coins))))))"

definition bank_ParseEvents :: "Eth_Lib \<Rightarrow> Chain_Lib \<Rightarrow> Event list \<Rightarrow> go_error + BankEvent list" where
  "bank_ParseEvents E L events =
     foldR (\<lambda>out event.
       bindR (bank_ParseEvent E L event) (\<lambda>r. Inr (case r of None \<Rightarrow> out | Some parsed \<Rightarrow> out @ parsed))) [] events"

definition bank_SplitBlockEvents :: "Eth_Lib \<Rightarrow> Chain_Lib \<Rightarrow> Event list \<Rightarrow> go_error + BankEvent list \<times> BankEvent list" where
  "bank_SplitBlockEvents E L events =
     bindR (bank_ParseEvents E L events) (\<lambda>parsed.
       Inr (filter (\<lambda>e. bk_Mode e = ModeBeginBlock) parsed, filter (\<lambda>e. bk_Mode e \<noteq> ModeBeginBlock) parsed))"

definition eventTopics :: "Eth_Lib \<Rightarrow> BankEvent \<Rightarrow> go_error + hash list" where
  "eventTopics E e =
     (if bk_Type e = EventTypeTransfer then Inr [TopicTransfer E, bk_Sender e, bk_Recipient e]
      else if bk_Type e = EventTypeCoinSpent then Inr [TopicCoinSpent E, bk_Actor e]
      else if bk_Type e = EventTypeCoinReceived then Inr [TopicCoinReceived E, bk_Actor e]
      else if bk_Type e = EventTypeCoinbase then Inr [TopicCoinbase E, bk_Actor e]
      else if bk_Type e = EventTypeBurn then Inr [TopicBurn E, bk_Actor e]
      else Inl (Errorf ''unsupported event type''))"

definition bank_EthereumLogs :: "Eth_Lib \<Rightarrow> BankEvent list \<Rightarrow> go_error + EthLog option list" where
  "bank_EthereumLogs E events =
     mapR (\<lambda>event.
       bindR (Pack_denomAmount E (bk_Denom event) (bk_Amount event)) (\<lambda>data.
       bindR (eventTopics E event) (\<lambda>topics.
         Inr (Some (plain_log (ContractAddress E) topics data))))) events"

section \<open>Definitions: IBC hook events\<close>

definition ibc_EventType :: string where
  "ibc_EventType = ''injective.evm.v1.EventIBCHookCall''"

definition TopicHookCall :: "Eth_Lib \<Rightarrow> hash" where
  "TopicHookCall E = Keccak256Hash E (str_bytes ''IBCHookCall(string,string,uint64,address,bool,bytes,string,uint256)'')"

record HookCall =
  hk_DestinationPort :: string
  hk_DestinationChannel :: string
  hk_Sequence :: int
  hk_Contract :: address
  hk_Input :: bytes
  hk_Success :: bool
  hk_ReturnData :: bytes
  hk_Error :: string
  hk_GasUsed :: int
  hk_Logs :: "EthLog option list"
  hk_MsgIndex :: "int option"

definition normalizeEvent :: "Chain_Lib \<Rightarrow> Event \<Rightarrow> Event option" where
  "normalizeEvent L event =
     (if EvType event = ibc_EventType then Some event
      else if EvType event = ErrorAttributeKeyPrefix L @ ibc_EventType then
        Some \<lparr>EvType = ibc_EventType,
              Attributes = map (\<lambda>a. \<lparr>Key = TrimPrefix (Key a) (ErrorAttributeKeyPrefix L), Val = Val a, Indexed = Indexed a\<rparr>)
                             (Attributes event)\<rparr>
      else None)"

text \<open>The first \<open>msg_index\<close> attribute that is not blank.\<close>

fun ibc_parseMsgIndex :: "EventAttribute list \<Rightarrow> go_error + int option" where
  "ibc_parseMsgIndex [] = Inr None"
| "ibc_parseMsgIndex (a # attrs) =
     (if Key a \<noteq> ''msg_index'' \<or> TrimSpace (Val a) = [] then ibc_parseMsgIndex attrs
      else bindR (msg_index_of (Val a)) (\<lambda>idx. Inr (Some idx)))"

definition decode_topic :: "Eth_Lib \<Rightarrow> string \<Rightarrow> go_error + hash" where
  "decode_topic E topic =
     (case hexutil_Decode E topic of
        Inl _ \<Rightarrow> Inl (Errorf ''invalid topic'')
      | Inr bz \<Rightarrow> if length bz \<noteq> 32 then Inl (Errorf ''invalid topic'') else Inr (bytes_to_hash bz))"

definition ethereumLog :: "Eth_Lib \<Rightarrow> EvmLog option \<Rightarrow> go_error + EthLog" where
  "ethereumLog E log =
     (case log of
        None \<Rightarrow> Inl (Errorf ''nil log'')
      | Some l \<Rightarrow>
          if \<not> IsHexAddress E (el_Address l) then Inl (Errorf ''invalid address'')
          else bindR (mapR (decode_topic E) (el_Topics l)) (\<lambda>topics.
            Inr (plain_log (HexToAddress E (el_Address l)) topics (el_Data l))))"

definition ibc_ParseEvent :: "Eth_Lib \<Rightarrow> Chain_Lib \<Rightarrow> Event \<Rightarrow> go_error + HookCall option" where
  "ibc_ParseEvent E L event =
     (case normalizeEvent L event of
        None \<Rightarrow> Inr None
      | Some normalized \<Rightarrow>
          bindR (wrapR (\<lambda>e. Wrap e ''invalid msg_index'') (ibc_parseMsgIndex (Attributes normalized))) (\<lambda>msgIndex.
          bindR (wrapR (\<lambda>e. Wrap e ''IBC hook event'') (ParseTypedEvent L normalized)) (\<lambda>parsed.
          case parsed of
            None \<Rightarrow> Inl (Errorf ''IBC hook event decoded as another type'')
          | Some typed \<Rightarrow>
              if \<not> IsHexAddress E (ev_Contract typed) then Inl (Errorf ''invalid contract'')
              else bindR (mapR (\<lambda>l. wrapR (\<lambda>e. Wrap e ''IBC hook event log'') (ethereumLog E l)) (ev_Logs typed)) (\<lambda>logs.
                Inr (Some \<lparr>hk_DestinationPort = ev_DestinationPort typed, hk_DestinationChannel = ev_DestinationChannel typed,
                  hk_Sequence = ev_Sequence typed, hk_Contract = HexToAddress E (ev_Contract typed), hk_Input = ev_Input typed,
                  hk_Success = ev_Success typed, hk_ReturnData = ev_ReturnData typed, hk_Error = ev_Error typed,
                  hk_GasUsed = ev_GasUsed typed, hk_Logs = map Some logs, hk_MsgIndex = msgIndex\<rparr>)))))"

text \<open>\<open>common.BigToHash\<close> of a message index.\<close>

definition index_hash :: "int \<Rightarrow> hash" where
  "index_hash i = word_of_int i"

fun plain_copies :: "EthLog option list \<Rightarrow> EthLog option list" where
  "plain_copies [] = []"
| "plain_copies (None # ls) = plain_copies ls"
| "plain_copies (Some l # ls) = Some (plain_log (log_Address l) (log_Topics l) (log_Data l)) # plain_copies ls"

definition ibc_EthereumLogs :: "Eth_Lib \<Rightarrow> HookCall \<Rightarrow> go_error + EthLog option list" where
  "ibc_EthereumLogs E call =
     (case hk_MsgIndex call of
        None \<Rightarrow> Inl (Errorf ''IBC hook requires a nonnegative msg_index'')
      | Some i \<Rightarrow>
          if i < 0 then Inl (Errorf ''IBC hook requires a nonnegative msg_index'')
          else bindR (Pack_summary E (hk_DestinationPort call) (hk_DestinationChannel call) (hk_Sequence call)
                        (hk_Success call) (hk_ReturnData call) (hk_Error call)) (\<lambda>data.
            Inr (plain_copies (hk_Logs call) @
              [Some (plain_log (ContractAddress E)
                 [TopicHookCall E, bytes_to_hash (addr_bytes (hk_Contract call)), index_hash i] data)])))"

section \<open>Lemmas\<close>

lemma eventAttrs_Nil [simp]: "eventAttrs [] = Map.empty"
  by (simp add: eventAttrs_def)

lemma eventAttrs_snoc: "eventAttrs (as @ [a]) = (eventAttrs as)(Key a \<mapsto> Val a)"
  by (simp add: eventAttrs_def)

lemma msg_index_of_nonneg: "msg_index_of raw = Inr i \<Longrightarrow> 0 \<le> i \<and> is_i64 i"
  by (auto simp: msg_index_of_def Atoi_def split: sum.splits if_splits dest: ParseInt_64_range)

lemma bank_parseMsgIndex_nonneg: "bank_parseMsgIndex attrs = Inr (Some i) \<Longrightarrow> 0 \<le> i \<and> is_i64 i"
  by (auto simp: bank_parseMsgIndex_def result_simps split: option.splits if_splits dest: msg_index_of_nonneg)

lemma ibc_parseMsgIndex_nonneg: "ibc_parseMsgIndex attrs = Inr (Some i) \<Longrightarrow> 0 \<le> i \<and> is_i64 i"
  by (induction attrs) (auto simp: result_simps split: if_splits dest: msg_index_of_nonneg)

lemma set_accounts_keeps:
  "set_accounts E L attrs b = Inr b' \<Longrightarrow> bk_Type b' = bk_Type b \<and> bk_MsgIndex b' = bk_MsgIndex b \<and> bk_Mode b' = bk_Mode b"
  by (auto simp: set_accounts_def Let_def result_simps split: if_splits)

lemma bank_ParseEvent_tracked:
  assumes "bank_ParseEvent E L ev = Inr (Some evs)" and "e \<in> set evs"
  shows "bk_Type e = EvType ev" and "IsTrackedEventType (bk_Type e)" and "bk_MsgIndex e = Some i \<Longrightarrow> 0 \<le> i"
  using assms
  by (auto simp: bank_ParseEvent_def Let_def result_simps split: if_splits option.splits
      dest!: set_accounts_keeps bank_parseMsgIndex_nonneg)

lemma eventTopics_tracked: "IsTrackedEventType (bk_Type e) \<Longrightarrow> \<exists>ts. eventTopics E e = Inr ts"
  by (auto simp: IsTrackedEventType_def eventTopics_def)

lemma plain_copies_some: "None \<notin> set (plain_copies ls)"
  by (induction ls rule: plain_copies.induct) auto

lemma bank_EthereumLogs_some: "bank_EthereumLogs E evs = Inr ls \<Longrightarrow> None \<notin> set ls"
  by (auto simp: bank_EthereumLogs_def mapR_Inr_set result_simps)

lemma bank_EthereumLogs_length: "bank_EthereumLogs E evs = Inr ls \<Longrightarrow> length ls = length evs"
  unfolding bank_EthereumLogs_def by (rule mapR_Inr_length)

lemma ibc_EthereumLogs_some: "ibc_EthereumLogs E c = Inr ls \<Longrightarrow> None \<notin> set ls \<and> ls \<noteq> []"
  using plain_copies_some [of "hk_Logs c"]
  by (auto simp: ibc_EthereumLogs_def result_simps split: option.splits if_splits)

end
