(* ===== verification/Virtual_Response.thy ===== *)
theory Virtual_Response
  imports Virtual_Bank
begin

text \<open>
  The synthetic view of a Cosmos transaction response, \<open>internal/evm/rpc/virtual/types.go\<close> and
  \<open>response.go\<close>: logs with their block-wide metadata, the hashes of synthetic transactions, the logs
  of a genuine Ethereum message and the synthetic transactions of everything else.
\<close>

section \<open>Definitions\<close>

subsection \<open>Logs\<close>

record LogContext =
  lc_BlockHash :: hash
  lc_BlockNumber :: int
  lc_TxHash :: hash
  lc_TxIndex :: int
  lc_FirstLogIndex :: int
  lc_CosmosHash :: "hash option"

definition topic_matches :: "hash \<Rightarrow> hash list \<Rightarrow> bool" where
  "topic_matches t sub \<longleftrightarrow> sub = [] \<or> t \<in> set sub"

definition LogMatches :: "RPCLog option \<Rightarrow> address list \<Rightarrow> hash list list \<Rightarrow> bool" where
  "LogMatches log addresses topics =
     (case log of
        None \<Rightarrow> False
      | Some l \<Rightarrow>
          if addresses \<noteq> [] \<and> Address l \<notin> set addresses then False
          else if length (Topics l) < length topics then False
          else list_all2 topic_matches (take (length topics) (Topics l)) topics)"

definition NewRPCLog :: "EthLog option \<Rightarrow> bool \<Rightarrow> hash option \<Rightarrow> RPCLog option" where
  "NewRPCLog log isVirtual cosmosHash =
     map_option (\<lambda>l. \<lparr>Address = log_Address l, Topics = log_Topics l, LData = log_Data l, BlockNumber = log_BlockNumber l,
       TxHash = log_TxHash l, TxIndex = log_TxIndex l, BlockHash = log_BlockHash l, Index = log_Index l,
       Removed = log_Removed l, Virtual = isVirtual, CosmosHash = cosmosHash, CosmosMsgIndex = None\<rparr>) log"

definition WrapLogs :: "EthLog option list \<Rightarrow> bool \<Rightarrow> hash option \<Rightarrow> RPCLog option list" where
  "WrapLogs logs isVirtual cosmosHash = map (\<lambda>log. NewRPCLog log isVirtual cosmosHash) logs"

definition EthLog_of :: "RPCLog option \<Rightarrow> EthLog option" where
  "EthLog_of log =
     map_option (\<lambda>l. \<lparr>log_Address = Address l, log_Topics = Topics l, log_Data = LData l, log_BlockNumber = BlockNumber l,
       log_TxHash = TxHash l, log_TxIndex = TxIndex l, log_BlockHash = BlockHash l, log_Index = Index l,
       log_Removed = Removed l\<rparr>) log"

definition EthLogs :: "RPCLog option list \<Rightarrow> EthLog list" where
  "EthLogs logs = List.map_filter EthLog_of logs"

definition FlattenEthLogs :: "RPCLog option list list \<Rightarrow> EthLog list" where
  "FlattenEthLogs groups = concat (map EthLogs groups)"

definition LogsBloom :: "Chain_Lib \<Rightarrow> RPCLog option list \<Rightarrow> bytes" where
  "LogsBloom L logs = LogsBloom_of L (EthLogs logs)"

definition set_metadata :: "LogContext \<Rightarrow> nat \<Rightarrow> RPCLog \<Rightarrow> RPCLog" where
  "set_metadata ctx i l =
     (let l' = l\<lparr>BlockNumber := lc_BlockNumber ctx, TxHash := lc_TxHash ctx, TxIndex := lc_TxIndex ctx,
                 BlockHash := lc_BlockHash ctx, Index := u64 (lc_FirstLogIndex ctx + int i)\<rparr>
      in if Virtual l then l'\<lparr>CosmosHash := lc_CosmosHash ctx\<rparr> else l')"

fun set_metadata_from :: "LogContext \<Rightarrow> nat \<Rightarrow> RPCLog option list \<Rightarrow> RPCLog option list" where
  "set_metadata_from ctx i [] = []"
| "set_metadata_from ctx i (log # logs) = map_option (set_metadata ctx i) log # set_metadata_from ctx (Suc i) logs"

definition SetLogMetadata :: "RPCLog option list \<Rightarrow> LogContext \<Rightarrow> RPCLog option list" where
  "SetLogMetadata logs ctx = set_metadata_from ctx 0 logs"

subsection \<open>Hashes\<close>

definition OriginalCosmosTxHash :: "Chain_Lib \<Rightarrow> bytes \<Rightarrow> hash" where
  "OriginalCosmosTxHash L tx = bytes_to_hash (Tx_Hash L tx)"

definition CosmosTxHash :: "Eth_Lib \<Rightarrow> Chain_Lib \<Rightarrow> bytes \<Rightarrow> hash" where
  "CosmosTxHash E L tx = Keccak256Hash E (hash_bytes (OriginalCosmosTxHash L tx))"

definition hook_preimage :: "hash \<Rightarrow> int \<Rightarrow> bytes" where
  "hook_preimage h msgIndex = hash_bytes h @ str_bytes ''@'' @ str_bytes (Itoa msgIndex)"

definition IBCHookTxHash :: "Eth_Lib \<Rightarrow> Chain_Lib \<Rightarrow> bytes \<Rightarrow> int \<Rightarrow> hash" where
  "IBCHookTxHash E L tx msgIndex = Keccak256Hash E (hook_preimage (OriginalCosmosTxHash L tx) msgIndex)"

definition nested_preimage :: "hash \<Rightarrow> int \<Rightarrow> int \<Rightarrow> bytes" where
  "nested_preimage h msgIndex position =
     hash_bytes h @ str_bytes ''@'' @ str_bytes (Itoa msgIndex) @ str_bytes ''#'' @ str_bytes (Itoa position)"

definition NestedIBCHookTxHash :: "Eth_Lib \<Rightarrow> Chain_Lib \<Rightarrow> bytes \<Rightarrow> int \<Rightarrow> int \<Rightarrow> hash" where
  "NestedIBCHookTxHash E L tx msgIndex position =
     Keccak256Hash E (nested_preimage (OriginalCosmosTxHash L tx) msgIndex position)"

definition blockPhaseHash :: "Eth_Lib \<Rightarrow> string \<Rightarrow> int \<Rightarrow> hash" where
  "blockPhaseHash E phase height = Keccak256Hash E (str_bytes phase @ be64 height)"

definition BeginBlockHash :: "Eth_Lib \<Rightarrow> int \<Rightarrow> hash" where
  "BeginBlockHash E height = blockPhaseHash E ''begin_block'' height"

definition EndBlockHash :: "Eth_Lib \<Rightarrow> int \<Rightarrow> hash" where
  "EndBlockHash E height = blockPhaseHash E ''end_block'' height"

subsection \<open>Responses\<close>

record entry =
  e_logs :: "EthLog option list"
  e_msgIndex :: "int option"
  e_hook :: "HookCall option"

record Response =
  rs_entries :: "entry list"
  rs_code :: int
  rs_gasUsed :: int

record TxContext =
  Tx :: bytes
  EthereumMessageIndexes :: "int \<Rightarrow> bool"
  EthereumGasUsed :: int
  TotalMessages :: int
  ctx_BlockHash :: hash
  ctx_BlockNumber :: int
  ctx_TxIndex :: int
  FirstLogIndex :: int
  CumulativeGasUsedBefore :: int
  ChainID :: "int option"

text \<open>The body of the loop of \<open>ParseResponse\<close>: the entry of one event, if it is virtualizable.\<close>

definition parse_entry :: "Eth_Lib \<Rightarrow> Chain_Lib \<Rightarrow> Event \<Rightarrow> go_error + entry option" where
  "parse_entry E L event =
     bindR (bank_ParseEvent E L event) (\<lambda>b.
       case b of
         Some bankEvents \<Rightarrow>
           bindR (wrapR (\<lambda>e. Wrap e ''bank event'') (bank_EthereumLogs E bankEvents)) (\<lambda>logs.
             Inr (Some \<lparr>e_logs = logs,
                        e_msgIndex = (case bankEvents of [] \<Rightarrow> None | ev # _ \<Rightarrow> bk_MsgIndex ev), e_hook = None\<rparr>))
       | None \<Rightarrow>
           bindR (ibc_ParseEvent E L event) (\<lambda>h.
             case h of
               None \<Rightarrow> Inr None
             | Some hook \<Rightarrow>
                 bindR (wrapR (\<lambda>e. Wrap e ''IBC hook event'') (ibc_EthereumLogs E hook)) (\<lambda>logs.
                   Inr (Some \<lparr>e_logs = logs, e_msgIndex = hk_MsgIndex hook, e_hook = Some hook\<rparr>))))"

definition ParseResponse :: "Eth_Lib \<Rightarrow> Chain_Lib \<Rightarrow> ExecTxResult option \<Rightarrow> go_error + Response" where
  "ParseResponse E L r =
     (case r of
        None \<Rightarrow> Inl (Errorf ''transaction response is nil'')
      | Some resp \<Rightarrow>
          foldR (\<lambda>out event.
              bindR (parse_entry E L event) (\<lambda>e.
                Inr (case e of None \<Rightarrow> out | Some en \<Rightarrow> out\<lparr>rs_entries := rs_entries out @ [en]\<rparr>)))
            \<lparr>rs_entries = [], rs_code = Code resp, rs_gasUsed = (if 0 < GasUsed resp then u64 (GasUsed resp) else 0)\<rparr>
            (Events resp))"

definition belongsToMessage :: "int option \<Rightarrow> int \<Rightarrow> int \<Rightarrow> bool" where
  "belongsToMessage msgIndex wanted tot =
     (case msgIndex of Some i \<Rightarrow> i = wanted | None \<Rightarrow> tot = 1 \<and> wanted = 0)"

definition belongsToNonEthereumMessage :: "int option \<Rightarrow> (int \<Rightarrow> bool) \<Rightarrow> int \<Rightarrow> bool" where
  "belongsToNonEthereumMessage msgIndex ethereumIndexes tot =
     (case msgIndex of Some i \<Rightarrow> \<not> ethereumIndexes i | None \<Rightarrow> \<not> (tot = 1 \<and> ethereumIndexes 0))"

definition hookMsgIndex :: "HookCall \<Rightarrow> int option" where
  "hookMsgIndex hook = map_option u64 (hk_MsgIndex hook)"

text \<open>The logs of an entry, tagged with the message index of its hook. The logs of an entry are never
  nil (lemma \<open>ParseResponse_some\<close>), so the assignment through the pointer is total.\<close>

definition entry_logs :: "hash option \<Rightarrow> entry \<Rightarrow> RPCLog option list" where
  "entry_logs cosmosHash e =
     (case e_hook e of
        None \<Rightarrow> WrapLogs (e_logs e) True cosmosHash
      | Some hook \<Rightarrow>
          map (map_option (\<lambda>l. l\<lparr>CosmosMsgIndex := hookMsgIndex hook\<rparr>)) (WrapLogs (e_logs e) True cosmosHash))"

definition LogsForMessage :: "Response \<Rightarrow> int \<Rightarrow> int \<Rightarrow> LogContext \<Rightarrow> RPCLog option list" where
  "LogsForMessage r msgIndex totalMessages ctx =
     SetLogMetadata
       (concat (map (entry_logs None) (filter (\<lambda>e. belongsToMessage (e_msgIndex e) msgIndex totalMessages) (rs_entries r)))) ctx"

definition newRPCTransaction ::
  "hash \<Rightarrow> hash \<Rightarrow> int \<Rightarrow> int \<Rightarrow> int option \<Rightarrow> hash option \<Rightarrow> address \<Rightarrow> address \<Rightarrow> bytes \<Rightarrow> int \<Rightarrow> RPCTransaction" where
  "newRPCTransaction hash blockHash blockNumber index chainID cosmosHash from to input gas =
     \<lparr>tx_BlockHash = Some blockHash, tx_BlockNumber = Some blockNumber, tx_From = from, tx_Gas = gas,
      tx_GasPrice = Some 0, tx_GasFeeCap = None, tx_GasTipCap = None, tx_Hash = hash, tx_Input = input, tx_Nonce = 0,
      tx_To = Some to, tx_TransactionIndex = Some index, tx_Value = Some 0, tx_Type = 0, tx_Accesses = None,
      tx_ChainID = chainID, tx_V = Some 0, tx_R = Some 0, tx_S = Some 0, tx_Virtual = True, tx_CosmosHash = cosmosHash,
      tx_CosmosMsgIndex = None\<rparr>"

definition syntheticTx ::
  "Eth_Lib \<Rightarrow> Chain_Lib \<Rightarrow> Response \<Rightarrow> TxContext \<Rightarrow> entry list \<Rightarrow> HookCall option \<Rightarrow> hash \<Rightarrow> int \<Rightarrow> VirtualTx" where
  "syntheticTx E L r ctx events hook txHash gas =
     (let cosmosHash = OriginalCosmosTxHash L (Tx ctx);
          logs = SetLogMetadata (concat (map (entry_logs (Some cosmosHash)) events))
            \<lparr>lc_BlockHash = ctx_BlockHash ctx, lc_BlockNumber = ctx_BlockNumber ctx, lc_TxHash = txHash,
             lc_TxIndex = ctx_TxIndex ctx, lc_FirstLogIndex = FirstLogIndex ctx, lc_CosmosHash = Some cosmosHash\<rparr>;
          status = (if rs_code r \<noteq> 0 then 0 else 1);
          (from, to, input, txGas, receiptGas, vmError, status') =
            (case hook of
               None \<Rightarrow> (0, ContractAddress E, [], 0, gas, [], status)
             | Some h \<Rightarrow> (HexToAddress E (IBCHookCallerAddressHex L), hk_Contract h, hk_Input h, hk_GasUsed h, hk_GasUsed h,
                          hk_Error h, if hk_Success h then status else 0));
          tx = newRPCTransaction txHash (ctx_BlockHash ctx) (ctx_BlockNumber ctx) (ctx_TxIndex ctx) (ChainID ctx)
                 (Some cosmosHash) from to input txGas
      in \<lparr>Transaction = (case hook of None \<Rightarrow> tx | Some h \<Rightarrow> tx\<lparr>tx_CosmosMsgIndex := hookMsgIndex h\<rparr>),
          TxReceipt =
            \<lparr>r_Status = status', r_CumulativeGasUsed = u64 (CumulativeGasUsedBefore ctx + receiptGas), r_GasUsed = receiptGas,
             r_Reason = [], r_VMError = vmError, r_Logs = logs, r_TransactionHash = txHash, r_BlockHash = ctx_BlockHash ctx,
             r_BlockNumber = ctx_BlockNumber ctx, r_TransactionIndex = ctx_TxIndex ctx, r_EffectiveGasPrice = Some 0,
             r_From = from, r_To = Some to, r_Type = 0\<rparr>\<rparr>)"

definition accountGas :: "int \<Rightarrow> int \<Rightarrow> int" where
  "accountGas bankGasUsed gas = (if bankGasUsed \<le> gas then 0 else bankGasUsed - gas)"

text \<open>\<open>appendTx\<close>: the context after a transaction was appended.\<close>

definition after_tx :: "TxContext \<Rightarrow> VirtualTx \<Rightarrow> TxContext" where
  "after_tx ctx tx =
     ctx\<lparr>ctx_TxIndex := u64 (ctx_TxIndex ctx + 1),
         FirstLogIndex := u64 (FirstLogIndex ctx + int (length (r_Logs (TxReceipt tx)))),
         CumulativeGasUsedBefore := r_CumulativeGasUsed (TxReceipt tx)\<rparr>"

definition hook_index :: "entry \<Rightarrow> int" where
  "hook_index e = the (e_msgIndex e)"

definition hook_gas :: "entry \<Rightarrow> int" where
  "hook_gas e = hk_GasUsed (the (e_hook e))"

definition hook_hash :: "Eth_Lib \<Rightarrow> Chain_Lib \<Rightarrow> bytes \<Rightarrow> (int \<Rightarrow> nat) \<Rightarrow> int \<Rightarrow> int \<Rightarrow> hash" where
  "hook_hash E L tx hooksPerMessage msgIndex ordinal =
     (if 1 < hooksPerMessage msgIndex then NestedIBCHookTxHash E L tx msgIndex ordinal else IBCHookTxHash E L tx msgIndex)"

text \<open>The last loop of \<open>SyntheticTxs\<close>; \<open>prev\<close> is the message index of the hook before.\<close>

fun hook_txs ::
  "Eth_Lib \<Rightarrow> Chain_Lib \<Rightarrow> Response \<Rightarrow> (int \<Rightarrow> nat) \<Rightarrow> TxContext \<Rightarrow> int option \<Rightarrow> int \<Rightarrow> entry list \<Rightarrow> VirtualTx list" where
  "hook_txs E L r cnt ctx prev ordinal [] = []"
| "hook_txs E L r cnt ctx prev ordinal (e # es) =
     (let ordinal' = (if prev \<noteq> None \<and> prev \<noteq> Some (hook_index e) then 0 else ordinal);
          tx = syntheticTx E L r ctx [e] (e_hook e) (hook_hash E L (Tx ctx) cnt (hook_index e) ordinal') (hook_gas e)
      in tx # hook_txs E L r cnt (after_tx ctx tx) (Some (hook_index e)) (ordinal' + 1) es)"

definition projected :: "TxContext \<Rightarrow> entry \<Rightarrow> bool" where
  "projected ctx e \<longleftrightarrow>
     e_logs e \<noteq> [] \<and> belongsToNonEthereumMessage (e_msgIndex e) (EthereumMessageIndexes ctx) (TotalMessages ctx)"

definition bank_entries :: "TxContext \<Rightarrow> Response \<Rightarrow> entry list" where
  "bank_entries ctx r = filter (\<lambda>e. projected ctx e \<and> e_hook e = None) (rs_entries r)"

definition hook_entries :: "TxContext \<Rightarrow> Response \<Rightarrow> entry list" where
  "hook_entries ctx r = filter (\<lambda>e. projected ctx e \<and> e_hook e \<noteq> None) (rs_entries r)"

definition valid_hook :: "TxContext \<Rightarrow> entry \<Rightarrow> bool" where
  "valid_hook ctx e = (case e_msgIndex e of None \<Rightarrow> False | Some i \<Rightarrow> 0 \<le> i \<and> i < TotalMessages ctx)"

definition hooksPerMessage :: "entry list \<Rightarrow> int \<Rightarrow> nat" where
  "hooksPerMessage hooks i = length (filter (\<lambda>e. hook_index e = i) hooks)"

definition with_ethereum_gas :: "TxContext \<Rightarrow> TxContext" where
  "with_ethereum_gas ctx = ctx\<lparr>CumulativeGasUsedBefore := u64 (CumulativeGasUsedBefore ctx + EthereumGasUsed ctx)\<rparr>"

definition remaining_gas :: "TxContext \<Rightarrow> Response \<Rightarrow> entry list \<Rightarrow> int" where
  "remaining_gas ctx r hooks =
     foldl accountGas (accountGas (rs_gasUsed r) (EthereumGasUsed ctx)) (map hook_gas hooks)"

definition SyntheticTxs :: "Eth_Lib \<Rightarrow> Chain_Lib \<Rightarrow> Response \<Rightarrow> TxContext \<Rightarrow> go_error + VirtualTx list" where
  "SyntheticTxs E L r ctx =
     (if bank_entries ctx r = [] \<and> hook_entries ctx r = [] then Inr []
      else if hook_entries ctx r = [] then
        Inr [syntheticTx E L r ctx (bank_entries ctx r) None (CosmosTxHash E L (Tx ctx)) (rs_gasUsed r)]
      else if \<not> list_all (valid_hook ctx) (hook_entries ctx r) then
        Inl (Errorf ''IBC hook calls require valid msg_index attributes'')
      else
        let cnt = hooksPerMessage (hook_entries ctx r);
            hooks = sort_key hook_index (hook_entries ctx r);
            ctx1 = with_ethereum_gas ctx
        in if bank_entries ctx r = [] then Inr (hook_txs E L r cnt ctx1 None 0 hooks)
           else
             let tx = syntheticTx E L r ctx1 (bank_entries ctx r) None (CosmosTxHash E L (Tx ctx)) (remaining_gas ctx r hooks)
             in Inr (tx # hook_txs E L r cnt (after_tx ctx1 tx) None 0 hooks))"

subsection \<open>Block-level events\<close>

definition virtual_SplitBlockEvents ::
  "Eth_Lib \<Rightarrow> Chain_Lib \<Rightarrow> Event list \<Rightarrow> go_error + EthLog option list \<times> EthLog option list" where
  "virtual_SplitBlockEvents E L events =
     bindR (bank_ParseEvents E L events) (\<lambda>bankEvents.
     bindR (bank_EthereumLogs E (filter (\<lambda>e. bk_Mode e = ModeBeginBlock) bankEvents)) (\<lambda>begin.
     bindR (bank_EthereumLogs E (filter (\<lambda>e. bk_Mode e \<noteq> ModeBeginBlock) bankEvents)) (\<lambda>endl.
       Inr (begin, endl))))"

definition MaterializeLogs :: "EthLog option list \<Rightarrow> LogContext \<Rightarrow> RPCLog option list" where
  "MaterializeLogs logs ctx = SetLogMetadata (WrapLogs logs True (lc_CosmosHash ctx)) ctx"

definition NewBlockTx :: "Eth_Lib \<Rightarrow> hash \<Rightarrow> EthLog option list \<Rightarrow> LogContext \<Rightarrow> int option \<Rightarrow> int \<Rightarrow> VirtualTx" where
  "NewBlockTx E hash logs ctx chainID cumulativeGasUsed =
     \<lparr>Transaction = newRPCTransaction hash (lc_BlockHash ctx) (lc_BlockNumber ctx) (lc_TxIndex ctx) chainID None 0
        (ContractAddress E) [] 0,
      TxReceipt =
        \<lparr>r_Status = 1, r_CumulativeGasUsed = cumulativeGasUsed, r_GasUsed = 0, r_Reason = [], r_VMError = [],
         r_Logs = MaterializeLogs logs ctx, r_TransactionHash = hash, r_BlockHash = lc_BlockHash ctx,
         r_BlockNumber = lc_BlockNumber ctx, r_TransactionIndex = lc_TxIndex ctx, r_EffectiveGasPrice = Some 0,
         r_From = 0, r_To = Some (ContractAddress E), r_Type = 0\<rparr>\<rparr>"

section \<open>Lemmas\<close>

subsection \<open>Entries\<close>

lemma parse_entry_some: "parse_entry E L ev = Inr (Some e) \<Longrightarrow> None \<notin> set (e_logs e)"
  by (auto simp: parse_entry_def result_simps split: option.splits dest!: bank_EthereumLogs_some ibc_EthereumLogs_some)

lemma ParseResponse_some:
  assumes "ParseResponse E L resp = Inr r" and "e \<in> set (rs_entries r)"
  shows "None \<notin> set (e_logs e)"
proof -
  obtain x where x: "resp = Some x" using assms(1) by (cases resp) (auto simp: ParseResponse_def)
  have "\<forall>e\<in>set (rs_entries r). None \<notin> set (e_logs e)"
    by (rule foldR_inv [OF assms(1) [unfolded ParseResponse_def x option.case]])
      (auto simp: result_simps split: option.splits dest: parse_entry_some)
  then show ?thesis using assms(2) by blast
qed

subsection \<open>Log metadata\<close>

definition index_run :: "int \<Rightarrow> nat \<Rightarrow> int option list" where
  "index_run first n = map (\<lambda>k. Some (u64 (first + int k))) [0..<n]"

lemma index_run_0 [simp]: "index_run f 0 = []"
  by (simp add: index_run_def)

lemma index_run_add: "index_run f (m + n) = index_run f m @ index_run (u64 (f + int m)) n"
  by (rule nth_equalityI) (auto simp: index_run_def nth_append algebra_simps)

lemma length_set_metadata_from [simp]: "length (set_metadata_from ctx i logs) = length logs"
  by (induction logs arbitrary: i) auto

lemma length_SetLogMetadata [simp]: "length (SetLogMetadata logs ctx) = length logs"
  by (simp add: SetLogMetadata_def)

lemma set_metadata_Index [simp]: "Index (set_metadata ctx i l) = u64 (lc_FirstLogIndex ctx + int i)"
  by (simp add: set_metadata_def Let_def)

lemma set_metadata_from_Index:
  "None \<notin> set logs \<Longrightarrow>
    map (map_option Index) (set_metadata_from ctx i logs) = map (\<lambda>k. Some (u64 (lc_FirstLogIndex ctx + int k))) [i..<i + length logs]"
  by (induction logs arbitrary: i) (auto simp: upt_conv_Cons neq_commute [of None] simp del: upt_Suc)

lemma SetLogMetadata_Index:
  "None \<notin> set logs \<Longrightarrow> map (map_option Index) (SetLogMetadata logs ctx) = index_run (lc_FirstLogIndex ctx) (length logs)"
  using set_metadata_from_Index [of logs ctx 0] by (simp add: SetLogMetadata_def index_run_def)

definition log_content :: "RPCLog option \<Rightarrow> (address \<times> hash list \<times> bytes) option" where
  "log_content = map_option (\<lambda>l. (Address l, Topics l, LData l))"

definition eth_content :: "EthLog option \<Rightarrow> (address \<times> hash list \<times> bytes) option" where
  "eth_content = map_option (\<lambda>l. (log_Address l, log_Topics l, log_Data l))"

lemma set_metadata_content: "log_content (map_option (set_metadata ctx i) l) = log_content l"
  by (cases l) (simp_all add: log_content_def set_metadata_def Let_def)

lemma SetLogMetadata_content [simp]: "map log_content (SetLogMetadata logs ctx) = map log_content logs"
proof -
  have "map log_content (set_metadata_from ctx i logs) = map log_content logs" for i
    by (induction logs arbitrary: i) (simp_all add: set_metadata_content)
  then show ?thesis by (simp add: SetLogMetadata_def)
qed

lemma entry_logs_content [simp]: "map log_content (entry_logs c e) = map eth_content (e_logs e)"
  by (auto simp: entry_logs_def WrapLogs_def NewRPCLog_def log_content_def eth_content_def option.map_comp comp_def
      split: option.splits)

lemma length_entry_logs [simp]: "length (entry_logs c e) = length (e_logs e)"
  by (simp add: entry_logs_def WrapLogs_def split: option.splits)

lemma entry_logs_some: "None \<in> set (entry_logs c e) \<longleftrightarrow> None \<in> set (e_logs e)"
  by (auto simp: entry_logs_def WrapLogs_def NewRPCLog_def image_iff split: option.splits)

lemma concat_entry_logs_content:
  "map log_content (concat (map (entry_logs c) es)) = map eth_content (concat (map e_logs es))"
  by (induction es) auto

lemma length_concat_entry_logs: "length (concat (map (entry_logs c) es)) = length (concat (map e_logs es))"
  by (induction es) auto

subsection \<open>Synthetic transactions\<close>

abbreviation tx_logs :: "VirtualTx \<Rightarrow> RPCLog option list" where
  "tx_logs t \<equiv> r_Logs (TxReceipt t)"

lemma syntheticTx_simps [simp]:
  "r_TransactionIndex (TxReceipt (syntheticTx E L r ctx es hook h g)) = ctx_TxIndex ctx"
  "r_TransactionHash (TxReceipt (syntheticTx E L r ctx es hook h g)) = h"
  "tx_Hash (Transaction (syntheticTx E L r ctx es hook h g)) = h"
  "r_CumulativeGasUsed (TxReceipt (syntheticTx E L r ctx es hook h g)) =
    u64 (CumulativeGasUsedBefore ctx + r_GasUsed (TxReceipt (syntheticTx E L r ctx es hook h g)))"
  "r_GasUsed (TxReceipt (syntheticTx E L r ctx es hook h g)) = (case hook of None \<Rightarrow> g | Some k \<Rightarrow> hk_GasUsed k)"
  by (simp_all add: syntheticTx_def newRPCTransaction_def Let_def split: option.splits)

lemma syntheticTx_logs:
  "tx_logs (syntheticTx E L r ctx es hook h g) =
     SetLogMetadata (concat (map (entry_logs (Some (OriginalCosmosTxHash L (Tx ctx)))) es))
       \<lparr>lc_BlockHash = ctx_BlockHash ctx, lc_BlockNumber = ctx_BlockNumber ctx, lc_TxHash = h,
        lc_TxIndex = ctx_TxIndex ctx, lc_FirstLogIndex = FirstLogIndex ctx,
        lc_CosmosHash = Some (OriginalCosmosTxHash L (Tx ctx))\<rparr>"
  by (simp add: syntheticTx_def Let_def split: option.splits)

lemma syntheticTx_content:
  "map log_content (tx_logs (syntheticTx E L r ctx es hook h g)) = map eth_content (concat (map e_logs es))"
  by (simp add: syntheticTx_logs concat_entry_logs_content)

lemma syntheticTx_length: "length (tx_logs (syntheticTx E L r ctx es hook h g)) = length (concat (map e_logs es))"
  by (simp add: syntheticTx_logs length_concat_entry_logs)

lemma syntheticTx_Index:
  assumes "\<forall>e\<in>set es. None \<notin> set (e_logs e)"
  shows "map (map_option Index) (tx_logs (syntheticTx E L r ctx es hook h g)) =
    index_run (FirstLogIndex ctx) (length (concat (map e_logs es)))"
proof -
  have "None \<notin> set (concat (map (entry_logs c) es))" for c using assms by (auto simp: entry_logs_some)
  then show ?thesis by (simp add: syntheticTx_logs SetLogMetadata_Index length_concat_entry_logs)
qed

lemma after_tx_simps [simp]:
  "ctx_TxIndex (after_tx ctx t) = u64 (ctx_TxIndex ctx + 1)"
  "FirstLogIndex (after_tx ctx t) = u64 (FirstLogIndex ctx + int (length (tx_logs t)))"
  "CumulativeGasUsedBefore (after_tx ctx t) = r_CumulativeGasUsed (TxReceipt t)"
  "Tx (after_tx ctx t) = Tx ctx"
  by (simp_all add: after_tx_def)

lemma length_hook_txs [simp]: "length (hook_txs E L r cnt ctx prev n es) = length es"
  by (induction es arbitrary: ctx prev n) (auto simp: Let_def)

lemma hook_txs_content:
  "map log_content (concat (map tx_logs (hook_txs E L r cnt ctx prev n es))) = map eth_content (concat (map e_logs es))"
  by (induction es arbitrary: ctx prev n) (auto simp: Let_def syntheticTx_content)

lemma hook_txs_length:
  "length (concat (map tx_logs (hook_txs E L r cnt ctx prev n es))) = length (concat (map e_logs es))"
  using hook_txs_content [of E L r cnt ctx prev n es] by (metis length_map)

lemma hook_txs_Index:
  "\<forall>e\<in>set es. None \<notin> set (e_logs e) \<Longrightarrow>
    map (map_option Index) (concat (map tx_logs (hook_txs E L r cnt ctx prev n es))) =
    index_run (FirstLogIndex ctx) (length (concat (map e_logs es)))"
  by (induction es arbitrary: ctx prev n) (auto simp: Let_def syntheticTx_Index syntheticTx_length index_run_add)

lemma hook_txs_Cons:
  obtains t m where
    "t = syntheticTx E L r ctx [e] (e_hook e) (hook_hash E L (Tx ctx) cnt (hook_index e) m) (hook_gas e)"
    "hook_txs E L r cnt ctx prev n (e # es) = t # hook_txs E L r cnt (after_tx ctx t) (Some (hook_index e)) (m + 1) es"
  by (simp only: hook_txs.simps Let_def)

text \<open>\<open>consecutive n xs\<close>: the list counts up from \<open>n\<close> as 64-bit numbers.\<close>

fun consecutive :: "int \<Rightarrow> int list \<Rightarrow> bool" where
  "consecutive n [] = True"
| "consecutive n (x # xs) = (x = n \<and> consecutive (u64 (n + 1)) xs)"

lemma hook_txs_TxIndex:
  "consecutive (ctx_TxIndex ctx) (map (\<lambda>t. r_TransactionIndex (TxReceipt t)) (hook_txs E L r cnt ctx prev n es))"
proof (induction es arbitrary: ctx prev n)
  case (Cons e es)
  obtain t m where t: "t = syntheticTx E L r ctx [e] (e_hook e) (hook_hash E L (Tx ctx) cnt (hook_index e) m) (hook_gas e)"
    "hook_txs E L r cnt ctx prev n (e # es) = t # hook_txs E L r cnt (after_tx ctx t) (Some (hook_index e)) (m + 1) es"
    by (rule hook_txs_Cons)
  with Cons.IH [of "after_tx ctx t" "Some (hook_index e)" "m + 1"] show ?case by simp
qed simp

text \<open>\<open>accumulates g txs\<close>: the cumulative gas of every receipt is the sum so far.\<close>

fun accumulates :: "int \<Rightarrow> VirtualTx list \<Rightarrow> bool" where
  "accumulates g [] = True"
| "accumulates g (t # ts) =
     (r_CumulativeGasUsed (TxReceipt t) = u64 (g + r_GasUsed (TxReceipt t)) \<and> accumulates (r_CumulativeGasUsed (TxReceipt t)) ts)"

lemma hook_txs_accumulates: "accumulates (CumulativeGasUsedBefore ctx) (hook_txs E L r cnt ctx prev n es)"
proof (induction es arbitrary: ctx prev n)
  case (Cons e es)
  obtain t m where t: "t = syntheticTx E L r ctx [e] (e_hook e) (hook_hash E L (Tx ctx) cnt (hook_index e) m) (hook_gas e)"
    "hook_txs E L r cnt ctx prev n (e # es) = t # hook_txs E L r cnt (after_tx ctx t) (Some (hook_index e)) (m + 1) es"
    by (rule hook_txs_Cons)
  with Cons.IH [of "after_tx ctx t" "Some (hook_index e)" "m + 1"] show ?case by simp
qed simp

lemma hook_txs_gas:
  "\<forall>e\<in>set es. e_hook e \<noteq> None \<Longrightarrow>
    map (\<lambda>t. r_GasUsed (TxReceipt t)) (hook_txs E L r cnt ctx prev n es) = map hook_gas es"
  by (induction es arbitrary: ctx prev n) (auto simp: Let_def hook_gas_def)

lemma hook_txs_charged:
  "\<forall>e\<in>set es. e_hook e \<noteq> None \<Longrightarrow>
    map (\<lambda>t. (map log_content (tx_logs t), r_GasUsed (TxReceipt t))) (hook_txs E L r cnt ctx prev n es) =
    map (\<lambda>e. (map eth_content (e_logs e), hk_GasUsed (the (e_hook e)))) es"
  by (induction es arbitrary: ctx prev n) (auto simp: Let_def syntheticTx_content)

lemma foldl_accountGas: "0 \<le> b \<Longrightarrow> \<forall>g\<in>set gs. 0 \<le> g \<Longrightarrow> foldl accountGas b gs = max 0 (b - sum_list gs)"
proof (induction gs arbitrary: b)
  case (Cons g gs)
  have "0 \<le> sum_list gs" using Cons.prems(2) by (induction gs) auto
  then show ?case using Cons.IH [of "accountGas b g"] Cons.prems by (auto simp: accountGas_def)
qed simp

text \<open>The message index and the ordinal of every hook transaction: a sorted list of hooks gives pairs
  that are all different.\<close>

fun hook_keys :: "int option \<Rightarrow> int \<Rightarrow> entry list \<Rightarrow> (int \<times> int) list" where
  "hook_keys prev n [] = []"
| "hook_keys prev n (e # es) =
     (let m = (if prev \<noteq> None \<and> prev \<noteq> Some (hook_index e) then 0 else n)
      in (hook_index e, m) # hook_keys (Some (hook_index e)) (m + 1) es)"

lemma length_hook_keys [simp]: "length (hook_keys prev n es) = length es"
  by (induction es arbitrary: prev n) (auto simp: Let_def)

lemma hook_keys_fst: "map fst (hook_keys prev n es) = map hook_index es"
  by (induction es arbitrary: prev n) (auto simp: Let_def)

lemma hook_txs_hash:
  "map (\<lambda>t. r_TransactionHash (TxReceipt t)) (hook_txs E L r cnt ctx prev n es) =
    map (\<lambda>(i, k). hook_hash E L (Tx ctx) cnt i k) (hook_keys prev n es)"
  by (induction es arbitrary: ctx prev n) (auto simp: Let_def)

lemma hook_keys_range: "0 \<le> n \<Longrightarrow> (i, k) \<in> set (hook_keys prev n es) \<Longrightarrow> 0 \<le> k \<and> k < n + int (length es)"
proof (induction es arbitrary: prev n)
  case (Cons e es)
  define m where "m = (if prev \<noteq> None \<and> prev \<noteq> Some (hook_index e) then 0 else n)"
  have "hook_keys prev n (e # es) = (hook_index e, m) # hook_keys (Some (hook_index e)) (m + 1) es"
    by (simp only: hook_keys.simps Let_def m_def)
  then have "(i, k) = (hook_index e, m) \<or> (i, k) \<in> set (hook_keys (Some (hook_index e)) (m + 1) es)"
    using Cons.prems(2) by (simp only: list.set insert_iff)
  moreover have "0 \<le> m" "m \<le> n" using Cons.prems(1) by (auto simp: m_def)
  ultimately show ?case using Cons.IH [of "m + 1" "Some (hook_index e)"] by auto
qed simp

lemma hook_keys_above:
  "sorted (map hook_index es) \<Longrightarrow> \<forall>e\<in>set es. p \<le> hook_index e \<Longrightarrow> (p, k) \<in> set (hook_keys (Some p) n es) \<Longrightarrow> n \<le> k"
proof (induction es arbitrary: n)
  case (Cons e es)
  show ?case
  proof (cases "hook_index e = p")
    case True
    then show ?thesis using Cons.prems Cons.IH [of "n + 1"] by (auto simp: Let_def)
  next
    case False
    then have "p < hook_index e" using Cons.prems(2) by force
    then have "\<forall>x\<in>set (e # es). p < hook_index x" using Cons.prems(1) by auto
    moreover have "p \<in> set (map hook_index (e # es))"
      using Cons.prems(3) hook_keys_fst [of "Some p" n "e # es"] by (metis fst_conv image_eqI set_map)
    ultimately show ?thesis by auto
  qed
qed simp

lemma hook_keys_distinct: "sorted (map hook_index es) \<Longrightarrow> distinct (hook_keys prev n es)"
proof (induction es arbitrary: prev n)
  case (Cons e es)
  define m where "m = (if prev \<noteq> None \<and> prev \<noteq> Some (hook_index e) then 0 else n)"
  have "(hook_index e, m) \<notin> set (hook_keys (Some (hook_index e)) (m + 1) es)"
    using hook_keys_above [of es "hook_index e" m "m + 1"] Cons.prems by auto
  moreover have "hook_keys prev n (e # es) = (hook_index e, m) # hook_keys (Some (hook_index e)) (m + 1) es"
    by (simp only: hook_keys.simps Let_def m_def)
  moreover have "distinct (hook_keys (Some (hook_index e)) (m + 1) es)" by (rule Cons.IH) (use Cons.prems in simp)
  ultimately show ?case by (simp only: distinct.simps) blast
qed simp

lemma Itoa_inj: "is_i64 x \<Longrightarrow> is_i64 y \<Longrightarrow> Itoa x = Itoa y \<longleftrightarrow> x = y"
  by (metis ParseInt_Itoa sum.inject(2))

lemma hash_not_in_Itoa: "0 \<le> x \<Longrightarrow> CHR ''#'' \<notin> set (Itoa x)"
proof
  assume "0 \<le> x" "CHR ''#'' \<in> set (Itoa x)"
  then have "digit_val (CHR ''#'') \<noteq> None" by (rule Itoa_digits)
  then show False by (simp add: digit_val_def)
qed

lemma append_hash_split:
  fixes c :: char
  assumes "c \<notin> set a" and "c \<notin> set a'"
  shows "a @ c # b = a' @ c # b' \<longleftrightarrow> a = a' \<and> b = b'"
  by (metis Cut_append assms prod.inject)

lemma nested_preimage_inj:
  assumes "0 \<le> i" "is_i64 i" "0 \<le> i'" "is_i64 i'" "is_i64 k" "is_i64 k'"
  shows "nested_preimage h i k = nested_preimage h i' k' \<longleftrightarrow> i = i' \<and> k = k'"
proof -
  have "nested_preimage h i k = nested_preimage h i' k' \<longleftrightarrow>
      str_bytes (Itoa i @ CHR ''#'' # Itoa k) = str_bytes (Itoa i' @ CHR ''#'' # Itoa k')"
    by (simp add: nested_preimage_def str_bytes_def)
  also have "\<dots> \<longleftrightarrow> Itoa i = Itoa i' \<and> Itoa k = Itoa k'"
    by (simp only: str_bytes_inj append_hash_split [OF hash_not_in_Itoa [OF assms(1)] hash_not_in_Itoa [OF assms(3)]])
  finally show ?thesis using assms by (simp add: Itoa_inj)
qed

lemma hook_preimage_inj: "is_i64 i \<Longrightarrow> is_i64 i' \<Longrightarrow> hook_preimage h i = hook_preimage h i' \<longleftrightarrow> i = i'"
  by (simp add: hook_preimage_def Itoa_inj)

lemma hook_nested_differ: "0 \<le> i \<Longrightarrow> hook_preimage h i \<noteq> nested_preimage h i' k"
proof
  assume "0 \<le> i" "hook_preimage h i = nested_preimage h i' k"
  then have "str_bytes (Itoa i) = str_bytes (Itoa i' @ ''#'' @ Itoa k)"
    by (simp add: hook_preimage_def nested_preimage_def str_bytes_def)
  then have "Itoa i = Itoa i' @ ''#'' @ Itoa k" by (simp only: str_bytes_inj)
  then have "CHR ''#'' \<in> set (Itoa i)" by simp
  with \<open>0 \<le> i\<close> show False using hash_not_in_Itoa by blast
qed

lemma base_preimage_differ: "hash_bytes h \<noteq> hook_preimage h i" "hash_bytes h \<noteq> nested_preimage h i k"
  by (simp_all add: hook_preimage_def nested_preimage_def str_bytes_def)

text \<open>The preimages of the hashes of synthetic transactions; a finite set.\<close>

definition synthetic_preimages :: "hash \<Rightarrow> int \<Rightarrow> nat \<Rightarrow> bytes set" where
  "synthetic_preimages h n k =
     insert (hash_bytes h) (hook_preimage h ` {0..<n} \<union> (\<lambda>(i, j). nested_preimage h i j) ` ({0..<n} \<times> {0..<int k}))"

definition hook_pre :: "hash \<Rightarrow> (int \<Rightarrow> nat) \<Rightarrow> int \<times> int \<Rightarrow> bytes" where
  "hook_pre h cnt ik = (if 1 < cnt (fst ik) then nested_preimage h (fst ik) (snd ik) else hook_preimage h (fst ik))"

lemma hook_hash_pre: "hook_hash E L tx cnt i k = Keccak256Hash E (hook_pre (OriginalCosmosTxHash L tx) cnt (i, k))"
  by (simp add: hook_hash_def hook_pre_def NestedIBCHookTxHash_def IBCHookTxHash_def)

lemma count_le_one_eq:
  assumes "distinct xs" and "length (filter (\<lambda>x. f x = i) xs) \<le> 1" and "x \<in> set xs" "y \<in> set xs" "f x = i" "f y = i"
  shows "x = y"
proof -
  have "distinct (filter (\<lambda>x. f x = i) xs)" using assms(1) by simp
  moreover have "x \<in> set (filter (\<lambda>x. f x = i) xs)" "y \<in> set (filter (\<lambda>x. f x = i) xs)" using assms(3-6) by auto
  ultimately show ?thesis using assms(2) by (cases "filter (\<lambda>x. f x = i) xs") auto
qed

lemma hook_pre_inj_on:
  assumes "sorted (map hook_index es)" and "\<forall>e\<in>set es. 0 \<le> hook_index e \<and> hook_index e < n" and "n \<le> maxInt64"
    and "int (length es) \<le> maxInt64" and "cnt = (\<lambda>i. length (filter (\<lambda>e. hook_index e = i) es))"
  shows "inj_on (hook_pre h cnt) (set (hook_keys None 0 es))"
    and "hook_pre h cnt ` set (hook_keys None 0 es) \<subseteq> synthetic_preimages h n (length es) - {hash_bytes h}"
proof -
  let ?K = "hook_keys None 0 es"
  have r: "0 \<le> i \<and> i < n \<and> 0 \<le> k \<and> k < int (length es)" if "(i, k) \<in> set ?K" for i k
  proof -
    have "i \<in> set (map hook_index es)" using that hook_keys_fst [of None 0 es] by (metis fst_conv image_eqI set_map)
    then show ?thesis using hook_keys_range [OF _ that] assms(2) by auto
  qed
  have w: "is_i64 i \<and> is_i64 k" if "(i, k) \<in> set ?K" for i k
    using r [OF that] assms(3,4) by (auto simp: is_i64_def minInt64_def)
  have c: "cnt i = length (filter (\<lambda>ik. fst ik = i) ?K)" for i
  proof -
    have "cnt i = length (filter (\<lambda>j. j = i) (map hook_index es))" by (simp add: assms(5) filter_map comp_def)
    also have "\<dots> = length (filter (\<lambda>j. j = i) (map fst ?K))" by (simp only: hook_keys_fst)
    finally show ?thesis by (simp add: filter_map comp_def)
  qed
  show "inj_on (hook_pre h cnt) (set ?K)"
  proof (rule inj_onI)
    fix x y assume x: "x \<in> set ?K" and y: "y \<in> set ?K" and eq: "hook_pre h cnt x = hook_pre h cnt y"
    obtain i k where ik: "x = (i, k)" by (cases x)
    obtain i' k' where ik': "y = (i', k')" by (cases y)
    note rx = r [OF x [unfolded ik]] w [OF x [unfolded ik]] and ry = r [OF y [unfolded ik']] w [OF y [unfolded ik']]
    show "x = y"
    proof (cases "1 < cnt i"; cases "1 < cnt i'")
      assume "1 < cnt i" "1 < cnt i'"
      then show ?thesis using eq rx ry nested_preimage_inj [of i i' k k' h] by (simp add: ik ik' hook_pre_def)
    next
      assume cs: "\<not> 1 < cnt i" "\<not> 1 < cnt i'"
      then have "i = i'" using eq rx ry hook_preimage_inj [of i i' h] by (simp add: ik ik' hook_pre_def)
      moreover have "length (filter (\<lambda>x. fst x = i) ?K) \<le> 1" using cs(1) c [of i] by simp
      ultimately show ?thesis
        using count_le_one_eq [OF hook_keys_distinct [OF assms(1)] _ x y, of fst i] ik ik' by simp
    next
      assume "1 < cnt i" "\<not> 1 < cnt i'"
      then show ?thesis using eq ry hook_nested_differ [of i' h i k] by (simp add: ik ik' hook_pre_def)
    next
      assume "\<not> 1 < cnt i" "1 < cnt i'"
      then show ?thesis using eq rx hook_nested_differ [of i h i' k'] by (simp add: ik ik' hook_pre_def)
    qed
  qed
  show "hook_pre h cnt ` set ?K \<subseteq> synthetic_preimages h n (length es) - {hash_bytes h}"
  proof (rule image_subsetI)
    fix x assume x: "x \<in> set ?K"
    obtain i k where ik: "x = (i, k)" by (cases x)
    note rx = r [OF x [unfolded ik]]
    show "hook_pre h cnt x \<in> synthetic_preimages h n (length es) - {hash_bytes h}"
    proof (cases "1 < cnt i")
      case True
      then have e: "hook_pre h cnt x = nested_preimage h i k" by (simp add: ik hook_pre_def)
      have m: "nested_preimage h i k \<in> (\<lambda>(i, j). nested_preimage h i j) ` ({0..<n} \<times> {0..<int (length es)})"
        using rx by (intro image_eqI [of _ _ "(i, k)"]) simp_all
      show ?thesis unfolding e synthetic_preimages_def
        by (intro DiffI insertI2 UnI2, rule m, use base_preimage_differ(2) [of h i k] in simp)
    next
      case False
      then have e: "hook_pre h cnt x = hook_preimage h i" by (simp add: ik hook_pre_def)
      have m: "hook_preimage h i \<in> hook_preimage h ` {0..<n}" using rx by (intro imageI) simp
      show ?thesis unfolding e synthetic_preimages_def
        by (intro DiffI insertI2 UnI1, rule m, use base_preimage_differ(1) [of h i] in simp)
    qed
  qed
qed

subsection \<open>The cases of \<open>SyntheticTxs\<close>\<close>

lemma with_ethereum_gas_simps [simp]:
  "ctx_TxIndex (with_ethereum_gas ctx) = ctx_TxIndex ctx" "FirstLogIndex (with_ethereum_gas ctx) = FirstLogIndex ctx"
  "Tx (with_ethereum_gas ctx) = Tx ctx"
  "CumulativeGasUsedBefore (with_ethereum_gas ctx) = u64 (CumulativeGasUsedBefore ctx + EthereumGasUsed ctx)"
  by (simp_all add: with_ethereum_gas_def)

lemma SyntheticTxs_cases:
  assumes "SyntheticTxs E L r ctx = Inr txs"
  obtains
    (none) "bank_entries ctx r = []" "hook_entries ctx r = []" "txs = []"
  | (bank) "bank_entries ctx r \<noteq> []" "hook_entries ctx r = []"
      "txs = [syntheticTx E L r ctx (bank_entries ctx r) None (CosmosTxHash E L (Tx ctx)) (rs_gasUsed r)]"
  | (hooks) es where "hook_entries ctx r \<noteq> []" "bank_entries ctx r = []" "es = sort_key hook_index (hook_entries ctx r)"
      "txs = hook_txs E L r (hooksPerMessage (hook_entries ctx r)) (with_ethereum_gas ctx) None 0 es"
      "list_all (valid_hook ctx) (hook_entries ctx r)"
  | (both) es t where "hook_entries ctx r \<noteq> []" "bank_entries ctx r \<noteq> []" "es = sort_key hook_index (hook_entries ctx r)"
      "t = syntheticTx E L r (with_ethereum_gas ctx) (bank_entries ctx r) None (CosmosTxHash E L (Tx ctx)) (remaining_gas ctx r es)"
      "txs = t # hook_txs E L r (hooksPerMessage (hook_entries ctx r)) (after_tx (with_ethereum_gas ctx) t) None 0 es"
      "list_all (valid_hook ctx) (hook_entries ctx r)"
proof (cases "hook_entries ctx r = []")
  case True
  then show thesis using assms none bank by (simp add: SyntheticTxs_def split: if_splits)
next
  case False
  moreover have v: "list_all (valid_hook ctx) (hook_entries ctx r)"
    using assms False by (simp add: SyntheticTxs_def split: if_splits)
  ultimately show thesis
    using assms hooks [OF False _ refl] both [OF False _ refl refl] by (simp add: SyntheticTxs_def Let_def split: if_splits)
qed

lemma hooksPerMessage_sort: "hooksPerMessage (hook_entries ctx r) = hooksPerMessage (sort_key hook_index (hook_entries ctx r))"
proof
  fix i
  have "mset (filter (\<lambda>e. hook_index e = i) (hook_entries ctx r)) = mset (filter (\<lambda>e. hook_index e = i) (sort_key hook_index (hook_entries ctx r)))"
    by simp
  then show "hooksPerMessage (hook_entries ctx r) i = hooksPerMessage (sort_key hook_index (hook_entries ctx r)) i"
    unfolding hooksPerMessage_def by (rule mset_eq_length)
qed

lemma valid_hook_range: "valid_hook ctx e \<Longrightarrow> 0 \<le> hook_index e \<and> hook_index e < TotalMessages ctx"
  by (auto simp: valid_hook_def hook_index_def split: option.splits)

lemma bank_entries_subset: "set (bank_entries ctx r) \<subseteq> set (rs_entries r)"
  by (auto simp: bank_entries_def)

lemma hook_entries_subset: "set (sort_key f (hook_entries ctx r)) \<subseteq> set (rs_entries r)"
  by (auto simp: hook_entries_def)

text \<open>What a log of a synthetic transaction says about its transaction.\<close>

definition log_of_tx :: "VirtualTx \<Rightarrow> RPCLog \<Rightarrow> bool" where
  "log_of_tx t l \<longleftrightarrow> Virtual l \<and> TxHash l = r_TransactionHash (TxReceipt t) \<and> TxIndex l = r_TransactionIndex (TxReceipt t) \<and>
     BlockHash l = r_BlockHash (TxReceipt t) \<and> BlockNumber l = r_BlockNumber (TxReceipt t)"

lemma Some_eq_map_option: "Some y = map_option f x \<longleftrightarrow> (\<exists>z. x = Some z \<and> y = f z)"
  by (cases x) auto

lemma entry_logs_virtual: "Some l \<in> set (entry_logs c e) \<Longrightarrow> Virtual l"
  by (auto simp: entry_logs_def WrapLogs_def NewRPCLog_def Some_eq_map_option split: option.splits)

lemma set_metadata_from_mem:
  "Some l \<in> set (set_metadata_from ctx i logs) \<Longrightarrow> \<exists>k l0. Some l0 \<in> set logs \<and> l = set_metadata ctx k l0"
proof (induction logs arbitrary: i)
  case (Cons a logs)
  then consider "Some l = map_option (set_metadata ctx i) a" | "Some l \<in> set (set_metadata_from ctx (Suc i) logs)" by auto
  then show ?case
  proof cases
    case 1
    then show ?thesis by (auto simp: Some_eq_map_option)
  next
    case 2
    then show ?thesis using Cons.IH [of "Suc i"] by fastforce
  qed
qed simp

lemma syntheticTx_log: "Some l \<in> set (tx_logs (syntheticTx E L r ctx es hook h g)) \<Longrightarrow> log_of_tx (syntheticTx E L r ctx es hook h g) l"
proof -
  assume "Some l \<in> set (tx_logs (syntheticTx E L r ctx es hook h g))"
  then obtain k l0 where l0: "Some l0 \<in> set (concat (map (entry_logs (Some (OriginalCosmosTxHash L (Tx ctx)))) es))"
    "l = set_metadata \<lparr>lc_BlockHash = ctx_BlockHash ctx, lc_BlockNumber = ctx_BlockNumber ctx, lc_TxHash = h,
        lc_TxIndex = ctx_TxIndex ctx, lc_FirstLogIndex = FirstLogIndex ctx,
        lc_CosmosHash = Some (OriginalCosmosTxHash L (Tx ctx))\<rparr> k l0"
    unfolding syntheticTx_logs SetLogMetadata_def by (blast dest: set_metadata_from_mem)
  have "Virtual l0" using l0(1) entry_logs_virtual by auto
  then show ?thesis
    by (simp add: log_of_tx_def l0(2) set_metadata_def Let_def) (simp add: syntheticTx_def Let_def split: option.splits)
qed

lemma hook_txs_log: "t \<in> set (hook_txs E L r cnt ctx prev n es) \<Longrightarrow> Some l \<in> set (tx_logs t) \<Longrightarrow> log_of_tx t l"
  by (induction es arbitrary: ctx prev n) (auto simp: Let_def dest: syntheticTx_log)

lemma SyntheticTxs_parts:
  assumes "ParseResponse E L resp = Inr r" and "SyntheticTxs E L r ctx = Inr txs"
  shows "consecutive (ctx_TxIndex ctx) (map (\<lambda>t. r_TransactionIndex (TxReceipt t)) txs)"
    and "map (map_option Index) (concat (map tx_logs txs)) = index_run (FirstLogIndex ctx) (length (concat (map tx_logs txs)))"
    and "t \<in> set txs \<Longrightarrow> Some l \<in> set (tx_logs t) \<Longrightarrow> log_of_tx t l"
proof -
  have b: "\<forall>e\<in>set (bank_entries ctx r). None \<notin> set (e_logs e)"
    and h: "\<forall>e\<in>set (sort_key f (hook_entries ctx r)). None \<notin> set (e_logs e)" for f :: "entry \<Rightarrow> int"
    using ParseResponse_some [OF assms(1)] bank_entries_subset [of ctx r] hook_entries_subset [of f ctx r] by blast+
  show "consecutive (ctx_TxIndex ctx) (map (\<lambda>t. r_TransactionIndex (TxReceipt t)) txs)"
    using assms(2)
  proof (cases rule: SyntheticTxs_cases)
    case (hooks es)
    then show ?thesis using hook_txs_TxIndex [of "with_ethereum_gas ctx"] by simp
  next
    case (both es t)
    then show ?thesis using hook_txs_TxIndex [of "after_tx (with_ethereum_gas ctx) t"] by simp
  qed simp_all
  show "map (map_option Index) (concat (map tx_logs txs)) = index_run (FirstLogIndex ctx) (length (concat (map tx_logs txs)))"
    using assms(2)
  proof (cases rule: SyntheticTxs_cases)
    case (hooks es)
    then show ?thesis using h [of hook_index] by (simp only: hook_txs_Index hook_txs_length) simp
  next
    case (both es t)
    have "map (map_option Index) (concat (map tx_logs txs)) =
        index_run (FirstLogIndex ctx) (length (concat (map e_logs (bank_entries ctx r))) + length (concat (map e_logs es)))"
      using both b h [of hook_index] by (simp add: syntheticTx_Index syntheticTx_length hook_txs_Index index_run_add)
    moreover have "length (concat (map tx_logs txs)) = length (concat (map e_logs (bank_entries ctx r))) + length (concat (map e_logs es))"
      using both(4,5) by (simp add: hook_txs_length syntheticTx_length del: length_concat)
    ultimately show ?thesis by simp
  qed (use b in \<open>simp_all add: syntheticTx_Index syntheticTx_length\<close>)
  show "t \<in> set txs \<Longrightarrow> Some l \<in> set (tx_logs t) \<Longrightarrow> log_of_tx t l"
    using assms(2) by (cases rule: SyntheticTxs_cases) (auto dest: syntheticTx_log hook_txs_log)
qed

subsection \<open>Every log once\<close>

definition entry_mset :: "entry \<Rightarrow> (address \<times> hash list \<times> bytes) option multiset" where
  "entry_mset e = mset (map eth_content (e_logs e))"

lemma concat_mset: "mset (map eth_content (concat (map e_logs es))) = sum_list (map entry_mset es)"
  by (induction es) (auto simp: entry_mset_def)

lemma sum_list_filter: "sum_list (map f (filter P xs)) = sum_list (map (\<lambda>x. if P x then f x else {#}) xs)"
  by (induction xs) auto

lemma sum_list_swap: "sum_list (map (\<lambda>m. sum_list (map (f m) es)) ms) = sum_list (map (\<lambda>e. sum_list (map (\<lambda>m. f m e) ms)) es)"
  for f :: "'m \<Rightarrow> 'e \<Rightarrow> 'c multiset"
  by (induction ms) (simp_all add: sum_list_addf)

lemma LogsForMessage_mset:
  "mset (map log_content (LogsForMessage r m n c)) =
    sum_list (map (\<lambda>e. if belongsToMessage (e_msgIndex e) m n then entry_mset e else {#}) (rs_entries r))"
  by (simp add: LogsForMessage_def concat_entry_logs_content concat_mset sum_list_filter del: mset_map)

lemma belongs_once:
  assumes "distinct ms" and "set ms = {i. eth i}"
  shows "sum_list (map (\<lambda>m. if belongsToMessage i m n then x else {#}) ms) =
    (if belongsToNonEthereumMessage i eth n then {#} else x)"
proof -
  have one: "distinct ms \<Longrightarrow> sum_list (map (\<lambda>m. if m = j then x else {#}) ms) = (if j \<in> set ms then x else {#})"
    and two: "distinct ms \<Longrightarrow> sum_list (map (\<lambda>m. if j = m then x else {#}) ms) = (if j \<in> set ms then x else {#})" for j
    by (induction ms) auto
  show ?thesis
  proof (cases i)
    case None
    have "sum_list (map (\<lambda>m. {#}) ms) = {#}" by (induction ms) auto
    with one [OF assms(1), of 0] show ?thesis
      by (cases "n = 1") (simp_all add: None belongsToMessage_def belongsToNonEthereumMessage_def assms(2))
  next
    case (Some j)
    then show ?thesis
      using two [OF assms(1), of j] by (simp add: belongsToMessage_def belongsToNonEthereumMessage_def assms(2))
  qed
qed

lemma projected_split:
  "sum_list (map entry_mset (bank_entries ctx r)) + sum_list (map entry_mset (hook_entries ctx r)) =
    sum_list (map (\<lambda>e. if belongsToNonEthereumMessage (e_msgIndex e) (EthereumMessageIndexes ctx) (TotalMessages ctx)
                         then entry_mset e else {#}) (rs_entries r))"
proof -
  have "entry_mset e = {#}" if "e_logs e = []" for e using that by (simp add: entry_mset_def)
  then show ?thesis
    unfolding bank_entries_def hook_entries_def sum_list_filter sum_list_addf [symmetric]
    by (intro arg_cong [where f = sum_list] map_cong) (auto simp: projected_def)
qed

lemma SyntheticTxs_mset:
  assumes "SyntheticTxs E L r ctx = Inr txs"
  shows "mset (map log_content (concat (map tx_logs txs))) =
    sum_list (map entry_mset (bank_entries ctx r)) + sum_list (map entry_mset (hook_entries ctx r))"
proof -
  have srt: "sum_list (map entry_mset (sort_key hook_index es)) = sum_list (map entry_mset es)" for es
    by (simp only: sum_mset_sum_list [symmetric] mset_map mset_sort)
  have app: "mset (map log_content (concat (map tx_logs (t # ts)))) =
      mset (map log_content (tx_logs t)) + mset (map log_content (concat (map tx_logs ts)))" for t ts by simp
  show ?thesis using assms
  proof (cases rule: SyntheticTxs_cases)
    case (hooks es)
    then show ?thesis by (simp only: hook_txs_content concat_mset srt) simp
  next
    case (both es t)
    then show ?thesis by (simp only: app hook_txs_content syntheticTx_content concat_mset srt)
  qed (simp_all add: syntheticTx_content concat_mset del: mset_map)
qed

end
