(* ===== verification/Virtual_Projection.thy ===== *)
theory Virtual_Projection
  imports Virtual_Response
begin

text \<open>
  What the projection of Cosmos events to Ethereum transactions guarantees: contiguous numbering, every
  log shown once, gas counted once and different hashes, each with an evaluated example.
\<close>

section \<open>An example response\<close>

text \<open>Concrete library functions and a response with three bank events, one of them in an Ethereum
  message, and two IBC hooks in one message.\<close>

definition demo_eth :: Eth_Lib where
  "demo_eth =
     \<lparr>Keccak256Hash = (\<lambda>bs. case rev bs of a # b # c # cs \<Rightarrow> word_of_nat (length cs) * 65536 + ucast c * 256 + ucast a | _ \<Rightarrow> 0),
      IsHexAddress = (\<lambda>s. True), HexToAddress = (\<lambda>s. 8), Address_Hex = (\<lambda>a. []), HexToHash = (\<lambda>s. 0),
      Hash_Hex = (\<lambda>h. []), FromHex = (\<lambda>s. []), hexutil_Decode = (\<lambda>s. Inr (str_bytes (drop 2 s))),
      hexutil_Encode = (\<lambda>bs. []), DecodeBig = (\<lambda>s. Inr 0), EncodeBig = (\<lambda>i. []),
      Pack_denomAmount = (\<lambda>d a. Inr (str_bytes d)), Pack_summary = (\<lambda>p c q s r e. Inr (str_bytes c)),
      CreateAddress = (\<lambda>a n. a), EmptyRootHash = 0, EmptyUncleHash = 0, BytesToBloom = (\<lambda>b. b)\<rparr>"

definition demo_hook :: EventIBCHookCall where
  "demo_hook =
     \<lparr>ev_DestinationPort = ''transfer'', ev_DestinationChannel = ''channel-0'', ev_Sequence = 7, ev_Contract = ''0x01'',
      ev_Input = [1], ev_Success = True, ev_ReturnData = [], ev_Error = [], ev_GasUsed = 20,
      ev_Logs = [Some \<lparr>el_Address = ''0x02'', el_Topics = [], el_Data = [5]\<rparr>]\<rparr>"

definition demo_chain :: Chain_Lib where
  "demo_chain =
     null_chain\<lparr>Tx_Hash := (\<lambda>tx. tx), ParseCoinsNormalized := (\<lambda>s. Inr [(''inj'', 5)]),
       Bech32_Decode := (\<lambda>s. Inr (str_bytes s)), ParseTypedEvent := (\<lambda>e. Inr (Some demo_hook)),
       IBCHookCallerAddressHex := ''0x03''\<rparr>"

definition demo_attr :: "string \<Rightarrow> string \<Rightarrow> EventAttribute" where
  "demo_attr k v = \<lparr>Key = k, Val = v, Indexed = True\<rparr>"

definition demo_bank_event :: "string \<Rightarrow> Event" where
  "demo_bank_event i =
     \<lparr>EvType = ''coin_spent'', Attributes = [demo_attr ''spender'' ''a'', demo_attr ''amount'' ''5inj'', demo_attr ''msg_index'' i]\<rparr>"

definition demo_hook_event :: "string \<Rightarrow> Event" where
  "demo_hook_event i = \<lparr>EvType = ibc_EventType, Attributes = [demo_attr ''msg_index'' i]\<rparr>"

definition demo_result :: ExecTxResult where
  "demo_result =
     \<lparr>Code = 0, Data = [], GasUsed = 100,
      Events = [demo_bank_event ''0'', demo_hook_event ''1'', demo_bank_event ''2'', demo_hook_event ''1'', demo_bank_event ''1''],
      Codespace = [], Log = []\<rparr>"

definition demo_ctx :: TxContext where
  "demo_ctx =
     \<lparr>Tx = [9], EthereumMessageIndexes = (\<lambda>i. i = 2), EthereumGasUsed = 30, TotalMessages = 3, ctx_BlockHash = 1,
      ctx_BlockNumber = 10, ctx_TxIndex = 4, FirstLogIndex = 6, CumulativeGasUsedBefore = 1000, ChainID = Some 1\<rparr>"

definition demo_bank_entry :: "int \<Rightarrow> entry" where
  "demo_bank_entry i =
     \<lparr>e_logs = [Some (plain_log 8 [TopicCoinSpent demo_eth, bytes_to_hash (str_bytes ''a'')] (str_bytes ''inj''))],
      e_msgIndex = Some i, e_hook = None\<rparr>"

definition demo_hook_call :: "int \<Rightarrow> HookCall" where
  "demo_hook_call i =
     \<lparr>hk_DestinationPort = ''transfer'', hk_DestinationChannel = ''channel-0'', hk_Sequence = 7, hk_Contract = 8,
      hk_Input = [1], hk_Success = True, hk_ReturnData = [], hk_Error = [], hk_GasUsed = 20,
      hk_Logs = [Some (plain_log 8 [] [5])], hk_MsgIndex = Some i\<rparr>"

definition demo_hook_entry :: "int \<Rightarrow> entry" where
  "demo_hook_entry i =
     \<lparr>e_logs = [Some (plain_log 8 [] [5]),
                Some (plain_log 8 [TopicHookCall demo_eth, bytes_to_hash (addr_bytes 8), index_hash i] (str_bytes ''channel-0''))],
      e_msgIndex = Some i, e_hook = Some (demo_hook_call i)\<rparr>"

definition demo_response :: Response where
  "demo_response =
     \<lparr>rs_entries = [demo_bank_entry 0, demo_hook_entry 1, demo_bank_entry 2, demo_hook_entry 1, demo_bank_entry 1],
      rs_code = 0, rs_gasUsed = 100\<rparr>"

definition demo_txs :: "VirtualTx list" where
  "demo_txs = projr (SyntheticTxs demo_eth demo_chain demo_response demo_ctx)"

lemma demo_indexes: "msg_index_of ''0'' = Inr 0" "msg_index_of ''1'' = Inr 1" "msg_index_of ''2'' = Inr 2"
  by (simp_all add: msg_index_of_def Atoi_def ParseInt_def ParseUint_def digit_val_def)

lemma demo_bank_event_parses:
  assumes "msg_index_of i = Inr k" and "0 \<le> k" and "TrimSpace i \<noteq> []"
  shows "parse_entry demo_eth demo_chain (demo_bank_event i) = Inr (Some (demo_bank_entry k))"
proof -
  have a: "AddressBytes32 demo_eth demo_chain ''a'' = Inr (bytes_to_hash (str_bytes ''a''))"
    by (simp add: AddressBytes32_def TrimSpace_visible visible_ascii_def decodeHexAddress_def isHex_def demo_chain_def null_chain_def bytesToHash32_def)
  have t: "TrimSpace ''a'' \<noteq> []" by (simp add: TrimSpace_visible visible_ascii_def)
  have s: "set_accounts demo_eth demo_chain (eventAttrs (Attributes (demo_bank_event i))) b = Inr (b\<lparr>bk_Actor := bytes_to_hash (str_bytes ''a'')\<rparr>)"
    if "bk_Type b = ''coin_spent''" for b
    using that a t by (simp add: set_accounts_def bank_constants requiredAddress_def eventAttrs_def demo_bank_event_def demo_attr_def)
  have "bank_ParseEvent demo_eth demo_chain (demo_bank_event i) =
      Inr (Some [\<lparr>bk_Type = ''coin_spent'', bk_Sender = 0, bk_Recipient = 0, bk_Actor = bytes_to_hash (str_bytes ''a''),
        bk_Denom = ''inj'', bk_Amount = 5, bk_MsgIndex = Some k, bk_Mode = []\<rparr>])"
    using assms s
    by (simp add: bank_ParseEvent_def demo_bank_event_def IsTrackedEventType_def bank_constants eventAttrs_def demo_attr_def
        bank_parseMsgIndex_def attr_or_empty_def demo_chain_def null_chain_def)
  then show ?thesis
    by (simp add: parse_entry_def bank_EthereumLogs_def eventTopics_def bank_constants demo_bank_entry_def ContractAddress_def)
      (simp add: demo_eth_def)
qed

lemma demo_hook_event_parses:
  assumes "msg_index_of i = Inr k" and "0 \<le> k" and "TrimSpace i \<noteq> []"
  shows "parse_entry demo_eth demo_chain (demo_hook_event i) = Inr (Some (demo_hook_entry k))"
proof -
  have "bank_ParseEvent demo_eth demo_chain (demo_hook_event i) = Inr None"
    by (simp add: bank_ParseEvent_def demo_hook_event_def IsTrackedEventType_def bank_constants ibc_EventType_def)
  moreover have "ibc_ParseEvent demo_eth demo_chain (demo_hook_event i) = Inr (Some (demo_hook_call k))"
    using assms by (simp add: ibc_ParseEvent_def normalizeEvent_def demo_hook_event_def demo_attr_def demo_chain_def null_chain_def demo_eth_def
        demo_hook_def ethereumLog_def demo_hook_call_def)
  ultimately show ?thesis
    using assms(2) by (simp add: parse_entry_def ibc_EthereumLogs_def demo_hook_call_def demo_hook_entry_def ContractAddress_def)
      (simp add: demo_eth_def plain_log_def)
qed

lemma demo_parses: "ParseResponse demo_eth demo_chain (Some demo_result) = Inr demo_response"
proof -
  have t: "TrimSpace ''0'' \<noteq> []" "TrimSpace ''1'' \<noteq> []" "TrimSpace ''2'' \<noteq> []" by (simp_all add: TrimSpace_visible visible_ascii_def)
  note p = demo_bank_event_parses [OF demo_indexes(1) _ t(1)] demo_bank_event_parses [OF demo_indexes(2) _ t(2)]
    demo_bank_event_parses [OF demo_indexes(3) _ t(3)] demo_hook_event_parses [OF demo_indexes(2) _ t(2)]
  have "u64 100 = 100" by (simp add: u64_def take_bit_int_eq_self)
  then show ?thesis by (simp add: ParseResponse_def demo_result_def p demo_response_def)
qed

lemma demo_synthesizes: "SyntheticTxs demo_eth demo_chain demo_response demo_ctx = Inr demo_txs"
proof -
  have "\<not> isl (SyntheticTxs demo_eth demo_chain demo_response demo_ctx)" by code_simp
  then show ?thesis unfolding demo_txs_def by (simp add: sum.collapse(2))
qed

section \<open>Properties\<close>

text \<open>C27: The synthetic transactions of a parsed response are laid out contiguously: their transaction
  indexes count up from the context's index, their logs, over all transactions in order, are numbered
  without a gap from the context's first log index, and every log is marked virtual and carries the
  hash, the index and the block of its own transaction.\<close>

theorem SyntheticTxs_layout:
  assumes "ParseResponse E L resp = Inr r" and "SyntheticTxs E L r ctx = Inr txs"
  shows "consecutive (ctx_TxIndex ctx) (map (\<lambda>t. r_TransactionIndex (TxReceipt t)) txs) \<and>
    map (map_option Index) (concat (map tx_logs txs)) = index_run (FirstLogIndex ctx) (length (concat (map tx_logs txs))) \<and>
    (\<forall>t\<in>set txs. \<forall>l. Some l \<in> set (tx_logs t) \<longrightarrow> log_of_tx t l)"
  using SyntheticTxs_parts [OF assms] by blast

theorem SyntheticTxs_layout_witness:
  "length demo_txs = 3 \<and> consecutive 4 (map (\<lambda>t. r_TransactionIndex (TxReceipt t)) demo_txs) \<and>
    map (map_option Index) (concat (map tx_logs demo_txs)) = index_run 6 6"
proof -
  have "length demo_txs = 3" "length (concat (map tx_logs demo_txs)) = 6" by code_simp+
  then show ?thesis using SyntheticTxs_layout [OF demo_parses demo_synthesizes] by (simp add: demo_ctx_def)
qed


text \<open>C11: Every virtual log of a response is shown exactly once: the logs attached to the genuine
  Ethereum messages (the duplicate-free list \<open>ms\<close> of their indexes) together with the logs of the
  synthetic transactions are, as a multiset of address, topics and data, the logs of all entries.\<close>

theorem virtual_logs_once:
  assumes "SyntheticTxs E L r ctx = Inr txs" and "distinct ms" and "set ms = {i. EthereumMessageIndexes ctx i}"
  shows "mset (map log_content (concat (map (\<lambda>m. LogsForMessage r m (TotalMessages ctx) (lctx m)) ms))) +
    mset (map log_content (concat (map tx_logs txs))) =
    mset (map eth_content (concat (map e_logs (rs_entries r))))"
proof -
  let ?f = "\<lambda>m e. if belongsToMessage (e_msgIndex e) m (TotalMessages ctx) then entry_mset e else {#}"
  let ?g = "\<lambda>e. if belongsToNonEthereumMessage (e_msgIndex e) (EthereumMessageIndexes ctx) (TotalMessages ctx)
      then entry_mset e else {#}"
  have "mset (map log_content (concat (map (\<lambda>m. LogsForMessage r m (TotalMessages ctx) (lctx m)) ms))) =
      sum_list (map (\<lambda>m. mset (map log_content (LogsForMessage r m (TotalMessages ctx) (lctx m)))) ms)"
    by (induction ms) auto
  also have "\<dots> = sum_list (map (\<lambda>m. sum_list (map (?f m) (rs_entries r))) ms)" by (simp only: LogsForMessage_mset)
  also have "\<dots> = sum_list (map (\<lambda>e. sum_list (map (\<lambda>m. ?f m e) ms)) (rs_entries r))" by (rule sum_list_swap)
  also have "\<dots> = sum_list (map (\<lambda>e. if belongsToNonEthereumMessage (e_msgIndex e) (EthereumMessageIndexes ctx)
      (TotalMessages ctx) then {#} else entry_mset e) (rs_entries r))"
    by (simp only: belongs_once [OF assms(2,3)])
  finally have "mset (map log_content (concat (map (\<lambda>m. LogsForMessage r m (TotalMessages ctx) (lctx m)) ms))) +
      mset (map log_content (concat (map tx_logs txs))) =
      sum_list (map (\<lambda>e. (if belongsToNonEthereumMessage (e_msgIndex e) (EthereumMessageIndexes ctx)
      (TotalMessages ctx) then {#} else entry_mset e) + ?g e) (rs_entries r))"
    by (simp only: SyntheticTxs_mset [OF assms(1)] projected_split sum_list_addf)
  also have "\<dots> = sum_list (map entry_mset (rs_entries r))"
    by (intro arg_cong [where f = sum_list] map_cong) auto
  finally show ?thesis by (simp only: concat_mset)
qed

definition demo_lctx :: "int \<Rightarrow> LogContext" where
  "demo_lctx m = \<lparr>lc_BlockHash = 9, lc_BlockNumber = 12, lc_TxHash = 5, lc_TxIndex = m, lc_FirstLogIndex = 0, lc_CosmosHash = None\<rparr>"

theorem virtual_logs_once_witness:
  "mset (map log_content (concat (map (\<lambda>m. LogsForMessage demo_response m 3 (demo_lctx m)) [2]))) +
    mset (map log_content (concat (map tx_logs demo_txs))) =
    mset (map eth_content (concat (map e_logs (rs_entries demo_response))))"
  using virtual_logs_once [OF demo_synthesizes, of "[2]" demo_lctx] by (simp add: demo_ctx_def)

text \<open>C28: When a response has IBC hooks, gas is counted once. The transactions are that of the bank events, if there are
  any, and then one per hook in the order of the messages, each recognised by its logs: every hook transaction is charged the
  gas of its own hook, and the bank transaction what the Ethereum messages and the hooks leave of the gas of the response. The
  receipts' cumulative gas is a running sum that starts after the gas of the Ethereum messages, and Ethereum, hook and bank
  gas add up to the gas of the response whenever they fit into it. The gas of the Ethereum messages and of the hooks is not
  negative.\<close>

theorem SyntheticTxs_gas:
  assumes "SyntheticTxs E L r ctx = Inr txs" and "hook_entries ctx r \<noteq> []"
    and "0 \<le> EthereumGasUsed ctx" and "\<forall>e\<in>set (hook_entries ctx r). 0 \<le> hook_gas e"
    and "left = rs_gasUsed r - EthereumGasUsed ctx - sum_list (map hook_gas (hook_entries ctx r))"
  shows "map (\<lambda>t. (map log_content (tx_logs t), r_GasUsed (TxReceipt t))) txs =
      (if bank_entries ctx r = [] then [] else [(map eth_content (concat (map e_logs (bank_entries ctx r))), max 0 left)]) @
      map (\<lambda>e. (map eth_content (e_logs e), hk_GasUsed (the (e_hook e)))) (sort_key hook_index (hook_entries ctx r)) \<and>
    accumulates (u64 (CumulativeGasUsedBefore ctx + EthereumGasUsed ctx)) txs \<and>
    (bank_entries ctx r \<noteq> [] \<and> 0 \<le> left \<longrightarrow>
      EthereumGasUsed ctx + sum_list (map (\<lambda>t. r_GasUsed (TxReceipt t)) txs) = rs_gasUsed r)"
proof -
  let ?es = "sort_key hook_index (hook_entries ctx r)"
  have srt: "sum_list (map hook_gas ?es) = sum_list (map hook_gas (hook_entries ctx r))"
    by (simp only: sum_mset_sum_list [symmetric] mset_map mset_sort)
  have hk: "\<forall>e\<in>set ?es. e_hook e \<noteq> None" by (auto simp: hook_entries_def)
  have pos: "0 \<le> sum_list (map hook_gas (hook_entries ctx r))" using assms(4) by (intro sum_list_nonneg) auto
  have rem: "remaining_gas ctx r ?es = max 0 left"
  proof -
    have "0 \<le> accountGas (rs_gasUsed r) (EthereumGasUsed ctx)" by (simp add: accountGas_def)
    moreover have "\<forall>g\<in>set (map hook_gas ?es). 0 \<le> g" using assms(4) by simp
    ultimately have "remaining_gas ctx r ?es =
        max 0 (accountGas (rs_gasUsed r) (EthereumGasUsed ctx) - sum_list (map hook_gas ?es))"
      unfolding remaining_gas_def by (rule foldl_accountGas)
    then show ?thesis using pos by (simp add: srt accountGas_def assms(5))
  qed
  show ?thesis using assms(1)
  proof (cases rule: SyntheticTxs_cases)
    case (hooks es)
    then show ?thesis
      using hook_txs_accumulates [of "with_ethereum_gas ctx"] by (simp add: hook_txs_charged [OF hk])
  next
    case (both es t)
    then show ?thesis
      using hook_txs_accumulates [of "after_tx (with_ethereum_gas ctx) t"]
      by (simp add: hook_txs_charged [OF hk] hook_txs_gas [OF hk] srt rem syntheticTx_content assms(5))
  qed (use assms(2) in auto)
qed

theorem SyntheticTxs_gas_witness:
  "accumulates 1030 demo_txs \<and> map (\<lambda>t. r_GasUsed (TxReceipt t)) demo_txs = [30, 20, 20]"
proof -
  have h: "hook_entries demo_ctx demo_response \<noteq> []" "bank_entries demo_ctx demo_response \<noteq> []"
    "map hook_gas (hook_entries demo_ctx demo_response) = [20, 20]" "rs_gasUsed demo_response = 100" by code_simp+
  have s: "map (\<lambda>e. hk_GasUsed (the (e_hook e))) (sort_key hook_index (hook_entries demo_ctx demo_response)) = [20, 20]" by code_simp
  have "\<forall>g\<in>set (map hook_gas (hook_entries demo_ctx demo_response)). 0 \<le> g" unfolding h(3) by simp
  then have n: "\<forall>e\<in>set (hook_entries demo_ctx demo_response). 0 \<le> hook_gas e" by simp
  have e: "EthereumGasUsed demo_ctx = 30" "u64 (CumulativeGasUsedBefore demo_ctx + EthereumGasUsed demo_ctx) = 1030"
    by (simp_all add: demo_ctx_def u64_def take_bit_int_eq_self)
  from SyntheticTxs_gas [OF demo_synthesizes h(1) _ n refl]
  have g: "map (\<lambda>t. (map log_content (tx_logs t), r_GasUsed (TxReceipt t))) demo_txs =
      [(map eth_content (concat (map e_logs (bank_entries demo_ctx demo_response))), 30)] @
      map (\<lambda>e. (map eth_content (e_logs e), hk_GasUsed (the (e_hook e)))) (sort_key hook_index (hook_entries demo_ctx demo_response))"
    and a: "accumulates 1030 demo_txs" using e h by auto
  from arg_cong [OF g, of "map snd"] show ?thesis using a s by (simp add: comp_def)
qed

text \<open>C29: The hashes of the synthetic transactions of one response are pairwise different, as long as
  Keccak-256 does not collide on the finitely many preimages they are built from: the hash of the bank
  transaction, one hash per message with a single hook, and one hash per hook of a message with several.\<close>

theorem SyntheticTxs_distinct:
  assumes "SyntheticTxs E L r ctx = Inr txs" and "TotalMessages ctx \<le> maxInt64" and "int (length (rs_entries r)) \<le> maxInt64"
    and "inj_on (Keccak256Hash E)
      (synthetic_preimages (OriginalCosmosTxHash L (Tx ctx)) (TotalMessages ctx) (length (hook_entries ctx r)))"
  shows "distinct (map (\<lambda>t. r_TransactionHash (TxReceipt t)) txs)"
proof -
  let ?h = "OriginalCosmosTxHash L (Tx ctx)" and ?es = "sort_key hook_index (hook_entries ctx r)"
  let ?cnt = "hooksPerMessage (hook_entries ctx r)" and ?pre = "hook_pre (OriginalCosmosTxHash L (Tx ctx)) (hooksPerMessage (hook_entries ctx r))"
  have len: "int (length ?es) \<le> maxInt64"
  proof -
    have "length ?es \<le> length (rs_entries r)" by (simp add: hook_entries_def)
    then show ?thesis using assms(3) by linarith
  qed
  have hashes: "distinct (map (\<lambda>t. r_TransactionHash (TxReceipt t)) (hook_txs E L r ?cnt c None 0 ?es)) \<and>
      CosmosTxHash E L (Tx ctx) \<notin> (\<lambda>t. r_TransactionHash (TxReceipt t)) ` set (hook_txs E L r ?cnt c None 0 ?es)"
    if v: "list_all (valid_hook ctx) (hook_entries ctx r)" and c: "Tx c = Tx ctx" for c
  proof -
    have v': "\<forall>e\<in>set ?es. 0 \<le> hook_index e \<and> hook_index e < TotalMessages ctx"
      using v valid_hook_range by (auto simp: list_all_iff)
    have cnt: "?cnt = (\<lambda>i. length (filter (\<lambda>e. hook_index e = i) ?es))"
      unfolding hooksPerMessage_sort by (simp add: hooksPerMessage_def fun_eq_iff)
    note inj = hook_pre_inj_on [OF sorted_sort_key v' assms(2) len cnt, of ?h]
    have hs: "map (\<lambda>t. r_TransactionHash (TxReceipt t)) (hook_txs E L r ?cnt c None 0 ?es) =
        map (\<lambda>ik. Keccak256Hash E (?pre ik)) (hook_keys None 0 ?es)"
      unfolding hook_txs_hash by (simp add: hook_hash_pre c split_def)
    have "inj_on (\<lambda>ik. Keccak256Hash E (?pre ik)) (set (hook_keys None 0 ?es))"
      using comp_inj_on [OF inj(1) inj_on_subset [OF assms(4)]] inj(2) by (simp add: comp_def) blast
    then have d: "distinct (map (\<lambda>ik. Keccak256Hash E (?pre ik)) (hook_keys None 0 ?es))"
      by (simp add: distinct_map hook_keys_distinct)
    have "Keccak256Hash E (hash_bytes ?h) \<notin> Keccak256Hash E ` (?pre ` set (hook_keys None 0 ?es))"
      using inj_on_image_mem_iff [OF assms(4), of "hash_bytes ?h" "?pre ` set (hook_keys None 0 ?es)"] inj(2)
      by (auto simp: synthetic_preimages_def)
    then have "CosmosTxHash E L (Tx ctx) \<notin> set (map (\<lambda>ik. Keccak256Hash E (?pre ik)) (hook_keys None 0 ?es))"
      by (simp add: CosmosTxHash_def image_image)
    with d show ?thesis unfolding hs [symmetric] by simp
  qed
  show ?thesis using assms(1)
  proof (cases rule: SyntheticTxs_cases)
    case (both es t)
    then show ?thesis using hashes [of "after_tx (with_ethereum_gas ctx) t"] by simp
  next
    case (hooks es)
    then show ?thesis using hashes [of "with_ethereum_gas ctx"] by simp
  qed simp_all
qed

theorem SyntheticTxs_distinct_witness:
  "length demo_txs = 3 \<and> distinct (map (\<lambda>t. r_TransactionHash (TxReceipt t)) demo_txs)"
proof -
  have l: "length demo_txs = 3" "length (hook_entries demo_ctx demo_response) = 2" "length (rs_entries demo_response) = 5" by code_simp+
  have p: "synthetic_preimages h 3 2 =
      {hash_bytes h, hook_preimage h 0, hook_preimage h 1, hook_preimage h 2, nested_preimage h 0 0, nested_preimage h 0 1,
       nested_preimage h 1 0, nested_preimage h 1 1, nested_preimage h 2 0, nested_preimage h 2 1}" for h
  proof -
    have s: "{0..<(3 :: int)} = {0, 1, 2}" "{0..<int 2} = {0, 1}" by auto
    show ?thesis by (simp only: synthetic_preimages_def s) auto
  qed
  have i: "Itoa 0 = ''0''" "Itoa 1 = ''1''" "Itoa 2 = ''2''" by code_simp+
  have h: "hash_bytes 9 = replicate 29 0 @ [0, 0, 9]" "OriginalCosmosTxHash demo_chain [9] = 9" by code_simp+
  have "inj_on (Keccak256Hash demo_eth) (synthetic_preimages 9 3 2)"
    by (simp add: p inj_on_def demo_eth_def hook_preimage_def nested_preimage_def i h(1) str_bytes_def)
  then show ?thesis using SyntheticTxs_distinct [OF demo_synthesizes] l h(2) by (simp add: demo_ctx_def maxInt64_def)
qed

end
