(* ===== verification/Block_Ranges.thy ===== *)
theory Block_Ranges
  imports Go_Strings "HOL-Library.Product_Lexorder"
begin

text \<open>
  Block ranges: the arithmetic of the indexer on inclusive height ranges
  (\<open>internal/indexer/ranges.go\<close>) and the parsing of the resync targets of the command line
  (\<open>cmd/evm-gateway/cmd_resync.go\<close>). A list of ranges denotes the set of heights it covers; a
  list is normal when its ranges are non-empty, ascending and separated, and normal lists are
  canonical: equal sets have equal normal lists.
\<close>

section \<open>Definitions\<close>

record BlockRange =
  Start :: int
  End :: int

abbreviation rng :: "int \<Rightarrow> int \<Rightarrow> BlockRange" where
  "rng a b \<equiv> \<lparr>Start = a, End = b\<rparr>"

text \<open>The grouping loop of \<open>LoadIndexedRanges\<close> over the heights read from the database, in
  iteration order; \<open>lastBlock = -1\<close> means that no height has been seen.\<close>

fun group_heights :: "BlockRange list \<Rightarrow> int \<Rightarrow> BlockRange \<Rightarrow> int list \<Rightarrow> BlockRange list \<times> int \<times> BlockRange" where
  "group_heights ranges lastBlock current [] = (ranges, lastBlock, current)"
| "group_heights ranges lastBlock current (height # hs) =
     (if height = lastBlock then group_heights ranges lastBlock current hs
      else if lastBlock = -1 then group_heights ranges height (rng height height) hs
      else if height = i64 (lastBlock + 1) then group_heights ranges height (current\<lparr>End := height\<rparr>) hs
      else group_heights (ranges @ [current]) height (rng height height) hs)"

text \<open>The loop of \<open>ComputeGaps\<close>: \<open>break\<close> and the end of the range list both lead to the final
  append of \<open>gaps_finish\<close>.\<close>

definition gaps_finish :: "int \<Rightarrow> int \<Rightarrow> BlockRange list \<Rightarrow> BlockRange list" where
  "gaps_finish cursor e gaps = (if cursor \<le> e then gaps @ [rng cursor e] else gaps)"

fun gaps_loop :: "int \<Rightarrow> int \<Rightarrow> BlockRange list \<Rightarrow> BlockRange list \<Rightarrow> BlockRange list" where
  "gaps_loop cursor e gaps [] = gaps_finish cursor e gaps"
| "gaps_loop cursor e gaps (r # rs) =
     (if End r < cursor then gaps_loop cursor e gaps rs
      else if Start r > e then gaps_finish cursor e gaps
      else
        let gapEnd = (if i64 (Start r - 1) > e then e else i64 (Start r - 1));
            gaps' = (if Start r > cursor \<and> cursor \<le> gapEnd then gaps @ [rng cursor gapEnd] else gaps);
            cursor' = (if i64 (End r + 1) > cursor then i64 (End r + 1) else cursor)
        in if cursor' > e then gaps_finish cursor' e gaps' else gaps_loop cursor' e gaps' rs)"

text \<open>\<open>sort.Slice\<close> orders by \<open>Start\<close>; it is not stable, and the order of ranges with equal
  \<open>Start\<close> does not matter, as shown below.\<close>

definition ComputeGaps :: "int \<Rightarrow> int \<Rightarrow> BlockRange list \<Rightarrow> BlockRange list" where
  "ComputeGaps start e ranges =
     (if start > e then []
      else if ranges = [] then [rng start e]
      else gaps_loop start e [] (sort_key Start ranges))"

fun merge_loop :: "BlockRange \<Rightarrow> BlockRange list \<Rightarrow> BlockRange list \<Rightarrow> BlockRange list" where
  "merge_loop current merged [] = merged @ [current]"
| "merge_loop current merged (nxt # rest) =
     (if Start nxt \<le> i64 (End current + 1) then
        merge_loop (if End nxt > End current then current\<lparr>End := End nxt\<rparr> else current) merged rest
      else merge_loop nxt (merged @ [current]) rest)"

definition NormalizeRanges :: "BlockRange list \<Rightarrow> BlockRange list" where
  "NormalizeRanges ranges =
     (case sort_key (\<lambda>r. (Start r, End r)) ranges of
        [] \<Rightarrow> []
      | first # rest \<Rightarrow> merge_loop first [] rest)"

definition CountBlocks :: "BlockRange list \<Rightarrow> int" where
  "CountBlocks ranges = foldl (\<lambda>total r. i64 (total + i64 (i64 (End r - Start r) + 1))) 0 ranges"

subsection \<open>Resync targets\<close>

datatype resync_error =
    NoTargets
  | EmptyTarget
  | InvalidHeight string
  | NegativeHeight int
  | BadRangeSyntax string
  | StartAfterEnd string int int

definition parseResyncHeight :: "string \<Rightarrow> resync_error + int" where
  "parseResyncHeight raw =
     (case ParseInt raw 64 of
        Inl _ \<Rightarrow> Inl (InvalidHeight raw)
      | Inr height \<Rightarrow> if height < 0 then Inl (NegativeHeight height) else Inr height)"

definition parseResyncTarget :: "string \<Rightarrow> resync_error + BlockRange" where
  "parseResyncTarget raw =
     (if raw = [] then Inl EmptyTarget
      else if \<not> Contains raw '':'' then
        bindR (parseResyncHeight raw) (\<lambda>height. Inr (rng height height))
      else if count_list raw (CHR '':'') \<noteq> 1 then Inl (BadRangeSyntax raw)
      else case Cut raw (CHR '':'') of (startRaw, endRaw, _) \<Rightarrow>
        bindR (parseResyncHeight startRaw) (\<lambda>start.
        bindR (parseResyncHeight endRaw) (\<lambda>e.
          if start > e then Inl (StartAfterEnd raw start e) else Inr (rng start e))))"

definition parseResyncTargets :: "string list \<Rightarrow> resync_error + BlockRange list" where
  "parseResyncTargets args =
     (if args = [] then Inl NoTargets
      else bindR (mapR parseResyncTarget args) (\<lambda>targets. Inr (NormalizeRanges targets)))"

subsection \<open>What a list of ranges denotes\<close>

definition covered :: "BlockRange list \<Rightarrow> int set" where
  "covered rs = (\<Union>r\<in>set rs. {Start r..End r})"

text \<open>The ranges the program handles: non-empty, and below the largest height.\<close>

definition valid_range :: "BlockRange \<Rightarrow> bool" where
  "valid_range r \<longleftrightarrow> minInt64 \<le> Start r \<and> Start r \<le> End r \<and> End r < maxInt64"

definition normal_ranges :: "BlockRange list \<Rightarrow> bool" where
  "normal_ranges rs \<longleftrightarrow>
     (\<forall>r\<in>set rs. Start r \<le> End r) \<and> sorted_wrt (\<lambda>a b. End a + 1 < Start b) rs"

section \<open>Covered heights and canonical lists\<close>

lemma covered_Nil [simp]: "covered [] = {}"
  and covered_Cons [simp]: "covered (r # rs) = {Start r..End r} \<union> covered rs"
  and covered_append [simp]: "covered (xs @ ys) = covered xs \<union> covered ys"
  by (auto simp: covered_def)

lemma covered_mset: "mset xs = mset ys \<Longrightarrow> covered xs = covered ys"
  unfolding covered_def by (drule mset_eq_setD) simp

lemma normal_ranges_Nil [simp]: "normal_ranges []"
  by (simp add: normal_ranges_def)

lemma normal_ranges_Cons:
  "normal_ranges (r # rs) \<longleftrightarrow>
     Start r \<le> End r \<and> (\<forall>q\<in>set rs. End r + 1 < Start q) \<and> normal_ranges rs"
  by (auto simp: normal_ranges_def)

lemma normal_ranges_snoc:
  "normal_ranges (rs @ [r]) \<longleftrightarrow>
     normal_ranges rs \<and> Start r \<le> End r \<and> (\<forall>q\<in>set rs. End q + 1 < Start r)"
  by (auto simp: normal_ranges_def sorted_wrt_append)

lemma covered_ge: "h \<in> covered rs \<Longrightarrow> \<forall>q\<in>set rs. s \<le> Start q \<Longrightarrow> s \<le> h"
  by (auto simp: covered_def)

lemma normal_ranges_hd_less:
  assumes "normal_ranges (r # rs)" and "h \<in> covered rs"
  shows "End r + 1 < h"
proof -
  have "\<forall>q\<in>set rs. End r + 2 \<le> Start q"
    using assms(1) by (auto simp: normal_ranges_Cons)
  from covered_ge [OF assms(2) this] show ?thesis by simp
qed

lemma normal_ranges_hd_notin:
  assumes "normal_ranges (r # rs)"
  shows "End r + 1 \<notin> covered (r # rs)" and "\<forall>h\<in>covered (r # rs). Start r \<le> h"
proof -
  have "Start r \<le> End r" using assms by (simp add: normal_ranges_Cons)
  with normal_ranges_hd_less [OF assms]
  show "End r + 1 \<notin> covered (r # rs)" and "\<forall>h\<in>covered (r # rs). Start r \<le> h"
    by fastforce+
qed

lemma normal_ranges_tl_covered:
  assumes "normal_ranges (r # rs)"
  shows "covered rs = covered (r # rs) - {Start r..End r}"
  using normal_ranges_hd_less [OF assms] by fastforce

lemma range_eqI: "Start r = Start q \<Longrightarrow> End r = End q \<Longrightarrow> (r :: BlockRange) = q"
  by simp

text \<open>Normal lists are canonical representations of the sets they cover.\<close>

lemma normal_ranges_unique:
  assumes "normal_ranges xs" and "normal_ranges ys" and "covered xs = covered ys"
  shows "xs = ys"
  using assms
proof (induction xs arbitrary: ys)
  case Nil
  then show ?case by (cases ys) (auto simp: normal_ranges_Cons)
next
  case (Cons r rs)
  note cov = Cons.prems(3)
  from Cons.prems(1) have r: "Start r \<le> End r" by (simp add: normal_ranges_Cons)
  then obtain q qs where ys: "ys = q # qs"
    using cov by (cases ys) auto
  from Cons.prems(2) ys have q: "Start q \<le> End q" by (simp add: normal_ranges_Cons)
  note lo = normal_ranges_hd_notin(2) [OF Cons.prems(1)]
    normal_ranges_hd_notin(2) [OF Cons.prems(2) [unfolded ys]]
  have "Start r \<in> covered ys" using r cov [symmetric] by simp
  moreover have "Start q \<in> covered (r # rs)" using q cov ys by simp
  ultimately have st: "Start r = Start q"
    using lo ys by (metis order_antisym)
  have "\<not> End r < End q"
  proof
    assume "End r < End q"
    then have "End r + 1 \<in> {Start q..End q}" using r st by simp
    then have "End r + 1 \<in> covered (q # qs)" by simp
    then have "End r + 1 \<in> covered (r # rs)" using cov ys by metis
    with normal_ranges_hd_notin(1) [OF Cons.prems(1)] show False by blast
  qed
  moreover have "\<not> End q < End r"
  proof
    assume "End q < End r"
    then have "End q + 1 \<in> {Start r..End r}" using q st by simp
    then have "End q + 1 \<in> covered (r # rs)" by simp
    then have "End q + 1 \<in> covered (q # qs)" using cov ys by metis
    with normal_ranges_hd_notin(1) [OF Cons.prems(2) [unfolded ys]] show False by blast
  qed
  ultimately have en: "End r = End q" by simp
  have "covered rs = covered qs"
    using normal_ranges_tl_covered [OF Cons.prems(1)] cov st en
      normal_ranges_tl_covered [OF Cons.prems(2) [unfolded ys]] by (simp only: ys)
  with Cons.IH [of qs] Cons.prems(1,2) ys have "rs = qs" by (simp add: normal_ranges_Cons)
  then show ?case using ys st en range_eqI [of r q] by simp
qed

section \<open>Gaps\<close>

lemma valid_range_i64:
  assumes "valid_range r"
  shows "i64 (End r + 1) = End r + 1" and "is_i64 (End r + 1)"
  using assms by (auto simp: valid_range_def is_i64_def minInt64_def maxInt64_def)

lemma i64_pred: "is_i64 c \<Longrightarrow> c < s \<Longrightarrow> s \<le> maxInt64 \<Longrightarrow> i64 (s - 1) = s - 1"
  by (simp add: is_i64_def)

lemma gaps_finish_covered: "covered (gaps_finish cursor e gaps) = covered gaps \<union> {cursor..e}"
  by (auto simp: gaps_finish_def)

text \<open>One step of the loop on a range that meets \<open>[cursor, e]\<close>.\<close>

definition gap_before :: "int \<Rightarrow> BlockRange \<Rightarrow> BlockRange list" where
  "gap_before cursor r = (if cursor < Start r then [rng cursor (Start r - 1)] else [])"

lemma gap_before_covered: "covered (gap_before cursor r) = {cursor..Start r - 1}"
  by (auto simp: gap_before_def)

lemma gaps_loop_step:
  assumes r: "valid_range r" and c: "is_i64 cursor"
    and step: "\<not> End r < cursor" "\<not> e < Start r"
  shows "gaps_loop cursor e gaps (r # rs) =
    (if e < End r + 1 then gaps_finish (End r + 1) e (gaps @ gap_before cursor r)
     else gaps_loop (End r + 1) e (gaps @ gap_before cursor r) rs)"
proof -
  let ?gapEnd = "if i64 (Start r - 1) > e then e else i64 (Start r - 1)"
  have pred: "cursor < Start r \<Longrightarrow> i64 (Start r - 1) = Start r - 1"
    using i64_pred [OF c] r by (simp add: valid_range_def)
  have g: "(if Start r > cursor \<and> cursor \<le> ?gapEnd then gaps @ [rng cursor ?gapEnd] else gaps)
      = gaps @ gap_before cursor r"
    using step pred by (auto simp: gap_before_def)
  have c': "(if i64 (End r + 1) > cursor then i64 (End r + 1) else cursor) = End r + 1"
    using step valid_range_i64 [OF r] by simp
  show ?thesis
    using step by (simp only: gaps_loop.simps Let_def g c' if_False)
qed

lemma gaps_loop_covered:
  assumes "sorted (map Start rs)" and "\<forall>r\<in>set rs. valid_range r" and "is_i64 cursor"
  shows "covered (gaps_loop cursor e gaps rs) = covered gaps \<union> ({cursor..e} - covered rs)"
  using assms
proof (induction rs arbitrary: cursor gaps)
  case Nil
  then show ?case by (simp add: gaps_finish_covered)
next
  case (Cons r rs)
  from Cons.prems have r: "valid_range r" and ge: "\<forall>q\<in>set rs. Start r \<le> Start q" by auto
  consider (skip) "End r < cursor" | (stop) "\<not> End r < cursor" "e < Start r"
    | (step) "\<not> End r < cursor" "\<not> e < Start r" by linarith
  then show ?case
  proof cases
    case skip
    with Cons show ?thesis by auto
  next
    case stop
    have "Start r \<le> h" if "h \<in> covered (r # rs)" for h
      using covered_ge [OF that] ge by simp
    then have none: "{cursor..e} - covered (r # rs) = {cursor..e}"
      using stop by fastforce
    have "gaps_loop cursor e gaps (r # rs) = gaps_finish cursor e gaps" using stop by simp
    then show ?thesis by (simp only: gaps_finish_covered none)
  next
    case step
    have split: "{cursor..e} - covered (r # rs) =
        {cursor..Start r - 1} \<union> ({End r + 1..e} - covered rs)"
      using step covered_ge [OF _ ge] r by (fastforce simp: valid_range_def)
    show ?thesis
      unfolding gaps_loop_step [OF r Cons.prems(3) step] split
      using Cons.IH [of "End r + 1"] Cons.prems valid_range_i64 [OF r]
      by (simp add: gaps_finish_covered gap_before_covered Un_assoc)
  qed
qed

lemma gaps_loop_normal:
  assumes "\<forall>r\<in>set rs. valid_range r" and "is_i64 cursor"
    and "normal_ranges gaps" and "\<forall>g\<in>set gaps. End g + 1 < cursor"
  shows "normal_ranges (gaps_loop cursor e gaps rs)"
  using assms
proof (induction rs arbitrary: cursor gaps)
  case Nil
  then show ?case by (simp add: gaps_finish_def normal_ranges_snoc)
next
  case (Cons r rs)
  from Cons.prems have r: "valid_range r" by simp
  consider (skip) "End r < cursor" | (stop) "\<not> End r < cursor" "e < Start r"
    | (step) "\<not> End r < cursor" "\<not> e < Start r" by linarith
  then show ?case
  proof cases
    case skip
    with Cons show ?thesis by auto
  next
    case stop
    with Cons.prems show ?thesis by (simp add: gaps_finish_def normal_ranges_snoc)
  next
    case step
    let ?gaps = "gaps @ gap_before cursor r"
    have n: "normal_ranges ?gaps"
      using Cons.prems by (simp add: gap_before_def normal_ranges_snoc)
    have b: "\<forall>g\<in>set ?gaps. End g + 1 < End r + 1"
      using Cons.prems(4) step r by (auto simp: gap_before_def valid_range_def)
    show ?thesis
      unfolding gaps_loop_step [OF r Cons.prems(2) step]
      using Cons.IH [OF _ valid_range_i64(2) [OF r] n b] Cons.prems(1) n
      by (simp add: gaps_finish_def)
  qed
qed

lemma valid_sorted_perm:
  assumes "mset rs = mset ranges" and "\<forall>r\<in>set ranges. valid_range r"
  shows "\<forall>r\<in>set rs. valid_range r"
  using mset_eq_setD [OF assms(1)] assms(2) by simp

lemma gaps_loop_sorted:
  assumes "mset rs = mset ranges" and "sorted (map Start rs)"
    and "\<forall>r\<in>set ranges. valid_range r" and "is_i64 start"
  shows "covered (gaps_loop start e [] rs) = {start..e} - covered ranges"
    and "normal_ranges (gaps_loop start e [] rs)"
proof -
  note v = valid_sorted_perm [OF assms(1,3)]
  show "covered (gaps_loop start e [] rs) = {start..e} - covered ranges"
    using gaps_loop_covered [OF assms(2) v assms(4), of e "[]"] covered_mset [OF assms(1)] by simp
  show "normal_ranges (gaps_loop start e [] rs)"
    using gaps_loop_normal [OF v assms(4)] by simp
qed

lemma ComputeGaps_spec:
  assumes "\<forall>r\<in>set ranges. valid_range r" and "is_i64 start"
  shows "covered (ComputeGaps start e ranges) = {start..e} - covered ranges"
    and "normal_ranges (ComputeGaps start e ranges)"
  using gaps_loop_sorted [of "sort_key Start ranges" ranges start e, OF _ _ assms]
  by (auto simp: ComputeGaps_def normal_ranges_Cons)

section \<open>Normalization\<close>

lemma merge_loop_spec:
  assumes "sorted (map Start (current # rest))" and "\<forall>r\<in>set (current # rest). valid_range r"
    and "normal_ranges merged" and "\<forall>m\<in>set merged. End m + 1 < Start current"
  shows "normal_ranges (merge_loop current merged rest)"
    and "covered (merge_loop current merged rest) = covered merged \<union> covered (current # rest)"
proof -
  have "normal_ranges (merge_loop current merged rest) \<and>
    covered (merge_loop current merged rest) = covered merged \<union> covered (current # rest)"
    using assms
  proof (induction rest arbitrary: current merged)
    case Nil
    then show ?case by (simp add: normal_ranges_snoc valid_range_def)
  next
    case (Cons n rest)
    from Cons.prems have c: "valid_range current" and n: "valid_range n"
      and le: "Start current \<le> Start n" by simp_all
    note c1 = valid_range_i64(1) [OF c]
    show ?case
    proof (cases "Start n \<le> End current + 1")
      case True
      let ?cur = "if End n > End current then current\<lparr>End := End n\<rparr> else current"
      have v: "valid_range ?cur" using c n le by (auto simp: valid_range_def)
      have cov: "{Start ?cur..End ?cur} = {Start current..End current} \<union> {Start n..End n}"
        using True le c by (auto simp: valid_range_def)
      have st: "Start ?cur = Start current" by simp
      have IH: "normal_ranges (merge_loop ?cur merged rest) \<and>
        covered (merge_loop ?cur merged rest) = covered merged \<union> covered (?cur # rest)"
        using Cons.IH [of ?cur merged] Cons.prems v by (simp add: st)
      have "merge_loop current merged (n # rest) = merge_loop ?cur merged rest"
        using True c1 by simp
      with IH cov show ?thesis by (simp only: covered_Cons Un_assoc)
    next
      case False
      have nm: "normal_ranges (merged @ [current])"
        using Cons.prems(3,4) c by (simp add: normal_ranges_snoc valid_range_def)
      have lt: "\<forall>m\<in>set (merged @ [current]). End m + 1 < Start n"
        using Cons.prems(4) False le by auto
      have "merge_loop current merged (n # rest) = merge_loop n (merged @ [current]) rest"
        using False c1 by simp
      with Cons.IH [OF _ _ nm lt] Cons.prems(1,2) show ?thesis by auto
    qed
  qed
  then show "normal_ranges (merge_loop current merged rest)"
    and "covered (merge_loop current merged rest) = covered merged \<union> covered (current # rest)"
    by blast+
qed

lemma sorted_Start_lex:
  "sorted (map (\<lambda>r. (Start r, End r)) rs) \<Longrightarrow> sorted (map Start rs)"
  by (induction rs) (auto simp: less_eq_prod_def)

lemma NormalizeRanges_spec:
  assumes "\<forall>r\<in>set ranges. valid_range r"
  shows "normal_ranges (NormalizeRanges ranges)"
    and "covered (NormalizeRanges ranges) = covered ranges"
proof -
  define rs where "rs = sort_key (\<lambda>r. (Start r, End r)) ranges"
  have s: "sorted (map Start rs)"
    by (rule sorted_Start_lex) (simp add: rs_def)
  have m: "mset rs = mset ranges" by (simp add: rs_def)
  note v = valid_sorted_perm [OF m assms]
  have "normal_ranges (NormalizeRanges ranges) \<and> covered (NormalizeRanges ranges) = covered rs"
  proof (cases rs)
    case Nil
    then show ?thesis by (simp add: NormalizeRanges_def rs_def [symmetric])
  next
    case (Cons first rest)
    with merge_loop_spec [of first rest "[]"] s v show ?thesis
      by (simp add: NormalizeRanges_def rs_def [symmetric])
  qed
  with covered_mset [OF m]
  show "normal_ranges (NormalizeRanges ranges)" "covered (NormalizeRanges ranges) = covered ranges"
    by simp_all
qed

section \<open>Counting\<close>

lemma finite_covered [simp]: "finite (covered rs)"
  by (simp add: covered_def)

lemma card_covered_normal:
  "normal_ranges rs \<Longrightarrow> int (card (covered rs)) = (\<Sum>r\<leftarrow>rs. End r - Start r + 1)"
proof (induction rs)
  case Nil
  then show ?case by simp
next
  case (Cons r rs)
  have "{Start r..End r} \<inter> covered rs = {}"
    using normal_ranges_tl_covered [OF Cons.prems] by auto
  then have "card (covered (r # rs)) = card {Start r..End r} + card (covered rs)"
    by (simp add: card_Un_disjoint)
  with Cons show ?case by (simp add: normal_ranges_Cons)
qed

lemma CountBlocks_sum:
  assumes "\<forall>r\<in>set rs. 0 \<le> Start r \<and> Start r \<le> End r \<and> End r < maxInt64" and "0 \<le> tot"
    and "tot + (\<Sum>r\<leftarrow>rs. End r - Start r + 1) \<le> maxInt64"
  shows "foldl (\<lambda>total r. i64 (total + i64 (i64 (End r - Start r) + 1))) tot rs
    = tot + (\<Sum>r\<leftarrow>rs. End r - Start r + 1)"
  using assms
proof (induction rs arbitrary: tot)
  case Nil
  then show ?case by simp
next
  case (Cons r rs)
  have nn: "0 \<le> (\<Sum>r\<leftarrow>rs. End r - Start r + 1)"
    using Cons.prems(1) by (intro sum_list_nonneg) auto
  have "is_i64 (End r - Start r)" "is_i64 (End r - Start r + 1)" "is_i64 (tot + (End r - Start r + 1))"
    using Cons.prems nn by (auto simp: is_i64_def minInt64_def)
  then have "i64 (tot + i64 (i64 (End r - Start r) + 1)) = tot + (End r - Start r + 1)"
    by simp
  with Cons nn show ?case by simp
qed

lemma CountBlocks_card:
  assumes "normal_ranges rs" and "\<forall>r\<in>set rs. 0 \<le> Start r \<and> End r < maxInt64"
  shows "CountBlocks rs = int (card (covered rs))"
proof -
  have "covered rs \<subseteq> {0..<maxInt64}"
    using assms(2) by (auto simp: covered_def)
  then have "card (covered rs) \<le> card {0..<maxInt64}"
    by (intro card_mono) simp_all
  then have "int (card (covered rs)) \<le> maxInt64"
    by (simp add: maxInt64_def)
  moreover have "\<forall>r\<in>set rs. 0 \<le> Start r \<and> Start r \<le> End r \<and> End r < maxInt64"
    using assms by (auto simp: normal_ranges_def)
  ultimately show ?thesis
    unfolding CountBlocks_def card_covered_normal [OF assms(1)]
    by (subst CountBlocks_sum) simp_all
qed

section \<open>Grouping heights\<close>

text \<open>The loop of \<open>LoadIndexedRanges\<close> keeps the closed ranges and the open one together normal,
  and together they cover the heights seen so far.\<close>

lemma group_heights_inv:
  assumes "sorted hs" and "\<forall>h\<in>set hs. lastBlock \<le> h \<and> h \<le> maxInt64"
    and "normal_ranges (ranges @ [current])" and "End current = lastBlock" and "0 \<le> lastBlock"
    and "group_heights ranges lastBlock current hs = (ranges', lastBlock', current')"
  shows "normal_ranges (ranges' @ [current'])" and "0 \<le> lastBlock'"
    and "covered (ranges' @ [current']) = covered (ranges @ [current]) \<union> set hs"
proof -
  have "normal_ranges (ranges' @ [current']) \<and> 0 \<le> lastBlock' \<and>
    covered (ranges' @ [current']) = covered (ranges @ [current]) \<union> set hs"
    using assms
  proof (induction hs arbitrary: ranges lastBlock current)
    case Nil
    then show ?case by simp
  next
    case (Cons h hs)
    from Cons.prems have cur: "Start current \<le> lastBlock" "normal_ranges ranges"
      by (auto simp: normal_ranges_snoc)
    have hs: "sorted hs" "\<forall>h'\<in>set hs. h \<le> h' \<and> h' \<le> maxInt64" "lastBlock \<le> h" "h \<le> maxInt64"
      using Cons.prems(1,2) by auto
    consider (same) "h = lastBlock" | (succ) "h = lastBlock + 1" | (jump) "lastBlock + 1 < h"
      using hs(3) by linarith
    then show ?case
    proof cases
      case same
      then show ?thesis using Cons.IH [OF hs(1) _ Cons.prems(3,4,5)] Cons.prems hs cur(1) by auto
    next
      case succ
      have i: "i64 (lastBlock + 1) = lastBlock + 1"
        using hs(4) succ Cons.prems(5) by (simp add: is_i64_def minInt64_def)
      have n: "normal_ranges (ranges @ [current\<lparr>End := h\<rparr>])"
        using Cons.prems(3) cur succ by (auto simp: normal_ranges_snoc)
      have c: "{Start current..h} = insert h {Start current..lastBlock}"
        using succ cur by auto
      have e: "group_heights ranges h (current\<lparr>End := h\<rparr>) hs = (ranges', lastBlock', current')"
        using Cons.prems(5,6) succ i by simp
      show ?thesis
        using Cons.IH [OF hs(1,2) n _ _ e] Cons.prems(4,5) succ c by simp
    next
      case jump
      have i: "h \<noteq> i64 (lastBlock + 1)"
        using jump hs(4) Cons.prems(5) by (simp add: is_i64_def minInt64_def)
      have n: "normal_ranges ((ranges @ [current]) @ [rng h h])"
        unfolding normal_ranges_snoc [of "ranges @ [current]"]
        using Cons.prems(3,4) jump cur by (auto simp: normal_ranges_snoc)
      have e: "group_heights (ranges @ [current]) h (rng h h) hs = (ranges', lastBlock', current')"
        using Cons.prems(5,6) jump i by simp
      show ?thesis
        using Cons.IH [OF hs(1,2) n _ _ e] Cons.prems(5) jump by auto
    qed
  qed
  then show "normal_ranges (ranges' @ [current'])" and "0 \<le> lastBlock'"
    and "covered (ranges' @ [current']) = covered (ranges @ [current]) \<union> set hs" by blast+
qed

section \<open>Resync targets\<close>

lemma parseResyncHeight_range:
  "parseResyncHeight raw = Inr h \<Longrightarrow> 0 \<le> h \<and> h \<le> maxInt64"
  using ParseInt_64_range [of raw h]
  by (auto simp: parseResyncHeight_def is_i64_def split: sum.splits if_splits)

lemma parseResyncTarget_range:
  "parseResyncTarget raw = Inr r \<Longrightarrow> 0 \<le> Start r \<and> Start r \<le> End r \<and> End r \<le> maxInt64"
  using parseResyncHeight_range
  by (fastforce simp: parseResyncTarget_def result_simps split: if_splits prod.splits)

text \<open>The syntax of resync targets: a height is a decimal number in the 64-bit range, with an optional plus sign, or zero with
  a minus sign; a target is a height, or two heights in order with a colon in between.\<close>

definition height_text :: "string \<Rightarrow> int \<Rightarrow> bool" where
  "height_text s h \<longleftrightarrow>
     (\<exists>sign ds. s = sign @ ds \<and> ds \<noteq> [] \<and> all_digits ds \<and> h = int (decimal_from 0 ds) \<and> h \<le> maxInt64 \<and>
        (sign = [] \<or> sign = ''+'' \<or> sign = ''-'' \<and> h = 0))"

definition target_text :: "string \<Rightarrow> int \<Rightarrow> int \<Rightarrow> bool" where
  "target_text s a b \<longleftrightarrow>
     height_text s a \<and> b = a \<or> (\<exists>s1 s2. s = s1 @ '':'' @ s2 \<and> height_text s1 a \<and> height_text s2 b \<and> a \<le> b)"

lemma ParseUint_64: "ParseUint s 64 = Inr n \<longleftrightarrow> s \<noteq> [] \<and> all_digits s \<and> n = decimal_from 0 s \<and> n < 2 ^ 64"
  using uint_loop_iff [of 0 "2 ^ 64 - 1" s n] by (auto simp: ParseUint_def)

lemma digits_unsigned: "all_digits s \<Longrightarrow> s \<noteq> [] \<Longrightarrow> hd s \<noteq> CHR ''-'' \<and> hd s \<noteq> CHR ''+'' \<and> CHR '':'' \<notin> set s"
proof -
  assume d: "all_digits s" "s \<noteq> []"
  have "digit_val (CHR '':'') = None" by (simp add: digit_val_def)
  moreover have "digit_val (hd s) \<noteq> None" using d hd_in_set unfolding all_digits_def by blast
  ultimately show ?thesis using d(1) digit_val_sign unfolding all_digits_def by metis
qed

lemma parseResyncHeight_iff: "parseResyncHeight s = Inr h \<longleftrightarrow> height_text s h"
proof
  assume p: "parseResyncHeight s = Inr h"
  define ds where "ds = (if hd s = CHR ''-'' \<or> hd s = CHR ''+'' then tl s else s)"
  obtain n where n: "s \<noteq> []" "ParseUint ds 64 = Inr n" "hd s \<noteq> CHR ''-'' \<Longrightarrow> h = int n \<and> n < 2 ^ 63" "hd s = CHR ''-'' \<Longrightarrow> h = 0 \<and> n = 0"
    using p unfolding parseResyncHeight_def ParseInt_def ds_def [symmetric] Let_def by (auto split: sum.splits if_splits)
  have "h = int (decimal_from 0 ds)" "h \<le> maxInt64" "ds \<noteq> []" "all_digits ds"
    using n(2-4) unfolding ParseUint_64 maxInt64_def by (cases "hd s = CHR ''-''"; auto)+
  moreover define sign where "sign = (if hd s = CHR ''-'' \<or> hd s = CHR ''+'' then [hd s] else [])"
  moreover have "s = sign @ ds" using n(1) by (auto simp: ds_def sign_def)
  moreover have "sign = [] \<or> sign = ''+'' \<or> sign = ''-'' \<and> h = 0" using n(4) by (auto simp: sign_def)
  ultimately show "height_text s h" unfolding height_text_def by blast
next
  assume "height_text s h"
  then obtain sign ds where d: "s = sign @ ds" "ds \<noteq> []" "all_digits ds" "h = int (decimal_from 0 ds)" "h \<le> maxInt64"
    "sign = [] \<or> sign = ''+'' \<or> sign = ''-'' \<and> h = 0" unfolding height_text_def by blast
  have n: "ParseUint ds 64 = Inr (decimal_from 0 ds)" using d(2-5) unfolding ParseUint_64 maxInt64_def by simp
  show "parseResyncHeight s = Inr h"
    using d(6) n d(1,2,4,5) digits_unsigned [OF d(3,2)] by (elim disjE) (auto simp: parseResyncHeight_def ParseInt_def maxInt64_def)
qed

lemma height_text_range: "height_text s h \<Longrightarrow> s \<noteq> [] \<and> CHR '':'' \<notin> set s \<and> 0 \<le> h \<and> h \<le> maxInt64"
  using digits_unsigned by (auto simp: height_text_def)

lemma colon_split: "Contains s '':'' \<longleftrightarrow> CHR '':'' \<in> set s"
  by (auto simp: Contains_iff dest: split_list)

lemma parseResyncTarget_iff: "parseResyncTarget s = Inr r \<longleftrightarrow> target_text s (Start r) (End r)"
proof (cases "CHR '':'' \<in> set s")
  case False
  have "r = rng h h \<longleftrightarrow> Start r = h \<and> End r = h" for h by (cases r) auto
  then show ?thesis
    using False height_text_range by (auto simp: parseResyncTarget_def target_text_def colon_split result_simps parseResyncHeight_iff)
next
  case True
  then obtain s1 s2 where s: "s = s1 @ CHR '':'' # s2" "CHR '':'' \<notin> set s1" by (meson split_list_first)
  have r: "rng a b = r \<longleftrightarrow> a = Start r \<and> b = End r" for a b by (cases r) auto
  show ?thesis
  proof (cases "CHR '':'' \<in> set s2")
    case True
    have two: "count_list s (CHR '':'') \<noteq> 1" using s True by (simp add: count_list_0_iff)
    have "count_list s (CHR '':'') = 1" if "s = t1 @ '':'' @ t2" "height_text t1 a" "height_text t2 b" for t1 t2 a b
      using that height_text_range [of t1 a] height_text_range [of t2 b] by (simp add: count_list_0_iff)
    moreover have "\<not> height_text s a" for a using height_text_range [of s a] \<open>CHR '':'' \<in> set s\<close> by blast
    ultimately have "\<not> target_text s a b" for a b using two unfolding target_text_def by metis
    then show ?thesis
      using two s \<open>CHR '':'' \<in> set s\<close> by (simp add: parseResyncTarget_def colon_split)
  next
    case no: False
    have "t1 = s1 \<and> t2 = s2" if "s = t1 @ '':'' @ t2" "CHR '':'' \<notin> set t1" for t1 t2
    proof -
      have "Cut s (CHR '':'') = (t1, t2, True)" using Cut_append [OF that(2), of t2] that(1) by simp
      then show ?thesis using Cut_append [OF s(2), of s2] s(1) by simp
    qed
    then have "s = t1 @ '':'' @ t2 \<and> CHR '':'' \<notin> set t1 \<longleftrightarrow> t1 = s1 \<and> t2 = s2" for t1 t2 using s by auto
    then have "target_text s a b \<longleftrightarrow> height_text s1 a \<and> height_text s2 b \<and> a \<le> b" for a b
      unfolding target_text_def using height_text_range True by metis
    moreover have "count_list s (CHR '':'') = 1" using s no by (simp add: count_list_0_iff)
    ultimately show ?thesis
      using s by (auto simp: parseResyncTarget_def colon_split result_simps parseResyncHeight_iff r) (rule exI [of _ "Start r"], simp, rule exI [of _ "End r"], simp)
  qed
qed

lemma mapR_succeeds: "(\<exists>ys. mapR f xs = Inr ys) \<longleftrightarrow> (\<forall>x\<in>set xs. \<exists>y. f x = Inr y)"
  by (induction xs) (auto simp: result_simps)

lemma parsed_targets:
  assumes "mapR parseResyncTarget args = Inr targets"
  shows "covered targets = {h. \<exists>s\<in>set args. \<exists>a b. target_text s a b \<and> a \<le> h \<and> h \<le> b}"
    and "r \<in> set targets \<Longrightarrow> 0 \<le> Start r \<and> Start r \<le> End r \<and> (\<exists>s\<in>set args. target_text s (Start r) (End r))"
proof -
  have e: "(\<exists>r. parseResyncTarget s = Inr r \<and> Start r \<le> h \<and> h \<le> End r) \<longleftrightarrow> (\<exists>a b. target_text s a b \<and> a \<le> h \<and> h \<le> b)" for s h
    unfolding parseResyncTarget_iff by (metis BlockRange.select_convs(1,2))
  show "covered targets = {h. \<exists>s\<in>set args. \<exists>a b. target_text s a b \<and> a \<le> h \<and> h \<le> b}"
    unfolding covered_def using mapR_Inr_set [OF assms] e by fastforce
  show "r \<in> set targets \<Longrightarrow> 0 \<le> Start r \<and> Start r \<le> End r \<and> (\<exists>s\<in>set args. target_text s (Start r) (End r))"
    using mapR_Inr_set [OF assms, of r] parseResyncTarget_range [of _ r] by (auto simp: parseResyncTarget_iff)
qed

lemma covered_bounds:
  assumes "normal_ranges rs" and "covered rs \<subseteq> {lo..hi}" and "r \<in> set rs"
  shows "lo \<le> Start r \<and> End r \<le> hi"
proof -
  have "Start r \<le> End r" using assms(1,3) by (auto simp: normal_ranges_def)
  then have "Start r \<in> covered rs" "End r \<in> covered rs" using assms(3) by (auto simp: covered_def)
  with assms(2) show ?thesis by auto
qed

section \<open>Properties\<close>

text \<open>C13: The gaps computed between the earliest height and the head are exactly the heights of the
  requested interval that no indexed range covers, as a canonical list of ranges: non-empty,
  ascending and pairwise separated.\<close>

theorem ComputeGaps_exact:
  assumes "\<forall>r\<in>set ranges. valid_range r" and "is_i64 start"
  shows "covered (ComputeGaps start e ranges) = {start..e} - covered ranges \<and>
    normal_ranges (ComputeGaps start e ranges)"
  using ComputeGaps_spec [OF assms] by blast

theorem ComputeGaps_exact_witness:
  "covered (ComputeGaps 1 20 [rng 10 12, rng 3 5]) = {1..20} - covered [rng 10 12, rng 3 5] \<and>
   ComputeGaps 1 20 [rng 10 12, rng 3 5] = [rng 1 2, rng 6 9, rng 13 20]"
proof
  show "covered (ComputeGaps 1 20 [rng 10 12, rng 3 5]) = {1..20} - covered [rng 10 12, rng 3 5]"
    using ComputeGaps_exact [of "[rng 10 12, rng 3 5]" 1 20]
    by (simp add: valid_range_def is_i64_def minInt64_def maxInt64_def)
  show "ComputeGaps 1 20 [rng 10 12, rng 3 5] = [rng 1 2, rng 6 9, rng 13 20]"
    by code_simp
qed

text \<open>\<open>sort.Slice\<close> is not stable, and it does not matter: from every order of the ranges that
  is ascending in \<open>Start\<close> the loop of \<open>ComputeGaps\<close> computes the same gaps.\<close>

theorem ComputeGaps_any_sort:
  assumes "\<forall>r\<in>set ranges. valid_range r" and "is_i64 start" and "start \<le> e" and "ranges \<noteq> []"
    and "mset rs = mset ranges" and "sorted (map Start rs)"
  shows "gaps_loop start e [] rs = ComputeGaps start e ranges"
  using normal_ranges_unique gaps_loop_sorted [OF assms(5,6,1,2), of e] ComputeGaps_spec [OF assms(1,2), of e]
  by metis

theorem ComputeGaps_any_sort_witness:
  "gaps_loop 1 9 [] [rng 3 3, rng 3 5] = ComputeGaps 1 9 [rng 3 5, rng 3 3]"
  by (rule ComputeGaps_any_sort) (auto simp: valid_range_def is_i64_def minInt64_def maxInt64_def)

text \<open>C34: \<open>NormalizeRanges\<close> merges the requested ranges into the canonical list of the same
  heights, whatever their order and overlaps, and counting the blocks of the result counts each
  height once. Each range asked for starts at 0 or later, is not empty and ends below the largest 64-bit height.\<close>

theorem NormalizeRanges_canonical:
  assumes "\<forall>r\<in>set ranges. 0 \<le> Start r \<and> Start r \<le> End r \<and> End r < maxInt64"
  shows "normal_ranges (NormalizeRanges ranges) \<and>
    covered (NormalizeRanges ranges) = covered ranges \<and>
    (\<forall>rs. normal_ranges rs \<and> covered rs = covered ranges \<longrightarrow> rs = NormalizeRanges ranges) \<and>
    CountBlocks (NormalizeRanges ranges) = int (card (covered ranges))"
proof -
  have v: "\<forall>r\<in>set ranges. valid_range r"
    using assms by (auto simp: valid_range_def minInt64_def)
  note spec = NormalizeRanges_spec [OF v]
  have "covered ranges \<subseteq> {0..maxInt64 - 1}"
    using assms unfolding covered_def by (intro UN_least) (auto dest!: bspec)
  then have "\<forall>r\<in>set (NormalizeRanges ranges). 0 \<le> Start r \<and> End r < maxInt64"
    using covered_bounds [OF spec(1)] spec(2) by (metis zle_diff1_eq)
  then have c: "CountBlocks (NormalizeRanges ranges) = int (card (covered ranges))"
    using CountBlocks_card [OF spec(1)] unfolding spec(2) by blast
  have "\<forall>rs. normal_ranges rs \<and> covered rs = covered ranges \<longrightarrow> rs = NormalizeRanges ranges"
    using normal_ranges_unique [OF _ spec(1)] unfolding spec(2) by blast
  with c spec show ?thesis by blast
qed

theorem NormalizeRanges_canonical_witness:
  "covered (NormalizeRanges [rng 8 9, rng 1 4, rng 3 7]) = covered [rng 8 9, rng 1 4, rng 3 7] \<and>
   NormalizeRanges [rng 8 9, rng 1 4, rng 3 7] = [rng 1 9]"
proof
  show "covered (NormalizeRanges [rng 8 9, rng 1 4, rng 3 7]) = covered [rng 8 9, rng 1 4, rng 3 7]"
    using NormalizeRanges_canonical [of "[rng 8 9, rng 1 4, rng 3 7]"] by (simp add: maxInt64_def)
  show "NormalizeRanges [rng 8 9, rng 1 4, rng 3 7] = [rng 1 9]"
    by code_simp
qed

text \<open>C35: The resync command accepts exactly the non-empty lists of well-formed targets, where a target is written as one
  height or as two heights in order with a colon in between, and a height as a decimal number in the 64-bit range. What it
  makes of them is a canonical list of ranges that covers exactly the heights written, as long as no target ends at
  the largest 64-bit height.\<close>

theorem parseResyncTargets_covers:
  "((\<exists>ts. parseResyncTargets args = Inr ts) \<longleftrightarrow> args \<noteq> [] \<and> (\<forall>s\<in>set args. \<exists>a b. target_text s a b)) \<and>
   (\<forall>ts. parseResyncTargets args = Inr ts \<and> (\<forall>s\<in>set args. \<forall>a. \<not> target_text s a maxInt64) \<longrightarrow>
     normal_ranges ts \<and> covered ts = {h. \<exists>s\<in>set args. \<exists>a b. target_text s a b \<and> a \<le> h \<and> h \<le> b})"
proof -
  have acc: "(\<exists>r. parseResyncTarget s = Inr r) \<longleftrightarrow> (\<exists>a b. target_text s a b)" for s
    unfolding parseResyncTarget_iff by (metis BlockRange.select_convs(1,2))
  have "(\<exists>ts. parseResyncTargets args = Inr ts) \<longleftrightarrow> args \<noteq> [] \<and> (\<exists>targets. mapR parseResyncTarget args = Inr targets)"
    by (auto simp: parseResyncTargets_def result_simps)
  moreover have "normal_ranges ts \<and> covered ts = {h. \<exists>s\<in>set args. \<exists>a b. target_text s a b \<and> a \<le> h \<and> h \<le> b}"
    if p: "parseResyncTargets args = Inr ts" and b: "\<forall>s\<in>set args. \<forall>a. \<not> target_text s a maxInt64" for ts
  proof -
    from p obtain targets where t: "mapR parseResyncTarget args = Inr targets" and ts: "ts = NormalizeRanges targets"
      by (auto simp: parseResyncTargets_def result_simps split: if_splits)
    have "\<forall>r\<in>set targets. valid_range r"
    proof
      fix r assume r: "r \<in> set targets"
      then obtain s where "parseResyncTarget s = Inr r" "s \<in> set args" using mapR_Inr_set [OF t] by blast
      then have "End r \<le> maxInt64" "End r \<noteq> maxInt64" using parseResyncTarget_range b by (auto simp: parseResyncTarget_iff)
      then show "valid_range r" using parsed_targets(2) [OF t r] by (simp add: valid_range_def minInt64_def)
    qed
    then show ?thesis unfolding ts using NormalizeRanges_spec parsed_targets(1) [OF t] by blast
  qed
  ultimately show ?thesis unfolding mapR_succeeds acc by blast
qed

lemmas parse_eval = parseResyncTargets_def parseResyncTarget_def parseResyncHeight_def ParseInt_def
  ParseUint_def digit_val_def NormalizeRanges_def i64_def maxInt64_def

theorem parseResyncTargets_covers_witness:
  "parseResyncTargets [''13:60'', ''12''] = Inr [rng 12 60] \<and> normal_ranges [rng 12 60] \<and>
    covered [rng 12 60] = {h. \<exists>s\<in>set [''13:60'', ''12'']. \<exists>a b. target_text s a b \<and> a \<le> h \<and> h \<le> b}"
proof -
  have p: "parseResyncTarget ''13:60'' = Inr (rng 13 60)" "parseResyncTarget ''12'' = Inr (rng 12 12)"
    by (simp_all add: parse_eval)
  have r: "parseResyncTargets [''13:60'', ''12''] = Inr [rng 12 60]"
    by (simp add: p parse_eval(1) NormalizeRanges_def i64_def)
  have "\<not> target_text s a maxInt64" if "s \<in> set [''13:60'', ''12'']" for s a
    using that parseResyncTarget_iff [of s "rng a maxInt64"] p by (auto simp: maxInt64_def)
  with parseResyncTargets_covers [of "[''13:60'', ''12'']"] r show ?thesis by blast
qed

text \<open>The bound in the last property is needed: a target that ends at the largest height overflows
  \<open>current.End+1\<close>, and a range inside it is not merged.\<close>

lemma parseResyncTargets_overflow:
  "parseResyncTargets [''5:9223372036854775807'', ''7:8''] =
     Inr [rng 5 9223372036854775807, rng 7 8]"
  by (simp add: parse_eval)

end
