(* ===== verification/Sync_Status.thy ===== *)
theory Sync_Status
  imports Gateway_Prelude Complex_Main
begin

text \<open>
  The progress tracker of \<open>internal/syncstatus/tracker.go\<close>. Times are nanoseconds; the current
  time of \<open>time.Now\<close> is an argument of the operations that read it, and the zero \<open>time.Time\<close> is
  \<open>None\<close>. The rates and ratios of a snapshot, \<open>float64\<close> in the source, are exact quotients here.
\<close>

section \<open>Definitions\<close>

record Segment =
  Type :: string
  seg_start :: int
  seg_end :: "int option"
  Cursor :: int

record Counters =
  hits :: int
  misses :: int
  liveFallbacks :: int

record Tracker =
  threads :: int
  phase :: string
  startedAt :: int
  updatedAt :: int
  earliestBlock :: int
  chainHead :: int
  lastSyncedBlock :: int
  lastSyncedAt :: "int option"
  blocksProcessed :: int
  blocksIndexed :: int
  gapsTotal :: int
  gapsRemaining :: int
  currentSegment :: "Segment option"
  lastSyncedSegment :: "Segment option"
  recentBlocks :: "int list"
  txByHash :: Counters
  txByIndex :: Counters
  receiptByHash :: Counters
  blockLogs :: Counters

definition zero_counters :: Counters where
  "zero_counters = \<lparr>hits = 0, misses = 0, liveFallbacks = 0\<rparr>"

definition NewTracker :: "int \<Rightarrow> int \<Rightarrow> int \<Rightarrow> Tracker" where
  "NewTracker now n earliest =
     \<lparr>threads = n, phase = ''idle'', startedAt = now, updatedAt = now, earliestBlock = earliest,
      chainHead = 0, lastSyncedBlock = -1, lastSyncedAt = None, blocksProcessed = 0, blocksIndexed = 0,
      gapsTotal = 0, gapsRemaining = 0, currentSegment = None, lastSyncedSegment = None, recentBlocks = [],
      txByHash = zero_counters, txByIndex = zero_counters, receiptByHash = zero_counters,
      blockLogs = zero_counters\<rparr>"

definition SetPhase :: "int \<Rightarrow> string \<Rightarrow> Tracker \<Rightarrow> Tracker" where
  "SetPhase now p t = t\<lparr>phase := p, updatedAt := now\<rparr>"

definition SetEarliestBlock :: "int \<Rightarrow> int \<Rightarrow> Tracker \<Rightarrow> Tracker" where
  "SetEarliestBlock now h t = t\<lparr>earliestBlock := h, updatedAt := now\<rparr>"

definition SetChainHead :: "int \<Rightarrow> int \<Rightarrow> Tracker \<Rightarrow> Tracker" where
  "SetChainHead now h t = t\<lparr>chainHead := h, updatedAt := now\<rparr>"

text \<open>Only the number of gaps is kept.\<close>

definition SetGaps :: "int \<Rightarrow> nat \<Rightarrow> Tracker \<Rightarrow> Tracker" where
  "SetGaps now n t = t\<lparr>gapsTotal := int n, gapsRemaining := int n, updatedAt := now\<rparr>"

definition StartSegment :: "int \<Rightarrow> string \<Rightarrow> int \<Rightarrow> int option \<Rightarrow> Tracker \<Rightarrow> Tracker" where
  "StartSegment now kind start e t =
     t\<lparr>currentSegment := Some \<lparr>Type = kind, seg_start = start, seg_end = e, Cursor = i64 (start - 1)\<rparr>,
       updatedAt := now\<rparr>"

definition dec_gaps :: "Tracker \<Rightarrow> Tracker" where
  "dec_gaps t = (if gapsRemaining t > 0 then t\<lparr>gapsRemaining := gapsRemaining t - 1\<rparr> else t)"

definition CompleteCurrentSegment :: "int \<Rightarrow> Tracker \<Rightarrow> Tracker" where
  "CompleteCurrentSegment now t =
     (let t1 = (case currentSegment t of
                  None \<Rightarrow> t
                | Some cp \<Rightarrow>
                    let t' = t\<lparr>lastSyncedSegment := Some cp\<rparr>
                    in if Type cp = ''gap'' then dec_gaps t' else t')
      in t1\<lparr>currentSegment := None, updatedAt := now\<rparr>)"

definition CompleteGap :: "int \<Rightarrow> int \<Rightarrow> int \<Rightarrow> Tracker \<Rightarrow> Tracker" where
  "CompleteGap now start e t =
     (dec_gaps (t\<lparr>lastSyncedSegment := Some \<lparr>Type = ''gap'', seg_start = start, seg_end = Some e, Cursor = e\<rparr>\<rparr>))
       \<lparr>updatedAt := now\<rparr>"

text \<open>The window of recent blocks is the last 30 seconds.\<close>

definition window :: int where
  "window = 30000000000"

definition MarkBlock :: "int \<Rightarrow> int \<Rightarrow> bool \<Rightarrow> Tracker \<Rightarrow> Tracker" where
  "MarkBlock now h indexed t =
     t\<lparr>lastSyncedBlock := (if h > lastSyncedBlock t then h else lastSyncedBlock t),
       chainHead := (if h > chainHead t then h else chainHead t),
       lastSyncedAt := Some now,
       blocksProcessed := i64 (blocksProcessed t + 1),
       blocksIndexed := (if indexed then i64 (blocksIndexed t + 1) else blocksIndexed t),
       currentSegment := map_option (\<lambda>s. if h > Cursor s then s\<lparr>Cursor := h\<rparr> else s) (currentSegment t),
       recentBlocks := dropWhile (\<lambda>x. x < now - window) (recentBlocks t @ [now]),
       updatedAt := now\<rparr>"

text \<open>The atomic counters, \<open>Add(1)\<close> on a \<open>uint64\<close>.\<close>

datatype counter_kind = Hit | Miss | LiveFallback

fun count_one :: "counter_kind \<Rightarrow> Counters \<Rightarrow> Counters" where
  "count_one Hit c = c\<lparr>hits := u64 (hits c + 1)\<rparr>"
| "count_one Miss c = c\<lparr>misses := u64 (misses c + 1)\<rparr>"
| "count_one LiveFallback c = c\<lparr>liveFallbacks := u64 (liveFallbacks c + 1)\<rparr>"

definition RecordTxByHash :: "counter_kind \<Rightarrow> Tracker \<Rightarrow> Tracker" where
  "RecordTxByHash k t = t\<lparr>txByHash := count_one k (txByHash t)\<rparr>"

definition RecordTxByIndex :: "counter_kind \<Rightarrow> Tracker \<Rightarrow> Tracker" where
  "RecordTxByIndex k t = t\<lparr>txByIndex := count_one k (txByIndex t)\<rparr>"

definition RecordReceipt :: "counter_kind \<Rightarrow> Tracker \<Rightarrow> Tracker" where
  "RecordReceipt k t = t\<lparr>receiptByHash := count_one k (receiptByHash t)\<rparr>"

definition RecordBlockLogs :: "counter_kind \<Rightarrow> Tracker \<Rightarrow> Tracker" where
  "RecordBlockLogs k t = t\<lparr>blockLogs := count_one k (blockLogs t)\<rparr>"

record CacheLookupStats =
  Hits :: int
  Misses :: int
  LiveFallbacks :: int
  HitRatio :: rat

definition cacheLookupStats :: "Counters \<Rightarrow> CacheLookupStats" where
  "cacheLookupStats c =
     (let tot = u64 (hits c + misses c)
      in \<lparr>Hits = hits c, Misses = misses c, LiveFallbacks = liveFallbacks c,
          HitRatio = (if tot > 0 then of_int (hits c) / of_int tot else 0)\<rparr>)"

record Snapshot =
  s_threads :: int
  s_phase :: string
  s_startedAt :: int
  s_updatedAt :: int
  s_earliest :: int
  s_head :: int
  s_lastSynced :: int
  s_lastSyncedAt :: "int option"
  s_processed :: int
  s_indexed :: int
  s_rate :: rat
  s_avgRate :: rat
  s_gapsTotal :: int
  s_gapsRemaining :: int
  s_current :: "Segment option"
  s_last :: "Segment option"
  s_txByHash :: CacheLookupStats
  s_txByIndex :: CacheLookupStats
  s_receipt :: CacheLookupStats
  s_blockLogs :: CacheLookupStats

definition seconds :: "int \<Rightarrow> rat" where
  "seconds ns = of_int ns / 1000000000"

definition Snapshot_of :: "int \<Rightarrow> Tracker \<Rightarrow> Snapshot" where
  "Snapshot_of now t =
     (let elapsed = seconds (now - startedAt t);
          n = length (recentBlocks t);
          span = (if n > 1 then seconds (last (recentBlocks t) - hd (recentBlocks t)) else 0)
      in \<lparr>s_threads = threads t, s_phase = phase t, s_startedAt = startedAt t, s_updatedAt = updatedAt t,
          s_earliest = earliestBlock t, s_head = chainHead t, s_lastSynced = lastSyncedBlock t,
          s_lastSyncedAt = lastSyncedAt t, s_processed = blocksProcessed t, s_indexed = blocksIndexed t,
          s_rate = (if n > 1 \<and> span > 0 then of_nat (n - 1) / span else 0),
          s_avgRate = (if elapsed > 0 then of_int (blocksProcessed t) / elapsed else 0),
          s_gapsTotal = gapsTotal t, s_gapsRemaining = gapsRemaining t,
          s_current = currentSegment t, s_last = lastSyncedSegment t,
          s_txByHash = cacheLookupStats (txByHash t), s_txByIndex = cacheLookupStats (txByIndex t),
          s_receipt = cacheLookupStats (receiptByHash t), s_blockLogs = cacheLookupStats (blockLogs t)\<rparr>)"

subsection \<open>Histories of calls\<close>

datatype tracker_op =
    OpPhase string
  | OpEarliest int
  | OpHead int
  | OpGaps nat
  | OpStart string int "int option"
  | OpComplete
  | OpCompleteGap int int
  | OpMark int bool
  | OpTxByHash counter_kind
  | OpTxByIndex counter_kind
  | OpReceipt counter_kind
  | OpBlockLogs counter_kind

fun run_op :: "int \<times> tracker_op \<Rightarrow> Tracker \<Rightarrow> Tracker" where
  "run_op (now, OpPhase p) t = SetPhase now p t"
| "run_op (now, OpEarliest h) t = SetEarliestBlock now h t"
| "run_op (now, OpHead h) t = SetChainHead now h t"
| "run_op (now, OpGaps n) t = SetGaps now n t"
| "run_op (now, OpStart k s e) t = StartSegment now k s e t"
| "run_op (now, OpComplete) t = CompleteCurrentSegment now t"
| "run_op (now, OpCompleteGap s e) t = CompleteGap now s e t"
| "run_op (now, OpMark h i) t = MarkBlock now h i t"
| "run_op (now, OpTxByHash k) t = RecordTxByHash k t"
| "run_op (now, OpTxByIndex k) t = RecordTxByIndex k t"
| "run_op (now, OpReceipt k) t = RecordReceipt k t"
| "run_op (now, OpBlockLogs k) t = RecordBlockLogs k t"

fun marks :: "(int \<times> tracker_op) list \<Rightarrow> (int \<times> int \<times> bool) list" where
  "marks [] = []"
| "marks ((now, OpMark h i) # xs) = (now, h, i) # marks xs"
| "marks (_ # xs) = marks xs"

section \<open>Lemmas\<close>

lemmas op_defs = SetPhase_def SetEarliestBlock_def SetChainHead_def SetGaps_def StartSegment_def
  CompleteCurrentSegment_def CompleteGap_def MarkBlock_def RecordTxByHash_def RecordTxByIndex_def
  RecordReceipt_def RecordBlockLogs_def dec_gaps_def Let_def

lemma marks_append: "marks (xs @ ys) = marks xs @ marks ys"
  by (induction xs rule: marks.induct) simp_all

lemma marks_length: "length (marks xs) \<le> length xs"
  by (induction xs rule: marks.induct) simp_all

lemma run_op_gaps:
  assumes "0 \<le> gapsRemaining t \<and> gapsRemaining t \<le> gapsTotal t"
  shows "0 \<le> gapsRemaining (run_op x t) \<and> gapsRemaining (run_op x t) \<le> gapsTotal (run_op x t)"
  using assms by (cases "(x, t)" rule: run_op.cases) (auto simp: op_defs split: option.split)

text \<open>Every operation but \<open>MarkBlock\<close> leaves the block counters and the window alone.\<close>

lemma run_op_other:
  assumes "marks [x] = []"
  shows "lastSyncedBlock (run_op x t) = lastSyncedBlock t" "blocksProcessed (run_op x t) = blocksProcessed t"
    "blocksIndexed (run_op x t) = blocksIndexed t" "recentBlocks (run_op x t) = recentBlocks t"
  using assms by (cases "(x, t)" rule: run_op.cases; simp add: op_defs split: option.split)+

lemma marks_single:
  obtains "marks [x] = []" | now h i where "x = (now, OpMark h i)" "marks [x] = [(now, h, i)]"
  by (cases "[x]" rule: marks.cases) auto

lemma counters_inv:
  fixes now0 n earliest :: int
  assumes "int (length ops) \<le> maxInt64"
  defines "t \<equiv> fold run_op ops (NewTracker now0 n earliest)"
  shows "lastSyncedBlock t = Max (insert (-1) ((\<lambda>(_, h, _). h) ` set (marks ops))) \<and>
    blocksProcessed t = int (length (marks ops)) \<and>
    blocksIndexed t = int (length (filter (\<lambda>(_, _, i). i) (marks ops))) \<and>
    0 \<le> gapsRemaining t \<and> gapsRemaining t \<le> gapsTotal t"
  unfolding t_def using assms(1)
proof (induction ops rule: rev_induct)
  case Nil
  then show ?case by (simp add: NewTracker_def)
next
  case (snoc x ops)
  define s where "s = fold run_op ops (NewTracker now0 n earliest)"
  have f: "fold run_op (ops @ [x]) (NewTracker now0 n earliest) = run_op x s" by (simp add: s_def)
  have IH: "lastSyncedBlock s = Max (insert (-1) ((\<lambda>(_, h, _). h) ` set (marks ops)))"
    "blocksProcessed s = int (length (marks ops))"
    "blocksIndexed s = int (length (filter (\<lambda>(_, _, i). i) (marks ops)))"
    "0 \<le> gapsRemaining s \<and> gapsRemaining s \<le> gapsTotal s"
    using snoc by (simp_all add: s_def)
  note g = run_op_gaps [OF IH(4), of x]
  show ?case
  proof (cases rule: marks_single [of x])
    case 1
    then show ?thesis unfolding f using IH g run_op_other [OF 1, of s] by (simp add: marks_append)
  next
    case (2 now h i)
    have b: "int (length (marks ops)) + 1 \<le> maxInt64" using snoc.prems marks_length [of ops] by simp
    have le: "int (length (filter (\<lambda>(_, _, i). i) (marks ops))) + 1 \<le> maxInt64"
      using b length_filter_le [of "\<lambda>(_, _, i). i" "marks ops"] by linarith
    have w: "i64 (int (length (marks ops)) + 1) = int (length (marks ops)) + 1"
      "i64 (int (length (filter (\<lambda>(_, _, i). i) (marks ops))) + 1) = int (length (filter (\<lambda>(_, _, i). i) (marks ops))) + 1"
      using b le by (auto intro!: i64_id simp: is_i64_def minInt64_def)
    have mx: "Max (insert (-1) ((\<lambda>(_, h, _). h) ` set (marks (ops @ [x])))) =
        max (Max (insert (-1) ((\<lambda>(_, h, _). h) ` set (marks ops)))) h"
      using 2 by (simp add: marks_append insert_commute max.commute)
    have l: "lastSyncedBlock (run_op x s) = max (lastSyncedBlock s) h"
      and p: "blocksProcessed (run_op x s) = int (length (marks (ops @ [x])))"
      and i: "blocksIndexed (run_op x s) = int (length (filter (\<lambda>(_, _, i). i) (marks (ops @ [x]))))"
      using 2 IH(2,3) w by (simp_all add: MarkBlock_def marks_append max_def)
    show ?thesis unfolding f l mx p i IH(1) using g by blast
  qed
qed

lemma dropWhile_sorted: "sorted (xs :: int list) \<Longrightarrow> dropWhile (\<lambda>x. x < c) xs = filter (\<lambda>x. c \<le> x) xs"
proof (induction xs)
  case (Cons a xs)
  then have "c \<le> a \<Longrightarrow> filter (\<lambda>x. c \<le> x) xs = xs" by (intro filter_True) auto
  with Cons show ?case by auto
qed simp

lemma window_inv:
  assumes "sorted (map fst (marks ops))"
  shows "recentBlocks (fold run_op ops (NewTracker now0 n earliest)) =
    filter (\<lambda>x. last (map fst (marks ops)) - window \<le> x) (map fst (marks ops))"
  using assms
proof (induction ops rule: rev_induct)
  case Nil
  then show ?case by (simp add: NewTracker_def)
next
  case (snoc x ops)
  define s where "s = fold run_op ops (NewTracker now0 n earliest)"
  have f: "fold run_op (ops @ [x]) (NewTracker now0 n earliest) = run_op x s" by (simp add: s_def)
  let ?ts = "map fst (marks ops)"
  have IH: "recentBlocks s = filter (\<lambda>y. last ?ts - window \<le> y) ?ts"
    using snoc by (simp add: marks_append sorted_append s_def)
  show ?case
  proof (cases rule: marks_single [of x])
    case 1
    then show ?thesis unfolding f using IH run_op_other [OF 1, of s] by (simp add: marks_append)
  next
    case (2 now h i)
    have le: "y \<le> now" if "y \<in> set ?ts" for y
      using snoc.prems 2 that by (auto simp: marks_append sorted_append)
    have "sorted (recentBlocks s @ [now])"
      using IH snoc.prems 2 le by (auto simp: marks_append sorted_append intro: sorted_wrt_filter)
    then have "recentBlocks (run_op x s) = filter (\<lambda>y. now - window \<le> y) (recentBlocks s @ [now])"
      using 2 by (simp add: MarkBlock_def dropWhile_sorted)
    moreover have "filter (\<lambda>y. now - window \<le> y) (recentBlocks s) = filter (\<lambda>y. now - window \<le> y) ?ts"
    proof -
      have "last ?ts - window \<le> y" if "y \<in> set ?ts" "now - window \<le> y" for y
      proof -
        from that(1) have "?ts \<noteq> []" by auto
        then have "last ?ts \<le> now" by (intro le last_in_set)
        with that(2) show ?thesis by linarith
      qed
      then show ?thesis unfolding IH by (auto intro: filter_cong)
    qed
    moreover have "0 \<le> window" by (simp add: window_def)
    ultimately show ?thesis unfolding f using 2 by (simp add: marks_append)
  qed
qed

section \<open>Properties\<close>

text \<open>C36: After any sequence of calls the tracker reports consistent progress: the last synced block
  is the largest height marked (\<open>-1\<close> before the first), processed and indexed blocks are counted
  exactly, and the remaining gaps stay between zero and the total.\<close>

theorem Tracker_counts:
  assumes "int (length ops) \<le> maxInt64"
  shows "let t = fold run_op ops (NewTracker now n earliest) in
    lastSyncedBlock t = Max (insert (-1) ((\<lambda>(_, h, _). h) ` set (marks ops))) \<and>
    blocksProcessed t = int (length (marks ops)) \<and>
    blocksIndexed t = int (length (filter (\<lambda>(_, _, i). i) (marks ops))) \<and>
    0 \<le> gapsRemaining t \<and> gapsRemaining t \<le> gapsTotal t"
  unfolding Let_def by (rule counters_inv [OF assms])

theorem Tracker_counts_witness:
  "lastSyncedBlock (fold run_op [(1, OpGaps 2), (2, OpMark 7 True), (3, OpMark 5 False), (4, OpCompleteGap 5 7)]
     (NewTracker 0 1 1)) = 7"
  using Tracker_counts [of "[(1, OpGaps 2), (2, OpMark 7 True), (3, OpMark 5 False), (4, OpCompleteGap 5 7)]" 0 1 1]
  by (simp add: Let_def maxInt64_def)

text \<open>C37: With a clock that does not go backwards, the window of recent blocks holds exactly the
  blocks marked in the last 30 seconds before the latest one.\<close>

theorem Tracker_window:
  assumes "sorted (map fst (marks ops))"
  shows "recentBlocks (fold run_op ops (NewTracker now n earliest)) =
    filter (\<lambda>x. last (map fst (marks ops)) - window \<le> x) (map fst (marks ops))"
  by (rule window_inv [OF assms])

theorem Tracker_window_witness:
  "recentBlocks (fold run_op [(1, OpMark 1 True), (40000000000, OpMark 2 True), (50000000000, OpMark 3 True)]
     (NewTracker 0 1 1)) = [40000000000, 50000000000]"
  using Tracker_window [of "[(1, OpMark 1 True), (40000000000, OpMark 2 True), (50000000000, OpMark 3 True)]" 0 1 1]
  by (simp add: window_def)

end
