(* ===== verification/KV_Store.thy ===== *)
theory KV_Store
  imports Chain_Types Block_Ranges "HOL-Library.AList"
begin

text \<open>
  The key-value database under the indexer and its keys. The database (\<open>cosmos-db\<close>) is a
  third-party component: its operations are the fields of the record \<open>DB\<close>, and the locale
  \<open>ordered_kv\<close> states what the indexer relies on, an ordered map with atomic batches whose
  operations may fail. The keys of \<open>internal/indexer/kv_indexer.go\<close>, \<open>cache_collections.go\<close> and
  \<open>trace_cache.go\<close> are one prefix byte followed by fixed-width big-endian fields, so that iteration
  order is height order. The loaders that scan these keys come last.
\<close>

section \<open>Definitions\<close>

subsection \<open>The database\<close>

text \<open>\<open>Get\<close> returns no bytes for a missing key. An iterator is the list of the pairs it yields; the
  end of the range is exclusive, and \<open>None\<close> is no bound.\<close>

record ('d, 'b) DB =
  db_Get :: "'d \<Rightarrow> bytes \<Rightarrow> go_error + bytes"
  db_Iterator :: "'d \<Rightarrow> bytes \<Rightarrow> bytes option \<Rightarrow> go_error + (bytes \<times> bytes) list"
  db_ReverseIterator :: "'d \<Rightarrow> bytes \<Rightarrow> bytes option \<Rightarrow> go_error + (bytes \<times> bytes) list"
  db_Set :: "'d \<Rightarrow> bytes \<Rightarrow> bytes \<Rightarrow> go_error + 'd"
  db_NewBatch :: "'d \<Rightarrow> 'b"
  batch_Set :: "'b \<Rightarrow> bytes \<Rightarrow> bytes \<Rightarrow> go_error + 'b"
  batch_Delete :: "'b \<Rightarrow> bytes \<Rightarrow> go_error + 'b"
  batch_Write :: "'d \<Rightarrow> 'b \<Rightarrow> go_error + 'd"

subsection \<open>Keys\<close>

definition KeyPrefixTxHash :: byte where "KeyPrefixTxHash = 1"
definition KeyPrefixTxIndex :: byte where "KeyPrefixTxIndex = 2"
definition KeyPrefixRPCtxHash :: byte where "KeyPrefixRPCtxHash = 3"
definition KeyPrefixRPCtxIndex :: byte where "KeyPrefixRPCtxIndex = 4"
definition KeyPrefixReceipt :: byte where "KeyPrefixReceipt = 5"
definition KeyPrefixBlockLogs :: byte where "KeyPrefixBlockLogs = 6"
definition KeyPrefixBlockMeta :: byte where "KeyPrefixBlockMeta = 7"
definition KeyPrefixBlockHash :: byte where "KeyPrefixBlockHash = 8"
definition KeyPrefixTraceTx :: byte where "KeyPrefixTraceTx = 9"
definition KeyPrefixTraceBlock :: byte where "KeyPrefixTraceBlock = 10"
definition KeyPrefixVirtualRPCtx :: byte where "KeyPrefixVirtualRPCtx = 11"

lemmas key_prefixes = KeyPrefixTxHash_def KeyPrefixTxIndex_def KeyPrefixRPCtxHash_def KeyPrefixRPCtxIndex_def
  KeyPrefixReceipt_def KeyPrefixBlockLogs_def KeyPrefixBlockMeta_def KeyPrefixBlockHash_def
  KeyPrefixTraceTx_def KeyPrefixTraceBlock_def KeyPrefixVirtualRPCtx_def

definition TxIndexKeyLength :: nat where "TxIndexKeyLength = 1 + 8 + 8"
definition heightKeyLength :: nat where "heightKeyLength = 1 + 8"

definition TxHashKey :: "hash \<Rightarrow> bytes" where
  "TxHashKey h = KeyPrefixTxHash # hash_bytes h"

definition TxIndexKey :: "int \<Rightarrow> int \<Rightarrow> bytes" where
  "TxIndexKey blockNumber txIndex = (KeyPrefixTxIndex # be64 blockNumber) @ be64 txIndex"

definition RPCtxHashKey :: "hash \<Rightarrow> bytes" where
  "RPCtxHashKey h = KeyPrefixRPCtxHash # hash_bytes h"

definition RPCtxIndexKey :: "int \<Rightarrow> int \<Rightarrow> bytes" where
  "RPCtxIndexKey blockNumber txIndex = (KeyPrefixRPCtxIndex # be64 blockNumber) @ be64 txIndex"

definition ReceiptKey :: "hash \<Rightarrow> bytes" where
  "ReceiptKey h = KeyPrefixReceipt # hash_bytes h"

definition VirtualRPCtxKey :: "hash \<Rightarrow> bytes" where
  "VirtualRPCtxKey h = KeyPrefixVirtualRPCtx # hash_bytes h"

definition BlockLogsKey :: "int \<Rightarrow> bytes" where
  "BlockLogsKey height = KeyPrefixBlockLogs # be64 height"

definition BlockMetaKey :: "int \<Rightarrow> bytes" where
  "BlockMetaKey height = KeyPrefixBlockMeta # be64 height"

definition BlockHashKey :: "hash \<Rightarrow> bytes" where
  "BlockHashKey h = KeyPrefixBlockHash # hash_bytes h"

definition txIndexPrefixStart :: "int \<Rightarrow> bytes" where
  "txIndexPrefixStart height = KeyPrefixTxIndex # be64 height"

definition txIndexPrefixEnd :: "int \<Rightarrow> bytes" where
  "txIndexPrefixEnd height = KeyPrefixTxIndex # be64 (i64 (height + 1))"

definition rpcTxIndexPrefixStart :: "int \<Rightarrow> bytes" where
  "rpcTxIndexPrefixStart height = KeyPrefixRPCtxIndex # be64 height"

definition rpcTxIndexPrefixEnd :: "int \<Rightarrow> bytes" where
  "rpcTxIndexPrefixEnd height = KeyPrefixRPCtxIndex # be64 (i64 (height + 1))"

text \<open>The trace keys end with the digest of the trace configuration, the argument \<open>cfgKey\<close>.\<close>

definition TraceTxKey :: "hash \<Rightarrow> bytes \<Rightarrow> bytes" where
  "TraceTxKey h cfgKey = (KeyPrefixTraceTx # hash_bytes h) @ cfgKey"

definition TraceBlockKey :: "int \<Rightarrow> bytes \<Rightarrow> bytes" where
  "TraceBlockKey height cfgKey = (KeyPrefixTraceBlock # be64 height) @ cfgKey"

definition traceTxPrefixStart :: "hash \<Rightarrow> bytes" where
  "traceTxPrefixStart h = KeyPrefixTraceTx # hash_bytes h"

definition traceBlockPrefixStart :: "int \<Rightarrow> bytes" where
  "traceBlockPrefixStart height = KeyPrefixTraceBlock # be64 height"

text \<open>\<open>prefixRangeEnd\<close> scans from the last byte: bytes \<open>0xff\<close> are dropped and the first other byte
  is incremented; the recursion below runs over the reversed prefix.\<close>

fun prefix_end_rev :: "bytes \<Rightarrow> bytes option" where
  "prefix_end_rev [] = None"
| "prefix_end_rev (b # bs) = (if b = 0xff then prefix_end_rev bs else Some ((b + 1) # bs))"

definition prefixRangeEnd :: "bytes \<Rightarrow> bytes option" where
  "prefixRangeEnd p = map_option rev (prefix_end_rev (rev p))"

definition parseBlockNumberFromKey :: "bytes \<Rightarrow> go_error + int" where
  "parseBlockNumberFromKey key =
     (if length key \<noteq> TxIndexKeyLength then Inl (Errorf ''wrong tx index key length'')
      else Inr (i64 (from_be64 (take 8 (drop 1 key)))))"

definition parseHeightFromHeightKey :: "bytes \<Rightarrow> byte \<Rightarrow> go_error + int" where
  "parseHeightFromHeightKey key prefix =
     (if length key \<noteq> heightKeyLength then Inl (Errorf ''wrong height key length'')
      else if key ! 0 \<noteq> prefix then Inl (Errorf ''unexpected key prefix'')
      else Inr (i64 (from_be64 (drop 1 key))))"

subsection \<open>Loaders\<close>

text \<open>The two scanning loops of \<open>LoadIndexedRanges\<close> parse the keys as they go; an error ends the scan.\<close>

definition scan_heights :: "(bytes \<Rightarrow> go_error + int) \<Rightarrow> (bytes \<times> bytes) list \<Rightarrow> go_error + int list" where
  "scan_heights parse kvs = mapR (\<lambda>kv. parse (fst kv)) kvs"

definition LoadIndexedRanges :: "('d, 'b) DB \<Rightarrow> 'd \<Rightarrow> go_error + BlockRange list" where
  "LoadIndexedRanges DB d =
     bindR (db_Iterator DB d [KeyPrefixBlockMeta] (Some [KeyPrefixBlockMeta + 1])) (\<lambda>it.
     bindR (scan_heights (\<lambda>k. parseHeightFromHeightKey k KeyPrefixBlockMeta) it) (\<lambda>hs.
       case group_heights [] (-1) (rng 0 0) hs of (ranges, lastBlock, current) \<Rightarrow>
         if lastBlock \<noteq> -1 then Inr (ranges @ [current])
         else
           bindR (db_Iterator DB d [KeyPrefixTxIndex] (Some [KeyPrefixTxIndex + 1])) (\<lambda>legacyIt.
           bindR (scan_heights parseBlockNumberFromKey legacyIt) (\<lambda>hs'.
             case group_heights ranges (-1) current hs' of (ranges', lastBlock', current') \<Rightarrow>
               Inr (if lastBlock' \<noteq> -1 then ranges' @ [current'] else ranges')))))"

definition LoadLastBlock :: "('d, 'b) DB \<Rightarrow> 'd \<Rightarrow> go_error + int" where
  "LoadLastBlock DB d =
     bindR (wrapR (\<lambda>e. Wrap e ''LoadLastBlock'') (db_ReverseIterator DB d [KeyPrefixBlockMeta] (Some [KeyPrefixBlockMeta + 1]))) (\<lambda>itMeta.
       case itMeta of
         (k, _) # _ \<Rightarrow> parseHeightFromHeightKey k KeyPrefixBlockMeta
       | [] \<Rightarrow>
           bindR (wrapR (\<lambda>e. Wrap e ''LoadLastBlock'') (db_ReverseIterator DB d [KeyPrefixTxIndex] (Some [KeyPrefixTxIndex + 1]))) (\<lambda>it.
             case it of [] \<Rightarrow> Inr (-1) | (k, _) # _ \<Rightarrow> parseBlockNumberFromKey k))"

definition LoadFirstBlock :: "('d, 'b) DB \<Rightarrow> 'd \<Rightarrow> go_error + int" where
  "LoadFirstBlock DB d =
     bindR (wrapR (\<lambda>e. Wrap e ''LoadFirstBlock'') (db_Iterator DB d [KeyPrefixBlockMeta] (Some [KeyPrefixBlockMeta + 1]))) (\<lambda>itMeta.
       case itMeta of
         (k, _) # _ \<Rightarrow> parseHeightFromHeightKey k KeyPrefixBlockMeta
       | [] \<Rightarrow>
           bindR (wrapR (\<lambda>e. Wrap e ''LoadFirstBlock'') (db_Iterator DB d [KeyPrefixTxIndex] (Some [KeyPrefixTxIndex + 1]))) (\<lambda>it.
             case it of [] \<Rightarrow> Inr (-1) | (k, _) # _ \<Rightarrow> parseBlockNumberFromKey k))"

subsection \<open>An in-memory database\<close>

text \<open>A database as an association list and batches as lists of operations.\<close>

type_synonym memdb = "(bytes \<times> bytes) list"
type_synonym membatch = "(bytes \<times> bytes option) list"

definition below :: "bytes \<Rightarrow> bytes option \<Rightarrow> bool" where
  "below k e = (case e of None \<Rightarrow> True | Some x \<Rightarrow> k < x)"

definition mem_range :: "memdb \<Rightarrow> bytes \<Rightarrow> bytes option \<Rightarrow> (bytes \<times> bytes) list" where
  "mem_range d s e =
     map (\<lambda>k. (k, the (map_of d k))) (filter (\<lambda>k. s \<le> k \<and> below k e) (sort (remdups (map fst d))))"

fun mem_apply :: "memdb \<Rightarrow> membatch \<Rightarrow> memdb" where
  "mem_apply d [] = d"
| "mem_apply d ((k, Some v) # xs) = mem_apply (AList.update k v d) xs"
| "mem_apply d ((k, None) # xs) = mem_apply (AList.delete k d) xs"

definition MemDB :: "(memdb, membatch) DB" where
  "MemDB =
     \<lparr>db_Get = (\<lambda>d k. Inr (case map_of d k of None \<Rightarrow> [] | Some v \<Rightarrow> v)),
      db_Iterator = (\<lambda>d s e. Inr (mem_range d s e)),
      db_ReverseIterator = (\<lambda>d s e. Inr (rev (mem_range d s e))),
      db_Set = (\<lambda>d k v. Inr (AList.update k v d)),
      db_NewBatch = (\<lambda>d. []),
      batch_Set = (\<lambda>b k v. Inr (b @ [(k, Some v)])),
      batch_Delete = (\<lambda>b k. Inr (b @ [(k, None)])),
      batch_Write = (\<lambda>d b. Inr (mem_apply d b))\<rparr>"

section \<open>The interface\<close>

fun apply_ops :: "(bytes \<rightharpoonup> bytes) \<Rightarrow> (bytes \<times> bytes option) list \<Rightarrow> (bytes \<rightharpoonup> bytes)" where
  "apply_ops m [] = m"
| "apply_ops m ((k, v) # ops) = apply_ops (m(k := v)) ops"

text \<open>\<open>iterates m s e kvs\<close>: the pairs of \<open>m\<close> in a range, in increasing key order.\<close>

definition iterates :: "(bytes \<rightharpoonup> bytes) \<Rightarrow> bytes \<Rightarrow> bytes option \<Rightarrow> (bytes \<times> bytes) list \<Rightarrow> bool" where
  "iterates m s e kvs \<longleftrightarrow>
     sorted_wrt (<) (map fst kvs) \<and> set kvs = {(k, v). m k = Some v \<and> s \<le> k \<and> below k e}"

lemma iterates_keys: "iterates m s e kvs \<Longrightarrow> k \<in> fst ` set kvs \<longleftrightarrow> m k \<noteq> None \<and> s \<le> k \<and> below k e"
  by (force simp: image_iff iterates_def)

text \<open>What the indexer relies on. \<open>kvmap\<close> is the content of a database and \<open>bops\<close> the operations
  collected in a batch; every law is about a call that did not fail.\<close>

locale ordered_kv =
  fixes DB :: "('d, 'b) DB"
    and kvmap :: "'d \<Rightarrow> bytes \<rightharpoonup> bytes"
    and bops :: "'b \<Rightarrow> (bytes \<times> bytes option) list"
  assumes get_law: "db_Get DB d k = Inr v \<Longrightarrow> v = (case kvmap d k of None \<Rightarrow> [] | Some x \<Rightarrow> x)"
    and iterator_law: "db_Iterator DB d s e = Inr kvs \<Longrightarrow> iterates (kvmap d) s e kvs"
    and reverse_law: "db_ReverseIterator DB d s e = Inr kvs \<Longrightarrow> iterates (kvmap d) s e (rev kvs)"
    and set_law: "db_Set DB d k v = Inr d' \<Longrightarrow> kvmap d' = (kvmap d)(k \<mapsto> v)"
    and new_batch_law: "bops (db_NewBatch DB d) = []"
    and batch_set_law: "batch_Set DB b k v = Inr b' \<Longrightarrow> bops b' = bops b @ [(k, Some v)]"
    and batch_delete_law: "batch_Delete DB b k = Inr b' \<Longrightarrow> bops b' = bops b @ [(k, None)]"
    and write_law: "batch_Write DB d b = Inr d' \<Longrightarrow> kvmap d' = apply_ops (kvmap d) (bops b)"
begin

lemma get_present: "db_Get DB d k = Inr v \<Longrightarrow> v \<noteq> [] \<Longrightarrow> kvmap d k = Some v"
  using get_law [of d k v] by (auto split: option.splits)

lemma get_missing: "db_Get DB d k = Inr [] \<Longrightarrow> kvmap d k = None \<or> kvmap d k = Some []"
  using get_law [of d k "[]"] by (auto split: option.splits)

end

section \<open>Lemmas\<close>

lemma apply_ops_append: "apply_ops m (xs @ ys) = apply_ops (apply_ops m xs) ys"
  by (induction xs arbitrary: m) auto

lemma map_of_mem_apply: "map_of (mem_apply d ops) = apply_ops (map_of d) ops"
  by (induction d ops rule: mem_apply.induct)
    (simp_all only: mem_apply.simps apply_ops.simps update_conv' delete_conv')

lemma sorted_distinct_wrt: "sorted xs \<Longrightarrow> distinct xs \<Longrightarrow> sorted_wrt (<) xs" for xs :: "bytes list"
  by (induction xs) (auto simp: order.strict_iff_order)

lemma mem_range_sorted: "sorted_wrt (<) (map fst (mem_range d s e))"
proof -
  have "map fst (mem_range d s e) = filter (\<lambda>k. s \<le> k \<and> below k e) (sort (remdups (map fst d)))"
    by (simp add: mem_range_def comp_def)
  then show ?thesis by (simp add: sorted_wrt_filter sorted_distinct_wrt)
qed

lemma mem_range_set: "set (mem_range d s e) = {(k, v). map_of d k = Some v \<and> s \<le> k \<and> below k e}"
proof -
  have "k \<in> fst ` set d \<longleftrightarrow> (\<exists>v. map_of d k = Some v)" for k
    using map_of_eq_None_iff [of d k] by auto
  then show ?thesis by (auto simp: mem_range_def)
qed

interpretation mem: ordered_kv MemDB map_of "\<lambda>b. b"
  by unfold_locales
    (auto simp: MemDB_def iterates_def mem_range_sorted mem_range_set map_of_mem_apply update_conv')

subsection \<open>Prefix ranges\<close>

lemma append_le_append: "p @ x \<le> p @ y \<longleftrightarrow> x \<le> y" for p x y :: bytes
  by (induction p) auto

lemma append_less_append: "p @ x < p @ y \<longleftrightarrow> x < y" for p x y :: bytes
  by (induction p) auto

lemma sandwich_prefix: "p @ x \<le> k \<Longrightarrow> k < p @ y \<Longrightarrow> \<exists>r. k = p @ r" for p x y k :: bytes
proof (induction p arbitrary: k)
  case (Cons a p)
  then show ?case by (cases k) (auto dest: Cons.IH)
qed simp

lemma byte_le_max: "b \<le> (0xff :: byte)"
proof -
  have "unat (0xff :: byte) = 255" by simp
  then show ?thesis unfolding word_le_nat_alt using unat_byte [of b] by linarith
qed

lemma byte_less_Suc: "b \<noteq> 0xff \<Longrightarrow> c < b + 1 \<longleftrightarrow> c \<le> b" for b c :: byte
proof -
  assume "b \<noteq> 0xff"
  then have "unat b \<noteq> unat (0xff :: byte)" by (simp only: word_unat_eq_iff [symmetric] not_False_eq_True)
  moreover have "unat (0xff :: byte) = 255" by simp
  ultimately have "unat b < 255" using unat_byte [of b] by linarith
  then have "unat (b + 1) = unat b + 1" by (simp add: unat_word_ariths)
  then show ?thesis by (simp add: word_less_nat_alt word_le_nat_alt less_Suc_eq_le)
qed

lemma singleton_range: "b \<noteq> 0xff \<Longrightarrow> [b] \<le> k \<and> k < [b + 1] \<longleftrightarrow> (\<exists>r. k = b # r)" for b :: byte
proof (cases k)
  case (Cons c r)
  assume "b \<noteq> 0xff"
  with Cons byte_less_Suc [of b c] show ?thesis by auto
qed simp

lemma singleton_max: "[0xff] \<le> k \<longleftrightarrow> (\<exists>r. k = 0xff # r)" for k :: bytes
proof (cases k)
  case (Cons c r)
  then show ?thesis using byte_le_max [of c] by (auto simp: less_le_not_le)
qed simp

lemma prefixRangeEnd_snoc:
  "prefixRangeEnd (p @ [b]) = (if b = 0xff then prefixRangeEnd p else Some (p @ [b + 1]))"
  by (simp add: prefixRangeEnd_def)

text \<open>The range from a prefix to \<open>prefixRangeEnd\<close> holds exactly the keys with that prefix.\<close>

lemma prefix_range: "p \<le> k \<and> below k (prefixRangeEnd p) \<longleftrightarrow> (\<exists>r. k = p @ r)"
proof (induction p arbitrary: k rule: rev_induct)
  case Nil
  then show ?case by (simp add: prefixRangeEnd_def below_def)
next
  case (snoc b p)
  show ?case
  proof (cases "b = 0xff")
    case True
    have "p @ [b] \<le> k \<Longrightarrow> p \<le> k" using append_le_append [of p "[]" "[b]"] by (simp add: order_trans)
    then have "p @ [b] \<le> k \<and> below k (prefixRangeEnd p) \<longleftrightarrow> (\<exists>r. k = p @ r \<and> [b] \<le> r)"
      using snoc.IH [of k] append_le_append by metis
    also have "\<dots> \<longleftrightarrow> (\<exists>r. k = p @ b # r)" using singleton_max True by auto
    finally show ?thesis using True by (simp add: prefixRangeEnd_snoc)
  next
    case False
    have "p @ [b] \<le> k \<and> k < p @ [b + 1] \<longleftrightarrow> (\<exists>r. k = p @ r \<and> [b] \<le> r \<and> r < [b + 1])"
      using sandwich_prefix append_le_append append_less_append by metis
    also have "\<dots> \<longleftrightarrow> (\<exists>r. k = p @ b # r)" using singleton_range [OF False] by auto
    finally show ?thesis using False by (simp add: prefixRangeEnd_snoc below_def)
  qed
qed

text \<open>Keys of the form prefix byte, height, rest: the range of one height.\<close>

lemma be64_inj_iff: "0 \<le> x \<Longrightarrow> x \<le> maxUint64 \<Longrightarrow> 0 \<le> y \<Longrightarrow> y \<le> maxUint64 \<Longrightarrow> be64 x = be64 y \<longleftrightarrow> x = y"
  using be64_inj [of x y] by (auto simp: u64_id)

lemma be64_less: "0 \<le> x \<Longrightarrow> x \<le> maxUint64 \<Longrightarrow> 0 \<le> y \<Longrightarrow> y \<le> maxUint64 \<Longrightarrow> be64 x < be64 y \<longleftrightarrow> x < y"
  by (simp add: be64_less_iff u64_id)

lemma same_length_append_less:
  "length a = length b \<Longrightarrow> a @ x < b @ y \<longleftrightarrow> a < b \<or> a = b \<and> x < y" for a b x y :: bytes
  by (induction a b rule: list_induct2) auto

lemma same_length_append_le:
  "length a = length b \<Longrightarrow> a @ x \<le> b @ y \<longleftrightarrow> a < b \<or> a = b \<and> x \<le> y" for a b x y :: bytes
  by (induction a b rule: list_induct2) auto

lemma height_range:
  assumes "0 \<le> h" and "h < maxInt64" and "0 \<le> h'" and "h' \<le> maxUint64"
  shows "p # be64 h \<le> p # be64 h' @ r \<and> p # be64 h' @ r < p # be64 (i64 (h + 1)) \<longleftrightarrow> h' = h"
proof -
  have w: "i64 (h + 1) = h + 1" "h + 1 \<le> maxUint64" "h \<le> maxUint64"
    using assms by (auto simp: is_i64_def minInt64_def maxInt64_def maxUint64_def)
  have "be64 h \<le> be64 h' @ r \<longleftrightarrow> be64 h < be64 h' \<or> be64 h = be64 h'"
    using same_length_append_le [of "be64 h" "be64 h'" "[]" r] by simp
  moreover have "be64 h' @ r < be64 (h + 1) \<longleftrightarrow> be64 h' < be64 (h + 1)"
    using same_length_append_less [of "be64 h'" "be64 (h + 1)" r "[]"] by simp
  ultimately show ?thesis
    using assms w be64_less [of h h'] be64_less [of h' "h + 1"] be64_inj_iff [of h h'] by auto
qed

subsection \<open>Heights in the store\<close>

text \<open>The shape of the keys the indexer writes under the two height prefixes, and the heights they
  hold: those of the block metadata, or of the transaction index when there is no metadata.\<close>

definition height_ok :: "int \<Rightarrow> bool" where
  "height_ok h \<longleftrightarrow> 0 \<le> h \<and> h < maxInt64"

definition height_keys_ok :: "(bytes \<rightharpoonup> bytes) \<Rightarrow> bool" where
  "height_keys_ok m \<longleftrightarrow>
     (\<forall>r. KeyPrefixBlockMeta # r \<in> dom m \<longrightarrow> (\<exists>h. height_ok h \<and> r = be64 h)) \<and>
     (\<forall>r. KeyPrefixTxIndex # r \<in> dom m \<longrightarrow> (\<exists>h i. height_ok h \<and> r = be64 h @ be64 i))"

definition meta_heights :: "(bytes \<rightharpoonup> bytes) \<Rightarrow> int set" where
  "meta_heights m = {h. height_ok h \<and> BlockMetaKey h \<in> dom m}"

definition tx_heights :: "(bytes \<rightharpoonup> bytes) \<Rightarrow> int set" where
  "tx_heights m = {h. height_ok h \<and> (\<exists>i. TxIndexKey h i \<in> dom m)}"

definition stored_heights :: "(bytes \<rightharpoonup> bytes) \<Rightarrow> int set" where
  "stored_heights m = (if meta_heights m = {} then tx_heights m else meta_heights m)"

lemma height_ok_wrap: "height_ok h \<Longrightarrow> i64 h = h" "height_ok h \<Longrightarrow> u64 h = h"
  by (simp_all add: height_ok_def is_i64_def minInt64_def maxInt64_def u64_def take_bit_int_eq_self)

lemma parse_BlockMetaKey: "height_ok h \<Longrightarrow> parseHeightFromHeightKey (BlockMetaKey h) KeyPrefixBlockMeta = Inr h"
  by (simp add: parseHeightFromHeightKey_def BlockMetaKey_def heightKeyLength_def from_be64_be64 height_ok_wrap)

lemma parse_TxIndexKey: "height_ok h \<Longrightarrow> parseBlockNumberFromKey (TxIndexKey h i) = Inr h"
  by (simp add: parseBlockNumberFromKey_def TxIndexKey_def TxIndexKeyLength_def from_be64_be64 height_ok_wrap)

lemma byte_range:
  assumes "p \<noteq> 0xff"
  shows "[p] \<le> k \<and> below k (Some [p + 1]) \<longleftrightarrow> (\<exists>r. k = p # r)"
  using singleton_range [OF assms] by (simp add: below_def)

lemma parsed_sorted:
  assumes "sorted_wrt (<) ks"
    and "\<And>k. k \<in> set ks \<Longrightarrow> \<exists>h r. height_ok h \<and> k = p # be64 h @ r \<and> parse k = Inr h"
  shows "\<exists>hs. mapR parse ks = Inr hs \<and> sorted hs \<and> set hs = {h. height_ok h \<and> (\<exists>r. p # be64 h @ r \<in> set ks)}"
  using assms
proof (induction ks)
  case Nil
  then show ?case by simp
next
  case (Cons k ks)
  obtain hs where hs: "mapR parse ks = Inr hs" "sorted hs"
    "set hs = {h. height_ok h \<and> (\<exists>r. p # be64 h @ r \<in> set ks)}"
    using Cons.IH Cons.prems by auto
  obtain h r where h: "height_ok h" "k = p # be64 h @ r" "parse k = Inr h"
    using Cons.prems(2) [of k] by auto
  have le: "h \<le> h'" if h': "h' \<in> set hs" for h'
  proof -
    obtain r' where r': "height_ok h'" "p # be64 h' @ r' \<in> set ks" using h' hs(3) by auto
    then have "be64 h @ r < be64 h' @ r'" using Cons.prems(1) h(2) by auto
    then have "be64 h < be64 h' \<or> be64 h = be64 h'"
      using same_length_append_less [of "be64 h" "be64 h'" r r'] by auto
    then show ?thesis by (auto simp: be64_less_iff be64_inj height_ok_wrap h(1) r'(1))
  qed
  have eq: "(\<exists>r'. p # be64 h' @ r' = k) \<longleftrightarrow> h' = h" if "height_ok h'" for h'
    using that h by (auto simp: be64_inj height_ok_wrap)
  have "set (h # hs) = {h'. height_ok h' \<and> (\<exists>r'. p # be64 h' @ r' \<in> set (k # ks))}"
  proof -
    have "(\<exists>r'. p # be64 h' @ r' \<in> set (k # ks)) \<longleftrightarrow> h' = h \<or> (\<exists>r'. p # be64 h' @ r' \<in> set ks)"
      if "height_ok h'" for h'
      using eq [OF that] by (simp only: list.set insert_iff) blast
    then show ?thesis using hs(3) h(1) by (simp only: list.set) blast
  qed
  with hs h le show ?case by (intro exI [of _ "h # hs"]) auto
qed

lemma mapR_fst: "scan_heights parse kvs = mapR parse (map fst kvs)"
  unfolding scan_heights_def by (induction kvs) auto

lemma iterates_prefix:
  assumes "p \<noteq> 0xff" and "iterates m [p] (Some [p + 1]) kvs"
  shows "k \<in> set (map fst kvs) \<longleftrightarrow> k \<in> dom m \<and> (\<exists>r. k = p # r)"
  using iterates_keys [OF assms(2), of k] byte_range [OF assms(1), of k] by (simp add: domIff)

lemma meta_scan:
  assumes "height_keys_ok m"
    and "iterates m [KeyPrefixBlockMeta] (Some [KeyPrefixBlockMeta + 1]) kvs"
  shows "\<exists>hs. scan_heights (\<lambda>k. parseHeightFromHeightKey k KeyPrefixBlockMeta) kvs = Inr hs \<and>
    sorted hs \<and> set hs = meta_heights m"
proof -
  have k: "k \<in> set (map fst kvs) \<longleftrightarrow> k \<in> dom m \<and> (\<exists>r. k = KeyPrefixBlockMeta # r)" for k
    by (rule iterates_prefix [OF _ assms(2)]) (simp add: key_prefixes)
  have ok: "\<exists>h r. height_ok h \<and> k = KeyPrefixBlockMeta # be64 h @ r \<and>
      parseHeightFromHeightKey k KeyPrefixBlockMeta = Inr h" if kin: "k \<in> set (map fst kvs)" for k
  proof -
    obtain r where r: "k \<in> dom m" "k = KeyPrefixBlockMeta # r" using iffD1 [OF k kin] by blast
    then obtain h where "height_ok h" "k = BlockMetaKey h"
      using assms(1) unfolding height_keys_ok_def BlockMetaKey_def by blast
    then show ?thesis using parse_BlockMetaKey by (intro exI [of _ h] exI [of _ "[]"]) (simp add: BlockMetaKey_def)
  qed
  have "{h. height_ok h \<and> (\<exists>r. KeyPrefixBlockMeta # be64 h @ r \<in> set (map fst kvs))} = meta_heights m"
  proof -
    have "r = []" if *: "KeyPrefixBlockMeta # be64 h @ r \<in> dom m" for h r
    proof -
      obtain h' where "be64 h @ r = be64 h'" using * assms(1) unfolding height_keys_ok_def by blast
      then have "length (be64 h @ r) = length (be64 h')" by (rule arg_cong)
      then show ?thesis by simp
    qed
    then have "(\<exists>r. KeyPrefixBlockMeta # be64 h @ r \<in> dom m) \<longleftrightarrow> BlockMetaKey h \<in> dom m" for h
      unfolding BlockMetaKey_def by (metis append_Nil2)
    then show ?thesis unfolding k meta_heights_def by auto
  qed
  moreover have "sorted_wrt (<) (map fst kvs)" using assms(2) by (simp add: iterates_def)
  ultimately show ?thesis using parsed_sorted [of "map fst kvs", OF _ ok] unfolding mapR_fst by simp
qed

lemma tx_scan:
  assumes "height_keys_ok m"
    and "iterates m [KeyPrefixTxIndex] (Some [KeyPrefixTxIndex + 1]) kvs"
  shows "\<exists>hs. scan_heights parseBlockNumberFromKey kvs = Inr hs \<and> sorted hs \<and> set hs = tx_heights m"
proof -
  have k: "k \<in> set (map fst kvs) \<longleftrightarrow> k \<in> dom m \<and> (\<exists>r. k = KeyPrefixTxIndex # r)" for k
    by (rule iterates_prefix [OF _ assms(2)]) (simp add: key_prefixes)
  have ok: "\<exists>h r. height_ok h \<and> k = KeyPrefixTxIndex # be64 h @ r \<and> parseBlockNumberFromKey k = Inr h"
    if kin: "k \<in> set (map fst kvs)" for k
  proof -
    obtain r where r: "k \<in> dom m" "k = KeyPrefixTxIndex # r" using iffD1 [OF k kin] by blast
    then obtain h i where "height_ok h" "k = TxIndexKey h i"
      using assms(1) unfolding height_keys_ok_def TxIndexKey_def append_Cons by blast
    then show ?thesis using parse_TxIndexKey by (intro exI [of _ h] exI [of _ "be64 i"]) (simp add: TxIndexKey_def)
  qed
  have "{h. height_ok h \<and> (\<exists>r. KeyPrefixTxIndex # be64 h @ r \<in> set (map fst kvs))} = tx_heights m"
  proof -
    have "\<exists>i. r = be64 i" if *: "KeyPrefixTxIndex # be64 h @ r \<in> dom m" for h r
    proof -
      obtain h' i where "be64 h @ r = be64 h' @ be64 i" using * assms(1) unfolding height_keys_ok_def by blast
      then show ?thesis by auto
    qed
    then have "(\<exists>r. KeyPrefixTxIndex # be64 h @ r \<in> dom m) \<longleftrightarrow> (\<exists>i. TxIndexKey h i \<in> dom m)" for h
      unfolding TxIndexKey_def append_Cons by metis
    then show ?thesis unfolding k tx_heights_def by auto
  qed
  moreover have "sorted_wrt (<) (map fst kvs)" using assms(2) by (simp add: iterates_def)
  ultimately show ?thesis using parsed_sorted [of "map fst kvs", OF _ ok] unfolding mapR_fst by simp
qed


lemma group_heights_start:
  assumes "sorted hs" and "\<forall>h\<in>set hs. height_ok h"
    and "group_heights [] (-1) c hs = (ranges, lastBlock, current)"
  shows "hs = [] \<and> ranges = [] \<and> lastBlock = -1 \<and> current = c \<or>
    hs \<noteq> [] \<and> lastBlock \<noteq> -1 \<and> normal_ranges (ranges @ [current]) \<and> covered (ranges @ [current]) = set hs"
proof (cases hs)
  case Nil
  then show ?thesis using assms(3) by simp
next
  case (Cons h hs')
  have h: "0 \<le> h" "h \<le> maxInt64" using assms(2) Cons by (auto simp: height_ok_def)
  have g: "group_heights [] h (rng h h) hs' = (ranges, lastBlock, current)"
    using assms(3) Cons h by (auto split: if_splits)
  have n: "normal_ranges ([] @ [rng h h])" using h by (simp add: normal_ranges_def valid_range_def)
  have le: "\<forall>h'\<in>set hs'. h \<le> h' \<and> h' \<le> maxInt64"
    using assms(1,2) Cons by (auto simp: height_ok_def)
  have "sorted hs'" using assms(1) Cons by simp
  note inv = group_heights_inv [OF this le n _ h(1) g]
  show ?thesis using inv Cons by (auto simp: covered_def)
qed

lemma meta_heights_ok: "h \<in> stored_heights m \<Longrightarrow> height_ok h"
  by (auto simp: stored_heights_def meta_heights_def tx_heights_def split: if_splits)

lemma mapR_heads:
  assumes "scan_heights parse kvs = Inr hs" and "sorted hs"
  shows "kvs = [] \<and> hs = [] \<or>
    kvs \<noteq> [] \<and> hs \<noteq> [] \<and> parse (fst (hd kvs)) = Inr (Min (set hs)) \<and> parse (fst (last kvs)) = Inr (Max (set hs))"
proof -
  have l: "list_all2 (\<lambda>x y. parse (fst x) = Inr y) kvs hs"
    using assms(1) by (simp add: scan_heights_def mapR_Inr_iff)
  show ?thesis
  proof (cases "kvs = []")
    case False
    then have ne: "hs \<noteq> []" using l by auto
    have "parse (fst (hd kvs)) = Inr (hd hs)" using l False by (cases kvs; cases hs) auto
    moreover have "parse (fst (last kvs)) = Inr (last hs)"
      using list_all2_nthD [OF l, of "length kvs - 1"] list_all2_lengthD [OF l] False ne
      by (simp add: last_conv_nth)
    moreover have "Min (set hs) = hd hs"
      using assms(2) ne by (intro Min_eqI) (cases hs; auto)+
    moreover have "Max (set hs) = last hs"
      using assms(2) ne by (intro Max_eqI) (cases hs rule: rev_cases; auto simp: sorted_append)+
    ultimately show ?thesis using False ne by simp
  qed (use l in auto)
qed

context ordered_kv
begin

lemma LoadIndexedRanges_spec:
  assumes ok: "height_keys_ok (kvmap d)" and it: "\<And>s e. \<exists>kvs. db_Iterator DB d s e = Inr kvs"
  shows "\<exists>rs. LoadIndexedRanges DB d = Inr rs \<and> normal_ranges rs \<and> covered rs = stored_heights (kvmap d)"
proof -
  obtain kvs where kvs: "db_Iterator DB d [KeyPrefixBlockMeta] (Some [KeyPrefixBlockMeta + 1]) = Inr kvs"
    using it by blast
  obtain hs where hs: "scan_heights (\<lambda>k. parseHeightFromHeightKey k KeyPrefixBlockMeta) kvs = Inr hs"
    "sorted hs" "set hs = meta_heights (kvmap d)"
    using meta_scan [OF ok iterator_law [OF kvs]] by blast
  obtain kvs' where kvs': "db_Iterator DB d [KeyPrefixTxIndex] (Some [KeyPrefixTxIndex + 1]) = Inr kvs'"
    using it by blast
  obtain hs' where hs': "scan_heights parseBlockNumberFromKey kvs' = Inr hs'" "sorted hs'" "set hs' = tx_heights (kvmap d)"
    using tx_scan [OF ok iterator_law [OF kvs']] by blast
  obtain rs l c where g: "group_heights [] (-1) (rng 0 0) hs = (rs, l, c)" by (metis prod_cases3)
  obtain rs' l' c' where g': "group_heights [] (-1) (rng 0 0) hs' = (rs', l', c')" by (metis prod_cases3)
  have hok: "\<forall>h\<in>set hs. height_ok h" "\<forall>h\<in>set hs'. height_ok h"
    using hs(3) hs'(3) by (auto simp: meta_heights_def tx_heights_def)
  note defs = LoadIndexedRanges_def kvs hs(1) kvs' hs'(1)
  show ?thesis
    using group_heights_start [OF hs(2) hok(1) g] group_heights_start [OF hs'(2) hok(2) g'] g g' hs(3) hs'(3)
    by (auto simp: defs stored_heights_def)
qed

lemma LoadFirstBlock_spec:
  assumes ok: "height_keys_ok (kvmap d)" and it: "\<And>s e. \<exists>kvs. db_Iterator DB d s e = Inr kvs"
  shows "LoadFirstBlock DB d = Inr (if stored_heights (kvmap d) = {} then -1 else Min (stored_heights (kvmap d)))"
proof -
  obtain kvs where kvs: "db_Iterator DB d [KeyPrefixBlockMeta] (Some [KeyPrefixBlockMeta + 1]) = Inr kvs"
    using it by blast
  obtain hs where hs: "scan_heights (\<lambda>k. parseHeightFromHeightKey k KeyPrefixBlockMeta) kvs = Inr hs"
    "sorted hs" "set hs = meta_heights (kvmap d)"
    using meta_scan [OF ok iterator_law [OF kvs]] by blast
  obtain kvs' where kvs': "db_Iterator DB d [KeyPrefixTxIndex] (Some [KeyPrefixTxIndex + 1]) = Inr kvs'"
    using it by blast
  obtain hs' where hs': "scan_heights parseBlockNumberFromKey kvs' = Inr hs'" "sorted hs'" "set hs' = tx_heights (kvmap d)"
    using tx_scan [OF ok iterator_law [OF kvs']] by blast
  show ?thesis
    using mapR_heads [OF hs(1,2)] mapR_heads [OF hs'(1,2)]
    by (auto simp: LoadFirstBlock_def kvs kvs' stored_heights_def hs(3) [symmetric] hs'(3) [symmetric] split: list.split)
qed

lemma LoadLastBlock_spec:
  assumes ok: "height_keys_ok (kvmap d)" and it: "\<And>s e. \<exists>kvs. db_ReverseIterator DB d s e = Inr kvs"
  shows "LoadLastBlock DB d = Inr (if stored_heights (kvmap d) = {} then -1 else Max (stored_heights (kvmap d)))"
proof -
  obtain kvs where kvs: "db_ReverseIterator DB d [KeyPrefixBlockMeta] (Some [KeyPrefixBlockMeta + 1]) = Inr kvs"
    using it by blast
  obtain hs where hs: "scan_heights (\<lambda>k. parseHeightFromHeightKey k KeyPrefixBlockMeta) (rev kvs) = Inr hs"
    "sorted hs" "set hs = meta_heights (kvmap d)"
    using meta_scan [OF ok reverse_law [OF kvs]] by blast
  obtain kvs' where kvs': "db_ReverseIterator DB d [KeyPrefixTxIndex] (Some [KeyPrefixTxIndex + 1]) = Inr kvs'"
    using it by blast
  obtain hs' where hs': "scan_heights parseBlockNumberFromKey (rev kvs') = Inr hs'" "sorted hs'" "set hs' = tx_heights (kvmap d)"
    using tx_scan [OF ok reverse_law [OF kvs']] by blast
  show ?thesis
    using mapR_heads [OF hs(1,2)] mapR_heads [OF hs'(1,2)]
    by (auto simp: LoadLastBlock_def kvs kvs' stored_heights_def hs(3) [symmetric] hs'(3) [symmetric] last_rev split: list.split)
qed

end

section \<open>Properties\<close>

text \<open>C19: On a store whose height keys have the layout of the key functions and whose iterators do not
  fail, \<open>LoadIndexedRanges\<close> returns disjoint, ordered, non-adjacent ranges that hold exactly the
  stored heights, and \<open>LoadFirstBlock\<close> and \<open>LoadLastBlock\<close> return the least and the greatest of
  them, or -1 for an empty store.\<close>

theorem loaders_exact:
  assumes "ordered_kv DB kvmap bops" and "height_keys_ok (kvmap d)"
    and "\<And>s e. \<exists>kvs. db_Iterator DB d s e = Inr kvs" and "\<And>s e. \<exists>kvs. db_ReverseIterator DB d s e = Inr kvs"
  shows "\<exists>rs. LoadIndexedRanges DB d = Inr rs \<and> normal_ranges rs \<and> covered rs = stored_heights (kvmap d) \<and>
    LoadFirstBlock DB d = Inr (if rs = [] then -1 else Min (covered rs)) \<and>
    LoadLastBlock DB d = Inr (if rs = [] then -1 else Max (covered rs))"
proof -
  obtain rs where rs: "LoadIndexedRanges DB d = Inr rs" "normal_ranges rs" "covered rs = stored_heights (kvmap d)"
    using ordered_kv.LoadIndexedRanges_spec [OF assms(1-3)] by blast
  have "rs = [] \<longleftrightarrow> covered rs = {}"
    using rs(2) by (cases rs) (auto simp: covered_def normal_ranges_Cons valid_range_def)
  then show ?thesis
    using rs ordered_kv.LoadFirstBlock_spec [OF assms(1-3)] ordered_kv.LoadLastBlock_spec [OF assms(1,2,4)] by simp
qed

definition example_store :: memdb where
  "example_store = [(BlockMetaKey 7, [1]), (BlockMetaKey 5, [1]), (BlockMetaKey 6, [1]), (BlockMetaKey 9, [1]), (TxIndexKey 5 0, [2])]"

lemma height_okI: "0 \<le> h \<Longrightarrow> h < maxInt64 \<Longrightarrow> \<exists>h'. height_ok h' \<and> be64 h = be64 h'"
  "0 \<le> h \<Longrightarrow> h < maxInt64 \<Longrightarrow> \<exists>h'. height_ok h' \<and> be64 h = be64 h' \<and> (\<exists>i'. be64 i = be64 i')"
  by (auto simp: height_ok_def)

lemma example_store_ok: "height_keys_ok (map_of example_store)"
  by (auto simp: height_keys_ok_def example_store_def BlockMetaKey_def TxIndexKey_def maxInt64_def
      key_prefixes intro!: height_okI split: if_splits)

theorem loaders_exact_witness:
  "\<exists>rs. LoadIndexedRanges MemDB example_store = Inr rs \<and> normal_ranges rs \<and> covered rs = stored_heights (map_of example_store)"
  using loaders_exact [OF mem.ordered_kv_axioms example_store_ok] by (simp add: MemDB_def) blast

end
