(* ===== verification/Hex_Codec.thy ===== *)
theory Hex_Codec
  imports Chain_Types
begin

text \<open>
  What the indexer relies on of go-ethereum's hexadecimal functions, as the locale \<open>eth_hex\<close>: the
  printers are inverted by the parsers. The functions themselves are third-party code and stay
  parameters; \<open>std_eth\<close> gives a concrete instance (lower-case hexadecimal with the prefix \<open>0x\<close>), on
  which the locale is interpreted.
\<close>

section \<open>The interface\<close>

text \<open>\<open>hexutil.DecodeBig\<close> refuses numbers above 256 bits, and the minus sign that \<open>EncodeBig\<close> puts in front of
  a negative number; this bounds the laws for quantities.\<close>

locale eth_hex =
  fixes E :: Eth_Lib
  assumes hash_hex: "HexToHash E (Hash_Hex E h) = h"
    and address_hex: "HexToAddress E (Address_Hex E a) = a"
    and from_hex: "FromHex E (hexutil_Encode E b) = b"
    and decode_hex: "hexutil_Decode E (hexutil_Encode E b) = Inr b"
    and decode_hash: "hexutil_Decode E (Hash_Hex E h) = Inr (hash_bytes h)"
    and is_address: "IsHexAddress E (Address_Hex E a)"
    and decode_big: "0 \<le> n \<Longrightarrow> n < 2 ^ 256 \<Longrightarrow> DecodeBig E (EncodeBig E n) = Inr n"
    and big_range: "DecodeBig E (EncodeBig E n) = Inr m \<Longrightarrow> 0 \<le> n \<and> n < 2 ^ 256"
    and big_nonempty: "EncodeBig E n \<noteq> []"

section \<open>Hexadecimal text\<close>

definition hex_digit :: "nat \<Rightarrow> char" where
  "hex_digit n = (if n < 10 then char_of (48 + n) else char_of (87 + n))"

definition hex_value :: "char \<Rightarrow> nat option" where
  "hex_value c =
     (let n = of_char c :: nat in
      if 48 \<le> n \<and> n \<le> 57 then Some (n - 48)
      else if 97 \<le> n \<and> n \<le> 102 then Some (n - 87)
      else if 65 \<le> n \<and> n \<le> 70 then Some (n - 55) else None)"

fun hex_of_bytes :: "bytes \<Rightarrow> string" where
  "hex_of_bytes [] = []"
| "hex_of_bytes (b # bs) = hex_digit (unat b div 16) # hex_digit (unat b mod 16) # hex_of_bytes bs"

fun bytes_of_hex :: "string \<Rightarrow> bytes option" where
  "bytes_of_hex [] = Some []"
| "bytes_of_hex [c] = None"
| "bytes_of_hex (c # d # s) =
     (case (hex_value c, hex_value d, bytes_of_hex s) of
        (Some x, Some y, Some bs) \<Rightarrow> Some (word_of_nat (16 * x + y) # bs)
      | _ \<Rightarrow> None)"

fun nat_hex :: "nat \<Rightarrow> string" where
  "nat_hex n = (if n < 16 then [hex_digit n] else nat_hex (n div 16) @ [hex_digit (n mod 16)])"

declare nat_hex.simps [simp del]

fun hex_nat :: "nat \<Rightarrow> string \<Rightarrow> nat option" where
  "hex_nat acc [] = Some acc"
| "hex_nat acc (c # cs) = (case hex_value c of None \<Rightarrow> None | Some d \<Rightarrow> hex_nat (16 * acc + d) cs)"

definition strip_0x :: "string \<Rightarrow> string option" where
  "strip_0x s = (if HasPrefix s ''0x'' then Some (drop 2 s) else None)"

definition std_decode :: "string \<Rightarrow> go_error + bytes" where
  "std_decode s =
     (case strip_0x s of
        None \<Rightarrow> Inl (Errorf ''hex string without 0x prefix'')
      | Some t \<Rightarrow> (case bytes_of_hex t of None \<Rightarrow> Inl (Errorf ''invalid hex string'') | Some bs \<Rightarrow> Inr bs))"

definition std_from_hex :: "string \<Rightarrow> bytes" where
  "std_from_hex s =
     (let t = TrimPrefix s ''0x''; u = (if even (length t) then t else CHR ''0'' # t)
      in case bytes_of_hex u of None \<Rightarrow> [] | Some bs \<Rightarrow> bs)"

definition std_decode_big :: "string \<Rightarrow> go_error + int" where
  "std_decode_big s =
     (case strip_0x s of
        None \<Rightarrow> Inl (Errorf ''hex string without 0x prefix'')
      | Some t \<Rightarrow>
          if t = [] then Inl (Errorf ''empty hex string'')
          else if 64 < length t then Inl (Errorf ''hex number > 256 bits'')
          else (case hex_nat 0 t of None \<Rightarrow> Inl (Errorf ''invalid hex string'') | Some n \<Rightarrow> Inr (int n)))"

definition std_eth :: Eth_Lib where
  "std_eth =
     \<lparr>Keccak256Hash = (\<lambda>bs. bytes_to_hash (rev bs)),
      IsHexAddress = (\<lambda>s. length (std_from_hex s) = 20),
      HexToAddress = (\<lambda>s. bytes_to_addr (std_from_hex s)),
      Address_Hex = (\<lambda>a. ''0x'' @ hex_of_bytes (addr_bytes a)),
      HexToHash = (\<lambda>s. bytes_to_hash (std_from_hex s)),
      Hash_Hex = (\<lambda>h. ''0x'' @ hex_of_bytes (hash_bytes h)),
      FromHex = std_from_hex, hexutil_Decode = std_decode,
      hexutil_Encode = (\<lambda>bs. ''0x'' @ hex_of_bytes bs),
      DecodeBig = std_decode_big, EncodeBig = (\<lambda>n. if n < 0 then ''-0x'' @ nat_hex (nat (- n)) else ''0x'' @ nat_hex (nat n)),
      Pack_denomAmount = (\<lambda>d a. Inr (str_bytes d)), Pack_summary = (\<lambda>p c q s r e. Inr (str_bytes c)),
      CreateAddress = (\<lambda>a n. a), EmptyRootHash = 0, EmptyUncleHash = 0, BytesToBloom = (\<lambda>b. b)\<rparr>"

section \<open>Round trips\<close>

lemma hex_value_digit [simp]: "n < 16 \<Longrightarrow> hex_value (hex_digit n) = Some n"
  by (cases "n < 10") (simp_all add: hex_digit_def hex_value_def of_char_of)

lemma bytes_of_hex_of_bytes [simp]: "bytes_of_hex (hex_of_bytes bs) = Some bs"
proof (induction bs)
  case Nil
  then show ?case by simp
next
  case (Cons b bs)
  have "unat b div 16 < 16" using unat_byte [of b] by (simp only: less_mult_imp_div_less)
  then show ?case using Cons by simp
qed

lemma even_hex_of_bytes [simp]: "even (length (hex_of_bytes bs))"
  by (induction bs) simp_all

lemma hex_nat_append: "hex_nat acc (s @ t) = Option.bind (hex_nat acc s) (\<lambda>a. hex_nat a t)"
  by (induction acc s rule: hex_nat.induct) (auto split: option.splits)

lemma hex_nat_nat_hex: "hex_nat 0 (nat_hex n) = Some n"
proof (induction n rule: nat_hex.induct)
  case (1 n)
  then show ?case by (subst nat_hex.simps) (simp add: hex_nat_append)
qed

lemma nat_hex_nonempty [simp]: "nat_hex n \<noteq> []"
  by (subst nat_hex.simps) simp

lemma length_nat_hex: "n < 16 ^ Suc k \<Longrightarrow> length (nat_hex n) \<le> Suc k"
proof (induction k arbitrary: n)
  case 0
  then show ?case by (subst nat_hex.simps) simp
next
  case (Suc k)
  then have "n div 16 < 16 ^ Suc k" by (simp add: less_mult_imp_div_less mult.commute)
  with Suc.IH [of "n div 16"] show ?case by (subst nat_hex.simps) simp
qed

lemma strip_0x_append [simp]: "strip_0x (CHR ''0'' # CHR ''x'' # s) = Some s"
  by (simp add: strip_0x_def)

lemma std_from_hex_encode [simp]: "std_from_hex (CHR ''0'' # CHR ''x'' # hex_of_bytes bs) = bs"
  by (simp add: std_from_hex_def TrimPrefix_def)

lemma std_decode_encode [simp]: "std_decode (CHR ''0'' # CHR ''x'' # hex_of_bytes bs) = Inr bs"
  by (simp add: std_decode_def)

lemma std_decode_big_encode:
  assumes "0 \<le> n" and "n < 2 ^ 256"
  shows "std_decode_big (CHR ''0'' # CHR ''x'' # nat_hex (nat n)) = Inr n"
proof -
  have "nat n < 16 ^ Suc 63" using assms by (simp add: nat_less_iff)
  then have "length (nat_hex (nat n)) \<le> Suc 63" by (rule length_nat_hex)
  with assms show ?thesis by (simp add: std_decode_big_def hex_nat_nat_hex)
qed

lemma less_nat_hex: "n < 16 ^ length (nat_hex n)"
proof (induction n rule: nat_hex.induct)
  case (1 n)
  show ?case
  proof (cases "n < 16")
    case False
    with 1 have "n div 16 < 16 ^ length (nat_hex (n div 16))" by simp
    with False show ?thesis by (subst nat_hex.simps) (simp add: div_less_iff_less_mult)
  qed (subst nat_hex.simps, simp)
qed

lemma std_decode_big_range:
  assumes "0 \<le> n" and "std_decode_big (CHR ''0'' # CHR ''x'' # nat_hex (nat n)) = Inr m"
  shows "n < 2 ^ 256"
proof -
  have "length (nat_hex (nat n)) \<le> 64" using assms(2) by (auto simp: std_decode_big_def split: if_splits)
  then have "(16::nat) ^ length (nat_hex (nat n)) \<le> 16 ^ 64" by (intro power_increasing) auto
  with less_nat_hex [of "nat n"] have "nat n < 16 ^ 64" by (rule order.strict_trans2)
  with assms(1) show ?thesis by (simp add: nat_less_iff)
qed

lemma std_decode_big_sign: "std_decode_big (CHR ''-'' # s) = Inl (Errorf ''hex string without 0x prefix'')"
  by (simp add: std_decode_big_def strip_0x_def)

interpretation std: eth_hex std_eth
proof
  fix n m assume "DecodeBig std_eth (EncodeBig std_eth n) = Inr m"
  then show "0 \<le> n \<and> n < 2 ^ 256"
    using std_decode_big_range [of n m] by (auto simp: std_eth_def std_decode_big_sign split: if_splits)
qed (simp_all add: std_eth_def std_decode_big_encode)

end
