(* ===== verification/KV_Codec.thy ===== *)
theory KV_Codec
  imports Virtual_Response Hex_Codec "HOL-Library.Countable"
begin

text \<open>
  The cached values of the indexer and their encoding: the records of
  \<open>internal/indexer/cache_collections.go\<close> and the functions of \<open>internal/indexer/kv_codec.go\<close>.
  A value is written as a Cap'n Proto message behind a magic prefix; a value without the prefix is
  read in the legacy JSON or protobuf format. A Cap'n Proto struct is a record of what its accessors
  return: a pointer field is \<open>None\<close> when it is null, and otherwise the result of its accessor, which
  may be an error. The serialisation of structs (the \<open>capnp\<close> package and the generated accessors) and
  the legacy decoders are the fields of \<open>Codec_Lib\<close>; the locale \<open>capnp_codec\<close> states that a message
  reads back as the struct it was made from.
\<close>

section \<open>Cached values\<close>

record CachedBlockMeta =
  bm_Height :: int
  bm_Hash :: string
  bm_ParentHash :: string
  bm_StateRoot :: string
  bm_Miner :: string
  bm_Timestamp :: int
  bm_Size :: int
  bm_GasLimit :: int
  bm_GasUsed :: int
  bm_EthTxCount :: int
  bm_TxCount :: int
  bm_Bloom :: string
  bm_TransactionsRoot :: string
  bm_BaseFee :: string
  bm_VirtualizedCosmosEvents :: bool

record CachedReceipt =
  cr_Status :: int
  cr_CumulativeGasUsed :: int
  cr_GasUsed :: int
  cr_Reason :: "string option"
  cr_VMError :: "string option"
  cr_LogsBloom :: string
  cr_Logs :: "RPCLog option list"
  cr_TransactionHash :: string
  cr_ContractAddress :: "string option"
  cr_BlockHash :: string
  cr_BlockNumber :: int
  cr_TransactionIndex :: int
  cr_EffectiveGasPrice :: string
  cr_From :: string
  cr_To :: "string option"
  cr_Type :: int

section \<open>Cap'n Proto structs\<close>

type_synonym 'a ptr = "(go_error + 'a) option"

definition has_ptr :: "'a ptr \<Rightarrow> bool" where
  "has_ptr p \<longleftrightarrow> p \<noteq> None"

text \<open>An accessor of a null pointer returns the zero value.\<close>

definition deref :: "'a \<Rightarrow> 'a ptr \<Rightarrow> go_error + 'a" where
  "deref z p = (case p of None \<Rightarrow> Inr z | Some r \<Rightarrow> r)"

text \<open>Setting an empty text leaves the pointer null.\<close>

definition SetText :: "string \<Rightarrow> string ptr" where
  "SetText s = (if s = [] then None else Some (Inr s))"

definition SetPtr :: "'a \<Rightarrow> 'a ptr" where
  "SetPtr v = Some (Inr v)"

record CapnpBlockMeta =
  cm_height :: int
  cm_hash :: "string ptr"
  cm_parentHash :: "string ptr"
  cm_stateRoot :: "string ptr"
  cm_miner :: "string ptr"
  cm_timestamp :: int
  cm_size :: int
  cm_gasLimit :: int
  cm_gasUsed :: int
  cm_ethTxCount :: int
  cm_txCount :: int
  cm_bloom :: "string ptr"
  cm_transactionsRoot :: "string ptr"
  cm_baseFee :: "string ptr"
  cm_virtualizedCosmosEvents :: bool

text \<open>An element of a list of \<open>Data\<close> is the result of reading it. A value with a presence flag is a
  pair.\<close>

record CapnpLog =
  cl_address :: "bytes ptr"
  cl_topics :: "(go_error + bytes) list ptr"
  cl_data :: "bytes ptr"
  cl_blockNumber :: int
  cl_txHash :: "bytes ptr"
  cl_txIndex :: int
  cl_blockHash :: "bytes ptr"
  cl_index :: int
  cl_removed :: bool
  cl_virtual :: bool
  cl_cosmosHash :: "bytes ptr"
  cl_cosmosMsgIndex :: "int \<times> bool"

type_synonym CapnpBlockLogs = "CapnpLog list ptr list ptr"

record CapnpReceipt =
  cq_status :: int
  cq_cumulativeGasUsed :: int
  cq_gasUsed :: int
  cq_reason :: "string ptr \<times> bool"
  cq_vmError :: "string ptr \<times> bool"
  cq_logsBloom :: "bytes ptr"
  cq_logs :: "CapnpLog list ptr"
  cq_transactionHash :: "bytes ptr"
  cq_contractAddress :: "bytes ptr"
  cq_blockHash :: "bytes ptr"
  cq_blockNumber :: int
  cq_transactionIndex :: int
  cq_effectiveGasPrice :: "bytes ptr \<times> bool"
  cq_from :: "bytes ptr"
  cq_to :: "bytes ptr"
  cq_type :: int

record CapnpAccessTuple =
  ca_address :: "bytes ptr"
  ca_storageKeys :: "(go_error + bytes) list ptr"

record CapnpRPCTransaction =
  ct_blockHash :: "bytes ptr"
  ct_blockNumber :: "bytes ptr \<times> bool"
  ct_from :: "bytes ptr"
  ct_gas :: int
  ct_gasPrice :: "bytes ptr \<times> bool"
  ct_gasFeeCap :: "bytes ptr \<times> bool"
  ct_gasTipCap :: "bytes ptr \<times> bool"
  ct_hash :: "bytes ptr"
  ct_input :: "bytes ptr"
  ct_nonce :: int
  ct_to :: "bytes ptr"
  ct_transactionIndex :: "int \<times> bool"
  ct_value :: "bytes ptr \<times> bool"
  ct_type :: int
  ct_accesses :: "CapnpAccessTuple list ptr \<times> bool"
  ct_chainId :: "bytes ptr \<times> bool"
  ct_v :: "bytes ptr \<times> bool"
  ct_r :: "bytes ptr \<times> bool"
  ct_s :: "bytes ptr \<times> bool"
  ct_virtual :: bool
  ct_cosmosHash :: "bytes ptr"
  ct_cosmosMsgIndex :: "int \<times> bool"

record CapnpTxResult =
  cx_height :: int
  cx_txIndex :: int
  cx_msgIndex :: int
  cx_ethTxIndex :: int
  cx_failed :: bool
  cx_gasUsed :: int
  cx_cumulativeGasUsed :: int

text \<open>\<open>Marshal\<close> is \<open>msg.Marshal\<close> of a fresh message with the given root, \<open>ReadRoot\<close> is
  \<open>capnp.Unmarshal\<close> followed by the \<open>ReadRoot\<close> function of the struct. A trace payload is a single data pointer.\<close>

record Codec_Lib =
  Marshal_BlockMeta :: "CapnpBlockMeta \<Rightarrow> bytes"
  ReadRoot_BlockMeta :: "bytes \<Rightarrow> go_error + CapnpBlockMeta"
  Marshal_BlockLogs :: "CapnpBlockLogs \<Rightarrow> bytes"
  ReadRoot_BlockLogs :: "bytes \<Rightarrow> go_error + CapnpBlockLogs"
  Marshal_Receipt :: "CapnpReceipt \<Rightarrow> bytes"
  ReadRoot_Receipt :: "bytes \<Rightarrow> go_error + CapnpReceipt"
  Marshal_RPCTransaction :: "CapnpRPCTransaction \<Rightarrow> bytes"
  ReadRoot_RPCTransaction :: "bytes \<Rightarrow> go_error + CapnpRPCTransaction"
  Marshal_TxResult :: "CapnpTxResult \<Rightarrow> bytes"
  ReadRoot_TxResult :: "bytes \<Rightarrow> go_error + CapnpTxResult"
  Marshal_TracePayload :: "bytes ptr \<Rightarrow> bytes"
  ReadRoot_TracePayload :: "bytes \<Rightarrow> go_error + bytes ptr"
  json_BlockMeta :: "bytes \<Rightarrow> go_error + CachedBlockMeta"
  json_BlockLogs :: "bytes \<Rightarrow> go_error + RPCLog option list list"
  json_Receipt :: "bytes \<Rightarrow> go_error + CachedReceipt"
  json_RPCTransaction :: "bytes \<Rightarrow> go_error + RPCTransaction"
  proto_TxResult :: "bytes \<Rightarrow> go_error + TxResult"

section \<open>Payloads\<close>

definition kvCapnpMagic :: bytes where
  "kvCapnpMagic = [0x89, 0x65, 0x67, 0x63, 0x70, 0x31, 0x0d, 0x0a]"

definition mustCapnpPayload :: "bytes \<Rightarrow> bytes" where
  "mustCapnpPayload bz = kvCapnpMagic @ bz"

definition capnpPayloadMessage :: "bytes \<Rightarrow> bytes option" where
  "capnpPayloadMessage bz =
     (if HasPrefix bz kvCapnpMagic then Some (drop (length kvCapnpMagic) bz) else None)"

definition unmarshalJSON :: "(bytes \<Rightarrow> go_error + 'a) \<Rightarrow> bytes \<Rightarrow> go_error + 'a" where
  "unmarshalJSON dec bz = (if bz = [] then Inl (Errorf ''empty payload'') else dec bz)"

section \<open>Integers and optional fields\<close>

text \<open>\<open>big.Int.Bytes\<close> and \<open>big.Int.SetBytes\<close>: the absolute value without leading zeros.\<close>

fun nat_bytes :: "nat \<Rightarrow> bytes" where
  "nat_bytes n = (if n = 0 then [] else nat_bytes (n div 256) @ [word_of_nat n])"

declare nat_bytes.simps [simp del]

definition hexutilBigBytes :: "int \<Rightarrow> bytes" where
  "hexutilBigBytes v = nat_bytes (nat \<bar>v\<bar>)"

definition hexutilBigFromData :: "bytes \<Rightarrow> int" where
  "hexutilBigFromData bz = int (be_nat bz)"

definition hexBigDataString :: "Eth_Lib \<Rightarrow> bytes \<Rightarrow> string" where
  "hexBigDataString E bz = EncodeBig E (int (be_nat bz))"

definition setHexBigData :: "Eth_Lib \<Rightarrow> string \<Rightarrow> go_error + bytes ptr" where
  "setHexBigData E raw =
     bindR (wrapR (\<lambda>e. Wrap e ''decode hex big'') (DecodeBig E raw)) (\<lambda>v. Inr (SetPtr (hexutilBigBytes v)))"

text \<open>The field idioms of \<open>kv_codec.go\<close>, each a block repeated there for many fields.\<close>

definition set_big :: "int option \<Rightarrow> bytes ptr \<times> bool" where
  "set_big v = (case v of None \<Rightarrow> (None, False) | Some x \<Rightarrow> (SetPtr (hexutilBigBytes x), True))"

definition get_big :: "bytes ptr \<times> bool \<Rightarrow> go_error + int option" where
  "get_big f =
     (if snd f \<or> has_ptr (fst f) then bindR (deref [] (fst f)) (\<lambda>v. Inr (Some (hexutilBigFromData v)))
      else Inr None)"

definition set_flagged :: "int option \<Rightarrow> int \<times> bool" where
  "set_flagged v = (case v of None \<Rightarrow> (0, False) | Some x \<Rightarrow> (x, True))"

definition get_flagged :: "int \<times> bool \<Rightarrow> int option" where
  "get_flagged f = (if snd f then Some (fst f) else None)"

definition get_hash :: "bytes ptr \<Rightarrow> go_error + hash" where
  "get_hash p = (if has_ptr p then bindR (deref [] p) (\<lambda>v. Inr (bytes_to_hash v)) else Inr 0)"

definition get_address :: "bytes ptr \<Rightarrow> go_error + address" where
  "get_address p = (if has_ptr p then bindR (deref [] p) (\<lambda>v. Inr (bytes_to_addr v)) else Inr 0)"

definition get_opt :: "(bytes \<Rightarrow> 'a) \<Rightarrow> bytes ptr \<Rightarrow> go_error + 'a option" where
  "get_opt conv p = (if has_ptr p then bindR (deref [] p) (\<lambda>v. Inr (Some (conv v))) else Inr None)"

definition get_hashes :: "(go_error + bytes) list ptr \<Rightarrow> go_error + hash list" where
  "get_hashes p =
     (if has_ptr p then bindR (deref [] p) (mapR (\<lambda>r. bindR r (\<lambda>v. Inr (bytes_to_hash v)))) else Inr [])"

definition set_hashes :: "hash list \<Rightarrow> (go_error + bytes) list ptr" where
  "set_hashes hs = SetPtr (map (\<lambda>h. Inr (hash_bytes h)) hs)"

definition set_opt :: "('a \<Rightarrow> bytes) \<Rightarrow> 'a option \<Rightarrow> bytes ptr" where
  "set_opt conv v = (case v of None \<Rightarrow> None | Some x \<Rightarrow> SetPtr (conv x))"

section \<open>Block metadata\<close>

definition mustMarshalBlockMeta :: "Codec_Lib \<Rightarrow> CachedBlockMeta \<Rightarrow> bytes" where
  "mustMarshalBlockMeta K meta =
     mustCapnpPayload (Marshal_BlockMeta K
       \<lparr>cm_height = bm_Height meta, cm_hash = SetText (bm_Hash meta), cm_parentHash = SetText (bm_ParentHash meta),
        cm_stateRoot = SetText (bm_StateRoot meta), cm_miner = SetText (bm_Miner meta), cm_timestamp = bm_Timestamp meta,
        cm_size = bm_Size meta, cm_gasLimit = bm_GasLimit meta, cm_gasUsed = bm_GasUsed meta,
        cm_ethTxCount = bm_EthTxCount meta, cm_txCount = bm_TxCount meta, cm_bloom = SetText (bm_Bloom meta),
        cm_transactionsRoot = SetText (bm_TransactionsRoot meta), cm_baseFee = SetText (bm_BaseFee meta),
        cm_virtualizedCosmosEvents = bm_VirtualizedCosmosEvents meta\<rparr>)"

definition unmarshalBlockMetaPayload :: "Codec_Lib \<Rightarrow> bytes \<Rightarrow> go_error + CachedBlockMeta" where
  "unmarshalBlockMetaPayload K bz =
     (case capnpPayloadMessage bz of
        None \<Rightarrow> unmarshalJSON (json_BlockMeta K) bz
      | Some msg \<Rightarrow>
          bindR (ReadRoot_BlockMeta K msg) (\<lambda>root.
          bindR (deref [] (cm_hash root)) (\<lambda>hash.
          bindR (deref [] (cm_parentHash root)) (\<lambda>parentHash.
          bindR (deref [] (cm_stateRoot root)) (\<lambda>stateRoot.
          bindR (deref [] (cm_miner root)) (\<lambda>miner.
          bindR (deref [] (cm_bloom root)) (\<lambda>bloom.
          bindR (deref [] (cm_transactionsRoot root)) (\<lambda>transactionsRoot.
          bindR (deref [] (cm_baseFee root)) (\<lambda>baseFee.
            Inr \<lparr>bm_Height = cm_height root, bm_Hash = hash, bm_ParentHash = parentHash, bm_StateRoot = stateRoot,
                 bm_Miner = miner, bm_Timestamp = cm_timestamp root, bm_Size = cm_size root,
                 bm_GasLimit = cm_gasLimit root, bm_GasUsed = cm_gasUsed root, bm_EthTxCount = cm_ethTxCount root,
                 bm_TxCount = cm_txCount root, bm_Bloom = bloom, bm_TransactionsRoot = transactionsRoot,
                 bm_BaseFee = baseFee, bm_VirtualizedCosmosEvents = cm_virtualizedCosmosEvents root\<rparr>)))))))))"

section \<open>Logs\<close>

definition setCapnpLog :: "RPCLog \<Rightarrow> CapnpLog" where
  "setCapnpLog log =
     \<lparr>cl_address = SetPtr (addr_bytes (Address log)), cl_topics = set_hashes (Topics log),
      cl_data = SetPtr (LData log), cl_blockNumber = BlockNumber log, cl_txHash = SetPtr (hash_bytes (TxHash log)),
      cl_txIndex = TxIndex log, cl_blockHash = SetPtr (hash_bytes (BlockHash log)), cl_index = Index log,
      cl_removed = Removed log, cl_virtual = Virtual log, cl_cosmosHash = set_opt hash_bytes (CosmosHash log),
      cl_cosmosMsgIndex = set_flagged (CosmosMsgIndex log)\<rparr>"

text \<open>A fresh list element, left as it is for a nil log.\<close>

definition empty_log :: CapnpLog where
  "empty_log =
     \<lparr>cl_address = None, cl_topics = None, cl_data = None, cl_blockNumber = 0, cl_txHash = None, cl_txIndex = 0,
      cl_blockHash = None, cl_index = 0, cl_removed = False, cl_virtual = False, cl_cosmosHash = None,
      cl_cosmosMsgIndex = (0, False)\<rparr>"

definition setCapnpLogList :: "RPCLog option list \<Rightarrow> CapnpLog list" where
  "setCapnpLogList logs = map (\<lambda>log. case log of None \<Rightarrow> empty_log | Some l \<Rightarrow> setCapnpLog l) logs"

definition capnpLogToRPC :: "CapnpLog \<Rightarrow> go_error + RPCLog" where
  "capnpLogToRPC src =
     bindR (get_address (cl_address src)) (\<lambda>addr.
     bindR (get_hashes (cl_topics src)) (\<lambda>topics.
     bindR (deref [] (cl_data src)) (\<lambda>data.
     bindR (get_hash (cl_txHash src)) (\<lambda>txHash.
     bindR (get_hash (cl_blockHash src)) (\<lambda>blockHash.
     bindR (get_opt bytes_to_hash (cl_cosmosHash src)) (\<lambda>cosmosHash.
       Inr \<lparr>Address = addr, Topics = topics, LData = data, BlockNumber = cl_blockNumber src, TxHash = txHash,
            TxIndex = cl_txIndex src, BlockHash = blockHash, Index = cl_index src, Removed = cl_removed src,
            Virtual = cl_virtual src, CosmosHash = cosmosHash, CosmosMsgIndex = get_flagged (cl_cosmosMsgIndex src)\<rparr>))))))"

definition capnpLogListToRPC :: "CapnpLog list \<Rightarrow> go_error + RPCLog option list" where
  "capnpLogListToRPC src = mapR (\<lambda>l. bindR (capnpLogToRPC l) (\<lambda>log. Inr (Some log))) src"

definition mustMarshalBlockLogs :: "Codec_Lib \<Rightarrow> RPCLog option list list \<Rightarrow> bytes" where
  "mustMarshalBlockLogs K groups =
     mustCapnpPayload (Marshal_BlockLogs K (SetPtr (map (\<lambda>logs. SetPtr (setCapnpLogList logs)) groups)))"

definition unmarshalBlockLogsPayload :: "Codec_Lib \<Rightarrow> bytes \<Rightarrow> go_error + RPCLog option list list" where
  "unmarshalBlockLogsPayload K bz =
     (case capnpPayloadMessage bz of
        None \<Rightarrow> unmarshalJSON (json_BlockLogs K) bz
      | Some msg \<Rightarrow>
          bindR (ReadRoot_BlockLogs K msg) (\<lambda>root.
            if \<not> has_ptr root then Inr []
            else bindR (deref [] root) (mapR (\<lambda>group.
              if \<not> has_ptr group then Inr [] else bindR (deref [] group) capnpLogListToRPC))))"

fun match_topics :: "hash list list \<Rightarrow> (go_error + bytes) list \<Rightarrow> go_error + bool" where
  "match_topics [] ctopics = Inr True"
| "match_topics (sub # subs) [] = Inr False"
| "match_topics (sub # subs) (t # ts) =
     (if sub = [] then match_topics subs ts
      else bindR t (\<lambda>bz. if bytes_to_hash bz \<in> set sub then match_topics subs ts else Inr False))"

definition capnpLogMatches :: "CapnpLog \<Rightarrow> address list \<Rightarrow> hash list list \<Rightarrow> go_error + bool" where
  "capnpLogMatches src addresses topics =
     bindR (if addresses = [] then Inr True
            else if \<not> has_ptr (cl_address src) then Inr False
            else bindR (deref [] (cl_address src)) (\<lambda>bz. Inr (bytes_to_addr bz \<in> set addresses))) (\<lambda>matched.
       if \<not> matched then Inr False
       else if topics = [] then Inr True
       else if \<not> has_ptr (cl_topics src) then Inr False
       else bindR (deref [] (cl_topics src)) (\<lambda>ctopics.
         if length ctopics < length topics then Inr False else match_topics topics ctopics))"

definition keep_matching :: "address list \<Rightarrow> hash list list \<Rightarrow> RPCLog option list \<Rightarrow> CapnpLog \<Rightarrow> go_error + RPCLog option list" where
  "keep_matching addresses topics out src =
     bindR (capnpLogMatches src addresses topics) (\<lambda>matched.
       if \<not> matched then Inr out else bindR (capnpLogToRPC src) (\<lambda>log. Inr (out @ [Some log])))"

definition unmarshalFilteredBlockLogsPayload ::
  "Codec_Lib \<Rightarrow> bytes \<Rightarrow> address list \<Rightarrow> hash list list \<Rightarrow> go_error + RPCLog option list" where
  "unmarshalFilteredBlockLogsPayload K bz addresses topics =
     (case capnpPayloadMessage bz of
        None \<Rightarrow>
          bindR (unmarshalJSON (json_BlockLogs K) bz) (\<lambda>groups.
            Inr (filter (\<lambda>log. LogMatches log addresses topics) (concat groups)))
      | Some msg \<Rightarrow>
          bindR (ReadRoot_BlockLogs K msg) (\<lambda>root.
            if \<not> has_ptr root then Inr []
            else bindR (deref [] root) (foldR (\<lambda>out group.
              if \<not> has_ptr group then Inr out
              else bindR (deref [] group) (foldR (keep_matching addresses topics) out)) [])))"

section \<open>Receipts\<close>

text \<open>A setter or decoder that panics is an error here; the caller recovers from it.\<close>

definition mustMarshalReceipt :: "Eth_Lib \<Rightarrow> Codec_Lib \<Rightarrow> CachedReceipt \<Rightarrow> go_error + bytes" where
  "mustMarshalReceipt E K receipt =
     bindR (if cr_EffectiveGasPrice receipt = [] then Inr (None, False)
            else bindR (setHexBigData E (cr_EffectiveGasPrice receipt)) (\<lambda>p. Inr (p, True))) (\<lambda>price.
       Inr (mustCapnpPayload (Marshal_Receipt K
         \<lparr>cq_status = cr_Status receipt, cq_cumulativeGasUsed = cr_CumulativeGasUsed receipt,
          cq_gasUsed = cr_GasUsed receipt,
          cq_reason = (case cr_Reason receipt of None \<Rightarrow> (None, False) | Some s \<Rightarrow> (SetText s, True)),
          cq_vmError = (case cr_VMError receipt of None \<Rightarrow> (None, False) | Some s \<Rightarrow> (SetText s, True)),
          cq_logsBloom = SetPtr (FromHex E (cr_LogsBloom receipt)),
          cq_logs = SetPtr (setCapnpLogList (cr_Logs receipt)),
          cq_transactionHash = SetPtr (hash_bytes (HexToHash E (cr_TransactionHash receipt))),
          cq_contractAddress = set_opt (\<lambda>s. addr_bytes (HexToAddress E s)) (cr_ContractAddress receipt),
          cq_blockHash = SetPtr (hash_bytes (HexToHash E (cr_BlockHash receipt))),
          cq_blockNumber = cr_BlockNumber receipt, cq_transactionIndex = cr_TransactionIndex receipt,
          cq_effectiveGasPrice = price,
          cq_from = SetPtr (addr_bytes (HexToAddress E (cr_From receipt))),
          cq_to = set_opt (\<lambda>s. addr_bytes (HexToAddress E s)) (cr_To receipt),
          cq_type = cr_Type receipt\<rparr>)))"

definition get_text :: "string ptr \<times> bool \<Rightarrow> go_error + string option" where
  "get_text f = (if snd f then bindR (deref [] (fst f)) (\<lambda>s. Inr (Some s)) else Inr None)"

text \<open>The string of a field read when its pointer is set, empty otherwise.\<close>

definition get_string :: "(bytes \<Rightarrow> string) \<Rightarrow> bytes ptr \<Rightarrow> go_error + string" where
  "get_string conv p = (if has_ptr p then bindR (deref [] p) (\<lambda>v. Inr (conv v)) else Inr [])"

definition unmarshalReceiptPayload :: "Eth_Lib \<Rightarrow> Codec_Lib \<Rightarrow> bytes \<Rightarrow> go_error + CachedReceipt" where
  "unmarshalReceiptPayload E K bz =
     (case capnpPayloadMessage bz of
        None \<Rightarrow> unmarshalJSON (json_Receipt K) bz
      | Some msg \<Rightarrow>
          bindR (ReadRoot_Receipt K msg) (\<lambda>root.
          bindR (get_text (cq_reason root)) (\<lambda>reason.
          bindR (get_text (cq_vmError root)) (\<lambda>vmErr.
          bindR (get_string (hexutil_Encode E) (cq_logsBloom root)) (\<lambda>logsBloom.
          bindR (if has_ptr (cq_logs root) then bindR (deref [] (cq_logs root)) capnpLogListToRPC else Inr []) (\<lambda>logs.
          bindR (get_string (\<lambda>v. Hash_Hex E (bytes_to_hash v)) (cq_transactionHash root)) (\<lambda>txHash.
          bindR (get_opt (\<lambda>v. Address_Hex E (bytes_to_addr v)) (cq_contractAddress root)) (\<lambda>contractAddress.
          bindR (get_string (\<lambda>v. Hash_Hex E (bytes_to_hash v)) (cq_blockHash root)) (\<lambda>blockHash.
          bindR (if snd (cq_effectiveGasPrice root) \<or> has_ptr (fst (cq_effectiveGasPrice root))
                 then bindR (deref [] (fst (cq_effectiveGasPrice root))) (\<lambda>v. Inr (hexBigDataString E v)) else Inr []) (\<lambda>price.
          bindR (get_string (\<lambda>v. Address_Hex E (bytes_to_addr v)) (cq_from root)) (\<lambda>from.
          bindR (get_opt (\<lambda>v. Address_Hex E (bytes_to_addr v)) (cq_to root)) (\<lambda>to.
            Inr \<lparr>cr_Status = cq_status root, cr_CumulativeGasUsed = cq_cumulativeGasUsed root,
                 cr_GasUsed = cq_gasUsed root, cr_Reason = reason, cr_VMError = vmErr, cr_LogsBloom = logsBloom,
                 cr_Logs = logs, cr_TransactionHash = txHash, cr_ContractAddress = contractAddress,
                 cr_BlockHash = blockHash, cr_BlockNumber = cq_blockNumber root,
                 cr_TransactionIndex = cq_transactionIndex root, cr_EffectiveGasPrice = price, cr_From = from,
                 cr_To = to, cr_Type = cq_type root\<rparr>))))))))))))"

text \<open>The receipt object of the JSON-RPC API, \<open>map[string]interface{}\<close> with the keys the code sets;
  a key that may be absent is an option.\<close>

record ReceiptMap =
  rm_status :: int
  rm_cumulativeGasUsed :: int
  rm_logsBloom :: bytes
  rm_logs :: "RPCLog option list"
  rm_transactionHash :: hash
  rm_contractAddress :: "address option"
  rm_gasUsed :: int
  rm_blockHash :: string
  rm_blockNumber :: int
  rm_transactionIndex :: int
  rm_effectiveGasPrice :: "int option"
  rm_from :: address
  rm_to :: "address option"
  rm_type :: int
  rm_reason :: "string option"
  rm_vmError :: "string option"

definition CachedReceipt_ToMap :: "Eth_Lib \<Rightarrow> CachedReceipt \<Rightarrow> ReceiptMap" where
  "CachedReceipt_ToMap E r =
     \<lparr>rm_status = cr_Status r, rm_cumulativeGasUsed = cr_CumulativeGasUsed r,
      rm_logsBloom = BytesToBloom E (FromHex E (cr_LogsBloom r)), rm_logs = cr_Logs r,
      rm_transactionHash = HexToHash E (cr_TransactionHash r),
      rm_contractAddress = map_option (HexToAddress E) (cr_ContractAddress r), rm_gasUsed = cr_GasUsed r,
      rm_blockHash = cr_BlockHash r, rm_blockNumber = cr_BlockNumber r, rm_transactionIndex = cr_TransactionIndex r,
      rm_effectiveGasPrice =
        (if cr_EffectiveGasPrice r = [] then None
         else case DecodeBig E (cr_EffectiveGasPrice r) of Inl e \<Rightarrow> None | Inr p \<Rightarrow> Some p),
      rm_from = HexToAddress E (cr_From r), rm_to = map_option (HexToAddress E) (cr_To r), rm_type = cr_Type r,
      rm_reason = cr_Reason r, rm_vmError = cr_VMError r\<rparr>"

text \<open>\<open>Receipt.ToMap\<close> of \<open>virtual/types.go\<close>.\<close>

definition Receipt_ToMap :: "Eth_Lib \<Rightarrow> Chain_Lib \<Rightarrow> Receipt \<Rightarrow> ReceiptMap" where
  "Receipt_ToMap E L r =
     \<lparr>rm_status = r_Status r, rm_cumulativeGasUsed = r_CumulativeGasUsed r,
      rm_logsBloom = BytesToBloom E (LogsBloom L (r_Logs r)), rm_logs = r_Logs r,
      rm_transactionHash = r_TransactionHash r, rm_contractAddress = None, rm_gasUsed = r_GasUsed r,
      rm_blockHash = Hash_Hex E (r_BlockHash r), rm_blockNumber = r_BlockNumber r,
      rm_transactionIndex = r_TransactionIndex r,
      rm_effectiveGasPrice = Some (case r_EffectiveGasPrice r of None \<Rightarrow> 0 | Some p \<Rightarrow> p),
      rm_from = r_From r, rm_to = r_To r, rm_type = r_Type r,
      rm_reason = (if r_Reason r = [] then None else Some (r_Reason r)),
      rm_vmError = (if r_VMError r = [] then None else Some (r_VMError r))\<rparr>"

definition evmLogsBloom :: "Chain_Lib \<Rightarrow> RPCLog option list \<Rightarrow> bytes" where
  "evmLogsBloom L logs = LogsBloom_of L (EthLogs logs)"

definition buildCachedReceipt ::
  "Eth_Lib \<Rightarrow> Chain_Lib \<Rightarrow> int \<Rightarrow> int \<Rightarrow> int \<Rightarrow> string \<Rightarrow> string \<Rightarrow> RPCLog option list \<Rightarrow> hash \<Rightarrow> address option \<Rightarrow> hash \<Rightarrow>
   int \<Rightarrow> int \<Rightarrow> int \<Rightarrow> address \<Rightarrow> address option \<Rightarrow> int \<Rightarrow> CachedReceipt" where
  "buildCachedReceipt E L status cumulativeGasUsed gasUsed reason vmError logs txHash contractAddress blockHash
     blockNumber transactionIndex effectiveGasPrice from to txType =
     \<lparr>cr_Status = status, cr_CumulativeGasUsed = cumulativeGasUsed, cr_GasUsed = gasUsed,
      cr_Reason = (if reason = [] then None else Some reason), cr_VMError = (if vmError = [] then None else Some vmError),
      cr_LogsBloom = hexutil_Encode E (evmLogsBloom L logs), cr_Logs = logs, cr_TransactionHash = Hash_Hex E txHash,
      cr_ContractAddress = map_option (Address_Hex E) contractAddress, cr_BlockHash = Hash_Hex E blockHash,
      cr_BlockNumber = blockNumber, cr_TransactionIndex = transactionIndex,
      cr_EffectiveGasPrice = EncodeBig E effectiveGasPrice, cr_From = Address_Hex E from,
      cr_To = map_option (Address_Hex E) to, cr_Type = txType\<rparr>"

definition cachedVirtualReceipt :: "Eth_Lib \<Rightarrow> Chain_Lib \<Rightarrow> Receipt \<Rightarrow> CachedReceipt" where
  "cachedVirtualReceipt E L r =
     buildCachedReceipt E L (r_Status r) (r_CumulativeGasUsed r) (r_GasUsed r) (r_Reason r) (r_VMError r) (r_Logs r)
       (r_TransactionHash r) None (r_BlockHash r) (r_BlockNumber r) (r_TransactionIndex r) 0 (r_From r) (r_To r) (r_Type r)"

section \<open>RPC transactions\<close>

definition set_access :: "AccessTuple \<Rightarrow> CapnpAccessTuple" where
  "set_access a = \<lparr>ca_address = SetPtr (addr_bytes (acc_Address a)), ca_storageKeys = set_hashes (acc_StorageKeys a)\<rparr>"

definition get_access :: "CapnpAccessTuple \<Rightarrow> go_error + AccessTuple" where
  "get_access src =
     bindR (get_address (ca_address src)) (\<lambda>a.
     bindR (get_hashes (ca_storageKeys src)) (\<lambda>ks. Inr \<lparr>acc_Address = a, acc_StorageKeys = ks\<rparr>))"

definition set_accesses :: "AccessTuple list option \<Rightarrow> CapnpAccessTuple list ptr \<times> bool" where
  "set_accesses v = (case v of None \<Rightarrow> (None, False) | Some as \<Rightarrow> (SetPtr (map set_access as), True))"

definition get_accesses :: "CapnpAccessTuple list ptr \<times> bool \<Rightarrow> go_error + AccessTuple list option" where
  "get_accesses f =
     (if snd f \<or> has_ptr (fst f)
      then bindR (deref [] (fst f)) (\<lambda>cs. bindR (mapR get_access cs) (\<lambda>as. Inr (Some as))) else Inr None)"

definition mustMarshalRPCTransaction :: "Codec_Lib \<Rightarrow> RPCTransaction \<Rightarrow> bytes" where
  "mustMarshalRPCTransaction K tx =
     mustCapnpPayload (Marshal_RPCTransaction K
       \<lparr>ct_blockHash = set_opt hash_bytes (tx_BlockHash tx), ct_blockNumber = set_big (tx_BlockNumber tx),
        ct_from = SetPtr (addr_bytes (tx_From tx)), ct_gas = tx_Gas tx, ct_gasPrice = set_big (tx_GasPrice tx),
        ct_gasFeeCap = set_big (tx_GasFeeCap tx), ct_gasTipCap = set_big (tx_GasTipCap tx),
        ct_hash = SetPtr (hash_bytes (tx_Hash tx)), ct_input = SetPtr (tx_Input tx), ct_nonce = tx_Nonce tx,
        ct_to = set_opt addr_bytes (tx_To tx), ct_transactionIndex = set_flagged (tx_TransactionIndex tx),
        ct_value = set_big (tx_Value tx), ct_type = tx_Type tx, ct_accesses = set_accesses (tx_Accesses tx),
        ct_chainId = set_big (tx_ChainID tx), ct_v = set_big (tx_V tx), ct_r = set_big (tx_R tx), ct_s = set_big (tx_S tx),
        ct_virtual = tx_Virtual tx, ct_cosmosHash = set_opt hash_bytes (tx_CosmosHash tx),
        ct_cosmosMsgIndex = set_flagged (tx_CosmosMsgIndex tx)\<rparr>)"

definition unmarshalRPCTransactionPayload :: "Codec_Lib \<Rightarrow> bytes \<Rightarrow> go_error + RPCTransaction" where
  "unmarshalRPCTransactionPayload K bz =
     (case capnpPayloadMessage bz of
        None \<Rightarrow> unmarshalJSON (json_RPCTransaction K) bz
      | Some msg \<Rightarrow>
          bindR (ReadRoot_RPCTransaction K msg) (\<lambda>root.
          bindR (get_opt bytes_to_hash (ct_blockHash root)) (\<lambda>blockHash.
          bindR (get_big (ct_blockNumber root)) (\<lambda>blockNumber.
          bindR (get_address (ct_from root)) (\<lambda>from.
          bindR (get_big (ct_gasPrice root)) (\<lambda>gasPrice.
          bindR (get_big (ct_gasFeeCap root)) (\<lambda>gasFeeCap.
          bindR (get_big (ct_gasTipCap root)) (\<lambda>gasTipCap.
          bindR (get_hash (ct_hash root)) (\<lambda>hash.
          bindR (deref [] (ct_input root)) (\<lambda>input.
          bindR (get_opt bytes_to_addr (ct_to root)) (\<lambda>to.
          bindR (get_big (ct_value root)) (\<lambda>val.
          bindR (get_accesses (ct_accesses root)) (\<lambda>accesses.
          bindR (get_big (ct_chainId root)) (\<lambda>chainID.
          bindR (get_big (ct_v root)) (\<lambda>v.
          bindR (get_big (ct_r root)) (\<lambda>r.
          bindR (get_big (ct_s root)) (\<lambda>s.
          bindR (get_opt bytes_to_hash (ct_cosmosHash root)) (\<lambda>cosmosHash.
            Inr \<lparr>tx_BlockHash = blockHash, tx_BlockNumber = blockNumber, tx_From = from, tx_Gas = ct_gas root,
                 tx_GasPrice = gasPrice, tx_GasFeeCap = gasFeeCap, tx_GasTipCap = gasTipCap, tx_Hash = hash,
                 tx_Input = input, tx_Nonce = ct_nonce root, tx_To = to,
                 tx_TransactionIndex = get_flagged (ct_transactionIndex root), tx_Value = val, tx_Type = ct_type root,
                 tx_Accesses = accesses, tx_ChainID = chainID, tx_V = v, tx_R = r, tx_S = s,
                 tx_Virtual = ct_virtual root, tx_CosmosHash = cosmosHash,
                 tx_CosmosMsgIndex = get_flagged (ct_cosmosMsgIndex root)\<rparr>))))))))))))))))))"

section \<open>Transaction results and traces\<close>

definition empty_TxResult :: CapnpTxResult where
  "empty_TxResult =
     \<lparr>cx_height = 0, cx_txIndex = 0, cx_msgIndex = 0, cx_ethTxIndex = 0, cx_failed = False, cx_gasUsed = 0, cx_cumulativeGasUsed = 0\<rparr>"

definition mustMarshalTxResult :: "Codec_Lib \<Rightarrow> TxResult option \<Rightarrow> bytes" where
  "mustMarshalTxResult K tx =
     mustCapnpPayload (Marshal_TxResult K
       (case tx of
          None \<Rightarrow> empty_TxResult
        | Some t \<Rightarrow>
            empty_TxResult\<lparr>cx_height := tr_Height t, cx_txIndex := tr_TxIndex t, cx_msgIndex := tr_MsgIndex t,
              cx_ethTxIndex := tr_EthTxIndex t, cx_failed := tr_Failed t, cx_gasUsed := tr_GasUsed t,
              cx_cumulativeGasUsed := tr_CumulativeGasUsed t\<rparr>))"

definition unmarshalTxResultPayload :: "Codec_Lib \<Rightarrow> bytes \<Rightarrow> go_error + TxResult" where
  "unmarshalTxResultPayload K bz =
     (case capnpPayloadMessage bz of
        None \<Rightarrow> proto_TxResult K bz
      | Some msg \<Rightarrow>
          bindR (ReadRoot_TxResult K msg) (\<lambda>root.
            Inr \<lparr>tr_Height = cx_height root, tr_TxIndex = cx_txIndex root, tr_MsgIndex = cx_msgIndex root,
                 tr_EthTxIndex = cx_ethTxIndex root, tr_Failed = cx_failed root, tr_GasUsed = cx_gasUsed root,
                 tr_CumulativeGasUsed = cx_cumulativeGasUsed root\<rparr>))"

definition mustMarshalTracePayload :: "Codec_Lib \<Rightarrow> bytes \<Rightarrow> bytes" where
  "mustMarshalTracePayload K raw = mustCapnpPayload (Marshal_TracePayload K (SetPtr raw))"

definition unmarshalTracePayload :: "Codec_Lib \<Rightarrow> bytes \<Rightarrow> go_error + bytes" where
  "unmarshalTracePayload K bz =
     (case capnpPayloadMessage bz of
        None \<Rightarrow> Inr bz
      | Some msg \<Rightarrow> bindR (ReadRoot_TracePayload K msg) (deref []))"

section \<open>The interface\<close>

text \<open>A message reads back as the struct it was made from. The \<open>capnp\<close> package stops after 64 MiB of data read from one message,
  the default that the code does not change; only a trace can be that large.\<close>

definition capnp_readLimit :: int where
  "capnp_readLimit = 64 * 2 ^ 20"

locale capnp_codec =
  fixes K :: Codec_Lib
  assumes read_BlockMeta: "ReadRoot_BlockMeta K (Marshal_BlockMeta K m) = Inr m"
    and read_BlockLogs: "ReadRoot_BlockLogs K (Marshal_BlockLogs K b) = Inr b"
    and read_Receipt: "ReadRoot_Receipt K (Marshal_Receipt K q) = Inr q"
    and read_RPCTransaction: "ReadRoot_RPCTransaction K (Marshal_RPCTransaction K t) = Inr t"
    and read_TxResult: "ReadRoot_TxResult K (Marshal_TxResult K r) = Inr r"
    and read_TracePayload: "int (length (Marshal_TracePayload K p)) \<le> capnp_readLimit \<Longrightarrow> ReadRoot_TracePayload K (Marshal_TracePayload K p) = Inr p"

section \<open>Lemmas: fields\<close>

lemma capnpPayloadMessage_payload [simp]: "capnpPayloadMessage (mustCapnpPayload bz) = Some bz"
  by (simp add: capnpPayloadMessage_def mustCapnpPayload_def)

lemma mustCapnpPayload_nonempty [simp]: "mustCapnpPayload bz \<noteq> []"
  by (simp add: mustCapnpPayload_def kvCapnpMagic_def)

lemma be_nat_nat_bytes [simp]: "be_nat (nat_bytes n) = n"
proof (induction n rule: nat_bytes.induct)
  case (1 n)
  then show ?case by (subst nat_bytes.simps) (simp add: unat_of_nat)
qed

lemma hexutilBig_roundtrip [simp]: "0 \<le> x \<Longrightarrow> hexutilBigFromData (hexutilBigBytes x) = x"
  by (simp add: hexutilBigFromData_def hexutilBigBytes_def)

definition nonneg :: "int option \<Rightarrow> bool" where
  "nonneg v \<longleftrightarrow> (\<forall>x. v = Some x \<longrightarrow> 0 \<le> x)"

lemma deref_SetText [simp]: "deref [] (SetText s) = Inr s"
  by (simp add: deref_def SetText_def)

lemma deref_SetPtr [simp]: "deref z (SetPtr v) = Inr v"
  by (simp add: deref_def SetPtr_def)

lemma has_SetPtr [simp]: "has_ptr (SetPtr v)"
  by (simp add: has_ptr_def SetPtr_def)

lemma get_set_big [simp]: "nonneg v \<Longrightarrow> get_big (set_big v) = Inr v"
  by (auto simp: nonneg_def get_big_def set_big_def has_ptr_def split: option.splits)

lemma get_set_flagged [simp]: "get_flagged (set_flagged v) = v"
  by (simp add: get_flagged_def set_flagged_def split: option.splits)

lemma get_hash_SetPtr [simp]: "get_hash (SetPtr (hash_bytes h)) = Inr h"
  by (simp add: get_hash_def)

lemma get_address_SetPtr [simp]: "get_address (SetPtr (addr_bytes a)) = Inr a"
  by (simp add: get_address_def)

lemma get_opt_set_opt [simp]: "(\<And>x. conv (enc x) = x) \<Longrightarrow> get_opt conv (set_opt enc v) = Inr v"
  by (simp add: get_opt_def set_opt_def has_ptr_def SetPtr_def deref_def split: option.splits)

lemma get_set_hashes [simp]: "get_hashes (set_hashes hs) = Inr hs"
proof -
  have "mapR (\<lambda>r. bindR r (\<lambda>v. Inr (bytes_to_hash v))) (map (\<lambda>h. Inr (hash_bytes h)) hs) = Inr hs"
    by (induction hs) simp_all
  then show ?thesis by (simp add: get_hashes_def set_hashes_def)
qed

lemma get_set_access [simp]: "get_access (set_access a) = Inr a"
  by (simp add: get_access_def set_access_def)

lemma get_set_accesses [simp]: "get_accesses (set_accesses v) = Inr v"
proof (cases v)
  case None
  then show ?thesis by (simp add: get_accesses_def set_accesses_def has_ptr_def)
next
  case (Some as)
  have "mapR get_access (map set_access as) = Inr as" by (induction as) simp_all
  with Some show ?thesis by (simp add: get_accesses_def set_accesses_def)
qed

lemma capnpLogToRPC_setCapnpLog [simp]: "capnpLogToRPC (setCapnpLog l) = Inr l"
  by (simp add: capnpLogToRPC_def setCapnpLog_def)

text \<open>A list of logs without nil entries is read back; a nil entry comes back as a log of zeros.\<close>

definition stored_log :: "RPCLog option \<Rightarrow> RPCLog option" where
  "stored_log log = (case log of Some l \<Rightarrow> Some l | None \<Rightarrow>
     Some \<lparr>Address = 0, Topics = [], LData = [], BlockNumber = 0, TxHash = 0, TxIndex = 0, BlockHash = 0, Index = 0,
           Removed = False, Virtual = False, CosmosHash = None, CosmosMsgIndex = None\<rparr>)"

lemma capnpLogListToRPC_setCapnpLogList: "capnpLogListToRPC (setCapnpLogList logs) = Inr (map stored_log logs)"
proof -
  have "bindR (capnpLogToRPC empty_log) (\<lambda>log. Inr (Some log)) = Inr (stored_log None)"
    by (simp add: capnpLogToRPC_def empty_log_def get_address_def get_hash_def get_hashes_def get_opt_def has_ptr_def
        deref_def get_flagged_def stored_log_def)
  then show ?thesis
    unfolding capnpLogListToRPC_def setCapnpLogList_def
    by (induction logs) (auto simp: stored_log_def split: option.splits)
qed

lemma stored_log_Some [simp]: "stored_log (Some l) = Some l"
  by (simp add: stored_log_def)

lemma map_stored_log: "None \<notin> set logs \<Longrightarrow> map stored_log logs = logs"
  by (rule map_idI) (metis option.exhaust stored_log_Some)

section \<open>Lemmas: round trips\<close>

context capnp_codec
begin

lemma block_meta: "unmarshalBlockMetaPayload K (mustMarshalBlockMeta K m) = Inr m"
  by (simp add: unmarshalBlockMetaPayload_def mustMarshalBlockMeta_def read_BlockMeta)

lemma tx_result: "unmarshalTxResultPayload K (mustMarshalTxResult K (Some t)) = Inr t"
  by (simp add: unmarshalTxResultPayload_def mustMarshalTxResult_def empty_TxResult_def read_TxResult)

lemma trace_payload:
  assumes "int (length (mustMarshalTracePayload K raw)) \<le> capnp_readLimit"
  shows "unmarshalTracePayload K (mustMarshalTracePayload K raw) = Inr raw"
proof -
  have "int (length (Marshal_TracePayload K (SetPtr raw))) \<le> capnp_readLimit"
    using assms by (simp add: mustMarshalTracePayload_def mustCapnpPayload_def)
  from read_TracePayload [OF this] show ?thesis by (simp add: unmarshalTracePayload_def mustMarshalTracePayload_def)
qed

lemma rpc_transaction:
  assumes "nonneg (tx_BlockNumber t)" "nonneg (tx_GasPrice t)" "nonneg (tx_GasFeeCap t)" "nonneg (tx_GasTipCap t)"
    "nonneg (tx_Value t)" "nonneg (tx_ChainID t)" "nonneg (tx_V t)" "nonneg (tx_R t)" "nonneg (tx_S t)"
  shows "unmarshalRPCTransactionPayload K (mustMarshalRPCTransaction K t) = Inr t"
  using assms by (simp add: unmarshalRPCTransactionPayload_def mustMarshalRPCTransaction_def read_RPCTransaction)

lemma block_logs: "unmarshalBlockLogsPayload K (mustMarshalBlockLogs K groups) = Inr (map (map stored_log) groups)"
proof -
  have "mapR (\<lambda>group. if \<not> has_ptr group then Inr [] else bindR (deref [] group) capnpLogListToRPC)
      (map (\<lambda>logs. SetPtr (setCapnpLogList logs)) groups) = Inr (map (map stored_log) groups)"
    by (induction groups) (simp_all add: capnpLogListToRPC_setCapnpLogList)
  then show ?thesis by (simp add: unmarshalBlockLogsPayload_def mustMarshalBlockLogs_def read_BlockLogs)
qed

lemma receipt:
  assumes hex: "eth_hex E" and price: "0 \<le> price" "price < 2 ^ 256"
    and r: "r = buildCachedReceipt E L st cg g reason vmErr logs txh ca bh bn ti price from to ty"
  shows "\<exists>bz. mustMarshalReceipt E K r = Inr bz \<and>
    unmarshalReceiptPayload E K bz = Inr (r\<lparr>cr_Logs := map stored_log logs\<rparr>)"
proof -
  have strs: "get_text (case x of None \<Rightarrow> (None, False) | Some s \<Rightarrow> (SetText s, True)) = Inr x" for x
    by (simp add: get_text_def split: option.splits)
  have addr: "get_opt (\<lambda>v. Address_Hex E (bytes_to_addr v)) (set_opt (\<lambda>s. addr_bytes (HexToAddress E s)) (map_option (Address_Hex E) x)) =
      Inr (map_option (Address_Hex E) x)" for x
    by (simp add: get_opt_def set_opt_def has_ptr_def SetPtr_def deref_def eth_hex.address_hex [OF hex] split: option.splits)
  have pr: "EncodeBig E price \<noteq> []" "DecodeBig E (EncodeBig E price) = Inr price"
    using price eth_hex.big_nonempty [OF hex] eth_hex.decode_big [OF hex] by auto
  have "hexBigDataString E (hexutilBigBytes price) = EncodeBig E price"
    using price by (simp add: hexBigDataString_def hexutilBigBytes_def)
  then show ?thesis
    unfolding r buildCachedReceipt_def mustMarshalReceipt_def unmarshalReceiptPayload_def
    by (simp add: pr setHexBigData_def read_Receipt strs addr get_string_def capnpLogListToRPC_setCapnpLogList
        eth_hex.hash_hex [OF hex] eth_hex.address_hex [OF hex] eth_hex.from_hex [OF hex])
qed

end

section \<open>Lemmas: filtering\<close>

lemma match_topics_ok:
  assumes "mapR (\<lambda>r. bindR r (\<lambda>v. Inr (bytes_to_hash v))) ct = Inr ts" and "length topics \<le> length ct"
  shows "match_topics topics ct = Inr (list_all2 topic_matches (take (length topics) ts) topics)"
  using assms
proof (induction topics ct arbitrary: ts rule: match_topics.induct)
  case (3 sub subs t ct)
  from "3.prems"(1) obtain bz ts' where t: "t = Inr bz" "ts = bytes_to_hash bz # ts'"
    "mapR (\<lambda>r. bindR r (\<lambda>v. Inr (bytes_to_hash v))) ct = Inr ts'"
    by (cases t) (auto simp: result_simps)
  show ?case
  proof (cases "sub = []")
    case True
    with t "3.IH"(1) "3.prems"(2) show ?thesis by (simp add: topic_matches_def)
  next
    case False
    with t "3.IH"(2) [OF False] "3.prems"(2) show ?thesis by (simp add: topic_matches_def)
  qed
qed simp_all

text \<open>Where a log can be decoded, the early filter on the Cap'n Proto struct decides as the filter on
  the decoded log does; a struct without an address is the exception when the zero address is asked for.\<close>

lemma capnpLogMatches_ok:
  assumes l: "capnpLogToRPC src = Inr l" and a: "has_ptr (cl_address src) \<or> 0 \<notin> set addresses"
  shows "capnpLogMatches src addresses topics = Inr (LogMatches (Some l) addresses topics)"
proof -
  have addr: "get_address (cl_address src) = Inr (Address l)" and top: "get_hashes (cl_topics src) = Inr (Topics l)"
    using l by (auto simp: capnpLogToRPC_def result_simps)
  have "(if addresses = [] then Inr True
            else if \<not> has_ptr (cl_address src) then Inr False
            else bindR (deref [] (cl_address src)) (\<lambda>bz. Inr (bytes_to_addr bz \<in> set addresses))) =
      (Inr (addresses = [] \<or> Address l \<in> set addresses) :: go_error + bool)"
    using addr a by (auto simp: get_address_def result_simps split: if_splits)
  moreover have "(if topics = [] then Inr True
       else if \<not> has_ptr (cl_topics src) then Inr False
       else bindR (deref [] (cl_topics src)) (\<lambda>ctopics.
         if length ctopics < length topics then Inr False else match_topics topics ctopics)) =
      Inr (\<not> length (Topics l) < length topics \<and> list_all2 topic_matches (take (length topics) (Topics l)) topics)"
  proof (cases "has_ptr (cl_topics src)")
    case True
    then obtain ct where ct: "deref [] (cl_topics src) = Inr ct"
      "mapR (\<lambda>r. bindR r (\<lambda>v. Inr (bytes_to_hash v))) ct = Inr (Topics l)"
      using top by (auto simp: get_hashes_def result_simps)
    have "length (Topics l) = length ct" using mapR_Inr_length [OF ct(2)] .
    with True ct match_topics_ok [OF ct(2)] show ?thesis by (auto simp: not_less)
  next
    case False
    then have "Topics l = []" using top by (simp add: get_hashes_def)
    with False show ?thesis by (cases topics) simp_all
  qed
  ultimately show ?thesis by (simp add: capnpLogMatches_def LogMatches_def)
qed

lemma keep_matching_ok:
  assumes "capnpLogListToRPC src = Inr logs" and "\<forall>l\<in>set src. has_ptr (cl_address l) \<or> 0 \<notin> set addresses"
  shows "foldR (keep_matching addresses topics) out src = Inr (out @ filter (\<lambda>log. LogMatches log addresses topics) logs)"
  using assms
proof (induction src arbitrary: out logs)
  case Nil
  then show ?case by (simp add: capnpLogListToRPC_def)
next
  case (Cons c cs)
  from Cons.prems(1) obtain l ls where l: "capnpLogToRPC c = Inr l" "capnpLogListToRPC cs = Inr ls" "logs = Some l # ls"
    by (auto simp: capnpLogListToRPC_def result_simps)
  have "capnpLogMatches c addresses topics = Inr (LogMatches (Some l) addresses topics)"
    using Cons.prems(2) by (intro capnpLogMatches_ok [OF l(1)]) auto
  then have "keep_matching addresses topics out c =
      Inr (out @ filter (\<lambda>log. LogMatches log addresses topics) [Some l])"
    using l(1) by (simp add: keep_matching_def)
  with Cons.IH [OF l(2)] Cons.prems(2) l(3) show ?case by simp
qed

lemma filter_groups_ok:
  assumes "mapR (\<lambda>group. if \<not> has_ptr group then Inr [] else bindR (deref [] group) capnpLogListToRPC) gs = Inr groups"
    and "\<forall>g ls l. g \<in> set gs \<longrightarrow> deref [] g = Inr ls \<longrightarrow> l \<in> set ls \<longrightarrow> has_ptr (cl_address l) \<or> 0 \<notin> set addresses"
  shows "foldR (\<lambda>out group. if \<not> has_ptr group then Inr out
       else bindR (deref [] group) (foldR (keep_matching addresses topics) out)) out gs =
     Inr (out @ filter (\<lambda>log. LogMatches log addresses topics) (concat groups))"
  using assms
proof (induction gs arbitrary: out groups)
  case Nil
  then show ?case by simp
next
  case (Cons g gs)
  from Cons.prems(1) obtain x xs where x: "(if \<not> has_ptr g then Inr [] else bindR (deref [] g) capnpLogListToRPC) = Inr x"
    "mapR (\<lambda>group. if \<not> has_ptr group then Inr [] else bindR (deref [] group) capnpLogListToRPC) gs = Inr xs" "groups = x # xs"
    by (auto simp: result_simps)
  have "(if \<not> has_ptr g then Inr out else bindR (deref [] g) (foldR (keep_matching addresses topics) out)) =
      Inr (out @ filter (\<lambda>log. LogMatches log addresses topics) x)"
  proof (cases "has_ptr g")
    case True
    then obtain ls where ls: "deref [] g = Inr ls" "capnpLogListToRPC ls = Inr x"
      using x(1) by (auto simp: result_simps)
    have "\<forall>l\<in>set ls. has_ptr (cl_address l) \<or> 0 \<notin> set addresses" using Cons.prems(2) ls(1) by simp
    with True ls keep_matching_ok [OF ls(2)] show ?thesis by simp
  next
    case False
    with x(1) show ?thesis by simp
  qed
  with Cons.IH [OF x(2)] Cons.prems(2) x(3) show ?case by simp
qed

section \<open>A concrete codec\<close>

text \<open>Messages as numbers: every struct type is countable, so a struct is written as that many bytes.\<close>

instance sentinel :: countable by countable_datatype
instance go_error :: countable by countable_datatype

instance CapnpBlockMeta_ext :: (countable) countable
proof (rule countable_classI [of "\<lambda>r. to_nat ((cm_height r, cm_hash r, cm_parentHash r, cm_stateRoot r, cm_miner r, cm_timestamp r, cm_size r),
    (cm_gasLimit r, cm_gasUsed r, cm_ethTxCount r, cm_txCount r, cm_bloom r, cm_transactionsRoot r, cm_baseFee r,
     cm_virtualizedCosmosEvents r, CapnpBlockMeta.more r))"])
qed (simp add: CapnpBlockMeta.equality)

instance CapnpLog_ext :: (countable) countable
proof (rule countable_classI [of "\<lambda>r. to_nat (cl_address r, cl_topics r, cl_data r, cl_blockNumber r, cl_txHash r, cl_txIndex r,
    cl_blockHash r, cl_index r, cl_removed r, cl_virtual r, cl_cosmosHash r, cl_cosmosMsgIndex r, CapnpLog.more r)"])
qed (simp add: CapnpLog.equality)

instance CapnpReceipt_ext :: (countable) countable
proof (rule countable_classI [of "\<lambda>r. to_nat ((cq_status r, cq_cumulativeGasUsed r, cq_gasUsed r, cq_reason r, cq_vmError r, cq_logsBloom r,
    cq_logs r, cq_transactionHash r), (cq_contractAddress r, cq_blockHash r, cq_blockNumber r, cq_transactionIndex r, cq_effectiveGasPrice r,
    cq_from r, cq_to r, cq_type r, CapnpReceipt.more r))"])
qed (simp add: CapnpReceipt.equality)

instance CapnpAccessTuple_ext :: (countable) countable
proof (rule countable_classI [of "\<lambda>r. to_nat (ca_address r, ca_storageKeys r, CapnpAccessTuple.more r)"])
qed (simp add: CapnpAccessTuple.equality)

instance CapnpRPCTransaction_ext :: (countable) countable
proof (rule countable_classI [of "\<lambda>r. to_nat ((ct_blockHash r, ct_blockNumber r, ct_from r, ct_gas r, ct_gasPrice r, ct_gasFeeCap r, ct_gasTipCap r),
    (ct_hash r, ct_input r, ct_nonce r, ct_to r, ct_transactionIndex r, ct_value r, ct_type r, ct_accesses r),
    (ct_chainId r, ct_v r, ct_r r, ct_s r, ct_virtual r, ct_cosmosHash r, ct_cosmosMsgIndex r, CapnpRPCTransaction.more r))"])
qed (simp add: CapnpRPCTransaction.equality)

instance CapnpTxResult_ext :: (countable) countable
proof (rule countable_classI [of "\<lambda>r. to_nat (cx_height r, cx_txIndex r, cx_msgIndex r, cx_ethTxIndex r, cx_failed r, cx_gasUsed r,
    cx_cumulativeGasUsed r, CapnpTxResult.more r)"])
qed (simp add: CapnpTxResult.equality)

definition count_codec :: Codec_Lib where
  "count_codec =
     \<lparr>Marshal_BlockMeta = (\<lambda>x. replicate (to_nat x) 0), ReadRoot_BlockMeta = (\<lambda>bs. Inr (from_nat (length bs))),
      Marshal_BlockLogs = (\<lambda>x. replicate (to_nat x) 0), ReadRoot_BlockLogs = (\<lambda>bs. Inr (from_nat (length bs))),
      Marshal_Receipt = (\<lambda>x. replicate (to_nat x) 0), ReadRoot_Receipt = (\<lambda>bs. Inr (from_nat (length bs))),
      Marshal_RPCTransaction = (\<lambda>x. replicate (to_nat x) 0), ReadRoot_RPCTransaction = (\<lambda>bs. Inr (from_nat (length bs))),
      Marshal_TxResult = (\<lambda>x. replicate (to_nat x) 0), ReadRoot_TxResult = (\<lambda>bs. Inr (from_nat (length bs))),
      Marshal_TracePayload = (\<lambda>p. case p of None \<Rightarrow> [] | Some (Inr raw) \<Rightarrow> 0 # raw | Some (Inl e) \<Rightarrow> 1 # replicate (to_nat e) 0),
      ReadRoot_TracePayload =
        (\<lambda>bs. Inr (case bs of [] \<Rightarrow> None | b # raw \<Rightarrow> if b = 0 then Some (Inr raw) else Some (Inl (from_nat (length raw))))),
      json_BlockMeta = (\<lambda>b. Inl (Errorf ''json'')), json_BlockLogs = (\<lambda>b. Inl (Errorf ''json'')),
      json_Receipt = (\<lambda>b. Inl (Errorf ''json'')), json_RPCTransaction = (\<lambda>b. Inl (Errorf ''json'')),
      proto_TxResult = (\<lambda>b. Inl (Errorf ''proto''))\<rparr>"

interpretation count: capnp_codec count_codec
  by unfold_locales (simp_all add: count_codec_def split: option.splits sum.splits)

section \<open>Properties\<close>

definition bigs_nonneg :: "RPCTransaction \<Rightarrow> bool" where
  "bigs_nonneg t \<longleftrightarrow> nonneg (tx_BlockNumber t) \<and> nonneg (tx_GasPrice t) \<and> nonneg (tx_GasFeeCap t) \<and> nonneg (tx_GasTipCap t) \<and>
     nonneg (tx_Value t) \<and> nonneg (tx_ChainID t) \<and> nonneg (tx_V t) \<and> nonneg (tx_R t) \<and> nonneg (tx_S t)"

text \<open>C23: What the indexer writes it reads back: block metadata, transaction results, RPC transactions whose big integers are not
  negative, and trace payloads of at most 64 MiB decode from their Cap'n Proto payload to the value that was encoded, every
  field to itself. A nil transaction result is read back as the zero result.\<close>

theorem payload_roundtrip:
  assumes "capnp_codec K" and "bigs_nonneg t" and "int (length (mustMarshalTracePayload K raw)) \<le> capnp_readLimit"
  shows "unmarshalBlockMetaPayload K (mustMarshalBlockMeta K m) = Inr m \<and>
    unmarshalTxResultPayload K (mustMarshalTxResult K (Some r)) = Inr r \<and>
    unmarshalTxResultPayload K (mustMarshalTxResult K None) =
      Inr \<lparr>tr_Height = 0, tr_TxIndex = 0, tr_MsgIndex = 0, tr_EthTxIndex = 0, tr_Failed = False, tr_GasUsed = 0, tr_CumulativeGasUsed = 0\<rparr> \<and>
    unmarshalTracePayload K (mustMarshalTracePayload K raw) = Inr raw \<and>
    unmarshalRPCTransactionPayload K (mustMarshalRPCTransaction K t) = Inr t"
proof -
  have "unmarshalTxResultPayload K (mustMarshalTxResult K None) =
      Inr \<lparr>tr_Height = 0, tr_TxIndex = 0, tr_MsgIndex = 0, tr_EthTxIndex = 0, tr_Failed = False, tr_GasUsed = 0, tr_CumulativeGasUsed = 0\<rparr>"
    by (simp add: unmarshalTxResultPayload_def mustMarshalTxResult_def empty_TxResult_def capnp_codec.read_TxResult [OF assms(1)])
  with assms show ?thesis
    using capnp_codec.block_meta capnp_codec.tx_result capnp_codec.trace_payload capnp_codec.rpc_transaction
    unfolding bigs_nonneg_def by blast
qed

definition sample_tx :: RPCTransaction where
  "sample_tx =
     \<lparr>tx_BlockHash = Some 7, tx_BlockNumber = Some 300, tx_From = 1, tx_Gas = 21000, tx_GasPrice = Some 0, tx_GasFeeCap = None,
      tx_GasTipCap = None, tx_Hash = 9, tx_Input = [1, 2], tx_Nonce = 3, tx_To = None, tx_TransactionIndex = Some 0,
      tx_Value = Some 1000, tx_Type = 1, tx_Accesses = Some [\<lparr>acc_Address = 4, acc_StorageKeys = [5, 6]\<rparr>],
      tx_ChainID = Some 1776, tx_V = Some 1, tx_R = Some 2, tx_S = Some 3, tx_Virtual = False, tx_CosmosHash = None,
      tx_CosmosMsgIndex = None\<rparr>"

definition sample_meta :: CachedBlockMeta where
  "sample_meta =
     \<lparr>bm_Height = 5, bm_Hash = ''0x01'', bm_ParentHash = [], bm_StateRoot = [], bm_Miner = ''0x02'', bm_Timestamp = 1700000000,
      bm_Size = 100, bm_GasLimit = 0, bm_GasUsed = 21000, bm_EthTxCount = 1, bm_TxCount = 1, bm_Bloom = [],
      bm_TransactionsRoot = [], bm_BaseFee = ''0x1'', bm_VirtualizedCosmosEvents = True\<rparr>"

definition sample_TxResult :: TxResult where
  "sample_TxResult =
     \<lparr>tr_Height = 5, tr_TxIndex = 1, tr_MsgIndex = 0, tr_EthTxIndex = 3, tr_Failed = True, tr_GasUsed = 21000, tr_CumulativeGasUsed = 42000\<rparr>"

theorem payload_roundtrip_witness:
  "unmarshalBlockMetaPayload count_codec (mustMarshalBlockMeta count_codec sample_meta) = Inr sample_meta \<and>
    unmarshalTxResultPayload count_codec (mustMarshalTxResult count_codec (Some sample_TxResult)) = Inr sample_TxResult \<and>
    unmarshalTracePayload count_codec (mustMarshalTracePayload count_codec [7]) = Inr [7] \<and>
    unmarshalRPCTransactionPayload count_codec (mustMarshalRPCTransaction count_codec sample_tx) = Inr sample_tx"
proof -
  have "bigs_nonneg sample_tx" by (simp add: bigs_nonneg_def nonneg_def sample_tx_def)
  moreover have "int (length (mustMarshalTracePayload count_codec [7])) \<le> capnp_readLimit"
    by (simp add: mustMarshalTracePayload_def mustCapnpPayload_def kvCapnpMagic_def SetPtr_def count_codec_def capnp_readLimit_def)
  ultimately show ?thesis
    using payload_roundtrip [OF count.capnp_codec_axioms, of sample_tx "[7]" sample_meta sample_TxResult] by blast
qed

text \<open>C24: The logs of a block are stored faithfully: groups without nil logs decode to themselves, and
  the filtered decoder returns, for every address and topic filter, exactly the stored logs the filter
  accepts, in block order.\<close>

theorem block_logs_roundtrip:
  assumes "capnp_codec K" and "\<forall>g\<in>set groups. None \<notin> set g"
  shows "unmarshalBlockLogsPayload K (mustMarshalBlockLogs K groups) = Inr groups \<and>
    unmarshalFilteredBlockLogsPayload K (mustMarshalBlockLogs K groups) addresses topics =
      Inr (filter (\<lambda>log. LogMatches log addresses topics) (concat groups))"
proof -
  have id: "map (map stored_log) groups = groups" using assms(2) map_stored_log by (simp cong: map_cong)
  have "has_ptr (cl_address l)" if g: "None \<notin> set g" and l: "l \<in> set (setCapnpLogList g)" for g l
  proof -
    from l obtain x where x: "x \<in> set g" "l = (case x of None \<Rightarrow> empty_log | Some y \<Rightarrow> setCapnpLog y)"
      by (auto simp: setCapnpLogList_def)
    with g show ?thesis by (cases x) (auto simp: setCapnpLog_def)
  qed
  then have ptr: "\<forall>g ls l. g \<in> set (map (\<lambda>logs. SetPtr (setCapnpLogList logs)) groups) \<longrightarrow> deref [] g = Inr ls \<longrightarrow> l \<in> set ls \<longrightarrow>
      has_ptr (cl_address l) \<or> 0 \<notin> set addresses"
    using assms(2) by auto
  have "unmarshalBlockLogsPayload K (mustMarshalBlockLogs K groups) = Inr groups"
    using capnp_codec.block_logs [OF assms(1), of groups] id by simp
  moreover from this have "mapR (\<lambda>group. if \<not> has_ptr group then Inr [] else bindR (deref [] group) capnpLogListToRPC)
      (map (\<lambda>logs. SetPtr (setCapnpLogList logs)) groups) = Inr groups"
    by (simp add: unmarshalBlockLogsPayload_def mustMarshalBlockLogs_def capnp_codec.read_BlockLogs [OF assms(1)])
  from filter_groups_ok [OF this ptr, of topics "[]"]
  have "unmarshalFilteredBlockLogsPayload K (mustMarshalBlockLogs K groups) addresses topics =
      Inr (filter (\<lambda>log. LogMatches log addresses topics) (concat groups))"
    by (simp add: unmarshalFilteredBlockLogsPayload_def mustMarshalBlockLogs_def capnp_codec.read_BlockLogs [OF assms(1)])
  ultimately show ?thesis by simp
qed

definition sample_log :: "address \<Rightarrow> RPCLog" where
  "sample_log a =
     \<lparr>Address = a, Topics = [1, 2], LData = [3], BlockNumber = 5, TxHash = 6, TxIndex = 0, BlockHash = 7, Index = 0,
      Removed = False, Virtual = True, CosmosHash = Some 8, CosmosMsgIndex = Some 0\<rparr>"

theorem block_logs_roundtrip_witness:
  "unmarshalFilteredBlockLogsPayload count_codec
     (mustMarshalBlockLogs count_codec [[Some (sample_log 1)], [], [Some (sample_log 2)]]) [2] [[], [2, 9]] = Inr [Some (sample_log 2)]"
  using block_logs_roundtrip [OF count.capnp_codec_axioms, of "[[Some (sample_log 1)], [], [Some (sample_log 2)]]" "[2]" "[[], [2, 9]]"]
  by (simp add: LogMatches_def sample_log_def topic_matches_def)

lemma filtered_decode:
  assumes "unmarshalBlockLogsPayload K bz = Inr groups" and "0 \<notin> set addresses"
  shows "unmarshalFilteredBlockLogsPayload K bz addresses topics =
    Inr (filter (\<lambda>log. LogMatches log addresses topics) (concat groups))"
proof (cases "capnpPayloadMessage bz")
  case None
  with assms show ?thesis by (simp add: unmarshalBlockLogsPayload_def unmarshalFilteredBlockLogsPayload_def)
next
  case (Some msg)
  with assms(1) obtain root where root: "ReadRoot_BlockLogs K msg = Inr root"
    "(if \<not> has_ptr root then Inr [] else bindR (deref [] root) (mapR (\<lambda>group.
      if \<not> has_ptr group then Inr [] else bindR (deref [] group) capnpLogListToRPC))) = Inr groups"
    by (auto simp: unmarshalBlockLogsPayload_def result_simps)
  show ?thesis
  proof (cases "has_ptr root")
    case True
    with root(2) obtain gs where gs: "deref [] root = Inr gs"
      "mapR (\<lambda>group. if \<not> has_ptr group then Inr [] else bindR (deref [] group) capnpLogListToRPC) gs = Inr groups"
      by (auto simp: result_simps)
    have "foldR (\<lambda>out group. if \<not> has_ptr group then Inr out
         else bindR (deref [] group) (foldR (keep_matching addresses topics) out)) [] gs =
       Inr ([] @ filter (\<lambda>log. LogMatches log addresses topics) (concat groups))"
      using assms(2) by (intro filter_groups_ok [OF gs(2)]) simp
    with Some root(1) gs(1) True show ?thesis by (simp add: unmarshalFilteredBlockLogsPayload_def)
  next
    case False
    with Some root show ?thesis by (simp add: unmarshalFilteredBlockLogsPayload_def)
  qed
qed

text \<open>C25: For every payload, also a legacy or a foreign one, that the full decoder accepts, decoding with
  a filter is the same as decoding everything and filtering afterwards, provided the filter does not
  name the zero address. The early check on the encoded struct loses and adds no log.\<close>

theorem filtered_decode_agrees:
  assumes "unmarshalBlockLogsPayload K bz = Inr groups" and "0 \<notin> set addresses"
  shows "unmarshalFilteredBlockLogsPayload K bz addresses topics =
    Inr (filter (\<lambda>log. LogMatches log addresses topics) (concat groups))"
  by (rule filtered_decode [OF assms])

theorem filtered_decode_agrees_witness:
  "unmarshalFilteredBlockLogsPayload count_codec (mustMarshalBlockLogs count_codec [[None, Some (sample_log 2)]]) [2] [] =
    Inr [Some (sample_log 2)]"
  using filtered_decode_agrees [OF count.block_logs [of "[[None, Some (sample_log 2)]]"], of "[2]" "[]"]
  by (simp add: stored_log_def LogMatches_def sample_log_def)

text \<open>C26: The receipt of a genuine transaction survives the cache: encoding the receipt the indexer
  builds does not panic for a price of at most 256 bits, decoding gives the same receipt back, and the
  JSON-RPC object shows the values it was built from.\<close>

theorem cached_receipt_roundtrip:
  assumes "capnp_codec K" and "eth_hex E" and "None \<notin> set logs" and "0 \<le> price" and "price < 2 ^ 256"
    and r: "r = buildCachedReceipt E L st cg g reason vmErr logs txh ca bh bn ti price from to ty"
  shows "\<exists>bz. mustMarshalReceipt E K r = Inr bz \<and> unmarshalReceiptPayload E K bz = Inr r \<and>
    CachedReceipt_ToMap E r =
      \<lparr>rm_status = st, rm_cumulativeGasUsed = cg, rm_logsBloom = BytesToBloom E (evmLogsBloom L logs), rm_logs = logs,
       rm_transactionHash = txh, rm_contractAddress = ca, rm_gasUsed = g, rm_blockHash = Hash_Hex E bh, rm_blockNumber = bn,
       rm_transactionIndex = ti, rm_effectiveGasPrice = Some price, rm_from = from, rm_to = to, rm_type = ty,
       rm_reason = (if reason = [] then None else Some reason), rm_vmError = (if vmErr = [] then None else Some vmErr)\<rparr>"
proof -
  from capnp_codec.receipt [OF assms(1,2,4,5) r] obtain bz where bz: "mustMarshalReceipt E K r = Inr bz"
    "unmarshalReceiptPayload E K bz = Inr (r\<lparr>cr_Logs := map stored_log logs\<rparr>)" by blast
  have "r\<lparr>cr_Logs := map stored_log logs\<rparr> = r"
    by (simp add: map_stored_log [OF assms(3)] r buildCachedReceipt_def)
  moreover have "map_option (HexToAddress E) (map_option (Address_Hex E) x) = x" for x
    by (cases x) (simp_all add: eth_hex.address_hex [OF assms(2)])
  ultimately show ?thesis
    using bz assms(4,5)
    by (simp add: r CachedReceipt_ToMap_def buildCachedReceipt_def eth_hex.from_hex [OF assms(2)] eth_hex.hash_hex [OF assms(2)]
        eth_hex.address_hex [OF assms(2)] eth_hex.big_nonempty [OF assms(2)] eth_hex.decode_big [OF assms(2)])
qed

theorem cached_receipt_roundtrip_witness:
  "\<exists>bz. mustMarshalReceipt std_eth count_codec
     (buildCachedReceipt std_eth null_chain 1 21000 21000 [] [] [Some (sample_log 2)] 6 None 7 5 0 1000 1 (Some 2) 2) = Inr bz"
  using cached_receipt_roundtrip [OF count.capnp_codec_axioms std.eth_hex_axioms, of "[Some (sample_log 2)]" 1000 _ null_chain
      1 21000 21000 "[]" "[]" 6 None 7 5 0 1 "Some 2" 2, OF _ _ _ refl]
  by auto

text \<open>C39: A virtual receipt looks the same from the cache as when it is made: storing a synthetic receipt
  with a zero gas price, reading it back and rendering it gives the object that rendering the receipt
  directly gives.\<close>

theorem virtual_receipt_cached:
  assumes "capnp_codec K" and "eth_hex E" and "None \<notin> set (r_Logs r)" and "r_EffectiveGasPrice r = None \<or> r_EffectiveGasPrice r = Some 0"
  shows "\<exists>bz rc. mustMarshalReceipt E K (cachedVirtualReceipt E L r) = Inr bz \<and> unmarshalReceiptPayload E K bz = Inr rc \<and>
    CachedReceipt_ToMap E rc = Receipt_ToMap E L r"
proof -
  define rc where "rc = cachedVirtualReceipt E L r"
  from capnp_codec.receipt [OF assms(1,2) _ _ rc_def [unfolded cachedVirtualReceipt_def]] obtain bz where
    bz: "mustMarshalReceipt E K rc = Inr bz" "unmarshalReceiptPayload E K bz = Inr (rc\<lparr>cr_Logs := map stored_log (r_Logs r)\<rparr>)"
    by auto
  have "rc\<lparr>cr_Logs := map stored_log (r_Logs r)\<rparr> = rc"
    by (simp add: map_stored_log [OF assms(3)] rc_def cachedVirtualReceipt_def buildCachedReceipt_def)
  moreover have "map_option (HexToAddress E) (map_option (Address_Hex E) x) = x" for x
    by (cases x) (simp_all add: eth_hex.address_hex [OF assms(2)])
  then have "CachedReceipt_ToMap E rc = Receipt_ToMap E L r"
    using assms(4)
    by (auto simp: rc_def cachedVirtualReceipt_def CachedReceipt_ToMap_def Receipt_ToMap_def buildCachedReceipt_def evmLogsBloom_def
        LogsBloom_def eth_hex.from_hex [OF assms(2)] eth_hex.hash_hex [OF assms(2)]
        eth_hex.address_hex [OF assms(2)] eth_hex.big_nonempty [OF assms(2)] eth_hex.decode_big [OF assms(2)])
  ultimately show ?thesis using bz unfolding rc_def [symmetric] by auto
qed

definition sample_receipt :: Receipt where
  "sample_receipt =
     \<lparr>r_Status = 1, r_CumulativeGasUsed = 10, r_GasUsed = 10, r_Reason = [], r_VMError = ''revert'', r_Logs = [Some (sample_log 2)],
      r_TransactionHash = 6, r_BlockHash = 7, r_BlockNumber = 5, r_TransactionIndex = 0, r_EffectiveGasPrice = None, r_From = 1,
      r_To = Some 2, r_Type = 0\<rparr>"

theorem virtual_receipt_cached_witness:
  "\<exists>bz rc. mustMarshalReceipt std_eth count_codec (cachedVirtualReceipt std_eth null_chain sample_receipt) = Inr bz \<and>
    unmarshalReceiptPayload std_eth count_codec bz = Inr rc \<and>
    CachedReceipt_ToMap std_eth rc = Receipt_ToMap std_eth null_chain sample_receipt"
  using virtual_receipt_cached [OF count.capnp_codec_axioms std.eth_hex_axioms, of sample_receipt null_chain]
  by (simp add: sample_receipt_def)

end
