(* ===== verification/Sha256.thy ===== *)
theory Sha256
  imports Gateway_Prelude
begin

unbundle bit_operations_syntax

text \<open>
  \<open>crypto/sha256\<close> of Go's standard library, written out after FIPS 180-4. The indexer digests trace
  configurations with it; what the keys rely on is the length of the digest.
\<close>

type_synonym w32 = "32 word"

text \<open>The constants of the standard are the first 32 bits of the fractional parts of the cube roots of the
  first 64 primes, and of the square roots of the first eight. \<open>root_bits\<close> finds the integer part of
  the root of order \<open>e\<close> of \<open>n\<close> bit by bit; the integer part of the root of a prime times \<open>2 ^ (32 * e)\<close> has
  those bits at its low end.\<close>

fun root_bits :: "nat \<Rightarrow> int \<Rightarrow> nat \<Rightarrow> int \<Rightarrow> int" where
  "root_bits e n 0 r = r"
| "root_bits e n (Suc k) r = root_bits e n k (if (r + 2 ^ k) ^ e \<le> n then r + 2 ^ k else r)"

definition prime_number :: "nat \<Rightarrow> bool" where
  "prime_number n \<longleftrightarrow> list_all (\<lambda>d. n mod d \<noteq> 0) [2..<n]"

definition primes64 :: "int list" where
  "primes64 = map int (filter prime_number [2..<312])"

definition frac_root :: "nat \<Rightarrow> int \<Rightarrow> w32" where
  "frac_root e p = word_of_int (root_bits e (p * 2 ^ (32 * e)) 37 0)"

definition sha_k :: "w32 list" where
  "sha_k = map (frac_root 3) primes64"

definition sha_h :: "w32 list" where
  "sha_h = map (frac_root 2) [2, 3, 5, 7, 11, 13, 17, 19]"

definition sha_pad :: "bytes \<Rightarrow> bytes" where
  "sha_pad m =
     m @ [0x80] @ replicate ((119 - length m mod 64) mod 64) 0 @ be_bytes 8 (8 * length m)"

fun chunks :: "nat \<Rightarrow> nat \<Rightarrow> 'a list \<Rightarrow> 'a list list" where
  "chunks 0 n xs = []"
| "chunks (Suc k) n xs = take n xs # chunks k n (drop n xs)"

definition block_words :: "bytes \<Rightarrow> w32 list" where
  "block_words blk = map (\<lambda>bs. foldl (\<lambda>a b. a * 256 + ucast b) 0 bs) (chunks 16 4 blk)"

definition sigma0 :: "w32 \<Rightarrow> w32" where
  "sigma0 x = word_rotr 7 x XOR word_rotr 18 x XOR drop_bit 3 x"

definition sigma1 :: "w32 \<Rightarrow> w32" where
  "sigma1 x = word_rotr 17 x XOR word_rotr 19 x XOR drop_bit 10 x"

definition Sigma0 :: "w32 \<Rightarrow> w32" where
  "Sigma0 x = word_rotr 2 x XOR word_rotr 13 x XOR word_rotr 22 x"

definition Sigma1 :: "w32 \<Rightarrow> w32" where
  "Sigma1 x = word_rotr 6 x XOR word_rotr 11 x XOR word_rotr 25 x"

fun extend :: "nat \<Rightarrow> w32 list \<Rightarrow> w32 list" where
  "extend 0 w = w"
| "extend (Suc k) w =
     (let t = length w in
      extend k (w @ [sigma1 (w ! (t - 2)) + w ! (t - 7) + sigma0 (w ! (t - 15)) + w ! (t - 16)]))"

fun round256 :: "w32 list \<Rightarrow> w32 \<times> w32 \<Rightarrow> w32 list" where
  "round256 [a, b, c, d, e, f, g, h] (k, w) =
     (let t1 = h + Sigma1 e + (e AND f XOR (NOT e AND g)) + k + w;
          t2 = Sigma0 a + (a AND b XOR (a AND c) XOR (b AND c))
      in [t1 + t2, a, b, c, d + t1, e, f, g])"
| "round256 s kw = s"

definition compress :: "w32 list \<Rightarrow> bytes \<Rightarrow> w32 list" where
  "compress hs blk = map2 (+) hs (foldl round256 hs (zip sha_k (extend 48 (block_words blk))))"

definition sha256 :: "bytes \<Rightarrow> bytes" where
  "sha256 m =
     (let p = sha_pad m
      in concat (map (\<lambda>w. be_bytes 4 (unat w)) (foldl compress sha_h (chunks (length p div 64) 64 p))))"

section \<open>Lemmas\<close>

lemma length_round256 [simp]: "length (round256 s kw) = length s"
  by (induction s kw rule: round256.induct) (simp_all add: Let_def)

lemma length_rounds [simp]: "length (foldl round256 s kws) = length s"
  by (induction kws arbitrary: s) simp_all

lemma length_compress [simp]: "length (compress hs blk) = length hs"
  by (simp add: compress_def)

lemma length_blocks [simp]: "length (foldl compress hs blks) = length hs"
  by (induction blks arbitrary: hs) simp_all

lemma length_concat_words: "length (concat (map (\<lambda>w. be_bytes 4 (unat w)) ws)) = 4 * length ws" for ws :: "w32 list"
  by (induction ws) simp_all

lemma length_sha256 [simp]: "length (sha256 m) = 32"
  by (simp add: sha256_def Let_def length_concat_words sha_h_def)

end
