(* ===== verification/KV_Cache.thy ===== *)
theory KV_Cache
  imports KV_Store KV_Codec Sha256
begin

text \<open>
  Reading and deleting indexed blocks: the getters of \<open>internal/indexer/cache_collections.go\<close> and
  \<open>kv_indexer.go\<close>, the trace cache of \<open>trace_cache.go\<close>, and \<open>resetBlock\<close> and \<open>DeleteBlock\<close>. The
  indexer is a record of its configuration and of the third-party functions it calls; the database
  state is passed explicitly.
\<close>

section \<open>Definitions\<close>

record ('d, 'b) KVIndexer =
  kv_eth :: Eth_Lib
  kv_chain :: Chain_Lib
  kv_codec :: Codec_Lib
  kv_db :: "('d, 'b) DB"
  cachedGasLimit :: int
  virtualizationEnabled :: bool
  virtualChainID :: "int option"

subsection \<open>Getters\<close>

definition GetByTxHash :: "('d, 'b) KVIndexer \<Rightarrow> 'd \<Rightarrow> hash \<Rightarrow> go_error + TxResult" where
  "GetByTxHash kv d h =
     bindR (wrapR (\<lambda>e. Wrap e ''GetByTxHash'') (db_Get (kv_db kv) d (TxHashKey h))) (\<lambda>bz.
       if bz = [] then Inl (Errorf ''tx not found'')
       else wrapR (\<lambda>e. Wrap e ''GetByTxHash'') (unmarshalTxResultPayload (kv_codec kv) bz))"

definition GetByBlockAndIndex :: "('d, 'b) KVIndexer \<Rightarrow> 'd \<Rightarrow> int \<Rightarrow> int \<Rightarrow> go_error + TxResult" where
  "GetByBlockAndIndex kv d blockNumber txIndex =
     bindR (wrapR (\<lambda>e. Wrap e ''GetByBlockAndIndex'') (db_Get (kv_db kv) d (TxIndexKey blockNumber txIndex))) (\<lambda>bz.
       if bz = [] then Inl (Errorf ''tx not found'') else GetByTxHash kv d (bytes_to_hash bz))"

definition GetRPCTransactionByHash :: "('d, 'b) KVIndexer \<Rightarrow> 'd \<Rightarrow> hash \<Rightarrow> go_error + RPCTransaction" where
  "GetRPCTransactionByHash kv d h =
     bindR (wrapR (\<lambda>e. Wrap e ''GetRPCTransactionByHash'') (db_Get (kv_db kv) d (RPCtxHashKey h))) (\<lambda>bz.
       if bz = [] then Inl (newCacheMiss ''rpc tx not found'')
       else wrapR (\<lambda>e. Wrap e ''GetRPCTransactionByHash'') (unmarshalRPCTransactionPayload (kv_codec kv) bz))"

definition GetRPCTransactionByBlockAndIndex :: "('d, 'b) KVIndexer \<Rightarrow> 'd \<Rightarrow> int \<Rightarrow> int \<Rightarrow> go_error + RPCTransaction" where
  "GetRPCTransactionByBlockAndIndex kv d blockNumber txIndex =
     bindR (wrapR (\<lambda>e. Wrap e ''GetRPCTransactionByBlockAndIndex'') (db_Get (kv_db kv) d (RPCtxIndexKey blockNumber txIndex))) (\<lambda>hashBz.
       if hashBz = [] then Inl (newCacheMiss ''rpc tx not found'') else GetRPCTransactionByHash kv d (bytes_to_hash hashBz))"

definition GetRPCTransactionHashesByBlockHeight :: "('d, 'b) KVIndexer \<Rightarrow> 'd \<Rightarrow> int \<Rightarrow> go_error + hash list" where
  "GetRPCTransactionHashesByBlockHeight kv d height =
     bindR (wrapR (\<lambda>e. Wrap e ''GetRPCTransactionHashesByBlockHeight'')
       (db_Iterator (kv_db kv) d (rpcTxIndexPrefixStart height) (Some (rpcTxIndexPrefixEnd height)))) (\<lambda>it.
       Inr (map (\<lambda>kv. bytes_to_hash (snd kv)) it))"

definition GetReceiptByTxHash :: "('d, 'b) KVIndexer \<Rightarrow> 'd \<Rightarrow> hash \<Rightarrow> go_error + ReceiptMap" where
  "GetReceiptByTxHash kv d h =
     bindR (wrapR (\<lambda>e. Wrap e ''GetReceiptByTxHash'') (db_Get (kv_db kv) d (ReceiptKey h))) (\<lambda>bz.
       if bz = [] then Inl (newCacheMiss ''receipt not found'')
       else bindR (wrapR (\<lambda>e. Wrap e ''GetReceiptByTxHash'') (unmarshalReceiptPayload (kv_eth kv) (kv_codec kv) bz)) (\<lambda>receipt.
         Inr (CachedReceipt_ToMap (kv_eth kv) receipt)))"

definition IsVirtualRPCTransaction :: "('d, 'b) KVIndexer \<Rightarrow> 'd \<Rightarrow> hash \<Rightarrow> go_error + bool" where
  "IsVirtualRPCTransaction kv d h =
     bindR (wrapR (\<lambda>e. Wrap e ''IsVirtualRPCTransaction'') (db_Get (kv_db kv) d (VirtualRPCtxKey h))) (\<lambda>bz. Inr (bz \<noteq> []))"

definition GetBlockMetaByHeight :: "('d, 'b) KVIndexer \<Rightarrow> 'd \<Rightarrow> int \<Rightarrow> go_error + CachedBlockMeta" where
  "GetBlockMetaByHeight kv d height =
     bindR (wrapR (\<lambda>e. Wrap e ''GetBlockMetaByHeight'') (db_Get (kv_db kv) d (BlockMetaKey height))) (\<lambda>bz.
       if bz = [] then Inl (newCacheMiss ''block meta not found'')
       else wrapR (\<lambda>e. Wrap e ''GetBlockMetaByHeight'') (unmarshalBlockMetaPayload (kv_codec kv) bz))"

text \<open>The getters by block hash look the height up first.\<close>

definition height_of_hash :: "('d, 'b) KVIndexer \<Rightarrow> 'd \<Rightarrow> string \<Rightarrow> hash \<Rightarrow> go_error + int" where
  "height_of_hash kv d caller h =
     bindR (wrapR (\<lambda>e. Wrap e caller) (db_Get (kv_db kv) d (BlockHashKey h))) (\<lambda>bz.
       if bz = [] then Inl (newCacheMiss ''block hash not indexed'') else Inr (i64 (from_be64 bz)))"

definition GetBlockMetaByHash :: "('d, 'b) KVIndexer \<Rightarrow> 'd \<Rightarrow> hash \<Rightarrow> go_error + CachedBlockMeta" where
  "GetBlockMetaByHash kv d h = bindR (height_of_hash kv d ''GetBlockMetaByHash'' h) (GetBlockMetaByHeight kv d)"

definition GetLogsByBlockHeight :: "('d, 'b) KVIndexer \<Rightarrow> 'd \<Rightarrow> int \<Rightarrow> go_error + RPCLog option list list" where
  "GetLogsByBlockHeight kv d height =
     bindR (wrapR (\<lambda>e. Wrap e ''GetLogsByBlockHeight'') (db_Get (kv_db kv) d (BlockLogsKey height))) (\<lambda>bz.
       if bz = [] then Inl (newCacheMiss ''block logs not found'') else unmarshalBlockLogsPayload (kv_codec kv) bz)"

definition GetFilteredLogsByBlockHeight ::
  "('d, 'b) KVIndexer \<Rightarrow> 'd \<Rightarrow> int \<Rightarrow> address list \<Rightarrow> hash list list \<Rightarrow> go_error + RPCLog option list" where
  "GetFilteredLogsByBlockHeight kv d height addresses topics =
     bindR (wrapR (\<lambda>e. Wrap e ''GetFilteredLogsByBlockHeight'') (db_Get (kv_db kv) d (BlockLogsKey height))) (\<lambda>bz.
       if bz = [] then Inl (newCacheMiss ''block logs not found'')
       else unmarshalFilteredBlockLogsPayload (kv_codec kv) bz addresses topics)"

definition GetLogsByBlockHash :: "('d, 'b) KVIndexer \<Rightarrow> 'd \<Rightarrow> hash \<Rightarrow> go_error + RPCLog option list list" where
  "GetLogsByBlockHash kv d h = bindR (height_of_hash kv d ''GetLogsByBlockHash'' h) (GetLogsByBlockHeight kv d)"

definition GetFilteredLogsByBlockHash ::
  "('d, 'b) KVIndexer \<Rightarrow> 'd \<Rightarrow> hash \<Rightarrow> address list \<Rightarrow> hash list list \<Rightarrow> go_error + RPCLog option list" where
  "GetFilteredLogsByBlockHash kv d h addresses topics =
     bindR (height_of_hash kv d ''GetFilteredLogsByBlockHash'' h) (\<lambda>height. GetFilteredLogsByBlockHeight kv d height addresses topics)"

definition IsBlockIndexed :: "('d, 'b) KVIndexer \<Rightarrow> 'd \<Rightarrow> int \<Rightarrow> go_error + bool" where
  "IsBlockIndexed kv d height =
     bindR (wrapR (\<lambda>e. Wrap e ''IsBlockIndexed'') (db_Get (kv_db kv) d (BlockMetaKey height))) (\<lambda>bz.
       Inr (length bz = 1 \<or> 0 < length bz))"

subsection \<open>The trace cache\<close>

text \<open>The JSON encoder of trace configurations is a parameter.\<close>

definition traceConfigKey :: "('c \<Rightarrow> go_error + bytes) \<Rightarrow> 'c \<Rightarrow> bytes" where
  "traceConfigKey marshal config =
     (case marshal config of Inl _ \<Rightarrow> sha256 (str_bytes ''marshal-error:*types.TraceConfig'') | Inr bz \<Rightarrow> sha256 bz)"

definition SetTraceTransaction ::
  "('d, 'b) KVIndexer \<Rightarrow> ('c \<Rightarrow> go_error + bytes) \<Rightarrow> 'd \<Rightarrow> hash \<Rightarrow> 'c \<Rightarrow> bytes \<Rightarrow> go_error + 'd" where
  "SetTraceTransaction kv marshal d h config raw =
     wrapR (\<lambda>e. Wrap e ''SetTraceTransaction'') (db_Set (kv_db kv) d (TraceTxKey h (traceConfigKey marshal config))
       (mustMarshalTracePayload (kv_codec kv) (if raw = [] then str_bytes ''null'' else raw)))"

definition GetTraceTransaction ::
  "('d, 'b) KVIndexer \<Rightarrow> ('c \<Rightarrow> go_error + bytes) \<Rightarrow> 'd \<Rightarrow> hash \<Rightarrow> 'c \<Rightarrow> go_error + bytes" where
  "GetTraceTransaction kv marshal d h config =
     bindR (wrapR (\<lambda>e. Wrap e ''GetTraceTransaction'') (db_Get (kv_db kv) d (TraceTxKey h (traceConfigKey marshal config)))) (\<lambda>bz.
       if bz = [] then Inl (newCacheMiss ''trace tx not found'')
       else wrapR (\<lambda>e. Wrap e ''GetTraceTransaction'') (unmarshalTracePayload (kv_codec kv) bz))"

definition SetTraceBlockByHeight ::
  "('d, 'b) KVIndexer \<Rightarrow> ('c \<Rightarrow> go_error + bytes) \<Rightarrow> 'd \<Rightarrow> int \<Rightarrow> 'c \<Rightarrow> bytes \<Rightarrow> go_error + 'd" where
  "SetTraceBlockByHeight kv marshal d height config raw =
     wrapR (\<lambda>e. Wrap e ''SetTraceBlockByHeight'') (db_Set (kv_db kv) d (TraceBlockKey height (traceConfigKey marshal config))
       (mustMarshalTracePayload (kv_codec kv) (if raw = [] then str_bytes ''[]'' else raw)))"

definition GetTraceBlockByHeight ::
  "('d, 'b) KVIndexer \<Rightarrow> ('c \<Rightarrow> go_error + bytes) \<Rightarrow> 'd \<Rightarrow> int \<Rightarrow> 'c \<Rightarrow> go_error + bytes" where
  "GetTraceBlockByHeight kv marshal d height config =
     bindR (wrapR (\<lambda>e. Wrap e ''GetTraceBlockByHeight'') (db_Get (kv_db kv) d (TraceBlockKey height (traceConfigKey marshal config)))) (\<lambda>bz.
       if bz = [] then Inl (newCacheMiss ''trace block not found'')
       else wrapR (\<lambda>e. Wrap e ''GetTraceBlockByHeight'') (unmarshalTracePayload (kv_codec kv) bz))"

subsection \<open>Deleting a block\<close>

definition delete_keys :: "('d, 'b) DB \<Rightarrow> string \<Rightarrow> 'b \<Rightarrow> bytes list \<Rightarrow> go_error + 'b" where
  "delete_keys DB msg b keys = foldR (\<lambda>b k. wrapR (\<lambda>e. Wrap e msg) (batch_Delete DB b k)) b keys"

definition deleteTraceKeysForBlock :: "('d, 'b) KVIndexer \<Rightarrow> 'd \<Rightarrow> 'b \<Rightarrow> int \<Rightarrow> hash list \<Rightarrow> go_error + 'b" where
  "deleteTraceKeysForBlock kv d b height txHashes =
     bindR (foldR (\<lambda>b txHash.
         let start = traceTxPrefixStart txHash in
         bindR (wrapR (\<lambda>e. Wrap e ''delete tx trace iterator'') (db_Iterator (kv_db kv) d start (prefixRangeEnd start))) (\<lambda>it.
           delete_keys (kv_db kv) ''delete tx trace'' b (map fst it))) b txHashes) (\<lambda>b.
       let start = traceBlockPrefixStart height in
       bindR (wrapR (\<lambda>e. Wrap e ''delete block trace iterator'') (db_Iterator (kv_db kv) d start (prefixRangeEnd start))) (\<lambda>it.
         delete_keys (kv_db kv) ''delete block trace'' b (map fst it)))"

text \<open>The keys the two loops of \<open>resetBlock\<close> delete for one index entry.\<close>

definition tx_entry_keys :: "bytes \<times> bytes \<Rightarrow> bytes list" where
  "tx_entry_keys kv =
     (let txHash = bytes_to_hash (snd kv)
      in [fst kv, TxHashKey txHash, ReceiptKey txHash, RPCtxHashKey txHash, VirtualRPCtxKey txHash])"

definition rpc_entry_keys :: "bytes \<times> bytes \<Rightarrow> bytes list" where
  "rpc_entry_keys kv =
     (let txHash = bytes_to_hash (snd kv)
      in [ReceiptKey txHash, RPCtxHashKey txHash, VirtualRPCtxKey txHash, fst kv])"

definition resetBlock :: "('d, 'b) KVIndexer \<Rightarrow> 'd \<Rightarrow> 'b \<Rightarrow> int \<Rightarrow> go_error + 'b" where
  "resetBlock kv d b height =
     bindR (wrapR (\<lambda>e. Wrap e ''reset block: get meta'') (db_Get (kv_db kv) d (BlockMetaKey height))) (\<lambda>metaBz.
     bindR (if metaBz = [] then Inr b
            else
              bindR (wrapR (\<lambda>e. Wrap e ''reset block: unmarshal meta'') (unmarshalBlockMetaPayload (kv_codec kv) metaBz)) (\<lambda>meta.
                delete_keys (kv_db kv) ''reset block'' b [BlockHashKey (HexToHash (kv_eth kv) (bm_Hash meta))])) (\<lambda>b.
     bindR (wrapR (\<lambda>e. Wrap e ''reset block: tx iterator'')
       (db_Iterator (kv_db kv) d (txIndexPrefixStart height) (Some (txIndexPrefixEnd height)))) (\<lambda>it.
     bindR (delete_keys (kv_db kv) ''reset block'' b (concat (map tx_entry_keys it))) (\<lambda>b.
     bindR (wrapR (\<lambda>e. Wrap e ''reset block: delete trace cache'')
       (deleteTraceKeysForBlock kv d b height (map (\<lambda>e. bytes_to_hash (snd e)) it))) (\<lambda>b.
     bindR (wrapR (\<lambda>e. Wrap e ''reset block: rpc tx iterator'')
       (db_Iterator (kv_db kv) d (rpcTxIndexPrefixStart height) (Some (rpcTxIndexPrefixEnd height)))) (\<lambda>rpcIt.
     bindR (delete_keys (kv_db kv) ''reset block'' b (concat (map rpc_entry_keys rpcIt))) (\<lambda>b.
       delete_keys (kv_db kv) ''reset block'' b [BlockLogsKey height, BlockMetaKey height])))))))"

definition DeleteBlock :: "('d, 'b) KVIndexer \<Rightarrow> 'd \<Rightarrow> int \<Rightarrow> go_error + 'd" where
  "DeleteBlock kv d height =
     bindR (resetBlock kv d (db_NewBatch (kv_db kv) d) height) (\<lambda>b.
       wrapR (\<lambda>e. Wrap e ''DeleteBlock'') (batch_Write (kv_db kv) d b))"

section \<open>What a reset deletes\<close>

text \<open>The keys of a block in a store, as a specification: the metadata, the logs and the hash entry; the
  index entries of its Ethereum and of its RPC transactions with everything filed under their hashes;
  and the traces of the block and of its Ethereum transactions.\<close>

definition keys_under :: "bytes \<Rightarrow> (bytes \<rightharpoonup> bytes) \<Rightarrow> bytes set" where
  "keys_under p m = {k. (\<exists>r. k = p @ r) \<and> m k \<noteq> None}"

definition index_hashes :: "bytes \<Rightarrow> (bytes \<rightharpoonup> bytes) \<Rightarrow> hash set" where
  "index_hashes p m = {bytes_to_hash v | v. \<exists>k\<in>keys_under p m. m k = Some v}"

definition meta_hash :: "('d, 'b) KVIndexer \<Rightarrow> (bytes \<rightharpoonup> bytes) \<Rightarrow> int \<Rightarrow> hash set" where
  "meta_hash kv m height =
     {HexToHash (kv_eth kv) (bm_Hash meta) | meta bz. m (BlockMetaKey height) = Some bz \<and> bz \<noteq> [] \<and>
        unmarshalBlockMetaPayload (kv_codec kv) bz = Inr meta}"

definition block_keys :: "('d, 'b) KVIndexer \<Rightarrow> (bytes \<rightharpoonup> bytes) \<Rightarrow> int \<Rightarrow> bytes set" where
  "block_keys kv m height =
     {BlockMetaKey height, BlockLogsKey height} \<union> BlockHashKey ` meta_hash kv m height \<union>
     keys_under (txIndexPrefixStart height) m \<union> keys_under (rpcTxIndexPrefixStart height) m \<union>
     keys_under (traceBlockPrefixStart height) m \<union>
     TxHashKey ` index_hashes (txIndexPrefixStart height) m \<union>
     (\<Union>h\<in>index_hashes (txIndexPrefixStart height) m. keys_under (traceTxPrefixStart h) m) \<union>
     (\<Union>h\<in>index_hashes (txIndexPrefixStart height) m \<union> index_hashes (rpcTxIndexPrefixStart height) m.
       {ReceiptKey h, RPCtxHashKey h, VirtualRPCtxKey h})"

text \<open>The layout of the height-indexed keys: a height, and an index for the two transaction indexes.\<close>

definition store_layout :: "(bytes \<rightharpoonup> bytes) \<Rightarrow> bool" where
  "store_layout m \<longleftrightarrow> height_keys_ok m \<and>
     (\<forall>r. KeyPrefixRPCtxIndex # r \<in> dom m \<longrightarrow> (\<exists>h i. height_ok h \<and> r = be64 h @ be64 i))"

section \<open>Lemmas\<close>

lemma apply_deletes: "apply_ops m (map (\<lambda>k. (k, None)) ks) = (\<lambda>k. if k \<in> set ks then None else m k)"
  by (induction ks arbitrary: m) (auto simp: fun_eq_iff)

lemma be64_eq_iff: "height_ok h \<Longrightarrow> height_ok h' \<Longrightarrow> be64 h = be64 h' \<longleftrightarrow> h = h'"
  by (rule be64_inj_iff) (auto simp: height_ok_def maxInt64_def maxUint64_def)

text \<open>An iteration over the keys of one height yields exactly the entries under its prefix.\<close>

lemma iterates_height:
  assumes it: "iterates m (p # be64 h) (Some (p # be64 (i64 (h + 1)))) kvs" and h: "height_ok h"
    and lay: "\<forall>r. p # r \<in> dom m \<longrightarrow> (\<exists>h i. height_ok h \<and> r = be64 h @ be64 i)"
  shows "set kvs = {(k, v). k \<in> keys_under (p # be64 h) m \<and> m k = Some v}"
proof -
  have "p # be64 h \<le> k \<and> below k (Some (p # be64 (i64 (h + 1)))) \<longleftrightarrow> (\<exists>r. k = (p # be64 h) @ r)" if k: "m k = Some v" for k v
  proof
    assume r: "p # be64 h \<le> k \<and> below k (Some (p # be64 (i64 (h + 1))))"
    then have "\<exists>r. k = [p] @ r"
      using sandwich_prefix [of "[p]" "be64 h" k "be64 (i64 (h + 1))"] by (simp add: below_def)
    then obtain r' where "k = p # r'" by auto
    with k lay obtain h' i where hi: "height_ok h'" "k = p # be64 h' @ be64 i" by blast
    have "h' = h"
      using height_range [of h h' p "be64 i"] r hi h
      by (simp add: below_def height_ok_def maxInt64_def maxUint64_def)
    with hi show "\<exists>r. k = (p # be64 h) @ r" by simp
  next
    assume "\<exists>r. k = (p # be64 h) @ r"
    then obtain r where "k = p # be64 h @ r" by auto
    then show "p # be64 h \<le> k \<and> below k (Some (p # be64 (i64 (h + 1))))"
      using height_range [of h h p r] h by (simp add: below_def height_ok_def maxInt64_def maxUint64_def)
  qed
  then show ?thesis using it by (auto simp: iterates_def keys_under_def)
qed

lemma iterates_under:
  assumes "iterates m p (prefixRangeEnd p) kvs"
  shows "fst ` set kvs = keys_under p m"
  unfolding set_eq_iff iterates_keys [OF assms] prefix_range keys_under_def mem_Collect_eq by blast

lemma index_hashes_iterated:
  assumes "set kvs = {(k, v). k \<in> keys_under p m \<and> m k = Some v}"
  shows "(\<lambda>e. bytes_to_hash (snd e)) ` set kvs = index_hashes p m" and "fst ` set kvs = keys_under p m"
proof -
  show "(\<lambda>e. bytes_to_hash (snd e)) ` set kvs = index_hashes p m"
    unfolding assms index_hashes_def by (auto simp: image_iff) blast
  have "\<exists>v. m k = Some v" if "k \<in> keys_under p m" for k using that by (simp add: keys_under_def)
  then show "fst ` set kvs = keys_under p m" unfolding assms by force
qed

locale indexer_store = ordered_kv "kv_db kv" kvmap bops
  for kv :: "('d, 'b) KVIndexer" and kvmap :: "'d \<Rightarrow> bytes \<rightharpoonup> bytes" and bops :: "'b \<Rightarrow> (bytes \<times> bytes option) list"
begin

lemma delete_keys_ops:
  "delete_keys (kv_db kv) msg b ks = Inr b' \<Longrightarrow> bops b' = bops b @ map (\<lambda>k. (k, None)) ks"
proof (induction ks arbitrary: b)
  case Nil
  then show ?case by (simp add: delete_keys_def)
next
  case (Cons k ks)
  from Cons.prems obtain b1 where "batch_Delete (kv_db kv) b k = Inr b1" "delete_keys (kv_db kv) msg b1 ks = Inr b'"
    by (auto simp: delete_keys_def result_simps)
  with Cons.IH [of b1] batch_delete_law [of b k b1] show ?case by simp
qed

lemma delete_tx_traces:
  assumes "foldR (\<lambda>b txHash.
         let start = traceTxPrefixStart txHash in
         bindR (wrapR (\<lambda>e. Wrap e ''delete tx trace iterator'') (db_Iterator (kv_db kv) d start (prefixRangeEnd start))) (\<lambda>it.
           delete_keys (kv_db kv) ''delete tx trace'' b (map fst it))) b hs = Inr b'"
  shows "\<exists>ks. bops b' = bops b @ map (\<lambda>k. (k, None)) ks \<and> set ks = (\<Union>h\<in>set hs. keys_under (traceTxPrefixStart h) (kvmap d))"
  using assms
proof (induction hs arbitrary: b)
  case Nil
  then show ?case by simp
next
  case (Cons h hs)
  let ?s = "traceTxPrefixStart h"
  from Cons.prems obtain it b1 where it: "db_Iterator (kv_db kv) d ?s (prefixRangeEnd ?s) = Inr it"
    and b1: "delete_keys (kv_db kv) ''delete tx trace'' b (map fst it) = Inr b1"
    and rest: "foldR (\<lambda>b txHash.
         let start = traceTxPrefixStart txHash in
         bindR (wrapR (\<lambda>e. Wrap e ''delete tx trace iterator'') (db_Iterator (kv_db kv) d start (prefixRangeEnd start))) (\<lambda>it.
           delete_keys (kv_db kv) ''delete tx trace'' b (map fst it))) b1 hs = Inr b'"
    by (auto simp: Let_def result_simps)
  from Cons.IH [OF rest] obtain ks where ks: "bops b' = bops b1 @ map (\<lambda>k. (k, None)) ks"
    "set ks = (\<Union>h\<in>set hs. keys_under (traceTxPrefixStart h) (kvmap d))" by blast
  have "fst ` set it = keys_under ?s (kvmap d)" by (rule iterates_under [OF iterator_law [OF it]])
  then show ?case
    using ks delete_keys_ops [OF b1] by (intro exI [of _ "map fst it @ ks"]) simp
qed

lemma deleteTraceKeysForBlock_ops:
  assumes "deleteTraceKeysForBlock kv d b height hs = Inr b'"
  shows "\<exists>ks. bops b' = bops b @ map (\<lambda>k. (k, None)) ks \<and>
    set ks = (\<Union>h\<in>set hs. keys_under (traceTxPrefixStart h) (kvmap d)) \<union> keys_under (traceBlockPrefixStart height) (kvmap d)"
proof -
  let ?s = "traceBlockPrefixStart height"
  from assms obtain b1 it where b1: "foldR (\<lambda>b txHash.
         let start = traceTxPrefixStart txHash in
         bindR (wrapR (\<lambda>e. Wrap e ''delete tx trace iterator'') (db_Iterator (kv_db kv) d start (prefixRangeEnd start))) (\<lambda>it.
           delete_keys (kv_db kv) ''delete tx trace'' b (map fst it))) b hs = Inr b1"
    and it: "db_Iterator (kv_db kv) d ?s (prefixRangeEnd ?s) = Inr it"
    and b': "delete_keys (kv_db kv) ''delete block trace'' b1 (map fst it) = Inr b'"
    unfolding deleteTraceKeysForBlock_def by (auto simp: Let_def result_simps)
  from delete_tx_traces [OF b1] obtain ks where ks: "bops b1 = bops b @ map (\<lambda>k. (k, None)) ks"
    "set ks = (\<Union>h\<in>set hs. keys_under (traceTxPrefixStart h) (kvmap d))" by blast
  have "fst ` set it = keys_under ?s (kvmap d)" by (rule iterates_under [OF iterator_law [OF it]])
  then show ?thesis
    using ks delete_keys_ops [OF b'] by (intro exI [of _ "ks @ map fst it"]) simp
qed

lemma resetBlock_meta:
  assumes "db_Get (kv_db kv) d (BlockMetaKey height) = Inr metaBz"
    and "(if metaBz = [] then Inr b
          else bindR (wrapR (\<lambda>e. Wrap e ''reset block: unmarshal meta'') (unmarshalBlockMetaPayload (kv_codec kv) metaBz)) (\<lambda>meta.
            delete_keys (kv_db kv) ''reset block'' b [BlockHashKey (HexToHash (kv_eth kv) (bm_Hash meta))])) = Inr b'"
  shows "\<exists>ks. bops b' = bops b @ map (\<lambda>k. (k, None)) ks \<and> set ks = BlockHashKey ` meta_hash kv (kvmap d) height"
proof (cases "metaBz = []")
  case True
  with assms(1) have "kvmap d (BlockMetaKey height) = None \<or> kvmap d (BlockMetaKey height) = Some []"
    using get_missing by simp
  then have "meta_hash kv (kvmap d) height = {}" by (auto simp: meta_hash_def)
  with True assms(2) show ?thesis by simp
next
  case False
  with assms(2) obtain meta where meta: "unmarshalBlockMetaPayload (kv_codec kv) metaBz = Inr meta"
    "delete_keys (kv_db kv) ''reset block'' b [BlockHashKey (HexToHash (kv_eth kv) (bm_Hash meta))] = Inr b'"
    by (auto simp: result_simps)
  have "kvmap d (BlockMetaKey height) = Some metaBz" by (rule get_present [OF assms(1) False])
  with False meta(1) have "meta_hash kv (kvmap d) height = {HexToHash (kv_eth kv) (bm_Hash meta)}"
    by (auto simp: meta_hash_def)
  with delete_keys_ops [OF meta(2)] show ?thesis by (intro exI [of _ "[BlockHashKey (HexToHash (kv_eth kv) (bm_Hash meta))]"]) simp
qed

lemma resetBlock_ops:
  assumes "resetBlock kv d b height = Inr b'" and lay: "store_layout (kvmap d)" and h: "height_ok height"
  shows "\<exists>ks. bops b' = bops b @ map (\<lambda>k. (k, None)) ks \<and> set ks = block_keys kv (kvmap d) height"
proof -
  from assms(1) obtain metaBz b1 it b2 b3 rit b4 where
    meta: "db_Get (kv_db kv) d (BlockMetaKey height) = Inr metaBz"
    and b1: "(if metaBz = [] then Inr b
          else bindR (wrapR (\<lambda>e. Wrap e ''reset block: unmarshal meta'') (unmarshalBlockMetaPayload (kv_codec kv) metaBz)) (\<lambda>meta.
            delete_keys (kv_db kv) ''reset block'' b [BlockHashKey (HexToHash (kv_eth kv) (bm_Hash meta))])) = Inr b1"
    and it: "db_Iterator (kv_db kv) d (txIndexPrefixStart height) (Some (txIndexPrefixEnd height)) = Inr it"
    and b2: "delete_keys (kv_db kv) ''reset block'' b1 (concat (map tx_entry_keys it)) = Inr b2"
    and b3: "deleteTraceKeysForBlock kv d b2 height (map (\<lambda>e. bytes_to_hash (snd e)) it) = Inr b3"
    and rit: "db_Iterator (kv_db kv) d (rpcTxIndexPrefixStart height) (Some (rpcTxIndexPrefixEnd height)) = Inr rit"
    and b4: "delete_keys (kv_db kv) ''reset block'' b3 (concat (map rpc_entry_keys rit)) = Inr b4"
    and b5: "delete_keys (kv_db kv) ''reset block'' b4 [BlockLogsKey height, BlockMetaKey height] = Inr b'"
    unfolding resetBlock_def by (auto simp only: result_simps)
  from resetBlock_meta [OF meta b1] obtain k1 where k1: "bops b1 = bops b @ map (\<lambda>k. (k, None)) k1"
    "set k1 = BlockHashKey ` meta_hash kv (kvmap d) height" by blast
  from deleteTraceKeysForBlock_ops [OF b3] obtain k3 where k3: "bops b3 = bops b2 @ map (\<lambda>k. (k, None)) k3"
    "set k3 = (\<Union>h\<in>set (map (\<lambda>e. bytes_to_hash (snd e)) it). keys_under (traceTxPrefixStart h) (kvmap d)) \<union>
      keys_under (traceBlockPrefixStart height) (kvmap d)" by blast
  have "set it = {(k, v). k \<in> keys_under (txIndexPrefixStart height) (kvmap d) \<and> kvmap d k = Some v}"
    using iterates_height [OF iterator_law [OF it, unfolded txIndexPrefixStart_def txIndexPrefixEnd_def] h] lay
    by (simp add: store_layout_def height_keys_ok_def txIndexPrefixStart_def)
  note ix = index_hashes_iterated [OF this]
  have "set rit = {(k, v). k \<in> keys_under (rpcTxIndexPrefixStart height) (kvmap d) \<and> kvmap d k = Some v}"
    using iterates_height [OF iterator_law [OF rit, unfolded rpcTxIndexPrefixStart_def rpcTxIndexPrefixEnd_def] h] lay
    by (simp add: store_layout_def rpcTxIndexPrefixStart_def)
  note rix = index_hashes_iterated [OF this]
  have tx: "set (concat (map tx_entry_keys kvs)) = fst ` set kvs \<union> TxHashKey ` (\<lambda>e. bytes_to_hash (snd e)) ` set kvs \<union>
      (\<Union>h\<in>(\<lambda>e. bytes_to_hash (snd e)) ` set kvs. {ReceiptKey h, RPCtxHashKey h, VirtualRPCtxKey h})" for kvs
    by (auto simp: tx_entry_keys_def Let_def)
  have rpc: "set (concat (map rpc_entry_keys kvs)) = fst ` set kvs \<union>
      (\<Union>h\<in>(\<lambda>e. bytes_to_hash (snd e)) ` set kvs. {ReceiptKey h, RPCtxHashKey h, VirtualRPCtxKey h})" for kvs
    by (auto simp: rpc_entry_keys_def Let_def)
  let ?ks = "k1 @ concat (map tx_entry_keys it) @ k3 @ concat (map rpc_entry_keys rit) @ [BlockLogsKey height, BlockMetaKey height]"
  have "bops b' = bops b @ map (\<lambda>k. (k, None)) ?ks"
    using k1(1) delete_keys_ops [OF b2] k3(1) delete_keys_ops [OF b4] delete_keys_ops [OF b5] by simp
  moreover have "set ?ks = block_keys kv (kvmap d) height"
    unfolding set_append tx rpc k1(2) k3(2) ix rix set_map block_keys_def by auto
  ultimately show ?thesis by blast
qed

lemma DeleteBlock_map:
  assumes "DeleteBlock kv d height = Inr d'" and "store_layout (kvmap d)" and "height_ok height"
  shows "kvmap d' = (\<lambda>k. if k \<in> block_keys kv (kvmap d) height then None else kvmap d k)"
proof -
  from assms(1) obtain b where b: "resetBlock kv d (db_NewBatch (kv_db kv) d) height = Inr b" "batch_Write (kv_db kv) d b = Inr d'"
    by (auto simp: DeleteBlock_def result_simps)
  from resetBlock_ops [OF b(1) assms(2,3)] obtain ks where
    "bops b = map (\<lambda>k. (k, None)) ks" "set ks = block_keys kv (kvmap d) height"
    by (auto simp: new_batch_law)
  then show ?thesis using write_law [OF b(2)] by (simp add: apply_deletes)
qed

end

lemma store_layout_subset: "store_layout m \<Longrightarrow> dom m' \<subseteq> dom m \<Longrightarrow> store_layout m'"
  unfolding store_layout_def height_keys_ok_def by blast

lemma block_keys_meta:
  assumes "height_ok h" and "height_ok h'"
  shows "BlockMetaKey h' \<in> block_keys kv m h \<longleftrightarrow> h' = h"
  using be64_eq_iff [OF assms]
  by (auto simp: block_keys_def keys_under_def BlockMetaKey_def BlockLogsKey_def BlockHashKey_def TxHashKey_def ReceiptKey_def
      RPCtxHashKey_def VirtualRPCtxKey_def txIndexPrefixStart_def rpcTxIndexPrefixStart_def traceBlockPrefixStart_def
      traceTxPrefixStart_def key_prefixes)

lemmas key_defs = BlockMetaKey_def BlockLogsKey_def BlockHashKey_def TxHashKey_def ReceiptKey_def RPCtxHashKey_def
  VirtualRPCtxKey_def TxIndexKey_def RPCtxIndexKey_def TraceTxKey_def TraceBlockKey_def txIndexPrefixStart_def
  rpcTxIndexPrefixStart_def traceBlockPrefixStart_def traceTxPrefixStart_def

lemma block_keys_other_height:
  assumes "height_ok h" and "height_ok h'" and "h' \<noteq> h"
  shows "BlockLogsKey h' \<notin> block_keys kv m h" "TxIndexKey h' i \<notin> block_keys kv m h" "RPCtxIndexKey h' i \<notin> block_keys kv m h"
    "TraceBlockKey h' c \<notin> block_keys kv m h"
proof -
  have "be64 h' @ x \<noteq> be64 h @ y" for x y
    using be64_eq_iff [OF assms(1,2)] assms(3) by (metis append_eq_append_conv length_be64)
  then show "BlockLogsKey h' \<notin> block_keys kv m h" "TxIndexKey h' i \<notin> block_keys kv m h" "RPCtxIndexKey h' i \<notin> block_keys kv m h"
    "TraceBlockKey h' c \<notin> block_keys kv m h"
    using be64_eq_iff [OF assms(1,2)] assms(3) by (auto simp: block_keys_def keys_under_def key_defs key_prefixes)
qed

lemma block_keys_hashes:
  "TxHashKey x \<in> block_keys kv m h \<longleftrightarrow> x \<in> index_hashes (txIndexPrefixStart h) m"
  "ReceiptKey x \<in> block_keys kv m h \<longleftrightarrow> x \<in> index_hashes (txIndexPrefixStart h) m \<union> index_hashes (rpcTxIndexPrefixStart h) m"
  "RPCtxHashKey x \<in> block_keys kv m h \<longleftrightarrow> x \<in> index_hashes (txIndexPrefixStart h) m \<union> index_hashes (rpcTxIndexPrefixStart h) m"
  "BlockHashKey x \<in> block_keys kv m h \<longleftrightarrow> x \<in> meta_hash kv m h"
  by (auto simp: block_keys_def keys_under_def key_defs key_prefixes)

section \<open>A concrete indexer\<close>

definition mem_kv :: "(memdb, membatch) KVIndexer" where
  "mem_kv =
     \<lparr>kv_eth = std_eth, kv_chain = null_chain, kv_codec = count_codec, kv_db = MemDB, cachedGasLimit = 0,
      virtualizationEnabled = True, virtualChainID = Some 1\<rparr>"

lemma mem_kv_simps [simp]: "kv_eth mem_kv = std_eth" "kv_chain mem_kv = null_chain" "kv_codec mem_kv = count_codec" "kv_db mem_kv = MemDB"
  by (simp_all add: mem_kv_def)

interpretation mem_indexer: indexer_store mem_kv map_of "\<lambda>b. b"
  by (simp add: indexer_store_def mem.ordered_kv_axioms)

lemma mem_delete_keys: "\<exists>b'. delete_keys MemDB msg b ks = Inr b'"
  unfolding delete_keys_def by (induction ks arbitrary: b) (auto simp: MemDB_def)

lemma mem_delete_traces: "\<exists>b'. deleteTraceKeysForBlock mem_kv d b h hs = Inr b'"
proof -
  have "\<exists>b'. foldR (\<lambda>b txHash.
         let start = traceTxPrefixStart txHash in
         bindR (wrapR (\<lambda>e. Wrap e ''delete tx trace iterator'') (db_Iterator MemDB d start (prefixRangeEnd start))) (\<lambda>it.
           delete_keys MemDB ''delete tx trace'' b (map fst it))) b hs = Inr b'"
  proof (induction hs arbitrary: b)
    case (Cons h hs)
    let ?s = "traceTxPrefixStart h"
    have it: "db_Iterator MemDB d ?s (prefixRangeEnd ?s) = Inr (mem_range d ?s (prefixRangeEnd ?s))" by (simp add: MemDB_def)
    obtain b1 where "delete_keys MemDB ''delete tx trace'' b (map fst (mem_range d ?s (prefixRangeEnd ?s))) = Inr b1"
      using mem_delete_keys by blast
    with it Cons.IH [of b1] show ?case by (simp add: Let_def)
  qed simp
  then obtain b1 where b1: "foldR (\<lambda>b txHash.
         let start = traceTxPrefixStart txHash in
         bindR (wrapR (\<lambda>e. Wrap e ''delete tx trace iterator'') (db_Iterator MemDB d start (prefixRangeEnd start))) (\<lambda>it.
           delete_keys MemDB ''delete tx trace'' b (map fst it))) b hs = Inr b1" by blast
  let ?s = "traceBlockPrefixStart h"
  have "db_Iterator MemDB d ?s (prefixRangeEnd ?s) = Inr (mem_range d ?s (prefixRangeEnd ?s))" by (simp add: MemDB_def)
  then show ?thesis
    using b1 mem_delete_keys [of "''delete block trace''" b1] by (simp add: deleteTraceKeysForBlock_def Let_def)
qed

text \<open>On the in-memory database only unreadable metadata makes a reset fail.\<close>

lemma mem_resetBlock:
  assumes "map_of d (BlockMetaKey h) = Some (mustMarshalBlockMeta count_codec meta) \<or> map_of d (BlockMetaKey h) = None"
  shows "\<exists>b'. resetBlock mem_kv d b h = Inr b'"
proof -
  let ?bz = "case map_of d (BlockMetaKey h) of None \<Rightarrow> [] | Some v \<Rightarrow> v"
  have get: "db_Get MemDB d (BlockMetaKey h) = Inr ?bz" by (simp add: MemDB_def)
  have "\<exists>b1. (if ?bz = [] then Inr b
      else bindR (wrapR (\<lambda>e. Wrap e ''reset block: unmarshal meta'') (unmarshalBlockMetaPayload count_codec ?bz)) (\<lambda>meta.
        delete_keys MemDB ''reset block'' b [BlockHashKey (HexToHash std_eth (bm_Hash meta))])) = Inr b1"
    using assms
  proof
    assume "map_of d (BlockMetaKey h) = Some (mustMarshalBlockMeta count_codec meta)"
    then have "?bz = mustMarshalBlockMeta count_codec meta" by simp
    moreover have "mustMarshalBlockMeta count_codec meta \<noteq> []" by (simp add: mustMarshalBlockMeta_def)
    ultimately show ?thesis
      by (simp only: if_False count.block_meta wrapR.simps bindR.simps mem_delete_keys)
  qed simp
  then obtain b1 where b1: "(if ?bz = [] then Inr b
      else bindR (wrapR (\<lambda>e. Wrap e ''reset block: unmarshal meta'') (unmarshalBlockMetaPayload count_codec ?bz)) (\<lambda>meta.
        delete_keys MemDB ''reset block'' b [BlockHashKey (HexToHash std_eth (bm_Hash meta))])) = Inr b1" by blast
  let ?it = "mem_range d (txIndexPrefixStart h) (Some (txIndexPrefixEnd h))"
  let ?rit = "mem_range d (rpcTxIndexPrefixStart h) (Some (rpcTxIndexPrefixEnd h))"
  have it: "db_Iterator MemDB d s e = Inr (mem_range d s e)" for s e by (simp add: MemDB_def)
  obtain b2 where b2: "delete_keys MemDB ''reset block'' b1 (concat (map tx_entry_keys ?it)) = Inr b2" using mem_delete_keys by blast
  obtain b3 where b3: "deleteTraceKeysForBlock mem_kv d b2 h (map (\<lambda>e. bytes_to_hash (snd e)) ?it) = Inr b3"
    using mem_delete_traces by blast
  obtain b4 where b4: "delete_keys MemDB ''reset block'' b3 (concat (map rpc_entry_keys ?rit)) = Inr b4" using mem_delete_keys by blast
  obtain b5 where b5: "delete_keys MemDB ''reset block'' b4 [BlockLogsKey h, BlockMetaKey h] = Inr b5" using mem_delete_keys by blast
  show ?thesis
    unfolding resetBlock_def mem_kv_simps get it wrapR.simps bindR.simps b1 b2 b3 b4 b5 by blast
qed

definition mem_store :: memdb where
  "mem_store =
     [(BlockMetaKey 5, mustMarshalBlockMeta count_codec sample_meta), (BlockMetaKey 6, [1]), (TxIndexKey 5 0, hash_bytes 9),
      (TxHashKey 9, [2]), (RPCtxIndexKey 6 0, hash_bytes 8)]"

lemma mem_store_layout: "store_layout (map_of mem_store)"
  by (auto simp: store_layout_def height_keys_ok_def mem_store_def BlockMetaKey_def TxIndexKey_def RPCtxIndexKey_def TxHashKey_def
      maxInt64_def key_prefixes intro!: height_okI split: if_splits)

lemma mem_DeleteBlock: "\<exists>d'. DeleteBlock mem_kv mem_store 5 = Inr d'"
proof -
  have "map_of mem_store (BlockMetaKey 5) = Some (mustMarshalBlockMeta count_codec sample_meta)" by (simp add: mem_store_def)
  then obtain b where "resetBlock mem_kv mem_store (db_NewBatch MemDB mem_store) 5 = Inr b"
    using mem_resetBlock by blast
  then show ?thesis by (simp add: DeleteBlock_def) (simp add: MemDB_def)
qed

lemma height_ok_small: "height_ok 5" "height_ok 6"
  by (simp_all add: height_ok_def maxInt64_def)

lemma DeleteBlock_effect:
  assumes "indexer_store kv kvmap bops" and "store_layout (kvmap d)" and "height_ok h" and "DeleteBlock kv d h = Inr d'"
  shows "kvmap d' = (\<lambda>k. if k \<in> block_keys kv (kvmap d) h then None else kvmap d k) \<and> store_layout (kvmap d') \<and>
    meta_heights (kvmap d') = meta_heights (kvmap d) - {h}"
proof -
  have m: "kvmap d' = (\<lambda>k. if k \<in> block_keys kv (kvmap d) h then None else kvmap d k)"
    by (rule indexer_store.DeleteBlock_map [OF assms(1,4,2,3)])
  then have "dom (kvmap d') \<subseteq> dom (kvmap d)" by (auto simp: m split: if_splits)
  then have "store_layout (kvmap d')" by (rule store_layout_subset [OF assms(2)])
  moreover have "meta_heights (kvmap d') = meta_heights (kvmap d) - {h}"
    using block_keys_meta [OF assms(3)] by (auto simp: meta_heights_def m dom_def)
  ultimately show ?thesis using m by blast
qed

text \<open>A cached trace that the reader's limit allows is returned as it was stored, or as \<open>null\<close> if it was empty; the
  write touches no key of an indexed block.\<close>

lemma trace_cache_read:
  assumes "indexer_store kv kvmap bops" and "capnp_codec (kv_codec kv)" and "SetTraceTransaction kv marshal d x cfg raw = Inr d'"
    and "db_Get (kv_db kv) d' (TraceTxKey x (traceConfigKey marshal cfg)) = Inr bz"
    and "json = (if raw = [] then str_bytes ''null'' else raw)" and "int (length (mustMarshalTracePayload (kv_codec kv) json)) \<le> capnp_readLimit"
  shows "GetTraceTransaction kv marshal d' x cfg = Inr json \<and> (\<forall>k. hd k \<noteq> KeyPrefixTraceTx \<longrightarrow> kvmap d' k = kvmap d k)"
proof -
  let ?k = "TraceTxKey x (traceConfigKey marshal cfg)"
  have ok: "ordered_kv (kv_db kv) kvmap bops" using assms(1) by (simp add: indexer_store_def)
  have m: "kvmap d' = (kvmap d)(?k \<mapsto> mustMarshalTracePayload (kv_codec kv) json)"
    using assms(3,5) ordered_kv.set_law [OF ok] by (auto simp: SetTraceTransaction_def result_simps)
  then have "bz = mustMarshalTracePayload (kv_codec kv) json"
    using ordered_kv.get_law [OF ok assms(4)] by simp
  moreover have "mustMarshalTracePayload (kv_codec kv) json \<noteq> []" by (simp add: mustMarshalTracePayload_def)
  ultimately have "GetTraceTransaction kv marshal d' x cfg = Inr json"
    using assms(4) capnp_codec.trace_payload [OF assms(2,6)] by (simp add: GetTraceTransaction_def)
  then show ?thesis using m by (auto simp: TraceTxKey_def)
qed

section \<open>Properties\<close>

text \<open>C12: Deleting a block removes exactly the keys of that block (\<open>block_keys\<close>): its metadata, logs and
  hash entry, its two transaction indexes, everything filed under the hashes these indexes name, and
  the traces of the block and of its Ethereum transactions. Every other key keeps its value, the key
  layout is preserved, and the indexed heights lose exactly the deleted one.\<close>

theorem DeleteBlock_exact:
  assumes "indexer_store kv kvmap bops" and "store_layout (kvmap d)" and "height_ok h" and "DeleteBlock kv d h = Inr d'"
  shows "kvmap d' = (\<lambda>k. if k \<in> block_keys kv (kvmap d) h then None else kvmap d k) \<and> store_layout (kvmap d') \<and>
    meta_heights (kvmap d') = meta_heights (kvmap d) - {h}"
  by (rule DeleteBlock_effect [OF assms])

theorem DeleteBlock_exact_witness:
  "\<exists>d'. DeleteBlock mem_kv mem_store 5 = Inr d' \<and> map_of d' (BlockMetaKey 5) = None \<and> map_of d' (BlockMetaKey 6) = Some [1]"
proof -
  obtain d' where d': "DeleteBlock mem_kv mem_store 5 = Inr d'" using mem_DeleteBlock by blast
  have six: "map_of mem_store (BlockMetaKey 6) = Some [1]"
    using be64_eq_iff [OF height_ok_small(2,1)] by (simp add: mem_store_def BlockMetaKey_def)
  note m = conjunct1 [OF DeleteBlock_exact [OF mem_indexer.indexer_store_axioms mem_store_layout height_ok_small(1) d']]
  have "map_of d' (BlockMetaKey 5) = None" "map_of d' (BlockMetaKey 6) = Some [1]"
    unfolding m using six by (simp_all add: block_keys_meta height_ok_small)
  with d' show ?thesis by blast
qed

text \<open>C17: Deleting a block does not disturb other blocks: the metadata, logs, both transaction indexes and
  the block traces of every other height keep their values, and so do the results, receipts and RPC
  transactions of every hash that the deleted block does not index.\<close>

theorem DeleteBlock_isolates:
  assumes "indexer_store kv kvmap bops" and "store_layout (kvmap d)" and "height_ok h" and "DeleteBlock kv d h = Inr d'"
    and "height_ok h'" and "h' \<noteq> h"
    and "x \<notin> index_hashes (txIndexPrefixStart h) (kvmap d) \<union> index_hashes (rpcTxIndexPrefixStart h) (kvmap d)"
  shows "\<forall>k\<in>{BlockMetaKey h', BlockLogsKey h', TxIndexKey h' i, RPCtxIndexKey h' i, TraceBlockKey h' c,
      TxHashKey x, ReceiptKey x, RPCtxHashKey x}. kvmap d' k = kvmap d k"
proof
  fix k
  assume "k \<in> {BlockMetaKey h', BlockLogsKey h', TxIndexKey h' i, RPCtxIndexKey h' i, TraceBlockKey h' c,
      TxHashKey x, ReceiptKey x, RPCtxHashKey x}"
  then have "k \<notin> block_keys kv (kvmap d) h"
    using assms(6,7)
    by (elim insertE) (simp_all add: block_keys_other_height [OF assms(3,5,6)] block_keys_meta [OF assms(3,5)] block_keys_hashes)
  then show "kvmap d' k = kvmap d k"
    unfolding indexer_store.DeleteBlock_map [OF assms(1,4,2,3)] by simp
qed

theorem DeleteBlock_isolates_witness:
  "\<exists>d'. DeleteBlock mem_kv mem_store 5 = Inr d' \<and> map_of d' (RPCtxIndexKey 6 0) = map_of mem_store (RPCtxIndexKey 6 0)"
proof -
  obtain d' where d': "DeleteBlock mem_kv mem_store 5 = Inr d'" using mem_DeleteBlock by blast
  have "index_hashes (txIndexPrefixStart 5) (map_of mem_store) \<union> index_hashes (rpcTxIndexPrefixStart 5) (map_of mem_store) \<subseteq> {9}"
    using be64_eq_iff [OF height_ok_small(1,2)]
    by (auto simp: index_hashes_def keys_under_def mem_store_def key_defs key_prefixes split: if_splits)
  then have "1 \<notin> index_hashes (txIndexPrefixStart 5) (map_of mem_store) \<union> index_hashes (rpcTxIndexPrefixStart 5) (map_of mem_store)"
    by auto
  from DeleteBlock_isolates [OF mem_indexer.indexer_store_axioms mem_store_layout height_ok_small(1) d' height_ok_small(2) _ this, of 0 "[]"]
  have "map_of d' (RPCtxIndexKey 6 0) = map_of mem_store (RPCtxIndexKey 6 0)" by simp
  with d' show ?thesis by blast
qed

end
