(* ===== verification/Tx_Parsing.thy ===== *)
theory Tx_Parsing
  imports Chain_Types "HOL-Library.Countable"
begin

text \<open>
  Parsing of Ethereum transaction outcomes out of ABCI results, \<open>internal/evm/rpc/types/parsed_tx.go\<close>,
  and the normalisation of log indexes, \<open>tx_response_normalize.go\<close>. The protobuf and JSON decoders
  are parameters (fields of \<open>Chain_Lib\<close>); the regular expressions are matched by hand-written
  functions that follow Go's leftmost-first semantics. Where the code can panic, the result is an
  option and \<open>None\<close> is the panic.
\<close>

section \<open>Definitions\<close>

subsection \<open>Parsed transactions\<close>

record ParsedTx =
  p_MsgIndex :: int
  p_Hash :: hash
  p_EthTxIndex :: int
  p_GasUsed :: int
  p_Failed :: bool
  p_Reason :: string
  p_VMError :: string

record ParsedTxs =
  p_Txs :: "ParsedTx list"
  p_TxHashes :: "hash \<rightharpoonup> int"

definition EthTxIndexUnitialized :: int where
  "EthTxIndexUnitialized = -1"

definition NewParsedTx :: "int \<Rightarrow> ParsedTx" where
  "NewParsedTx msgIndex =
     \<lparr>p_MsgIndex = msgIndex, p_Hash = 0, p_EthTxIndex = EthTxIndexUnitialized, p_GasUsed = 0, p_Failed = False,
      p_Reason = [], p_VMError = []\<rparr>"

definition parse_uint :: "string \<Rightarrow> nat \<Rightarrow> go_error + int" where
  "parse_uint s bits = wrapR (\<lambda>e. Errorf ''strconv.ParseUint'') (bindR (ParseUint s bits) (\<lambda>n. Inr (int n)))"

definition fillTxAttribute :: "Eth_Lib \<Rightarrow> Chain_Lib \<Rightarrow> ParsedTx \<Rightarrow> string \<Rightarrow> string \<Rightarrow> go_error + ParsedTx" where
  "fillTxAttribute E L tx key val =
     (if key = AttributeKeyEthereumTxHash L then Inr (tx\<lparr>p_Hash := HexToHash E val\<rparr>)
      else if key = AttributeKeyTxIndex L then bindR (parse_uint val 31) (\<lambda>i. Inr (tx\<lparr>p_EthTxIndex := i32 i\<rparr>))
      else if key = AttributeKeyTxGasUsed L then bindR (parse_uint val 64) (\<lambda>g. Inr (tx\<lparr>p_GasUsed := g\<rparr>))
      else if key = AttributeKeyEthereumTxFailed L then Inr (tx\<lparr>p_Failed := val \<noteq> []\<rparr>)
      else Inr tx)"

definition fillTxAttributes :: "Eth_Lib \<Rightarrow> Chain_Lib \<Rightarrow> ParsedTx \<Rightarrow> EventAttribute list \<Rightarrow> go_error + ParsedTx" where
  "fillTxAttributes E L tx attrs = foldR (\<lambda>t a. fillTxAttribute E L t (Key a) (Val a)) tx attrs"

definition parseTxFromEvent :: "Eth_Lib \<Rightarrow> Chain_Lib \<Rightarrow> ParsedTxs \<Rightarrow> EventAttribute list \<Rightarrow> go_error + ParsedTxs" where
  "parseTxFromEvent E L p attrs =
     (let msgIndex = int (length (p_Txs p)) in
      bindR (fillTxAttributes E L (NewParsedTx msgIndex) attrs) (\<lambda>tx.
        Inr (p\<lparr>p_Txs := p_Txs p @ [tx], p_TxHashes := (p_TxHashes p)(p_Hash tx \<mapsto> msgIndex)\<rparr>)))"

subsection \<open>Regular expressions\<close>

definition is_digit :: "char \<Rightarrow> bool" where
  "is_digit c \<longleftrightarrow> digit_val c \<noteq> None"

definition is_hex_char :: "char \<Rightarrow> bool" where
  "is_hex_char c \<longleftrightarrow> is_digit c \<or> (let n = of_char c :: nat in 97 \<le> n \<and> n \<le> 102 \<or> 65 \<le> n \<and> n \<le> 70)"

definition take_lit :: "string \<Rightarrow> string \<Rightarrow> string option" where
  "take_lit p s = (if HasPrefix s p then Some (drop (length p) s) else None)"

text \<open>\<open>(\d+)\<close> followed by a literal that does not start with a digit: the digits are the longest run.\<close>

definition take_digits :: "string \<Rightarrow> (string \<times> string) option" where
  "take_digits s = (let ds = takeWhile is_digit s in if ds = [] then None else Some (ds, drop (length ds) s))"

fun find_match :: "(string \<Rightarrow> 'a option) \<Rightarrow> string \<Rightarrow> 'a option" where
  "find_match m [] = m []"
| "find_match m (c # cs) = (case m (c # cs) of Some r \<Rightarrow> Some r | None \<Rightarrow> find_match m cs)"

text \<open>The common head of both expressions: the prefix, the message index and the rest of the text.\<close>

definition match_index :: "string \<Rightarrow> (string \<times> string) option" where
  "match_index s =
     Option.bind (take_lit ''failed to execute message; message index: '' s) (\<lambda>t.
     Option.bind (take_digits t) (\<lambda>(ds, u).
     map_option (\<lambda>v. (ds, v)) (take_lit '': '' u)))"

definition newline :: char where
  "newline = CHR 0x0A"

definition msgErrJSONRx :: "string \<Rightarrow> (string \<times> string) option" where
  "msgErrJSONRx s =
     find_match (\<lambda>t. map_option (\<lambda>(ds, v). (ds, takeWhile (\<lambda>c. c \<noteq> newline) v)) (match_index t)) s"

text \<open>The JSON part of the second expression: \<open>{"tx_hash":"0x\<close>, 64 hexadecimal digits,
  \<open>","gas_used":\<close>, digits, a comma, anything but newlines and a closing brace at the end of the text.\<close>

definition quote :: string where
  "quote = [CHR 0x22]"

definition is_vm_error_json :: "string \<Rightarrow> bool" where
  "is_vm_error_json s =
     (case take_lit (''{'' @ quote @ ''tx_hash'' @ quote @ '':'' @ quote @ ''0x'') s of
        None \<Rightarrow> False
      | Some t \<Rightarrow>
          length (take 64 t) = 64 \<and> list_all is_hex_char (take 64 t) \<and>
          (case take_lit (quote @ '','' @ quote @ ''gas_used'' @ quote @ '':'') (drop 64 t) of
             None \<Rightarrow> False
           | Some u \<Rightarrow>
               (case take_digits u of
                  None \<Rightarrow> False
                | Some (ds, v) \<Rightarrow>
                    (case take_lit '','' v of
                       None \<Rightarrow> False
                     | Some w \<Rightarrow> w \<noteq> [] \<and> last w = CHR ''}'' \<and> newline \<notin> set w))))"

definition failedEthereumTxLogRegex :: "string \<Rightarrow> (string \<times> string) option" where
  "failedEthereumTxLogRegex s =
     find_match (\<lambda>t. Option.bind (match_index t) (\<lambda>(ds, v). if is_vm_error_json v then Some (ds, v) else None)) s"

subsection \<open>Failed transactions\<close>

definition failedTxFromTextLog :: "SdkTx option \<Rightarrow> ExecTxResult \<Rightarrow> int \<Rightarrow> string \<Rightarrow> go_error + ParsedTx" where
  "failedTxFromTextLog tx result msgIndex vmError =
     (case tx of
        None \<Rightarrow> Inl (Errorf ''failed tx fallback requires decoded tx'')
      | Some t \<Rightarrow>
          if msgIndex < 0 \<or> int (length (GetMsgs t)) \<le> msgIndex then Inl (Errorf ''message index out of bounds'')
          else
            (case GetMsgs t ! nat msgIndex of
               OtherMsg _ \<Rightarrow> Inl (Errorf ''message index is not an ethereum tx'')
             | EthereumMsg ethMsg \<Rightarrow>
                 let gasUsed = u64 (GasUsed result) in
                 Inr \<lparr>p_MsgIndex = msgIndex, p_Hash = EthMsg_Hash ethMsg, p_EthTxIndex = EthTxIndexUnitialized,
                      p_GasUsed = (if gasUsed = 0 then GetGas ethMsg else gasUsed), p_Failed = True, p_Reason = [],
                      p_VMError = vmError\<rparr>))"

definition append_parsed :: "ParsedTxs \<Rightarrow> ParsedTx \<Rightarrow> int \<Rightarrow> ParsedTxs" where
  "append_parsed p tx msgIndex =
     p\<lparr>p_Txs := p_Txs p @ [tx], p_TxHashes := (p_TxHashes p)(p_Hash tx \<mapsto> msgIndex)\<rparr>"

definition parseFromLog :: "Eth_Lib \<Rightarrow> Chain_Lib \<Rightarrow> ParsedTxs \<Rightarrow> ExecTxResult \<Rightarrow> SdkTx option \<Rightarrow> go_error + ParsedTxs" where
  "parseFromLog E L p result tx =
     (case msgErrJSONRx (Log result) of
        None \<Rightarrow> Inl (Errorf ''failed to locate message error in abci log'')
      | Some (msgIndexStr, logJSON) \<Rightarrow>
          bindR (wrapR (\<lambda>e. Errorf ''failed to parse message index as int'') (Atoi msgIndexStr)) (\<lambda>msgIndex.
            case sonic_vmError L logJSON of
              Inl err \<Rightarrow>
                (case failedTxFromTextLog tx result msgIndex logJSON of
                   Inl _ \<Rightarrow> Inl (Wrap err ''failed to parse abci log as JSON'')
                 | Inr failedTx \<Rightarrow> Inr (append_parsed p failedTx msgIndex))
            | Inr vmErr \<Rightarrow>
                Inr (append_parsed p
                  \<lparr>p_MsgIndex = msgIndex, p_Hash = HexToHash E (vm_Hash vmErr), p_EthTxIndex = EthTxIndexUnitialized,
                   p_GasUsed = vm_GasUsed vmErr, p_Failed = True, p_Reason = vm_Reason vmErr,
                   p_VMError = vm_VMError vmErr\<rparr> msgIndex)))"

subsection \<open>ParseTxResult and lookups\<close>

definition parse_events :: "Eth_Lib \<Rightarrow> Chain_Lib \<Rightarrow> Event list \<Rightarrow> go_error + ParsedTxs" where
  "parse_events E L events =
     foldR (\<lambda>p ev. if EvType ev \<noteq> EventTypeEthereumTx L then Inr p else parseTxFromEvent E L p (Attributes ev))
       \<lparr>p_Txs = [], p_TxHashes = Map.empty\<rparr> events"

text \<open>The gas limit replaces the gas used; \<open>tx.GetMsgs()[i].(*evmtypes.MsgEthereumTx)\<close> panics when
  message \<open>i\<close> is missing or is another message.\<close>

fun charge_gas_limits :: "Msg list \<Rightarrow> ParsedTx list \<Rightarrow> ParsedTx list option" where
  "charge_gas_limits msgs [] = Some []"
| "charge_gas_limits (EthereumMsg m # msgs) (t # ts) =
     map_option (\<lambda>ts'. t\<lparr>p_Failed := True, p_GasUsed := GetGas m\<rparr> # ts') (charge_gas_limits msgs ts)"
| "charge_gas_limits _ (t # ts) = None"

definition ParseTxResult :: "Eth_Lib \<Rightarrow> Chain_Lib \<Rightarrow> ExecTxResult \<Rightarrow> SdkTx option \<Rightarrow> (go_error + ParsedTxs) option" where
  "ParseTxResult E L result tx =
     (case parse_events E L (Events result) of
        Inl e \<Rightarrow> Some (Inl e)
      | Inr p \<Rightarrow>
          if Code result \<noteq> 0 \<and> Codespace result = evm_ModuleName L
          then Some (parseFromLog E L (p\<lparr>p_Txs := map (\<lambda>t. t\<lparr>p_Failed := True\<rparr>) (p_Txs p)\<rparr>) result tx)
          else if Code result \<noteq> 0 \<and> tx \<noteq> None
          then map_option (\<lambda>ts. Inr (p\<lparr>p_Txs := ts\<rparr>)) (charge_gas_limits (GetMsgs (the tx)) (p_Txs p))
          else Some (Inr p))"

definition GetTxByMsgIndex :: "ParsedTxs \<Rightarrow> int \<Rightarrow> ParsedTx option" where
  "GetTxByMsgIndex p i = (if i < 0 \<or> int (length (p_Txs p)) \<le> i then None else Some (p_Txs p ! nat i))"

text \<open>\<open>GetTxByHash\<close> indexes the slice without a check.\<close>

definition GetTxByHash :: "ParsedTxs \<Rightarrow> hash \<Rightarrow> ParsedTx option option" where
  "GetTxByHash p h =
     (case p_TxHashes p h of
        None \<Rightarrow> Some None
      | Some idx \<Rightarrow> (if idx < 0 \<or> int (length (p_Txs p)) \<le> idx then None else Some (Some (p_Txs p ! nat idx))))"

definition GetTxByTxIndex :: "ParsedTxs \<Rightarrow> int \<Rightarrow> ParsedTx option" where
  "GetTxByTxIndex p txIndex =
     (case p_Txs p of [] \<Rightarrow> None | t # ts \<Rightarrow> GetTxByMsgIndex p (i64 (txIndex - p_EthTxIndex t)))"

definition AccumulativeGasUsed :: "ParsedTxs \<Rightarrow> int \<Rightarrow> int option" where
  "AccumulativeGasUsed p msgIndex =
     (if int (length (p_Txs p)) \<le> msgIndex then None
      else Some (foldl (\<lambda>acc t. u64 (acc + p_GasUsed t)) 0 (take (nat (msgIndex + 1)) (p_Txs p))))"

text \<open>\<open>getter\<close> is one of the lookups above, applied to its key; both the lookup and the sum may panic.\<close>

definition ParseTxIndexerResult ::
  "Eth_Lib \<Rightarrow> Chain_Lib \<Rightarrow> ResultTx \<Rightarrow> SdkTx option \<Rightarrow> (ParsedTxs \<Rightarrow> ParsedTx option option) \<Rightarrow> (go_error + TxResult) option" where
  "ParseTxIndexerResult E L txResult tx getter =
     Option.bind (ParseTxResult E L (rt_TxResult txResult) tx) (\<lambda>r.
       case r of
         Inl err \<Rightarrow> Some (Inl (Wrap err ''failed to parse tx events''))
       | Inr txs \<Rightarrow>
           Option.bind (getter txs) (\<lambda>found.
             case found of
               None \<Rightarrow> Some (Inl (Errorf ''ethereum tx not found in msgs''))
             | Some parsedTx \<Rightarrow>
                 map_option (\<lambda>cumulative.
                   Inr \<lparr>tr_Height = rt_Height txResult, tr_TxIndex = rt_Index txResult, tr_MsgIndex = u32 (p_MsgIndex parsedTx),
                        tr_EthTxIndex = p_EthTxIndex parsedTx, tr_Failed = p_Failed parsedTx, tr_GasUsed = p_GasUsed parsedTx,
                        tr_CumulativeGasUsed = cumulative\<rparr>) (AccumulativeGasUsed txs (p_MsgIndex parsedTx))))"

subsection \<open>Normalising response indexes\<close>

definition countEthereumTxEvents :: "Chain_Lib \<Rightarrow> Event list \<Rightarrow> int" where
  "countEthereumTxEvents L events = int (length (filter (\<lambda>ev. EvType ev = EventTypeEthereumTx L) events))"

definition inferFailedEthereumTxCount :: "Chain_Lib \<Rightarrow> string \<Rightarrow> string \<Rightarrow> int" where
  "inferFailedEthereumTxCount L codespace log =
     (if codespace \<noteq> evm_ModuleName L \<and> codespace \<noteq> UndefinedCodespace L then 0
      else
        (case failedEthereumTxLogRegex log of
           None \<Rightarrow> 0
         | Some (ds, js) \<Rightarrow>
             (case json_vmError L js of
                Inl e \<Rightarrow> 0
              | Inr vmErr \<Rightarrow>
                  if vm_VMError vmErr = [] then 0
                  else (case Atoi ds of Inl e \<Rightarrow> 0 | Inr msgIndex \<Rightarrow> if msgIndex < 0 then 0 else i64 (msgIndex + 1)))))"

definition ethTxCount_of :: "Chain_Lib \<Rightarrow> ExecTxResult \<Rightarrow> int" where
  "ethTxCount_of L res =
     max (countEthereumTxEvents L (Events res)) (inferFailedEthereumTxCount L (Codespace res) (Log res))"

text \<open>The inner loop over the logs of one response: the new logs, whether one changed, and the next
  log index.\<close>

fun norm_logs :: "int \<Rightarrow> int \<Rightarrow> RespLog list \<Rightarrow> RespLog list \<times> bool \<times> int" where
  "norm_logs txIndex logIndex [] = ([], False, logIndex)"
| "norm_logs txIndex logIndex (l # ls) =
     (case norm_logs txIndex (u64 (logIndex + 1)) ls of (ls', dirty, li) \<Rightarrow>
       (l\<lparr>rl_TxIndex := txIndex, rl_Index := logIndex\<rparr> # ls',
        rl_TxIndex l \<noteq> txIndex \<or> rl_Index l \<noteq> logIndex \<or> dirty, li))"

text \<open>The loop over the messages of one response. The state is the next transaction and log index,
  whether the data changed and how many Ethereum responses were seen. The last counts elements of a
  slice and cannot wrap; the same holds of the number of events it is compared with.\<close>

fun norm_responses ::
  "Chain_Lib \<Rightarrow> int \<Rightarrow> int \<Rightarrow> bool \<Rightarrow> int \<Rightarrow> AnyMsg list \<Rightarrow> go_error + (AnyMsg list \<times> int \<times> int \<times> bool \<times> int)" where
  "norm_responses L txIndex logIndex dataDirty seen [] = Inr ([], txIndex, logIndex, dataDirty, seen)"
| "norm_responses L txIndex logIndex dataDirty seen (rsp # rsps) =
     (if TypeUrl rsp \<noteq> ''/'' @ Response_MessageName L
      then bindR (norm_responses L txIndex logIndex dataDirty seen rsps) (\<lambda>(rs, st). Inr (rsp # rs, st))
      else
        bindR (Unmarshal_Response L (Value rsp)) (\<lambda>response.
          case norm_logs txIndex logIndex (resp_Logs response) of (logs, responseDirty, li) \<Rightarrow>
            bindR (if responseDirty
                   then bindR (Marshal_Response L (response\<lparr>resp_Logs := logs\<rparr>)) (\<lambda>bz. Inr (rsp\<lparr>Value := bz\<rparr>))
                   else Inr rsp) (\<lambda>rsp'.
            bindR (norm_responses L (u64 (txIndex + 1)) li (dataDirty \<or> responseDirty) (seen + 1) rsps) (\<lambda>(rs, st).
              Inr (rsp' # rs, st)))))"

definition norm_result :: "Chain_Lib \<Rightarrow> int \<Rightarrow> int \<Rightarrow> ExecTxResult \<Rightarrow> go_error + (ExecTxResult \<times> int \<times> int)" where
  "norm_result L txIndex logIndex res =
     (let ethTxCount = ethTxCount_of L res in
      if Code res \<noteq> 0 \<or> Data res = [] then Inr (res, u64 (txIndex + ethTxCount), logIndex)
      else
        bindR (Unmarshal_TxMsgData L (Data res)) (\<lambda>txMsgData.
        bindR (norm_responses L txIndex logIndex False 0 (MsgResponses txMsgData)) (\<lambda>(rs, ti, li, dataDirty, seen).
          let ti' = (if seen < ethTxCount then u64 (ti + (ethTxCount - seen)) else ti) in
          if dataDirty
          then bindR (Marshal_TxMsgData L (txMsgData\<lparr>MsgResponses := rs\<rparr>)) (\<lambda>data. Inr (res\<lparr>Data := data\<rparr>, ti', li))
          else Inr (res, ti', li))))"

fun norm_results :: "Chain_Lib \<Rightarrow> int \<Rightarrow> int \<Rightarrow> ExecTxResult option list \<Rightarrow> go_error + ExecTxResult option list" where
  "norm_results L txIndex logIndex [] = Inr []"
| "norm_results L txIndex logIndex (None # rs) = bindR (norm_results L txIndex logIndex rs) (\<lambda>out. Inr (None # out))"
| "norm_results L txIndex logIndex (Some res # rs) =
     bindR (norm_result L txIndex logIndex res) (\<lambda>(res', ti, li).
     bindR (norm_results L ti li rs) (\<lambda>out. Inr (Some res' # out)))"

definition NormalizeTxResponseIndexes :: "Chain_Lib \<Rightarrow> ExecTxResult option list \<Rightarrow> go_error + ExecTxResult option list" where
  "NormalizeTxResponseIndexes L input = norm_results L 0 0 input"

section \<open>Lemmas: parsed transactions\<close>

definition wf_tx :: "ParsedTx \<Rightarrow> bool" where
  "wf_tx t \<longleftrightarrow> -1 \<le> p_EthTxIndex t \<and> p_EthTxIndex t < 2 ^ 31 \<and> 0 \<le> p_GasUsed t \<and> p_GasUsed t < 2 ^ 64"

lemma parse_uint_bound: "parse_uint s bits = Inr x \<Longrightarrow> 0 \<le> x \<and> x < 2 ^ bits"
  using ParseUint_bound [of s bits "nat x"]
  by (auto simp: parse_uint_def result_simps dest: ParseUint_bound)

lemma i32_id: "0 \<le> x \<Longrightarrow> x < 2147483648 \<Longrightarrow> i32 x = x"
  by (simp add: i32_def signed_take_bit_int_eq_self)

lemma fillTxAttribute_wf:
  assumes "fillTxAttribute E L tx k v = Inr tx'" and "wf_tx tx"
  shows "wf_tx tx' \<and> p_MsgIndex tx' = p_MsgIndex tx"
  using assms
  by (auto simp: fillTxAttribute_def wf_tx_def result_simps i32_id split: if_splits dest!: parse_uint_bound)

lemma fillTxAttributes_wf:
  assumes "fillTxAttributes E L (NewParsedTx i) attrs = Inr tx"
  shows "wf_tx tx \<and> p_MsgIndex tx = i"
  using assms unfolding fillTxAttributes_def
proof (rule foldR_inv)
  show "wf_tx (NewParsedTx i) \<and> p_MsgIndex (NewParsedTx i) = i"
    by (simp add: NewParsedTx_def wf_tx_def EthTxIndexUnitialized_def)
qed (use fillTxAttribute_wf in metis)

text \<open>The transactions parsed from events are numbered by position, and the hash map points at a
  transaction with that hash.\<close>

definition wf_parsed :: "ParsedTxs \<Rightarrow> bool" where
  "wf_parsed p \<longleftrightarrow>
     (\<forall>i<length (p_Txs p). p_MsgIndex (p_Txs p ! i) = int i \<and> wf_tx (p_Txs p ! i)) \<and>
     (\<forall>h i. p_TxHashes p h = Some i \<longrightarrow> 0 \<le> i \<and> i < int (length (p_Txs p)) \<and> p_Hash (p_Txs p ! nat i) = h) \<and>
     (\<forall>t\<in>set (p_Txs p). p_TxHashes p (p_Hash t) \<noteq> None)"

lemma wf_parsed_hash:
  "wf_parsed p \<Longrightarrow> p_TxHashes p h = Some i \<Longrightarrow> 0 \<le> i \<and> i < int (length (p_Txs p)) \<and> p_Hash (p_Txs p ! nat i) = h"
  by (simp add: wf_parsed_def)

lemma parseTxFromEvent_wf:
  assumes "parseTxFromEvent E L p attrs = Inr p'" and "wf_parsed p"
  shows "wf_parsed p' \<and> length (p_Txs p') = Suc (length (p_Txs p))"
proof -
  obtain tx where tx: "fillTxAttributes E L (NewParsedTx (int (length (p_Txs p)))) attrs = Inr tx"
    "p' = p\<lparr>p_Txs := p_Txs p @ [tx], p_TxHashes := (p_TxHashes p)(p_Hash tx \<mapsto> int (length (p_Txs p)))\<rparr>"
    using assms(1) by (auto simp: parseTxFromEvent_def Let_def result_simps)
  have wf: "wf_tx tx" "p_MsgIndex tx = int (length (p_Txs p))" using fillTxAttributes_wf [OF tx(1)] by auto
  have "\<forall>i<length (p_Txs p'). p_MsgIndex (p_Txs p' ! i) = int i \<and> wf_tx (p_Txs p' ! i)"
    using assms(2) wf by (simp add: wf_parsed_def tx(2) nth_append less_Suc_eq)
  moreover have "0 \<le> i \<and> i < int (length (p_Txs p')) \<and> p_Hash (p_Txs p' ! nat i) = h" if "p_TxHashes p' h = Some i" for h i
  proof (cases "h = p_Hash tx")
    case True
    with that show ?thesis by (auto simp: tx(2))
  next
    case False
    with that have "p_TxHashes p h = Some i" by (simp add: tx(2))
    from wf_parsed_hash [OF assms(2) this] show ?thesis by (simp add: tx(2) nth_append nat_less_iff)
  qed
  moreover have "\<forall>t\<in>set (p_Txs p'). p_TxHashes p' (p_Hash t) \<noteq> None"
    using assms(2) by (simp add: wf_parsed_def tx(2))
  ultimately show ?thesis by (simp add: wf_parsed_def tx(2))
qed

lemma parse_events_wf:
  assumes "parse_events E L events = Inr p"
  shows "wf_parsed p \<and> int (length (p_Txs p)) = countEthereumTxEvents L events"
proof -
  have "wf_parsed q \<and> length (p_Txs q) = length (p_Txs q0) + length (filter (\<lambda>ev. EvType ev = EventTypeEthereumTx L) evs)"
    if "foldR (\<lambda>p ev. if EvType ev \<noteq> EventTypeEthereumTx L then Inr p else parseTxFromEvent E L p (Attributes ev)) q0 evs = Inr q"
      "wf_parsed q0" for evs q0 q
    using that
  proof (induction evs arbitrary: q0)
    case Nil
    then show ?case by simp
  next
    case (Cons ev evs)
    show ?case
    proof (cases "EvType ev = EventTypeEthereumTx L")
      case True
      with Cons.prems(1) obtain q1 where q1: "parseTxFromEvent E L q0 (Attributes ev) = Inr q1"
        "foldR (\<lambda>p ev. if EvType ev \<noteq> EventTypeEthereumTx L then Inr p else parseTxFromEvent E L p (Attributes ev)) q1 evs = Inr q"
        by (auto simp: result_simps)
      from parseTxFromEvent_wf [OF q1(1) Cons.prems(2)] Cons.IH [OF q1(2)] True show ?thesis by simp
    next
      case False
      with Cons show ?thesis by simp
    qed
  qed
  moreover have "wf_parsed \<lparr>p_Txs = [], p_TxHashes = Map.empty\<rparr>" by (simp add: wf_parsed_def)
  ultimately show ?thesis using assms by (force simp: parse_events_def countEthereumTxEvents_def)
qed

text \<open>What an Ethereum event says of its transaction: for each key the last attribute with that key counts.\<close>

definition last_attr :: "string \<Rightarrow> EventAttribute list \<Rightarrow> string option" where
  "last_attr k attrs = map_option Val (find (\<lambda>a. Key a = k) (rev attrs))"

definition described_by :: "Eth_Lib \<Rightarrow> Chain_Lib \<Rightarrow> ParsedTx \<Rightarrow> EventAttribute list \<Rightarrow> bool" where
  "described_by E L t attrs \<longleftrightarrow>
     p_Hash t = (case last_attr (AttributeKeyEthereumTxHash L) attrs of None \<Rightarrow> 0 | Some v \<Rightarrow> HexToHash E v) \<and>
     (case last_attr (AttributeKeyTxIndex L) attrs of
        None \<Rightarrow> p_EthTxIndex t = -1
      | Some v \<Rightarrow> \<exists>n. ParseUint v 31 = Inr n \<and> p_EthTxIndex t = int n) \<and>
     (case last_attr (AttributeKeyTxGasUsed L) attrs of
        None \<Rightarrow> p_GasUsed t = 0
      | Some v \<Rightarrow> \<exists>n. ParseUint v 64 = Inr n \<and> p_GasUsed t = int n) \<and>
     (p_Failed t \<longleftrightarrow> (\<exists>v. last_attr (AttributeKeyEthereumTxFailed L) attrs = Some v \<and> v \<noteq> []))"

definition distinct_keys :: "Chain_Lib \<Rightarrow> bool" where
  "distinct_keys L \<longleftrightarrow>
     distinct [AttributeKeyEthereumTxHash L, AttributeKeyTxIndex L, AttributeKeyTxGasUsed L, AttributeKeyEthereumTxFailed L]"

lemma last_attr_snoc [simp]: "last_attr k (attrs @ [a]) = (if Key a = k then Some (Val a) else last_attr k attrs)"
  by (simp add: last_attr_def)

lemma last_attr_Nil [simp]: "last_attr k [] = None"
  by (simp add: last_attr_def)

lemma parse_uint_value: "parse_uint s bits = Inr x \<Longrightarrow> \<exists>n. ParseUint s bits = Inr n \<and> x = int n"
  by (auto simp: parse_uint_def result_simps)

lemma fillTxAttribute_described:
  assumes "fillTxAttribute E L tx (Key a) (Val a) = Inr tx'" and "described_by E L tx attrs" and "distinct_keys L"
  shows "described_by E L tx' (attrs @ [a])"
proof -
  have i: "i32 x = x" if "parse_uint (Val a) 31 = Inr x" for x using parse_uint_bound [OF that] by (simp add: i32_id)
  consider "Key a = AttributeKeyEthereumTxHash L" | "Key a = AttributeKeyTxIndex L" | "Key a = AttributeKeyTxGasUsed L" |
    "Key a = AttributeKeyEthereumTxFailed L" |
    "Key a \<notin> {AttributeKeyEthereumTxHash L, AttributeKeyTxIndex L, AttributeKeyTxGasUsed L, AttributeKeyEthereumTxFailed L}" by auto
  then show ?thesis
    using assms by cases (auto simp: fillTxAttribute_def described_by_def distinct_keys_def result_simps i split: option.splits dest!: parse_uint_value)
qed

lemma fillTxAttributes_described:
  assumes "fillTxAttributes E L (NewParsedTx i) attrs = Inr tx" and "distinct_keys L"
  shows "described_by E L tx attrs"
  using assms(1)
proof (induction attrs arbitrary: tx rule: rev_induct)
  case Nil
  then show ?case by (auto simp: fillTxAttributes_def described_by_def NewParsedTx_def EthTxIndexUnitialized_def)
next
  case (snoc a attrs)
  then obtain tx0 where "fillTxAttributes E L (NewParsedTx i) attrs = Inr tx0" "fillTxAttribute E L tx0 (Key a) (Val a) = Inr tx"
    by (auto simp: fillTxAttributes_def foldR_append result_simps)
  with snoc.IH show ?case by (blast intro: fillTxAttribute_described assms(2))
qed

lemma parse_events_described:
  assumes "parse_events E L events = Inr p" and "distinct_keys L"
  shows "list_all2 (described_by E L) (p_Txs p) (map Attributes (filter (\<lambda>ev. EvType ev = EventTypeEthereumTx L) events))"
  using assms(1)
proof (induction events arbitrary: p rule: rev_induct)
  case Nil
  then show ?case by (auto simp: parse_events_def)
next
  case (snoc ev events)
  then obtain p0 where p0: "parse_events E L events = Inr p0"
    "(if EvType ev \<noteq> EventTypeEthereumTx L then Inr p0 else parseTxFromEvent E L p0 (Attributes ev)) = Inr p"
    by (auto simp: parse_events_def foldR_append result_simps)
  note ih = snoc.IH [OF p0(1)]
  show ?case
  proof (cases "EvType ev = EventTypeEthereumTx L")
    case True
    with p0(2) obtain tx where "fillTxAttributes E L (NewParsedTx (int (length (p_Txs p0)))) (Attributes ev) = Inr tx" "p_Txs p = p_Txs p0 @ [tx]"
      by (auto simp: parseTxFromEvent_def Let_def result_simps)
    with True ih fillTxAttributes_described [OF _ assms(2)] show ?thesis by (auto intro: list_all2_appendI)
  qed (use p0(2) ih in simp)
qed

section \<open>Lemmas: normalisation\<close>

text \<open>What the protobuf codecs promise.\<close>

locale proto_codec =
  fixes L :: Chain_Lib
  assumes response: "Marshal_Response L r = Inr b \<Longrightarrow> Unmarshal_Response L b = Inr r"
    and msg_data: "Marshal_TxMsgData L d = Inr b \<Longrightarrow> Unmarshal_TxMsgData L b = Inr d"
    and msg_data_nonempty: "Marshal_TxMsgData L d = Inr b \<Longrightarrow> MsgResponses d \<noteq> [] \<Longrightarrow> b \<noteq> []"

definition is_eth_response :: "Chain_Lib \<Rightarrow> AnyMsg \<Rightarrow> bool" where
  "is_eth_response L r \<longleftrightarrow> TypeUrl r = ''/'' @ Response_MessageName L"

definition decode_responses :: "Chain_Lib \<Rightarrow> AnyMsg list \<Rightarrow> go_error + MsgEthereumTxResponse list" where
  "decode_responses L rs = mapR (\<lambda>r. Unmarshal_Response L (Value r)) (filter (is_eth_response L) rs)"

text \<open>The Ethereum responses a successful result carries.\<close>

definition eth_responses :: "Chain_Lib \<Rightarrow> ExecTxResult \<Rightarrow> go_error + MsgEthereumTxResponse list" where
  "eth_responses L res =
     (if Code res \<noteq> 0 \<or> Data res = [] then Inr []
      else bindR (Unmarshal_TxMsgData L (Data res)) (\<lambda>d. decode_responses L (MsgResponses d)))"

text \<open>The logs of responses in consecutive transaction slots from \<open>t\<close> on, each with its slot; and the
  logs of a whole block, where a result takes as many slots as it has Ethereum responses, and at least
  as many as its events or its failure log show.\<close>

fun resp_slots :: "int \<Rightarrow> MsgEthereumTxResponse list \<Rightarrow> (int \<times> RespLog) list" where
  "resp_slots t [] = []"
| "resp_slots t (r # rs) = map (Pair t) (resp_Logs r) @ resp_slots (t + 1) rs"

fun block_slots :: "Chain_Lib \<Rightarrow> int \<Rightarrow> ExecTxResult option list \<Rightarrow> go_error + (int \<times> RespLog) list" where
  "block_slots L t [] = Inr []"
| "block_slots L t (None # rs) = block_slots L t rs"
| "block_slots L t (Some res # rs) =
     bindR (eth_responses L res) (\<lambda>rp.
     bindR (block_slots L (t + max (ethTxCount_of L res) (int (length rp))) rs) (\<lambda>rest. Inr (resp_slots t rp @ rest)))"

definition numbered :: "int \<Rightarrow> (int \<times> RespLog) list \<Rightarrow> bool" where
  "numbered l xs \<longleftrightarrow>
     (\<forall>x\<in>set xs. rl_TxIndex (snd x) = u64 (fst x)) \<and>
     map (\<lambda>x. rl_Index (snd x)) xs = map (\<lambda>i. u64 (l + int i)) [0..<length xs]"

definition same_content :: "(int \<times> RespLog) list \<Rightarrow> (int \<times> RespLog) list \<Rightarrow> bool" where
  "same_content xs ys \<longleftrightarrow> map (\<lambda>x. (fst x, rl_rest (snd x))) xs = map (\<lambda>x. (fst x, rl_rest (snd x))) ys"

text \<open>A normalised result differs from the original in its data only, and a failed one not at all.\<close>

definition only_data_changes :: "ExecTxResult option \<Rightarrow> ExecTxResult option \<Rightarrow> bool" where
  "only_data_changes a b \<longleftrightarrow> (case a of None \<Rightarrow> b = None | Some r \<Rightarrow> \<exists>d. b = Some (r\<lparr>Data := d\<rparr>))"

lemma upt_shift: "map f [n..<n + m] = map (\<lambda>i. f (n + i)) [0..<m]"
  by (induction m) simp_all

lemma numbered_append: "numbered l (xs @ ys) \<longleftrightarrow> numbered l xs \<and> numbered (l + int (length xs)) ys"
proof -
  have *: "map (\<lambda>i. u64 (l + int i)) [0..<length xs + length ys] =
      map (\<lambda>i. u64 (l + int i)) [0..<length xs] @ map (\<lambda>i. u64 (l + int (length xs) + int i)) [0..<length ys]"
    using upt_add_eq_append [of 0 "length xs" "length ys"] upt_shift [of "\<lambda>i. u64 (l + int i)" "length xs" "length ys"]
    by (simp add: add.assoc)
  show ?thesis unfolding numbered_def length_append * by (simp add: ball_Un) blast
qed

lemma same_content_append: "same_content xs xs' \<Longrightarrow> same_content ys ys' \<Longrightarrow> same_content (xs @ ys) (xs' @ ys')"
  by (simp add: same_content_def)

lemma same_content_length: "same_content xs ys \<Longrightarrow> length xs = length ys"
  unfolding same_content_def by (drule arg_cong [where f = length]) simp

lemma norm_logs_spec:
  assumes "norm_logs (u64 t) (u64 l) ls = (ls', d, li)"
  shows "li = u64 (l + int (length ls)) \<and> numbered l (map (Pair t) ls') \<and> same_content (map (Pair t) ls) (map (Pair t) ls') \<and>
    (\<not> d \<longrightarrow> ls' = ls) \<and> norm_logs (u64 t) (u64 l) ls' = (ls', False, li)"
  using assms
proof (induction ls arbitrary: l ls' d li)
  case Nil
  then show ?case by (simp add: numbered_def same_content_def)
next
  case (Cons x xs)
  obtain xs' d' li' where r: "norm_logs (u64 t) (u64 (l + 1)) xs = (xs', d', li')"
    by (cases "norm_logs (u64 t) (u64 (l + 1)) xs") auto
  have e: "ls' = x\<lparr>rl_TxIndex := u64 t, rl_Index := u64 l\<rparr> # xs'" "li = li'"
    "d = (rl_TxIndex x \<noteq> u64 t \<or> rl_Index x \<noteq> u64 l \<or> d')"
    using Cons.prems r by auto
  note ih = Cons.IH [OF r]
  have "numbered l (map (Pair t) ls')"
    using ih numbered_append [of l "[(t, x\<lparr>rl_TxIndex := u64 t, rl_Index := u64 l\<rparr>)]" "map (Pair t) xs'"]
    by (simp add: e(1) numbered_def)
  with ih show ?case by (simp add: e same_content_def add.assoc)
qed

context proto_codec
begin

lemma norm_responses_spec:
  assumes "norm_responses L (u64 t) (u64 l) d s rs = Inr (rs', ti, li, d', s')"
  shows "\<exists>rp rp'. decode_responses L rs = Inr rp \<and> decode_responses L rs' = Inr rp' \<and> length rp' = length rp \<and>
    ti = u64 (t + int (length rp)) \<and> s' = s + int (length rp) \<and> li = u64 (l + int (length (resp_slots t rp'))) \<and>
    numbered l (resp_slots t rp') \<and> same_content (resp_slots t rp) (resp_slots t rp') \<and>
    (\<not> d' \<longrightarrow> rs' = rs \<and> \<not> d) \<and> length rs' = length rs \<and>
    (\<forall>e. norm_responses L (u64 t) (u64 l) e s rs' = Inr (rs', ti, li, e, s'))"
  using assms
proof (induction rs arbitrary: t l d s rs' ti li)
  case Nil
  then show ?case by (simp add: decode_responses_def numbered_def same_content_def)
next
  case (Cons r rs)
  show ?case
  proof (cases "is_eth_response L r")
    case False
    with Cons.prems obtain q where q: "norm_responses L (u64 t) (u64 l) d s rs = Inr (q, ti, li, d', s')" "rs' = r # q"
      by (auto simp: is_eth_response_def result_simps)
    with Cons.IH [OF q(1)] False show ?thesis
      by (auto simp: decode_responses_def is_eth_response_def)
  next
    case True
    then have u: "TypeUrl r = ''/'' @ Response_MessageName L" by (simp add: is_eth_response_def)
    from Cons.prems u obtain resp where resp: "Unmarshal_Response L (Value r) = Inr resp"
      by (auto simp: result_simps)
    obtain logs dr li1 where nl: "norm_logs (u64 t) (u64 l) (resp_Logs resp) = (logs, dr, li1)"
      by (cases "norm_logs (u64 t) (u64 l) (resp_Logs resp)") auto
    from Cons.prems u resp nl obtain r' q where
      r': "(if dr then bindR (Marshal_Response L (resp\<lparr>resp_Logs := logs\<rparr>)) (\<lambda>bz. Inr (r\<lparr>Value := bz\<rparr>)) else Inr r) = Inr r'"
      and q: "norm_responses L (u64 (t + 1)) li1 (d \<or> dr) (s + 1) rs = Inr (q, ti, li, d', s')" "rs' = r' # q"
      by (auto simp: result_simps)
    note n = norm_logs_spec [OF nl]
    have r'u: "TypeUrl r' = TypeUrl r" "Unmarshal_Response L (Value r') = Inr (resp\<lparr>resp_Logs := logs\<rparr>)"
      using r' n resp by (auto simp: result_simps response split: if_splits)
    have len: "int (length logs) = int (length (resp_Logs resp))"
      using n same_content_length by fastforce
    have q': "norm_responses L (u64 (t + 1)) (u64 (l + int (length logs))) (d \<or> dr) (s + 1) rs = Inr (q, ti, li, d', s')"
      using q(1) n len by simp
    from Cons.IH [OF q'] obtain rp rp' where ih: "decode_responses L rs = Inr rp" "decode_responses L q = Inr rp'"
      "length rp' = length rp" "ti = u64 (t + 1 + int (length rp))" "s' = s + 1 + int (length rp)"
      "li = u64 (l + int (length logs) + int (length (resp_slots (t + 1) rp')))"
      "numbered (l + int (length logs)) (resp_slots (t + 1) rp')"
      "same_content (resp_slots (t + 1) rp) (resp_slots (t + 1) rp')" "\<not> d' \<longrightarrow> q = rs \<and> \<not> (d \<or> dr)" "length q = length rs"
      "\<forall>e. norm_responses L (u64 (t + 1)) (u64 (l + int (length logs))) e (s + 1) q = Inr (q, ti, li, e, s')"
      by blast
    have again: "norm_responses L (u64 t) (u64 l) e s (r' # q) = Inr (r' # q, ti, li, e, s')" for e
      using ih(11) n len u r'u by simp
    have dec: "decode_responses L (r # rs) = Inr (resp # rp)" "decode_responses L (r' # q) = Inr (resp\<lparr>resp_Logs := logs\<rparr> # rp')"
      using ih(1,2) resp r'u u by (simp_all add: decode_responses_def is_eth_response_def)
    have "\<not> d' \<longrightarrow> r' = r" using r' ih(9) by auto
    then show ?thesis
      using dec again ih n len q(2)
      by (intro exI [of _ "resp # rp"] exI [of _ "resp\<lparr>resp_Logs := logs\<rparr> # rp'"])
        (auto simp: numbered_append same_content_append add.assoc)
  qed
qed

lemma norm_result_spec:
  assumes "norm_result L (u64 t) (u64 l) res = Inr (res', ti, li)"
  shows "\<exists>rp rp'. eth_responses L res = Inr rp \<and> eth_responses L res' = Inr rp' \<and> length rp' = length rp \<and>
    ethTxCount_of L res' = ethTxCount_of L res \<and> ti = u64 (t + max (ethTxCount_of L res) (int (length rp))) \<and>
    li = u64 (l + int (length (resp_slots t rp'))) \<and>
    numbered l (resp_slots t rp') \<and> same_content (resp_slots t rp) (resp_slots t rp') \<and>
    res' = res\<lparr>Data := Data res'\<rparr> \<and> norm_result L (u64 t) (u64 l) res' = Inr (res', ti, li)"
proof (cases "Code res \<noteq> 0 \<or> Data res = []")
  case True
  have "0 \<le> ethTxCount_of L res" by (simp add: ethTxCount_of_def countEthereumTxEvents_def le_max_iff_disj)
  with True assms show ?thesis
    by (auto simp: norm_result_def Let_def eth_responses_def numbered_def same_content_def max_def)
next
  case False
  let ?n = "ethTxCount_of L res"
  from False assms obtain md rs' ti0 dd seen where
    md: "Unmarshal_TxMsgData L (Data res) = Inr md"
    and nr: "norm_responses L (u64 t) (u64 l) False 0 (MsgResponses md) = Inr (rs', ti0, li, dd, seen)"
    and out: "(if dd then bindR (Marshal_TxMsgData L (md\<lparr>MsgResponses := rs'\<rparr>)) (\<lambda>data.
        Inr (res\<lparr>Data := data\<rparr>, (if seen < ?n then u64 (ti0 + (?n - seen)) else ti0), li))
      else Inr (res, (if seen < ?n then u64 (ti0 + (?n - seen)) else ti0), li)) = Inr (res', ti, li)"
    by (auto simp: norm_result_def Let_def result_simps split: if_splits)
  from norm_responses_spec [OF nr] obtain rp rp' where s: "decode_responses L (MsgResponses md) = Inr rp"
    "decode_responses L rs' = Inr rp'" "length rp' = length rp" "ti0 = u64 (t + int (length rp))" "seen = int (length rp)"
    "li = u64 (l + int (length (resp_slots t rp')))" "numbered l (resp_slots t rp')"
    "same_content (resp_slots t rp) (resp_slots t rp')" "\<not> dd \<longrightarrow> rs' = MsgResponses md" "length rs' = length (MsgResponses md)"
    "\<forall>e. norm_responses L (u64 t) (u64 l) e 0 rs' = Inr (rs', ti0, li, e, seen)"
    by auto
  have ti': "ti = (if seen < ?n then u64 (ti0 + (?n - seen)) else ti0)"
    using out by (auto simp: result_simps split: if_splits)
  then have ti: "ti = u64 (t + max ?n (int (length rp)))" by (simp add: s(4,5) max_def)
  have ne: "rs' \<noteq> []" if dd
  proof
    assume "rs' = []"
    then have "MsgResponses md = []" using s(10) by simp
    with nr that show False by simp
  qed
  have res': "Data res' \<noteq> []" "res' = res\<lparr>Data := Data res'\<rparr>"
    "Unmarshal_TxMsgData L (Data res') = Inr (md\<lparr>MsgResponses := rs'\<rparr>)"
    using out md s(9) ne msg_data msg_data_nonempty False by (auto simp: result_simps split: if_splits)
  have same: "Code res' = Code res" "ethTxCount_of L res' = ?n"
    by (subst res'(2), simp) (subst res'(2), simp add: ethTxCount_of_def)
  have "norm_result L (u64 t) (u64 l) res' = Inr (res', ti, li)"
    using False same res' s(11) ti' by (simp add: norm_result_def)
  with False md res' same s ti show ?thesis by (simp add: eth_responses_def)
qed

lemma norm_results_spec:
  assumes "norm_results L (u64 t) (u64 l) input = Inr out"
  shows "\<exists>ls0 ls. block_slots L t input = Inr ls0 \<and> block_slots L t out = Inr ls \<and> numbered l ls \<and> same_content ls0 ls \<and>
    list_all2 only_data_changes input out \<and> norm_results L (u64 t) (u64 l) out = Inr out"
  using assms
proof (induction input arbitrary: t l out)
  case Nil
  then show ?case by (simp add: numbered_def same_content_def)
next
  case (Cons a input)
  show ?case
  proof (cases a)
    case None
    with Cons.prems obtain o' where o': "norm_results L (u64 t) (u64 l) input = Inr o'" "out = None # o'"
      by (auto simp: result_simps)
    from Cons.IH [OF o'(1)] o'(2) None show ?thesis by (auto simp: only_data_changes_def)
  next
    case (Some res)
    with Cons.prems obtain res' ti li o' where n: "norm_result L (u64 t) (u64 l) res = Inr (res', ti, li)"
      "norm_results L ti li input = Inr o'" "out = Some res' # o'"
      by (auto simp: result_simps)
    from norm_result_spec [OF n(1)] obtain rp rp' where r: "eth_responses L res = Inr rp" "eth_responses L res' = Inr rp'"
      "length rp' = length rp" "ethTxCount_of L res' = ethTxCount_of L res"
      "ti = u64 (t + max (ethTxCount_of L res) (int (length rp)))" "li = u64 (l + int (length (resp_slots t rp')))"
      "numbered l (resp_slots t rp')" "same_content (resp_slots t rp) (resp_slots t rp')" "res' = res\<lparr>Data := Data res'\<rparr>"
      "norm_result L (u64 t) (u64 l) res' = Inr (res', ti, li)"
      by blast
    from Cons.IH [OF n(2) [unfolded r(5,6)]] obtain ls0 ls where ih:
      "block_slots L (t + max (ethTxCount_of L res) (int (length rp))) input = Inr ls0"
      "block_slots L (t + max (ethTxCount_of L res) (int (length rp))) o' = Inr ls"
      "numbered (l + int (length (resp_slots t rp'))) ls" "same_content ls0 ls" "list_all2 only_data_changes input o'"
      "norm_results L ti li o' = Inr o'"
      unfolding r(5,6) by blast
    have "only_data_changes (Some res) (Some res')" using r(9) unfolding only_data_changes_def by auto
    moreover have "norm_results L (u64 t) (u64 l) out = Inr out" using n(3) r(10) ih(6) by simp
    ultimately show ?thesis
      using r ih n(3) Some by (simp add: numbered_append same_content_append)
  qed
qed

end

section \<open>A concrete codec\<close>

instance AnyMsg_ext :: (countable) countable
proof (rule countable_classI [of "\<lambda>r. to_nat (TypeUrl r, Value r, AnyMsg.more r)"])
qed (simp add: AnyMsg.equality)

instance TxMsgData_ext :: (countable) countable
proof (rule countable_classI [of "\<lambda>r. to_nat (MsgResponses r, md_rest r, TxMsgData.more r)"])
qed (simp add: TxMsgData.equality)

instance RespLog_ext :: (countable) countable
proof (rule countable_classI [of "\<lambda>r. to_nat (rl_TxIndex r, rl_Index r, rl_rest r, RespLog.more r)"])
qed (simp add: RespLog.equality)

instance MsgEthereumTxResponse_ext :: (countable) countable
proof (rule countable_classI [of "\<lambda>r. to_nat (resp_Logs r, resp_rest r, MsgEthereumTxResponse.more r)"])
qed (simp add: MsgEthereumTxResponse.equality)

definition count_chain :: Chain_Lib where
  "count_chain =
     null_chain\<lparr>Marshal_Response := (\<lambda>r. Inr (0 # replicate (to_nat r) 0)), Unmarshal_Response := (\<lambda>b. Inr (from_nat (length b - 1))),
       Marshal_TxMsgData := (\<lambda>d. Inr (0 # replicate (to_nat d) 0)), Unmarshal_TxMsgData := (\<lambda>b. Inr (from_nat (length b - 1)))\<rparr>"

interpretation count_proto: proto_codec count_chain
  by unfold_locales (auto simp: count_chain_def)

section \<open>Properties\<close>

text \<open>C30: Normalising the results of a block numbers its EVM logs as one sequence. Over all successful
  responses in block order the log indexes are 0, 1, 2 and so on, and every log carries the slot of its
  Ethereum transaction, where a result takes as many slots as it has Ethereum responses and at least as
  many as its events or its failure log show. The logs are otherwise unchanged, and only the data of a
  result changes.\<close>

theorem NormalizeTxResponseIndexes_numbers:
  assumes "proto_codec L" and "NormalizeTxResponseIndexes L input = Inr out"
  shows "\<exists>ls0 ls. block_slots L 0 input = Inr ls0 \<and> block_slots L 0 out = Inr ls \<and> numbered 0 ls \<and> same_content ls0 ls \<and>
    list_all2 only_data_changes input out"
  using proto_codec.norm_results_spec [OF assms(1), of 0 0 input out] assms(2)
  by (auto simp: NormalizeTxResponseIndexes_def u64_def)

definition sample_response :: "AnyMsg" where
  "sample_response =
     \<lparr>TypeUrl = ''/injective.evm.v1.MsgEthereumTxResponse'',
      Value = 0 # replicate (to_nat \<lparr>resp_Logs = [\<lparr>rl_TxIndex = 0, rl_Index = 0, rl_rest = [7]\<rparr>], resp_rest = []\<rparr>) 0\<rparr>"

definition sample_result :: "int \<Rightarrow> ExecTxResult" where
  "sample_result c =
     \<lparr>Code = c, Data = 0 # replicate (to_nat \<lparr>MsgResponses = [sample_response], md_rest = []\<rparr>) 0, GasUsed = 0,
      Events = [\<lparr>EvType = ''ethereum_tx'', Attributes = []\<rparr>], Codespace = [], Log = []\<rparr>"

definition sample_out :: "ExecTxResult option list" where
  "sample_out = projr (NormalizeTxResponseIndexes count_chain [Some (sample_result 1), None, Some (sample_result 0)])"

lemma sample_normalizes:
  "NormalizeTxResponseIndexes count_chain [Some (sample_result 1), None, Some (sample_result 0)] = Inr sample_out"
proof -
  have "inferFailedEthereumTxCount count_chain [] [] = 0"
    by (simp add: inferFailedEthereumTxCount_def count_chain_def null_chain_def)
  then have "\<exists>out. NormalizeTxResponseIndexes count_chain [Some (sample_result 1), None, Some (sample_result 0)] = Inr out"
    by (simp add: NormalizeTxResponseIndexes_def norm_result_def sample_result_def sample_response_def count_chain_def
        null_chain_def ethTxCount_of_def countEthereumTxEvents_def)
  then show ?thesis by (auto simp: sample_out_def)
qed

theorem NormalizeTxResponseIndexes_numbers_witness:
  "\<exists>ls0 ls. block_slots count_chain 0 [Some (sample_result 1), None, Some (sample_result 0)] = Inr ls0 \<and>
    block_slots count_chain 0 sample_out = Inr ls \<and> numbered 0 ls \<and> same_content ls0 ls \<and>
    list_all2 only_data_changes [Some (sample_result 1), None, Some (sample_result 0)] sample_out"
  by (rule NormalizeTxResponseIndexes_numbers [OF count_proto.proto_codec_axioms sample_normalizes])

text \<open>C38: Normalisation is idempotent: the normalised results of a block are a fixed point, so a second
  pass over cached or already normalised results changes nothing and cannot fail.\<close>

theorem NormalizeTxResponseIndexes_idempotent:
  assumes "proto_codec L" and "NormalizeTxResponseIndexes L input = Inr out"
  shows "NormalizeTxResponseIndexes L out = Inr out"
  using proto_codec.norm_results_spec [OF assms(1), of 0 0 input out] assms(2)
  by (auto simp: NormalizeTxResponseIndexes_def u64_def)

theorem NormalizeTxResponseIndexes_idempotent_witness: "NormalizeTxResponseIndexes count_chain sample_out = Inr sample_out"
  by (rule NormalizeTxResponseIndexes_idempotent [OF count_proto.proto_codec_axioms sample_normalizes])

text \<open>C31: A successful result is parsed to one transaction per Ethereum event, in order: transaction \<open>i\<close> has the hash, the
  Ethereum index, the gas and the failure mark that the attributes of Ethereum event \<open>i\<close> give, and the defaults where the event has no such
  attribute; of several attributes with one key the last counts. It has message index \<open>i\<close>, an index that fits 31 bits or
  is unset, and gas that fits 64 bits; \<open>GetTxByMsgIndex\<close> finds exactly these; and \<open>GetTxByHash\<close> never panics,
  returns a transaction with the hash asked for, and finds one whenever there is one. The chain's four attribute
  keys are different.\<close>

theorem ParseTxResult_lookup:
  assumes "ParseTxResult E L result tx = Some (Inr p)" and "Code result = 0" and "distinct_keys L"
  shows "list_all2 (described_by E L) (p_Txs p) (map Attributes (filter (\<lambda>ev. EvType ev = EventTypeEthereumTx L) (Events result))) \<and>
    int (length (p_Txs p)) = countEthereumTxEvents L (Events result) \<and>
    (\<forall>i. (GetTxByMsgIndex p i = None \<longleftrightarrow> i < 0 \<or> int (length (p_Txs p)) \<le> i) \<and>
      (\<forall>t. GetTxByMsgIndex p i = Some t \<longrightarrow> p_MsgIndex t = i \<and> wf_tx t)) \<and>
    (\<forall>h. \<exists>r. GetTxByHash p h = Some r \<and> (\<forall>t. r = Some t \<longrightarrow> p_Hash t = h) \<and> (r = None \<longleftrightarrow> (\<forall>t\<in>set (p_Txs p). p_Hash t \<noteq> h)))"
proof -
  have p: "parse_events E L (Events result) = Inr p"
    using assms(1,2) by (auto simp: ParseTxResult_def split: sum.splits)
  note wf = parse_events_wf [OF p]
  have "\<exists>r. GetTxByHash p h = Some r \<and> (\<forall>t. r = Some t \<longrightarrow> p_Hash t = h) \<and> (r = None \<longleftrightarrow> (\<forall>t\<in>set (p_Txs p). p_Hash t \<noteq> h))" for h
  proof (cases "p_TxHashes p h")
    case None
    then show ?thesis using wf by (auto simp: GetTxByHash_def wf_parsed_def)
  next
    case (Some i)
    from wf_parsed_hash [OF conjunct1 [OF wf] this]
    have i: "0 \<le> i" "i < int (length (p_Txs p))" "p_Hash (p_Txs p ! nat i) = h" by auto
    then have "p_Txs p ! nat i \<in> set (p_Txs p)" by simp
    with i Some show ?thesis by (auto simp: GetTxByHash_def)
  qed
  with wf parse_events_described [OF p assms(3)] show ?thesis by (auto simp: GetTxByMsgIndex_def wf_parsed_def)
qed

definition sample_events_result :: ExecTxResult where
  "sample_events_result =
     \<lparr>Code = 0, Data = [], GasUsed = 5,
      Events = [\<lparr>EvType = ''transfer'', Attributes = []\<rparr>,
        \<lparr>EvType = ''ethereum_tx'', Attributes = [\<lparr>Key = ''txIndex'', Val = ''7'', Indexed = True\<rparr>]\<rparr>],
      Codespace = [], Log = []\<rparr>"

definition sample_eth :: Eth_Lib where
  "sample_eth =
     \<lparr>Keccak256Hash = (\<lambda>bs. 0), IsHexAddress = (\<lambda>s. True), HexToAddress = (\<lambda>s. 0), Address_Hex = (\<lambda>a. []), HexToHash = (\<lambda>s. 5),
      Hash_Hex = (\<lambda>h. []), FromHex = (\<lambda>s. []), hexutil_Decode = (\<lambda>s. Inr []), hexutil_Encode = (\<lambda>bs. []), DecodeBig = (\<lambda>s. Inr 0),
      EncodeBig = (\<lambda>i. []), Pack_denomAmount = (\<lambda>d a. Inr []), Pack_summary = (\<lambda>p c q s r e. Inr []), CreateAddress = (\<lambda>a n. a),
      EmptyRootHash = 0, EmptyUncleHash = 0, BytesToBloom = (\<lambda>b. b)\<rparr>"

definition sample_parsed :: ParsedTxs where
  "sample_parsed =
     \<lparr>p_Txs = [(NewParsedTx 0)\<lparr>p_EthTxIndex := 7\<rparr>], p_TxHashes = [0 \<mapsto> 0]\<rparr>"

lemma sample_parses: "ParseTxResult sample_eth null_chain sample_events_result None = Some (Inr sample_parsed)"
  by (simp add: ParseTxResult_def parse_events_def sample_events_result_def null_chain_def parseTxFromEvent_def fillTxAttributes_def
      fillTxAttribute_def NewParsedTx_def parse_uint_def ParseUint_def digit_val_def i32_id sample_parsed_def)

theorem ParseTxResult_lookup_witness:
  "list_all2 (described_by sample_eth null_chain) (p_Txs sample_parsed) [[\<lparr>Key = ''txIndex'', Val = ''7'', Indexed = True\<rparr>]] \<and>
    int (length (p_Txs sample_parsed)) = 1 \<and> (\<exists>r. GetTxByHash sample_parsed 3 = Some r \<and> r = None)"
  using ParseTxResult_lookup [OF sample_parses]
  by (auto simp: sample_events_result_def countEthereumTxEvents_def distinct_keys_def null_chain_def sample_parsed_def NewParsedTx_def)

text \<open>C32: The parser of failed transactions loses the message position. When message \<open>k > 0\<close> of a
  transaction fails in the EVM and the result has no Ethereum events, the only parsed transaction is
  stored at position 0 but filed under index \<open>k\<close>: asking for message 0 returns the transaction of
  message \<open>k\<close>, asking for message \<open>k\<close> returns nothing, and looking the failed transaction up by its
  hash panics.\<close>

theorem failed_message_misfiled:
  assumes "Code result \<noteq> 0" and "Codespace result = evm_ModuleName L" and "countEthereumTxEvents L (Events result) = 0"
    and "msgErrJSONRx (Log result) = Some (ds, js)" and "Atoi ds = Inr k" and "0 < k" and "sonic_vmError L js = Inr vmErr"
  shows "\<exists>p. ParseTxResult E L result tx = Some (Inr p) \<and> GetTxByHash p (HexToHash E (vm_Hash vmErr)) = None \<and>
    GetTxByMsgIndex p k = None \<and> (\<exists>t. GetTxByMsgIndex p 0 = Some t \<and> p_MsgIndex t = k)"
proof -
  have "parse_events E L evs = Inr \<lparr>p_Txs = [], p_TxHashes = Map.empty\<rparr>" if "countEthereumTxEvents L evs = 0" for evs
    unfolding parse_events_def using that by (induction evs) (simp_all add: countEthereumTxEvents_def split: if_splits)
  with assms show ?thesis
    by (simp add: ParseTxResult_def parseFromLog_def append_parsed_def GetTxByHash_def GetTxByMsgIndex_def)
qed

definition sample_failed_chain :: Chain_Lib where
  "sample_failed_chain =
     null_chain\<lparr>sonic_vmError := (\<lambda>s. Inr \<lparr>vm_Hash = [], vm_GasUsed = 1, vm_Reason = [], vm_VMError = ''revert''\<rparr>)\<rparr>"

definition sample_failed :: ExecTxResult where
  "sample_failed =
     \<lparr>Code = 5, Data = [], GasUsed = 5, Events = [], Codespace = ''evm'',
      Log = ''failed to execute message; message index: 1: {}''\<rparr>"

lemma sample_failed_log: "msgErrJSONRx (Log sample_failed) = Some (''1'', ''{}'')"
  by (simp add: sample_failed_def msgErrJSONRx_def match_index_def take_lit_def take_digits_def is_digit_def digit_val_def newline_def)

theorem failed_message_misfiled_witness:
  "\<exists>p. ParseTxResult sample_eth sample_failed_chain sample_failed None = Some (Inr p) \<and> GetTxByHash p 5 = None \<and>
    GetTxByMsgIndex p 1 = None \<and> (\<exists>t. GetTxByMsgIndex p 0 = Some t \<and> p_MsgIndex t = 1)"
proof -
  have "Atoi ''1'' = Inr 1" by (simp add: Atoi_def ParseInt_def ParseUint_def digit_val_def)
  from failed_message_misfiled [of sample_failed sample_failed_chain, OF _ _ _ sample_failed_log this, of _ sample_eth None]
  show ?thesis by (simp add: sample_failed_def sample_failed_chain_def null_chain_def countEthereumTxEvents_def sample_eth_def)
qed

end
