(* ===== verification/Rpc_Types.thy ===== *)
theory Rpc_Types
  imports Tx_Parsing
begin

text \<open>
  The conversions of \<open>internal/evm/rpc/types/utils.go\<close>: Ethereum headers, blocks and transactions out
  of CometBFT data, the base fee of a block, and the classification of failed results. The fee cap
  check compares binary floating-point numbers and is left out.
\<close>

section \<open>Definitions\<close>

definition ExceedBlockGasLimitError :: string where
  "ExceedBlockGasLimitError = ''out of gas in location: block gas meter; gasWanted:''"

definition MsgExecutionFailedLog :: string where
  "MsgExecutionFailedLog = ''failed to execute message''"

fun eth_msgs :: "Msg list \<Rightarrow> go_error + MsgEthereumTx list" where
  "eth_msgs [] = Inr []"
| "eth_msgs (EthereumMsg m # ms) = bindR (eth_msgs ms) (\<lambda>es. Inr (m # es))"
| "eth_msgs (OtherMsg _ # ms) = Inl (Errorf ''invalid message type'')"

definition RawTxToEthTx :: "Chain_Lib \<Rightarrow> bytes \<Rightarrow> go_error + MsgEthereumTx list" where
  "RawTxToEthTx L txBz = bindR (wrapR (\<lambda>e. Wrap e ''json unmarshal'') (TxDecoder L txBz)) (\<lambda>tx. eth_msgs (GetMsgs tx))"

text \<open>\<open>ethtypes.Header\<close>, the fields the gateway sets to something else than a zero value.\<close>

record EthHeader =
  eh_ParentHash :: hash
  eh_UncleHash :: hash
  eh_Coinbase :: address
  eh_Root :: hash
  eh_TxHash :: hash
  eh_ReceiptHash :: hash
  eh_Bloom :: bytes
  eh_Number :: int
  eh_GasLimit :: int
  eh_GasUsed :: int
  eh_Time :: int
  eh_BaseFee :: "int option"

definition EthHeaderFromTendermint :: "Eth_Lib \<Rightarrow> Header \<Rightarrow> bytes \<Rightarrow> int option \<Rightarrow> EthHeader" where
  "EthHeaderFromTendermint E header bloom baseFee =
     \<lparr>eh_ParentHash = bytes_to_hash (h_LastBlockID header), eh_UncleHash = EmptyUncleHash E,
      eh_Coinbase = bytes_to_addr (h_ProposerAddress header), eh_Root = bytes_to_hash (h_AppHash header),
      eh_TxHash = (if h_DataHash header = [] then bytes_to_hash (h_DataHash header) else EmptyRootHash E),
      eh_ReceiptHash = EmptyRootHash E, eh_Bloom = bloom, eh_Number = h_Height header, eh_GasLimit = 0, eh_GasUsed = 0,
      eh_Time = u64 (h_Time header), eh_BaseFee = baseFee\<rparr>"

text \<open>The answer of the consensus parameters query is the first argument; an error is returned
  together with the default.\<close>

definition BlockMaxGasFromConsensusParams :: "go_error + int \<Rightarrow> int \<times> go_error option" where
  "BlockMaxGasFromConsensusParams maxGas =
     (case maxGas of
        Inl err \<Rightarrow> (4294967295, Some err)
      | Inr gasLimit \<Rightarrow> (if gasLimit = -1 then 4294967295 else gasLimit, None))"

text \<open>The block object of the JSON-RPC API. \<open>'t\<close> is a hash or a full transaction; the keys with a fixed
  value (nonce, uncles, difficulty and so on) are left out.\<close>

record 't BlockMap =
  fb_number :: int
  fb_hash :: bytes
  fb_parentHash :: hash
  fb_logsBloom :: bytes
  fb_stateRoot :: bytes
  fb_miner :: address
  fb_size :: int
  fb_gasLimit :: int
  fb_gasUsed :: int
  fb_timestamp :: int
  fb_transactionsRoot :: hash
  fb_receiptsRoot :: hash
  fb_transactions :: "'t list"
  fb_baseFeePerGas :: "int option"

definition FormatBlock ::
  "Eth_Lib \<Rightarrow> Header \<Rightarrow> int \<Rightarrow> int \<Rightarrow> int \<Rightarrow> 't list \<Rightarrow> bytes \<Rightarrow> address \<Rightarrow> int option \<Rightarrow> 't BlockMap" where
  "FormatBlock E header sz gasLimit gasUsed transactions bloom validatorAddr baseFee =
     \<lparr>fb_number = u64 (h_Height header), fb_hash = h_Hash header, fb_parentHash = bytes_to_hash (h_LastBlockID header),
      fb_logsBloom = bloom, fb_stateRoot = h_AppHash header, fb_miner = validatorAddr, fb_size = u64 sz,
      fb_gasLimit = u64 gasLimit, fb_gasUsed = gasUsed, fb_timestamp = u64 (h_Time header),
      fb_transactionsRoot = (if transactions = [] then EmptyRootHash E else bytes_to_hash (h_DataHash header)),
      fb_receiptsRoot = EmptyRootHash E, fb_transactions = transactions, fb_baseFeePerGas = baseFee\<rparr>"

definition AccessListTxType :: int where "AccessListTxType = 1"
definition DynamicFeeTxType :: int where "DynamicFeeTxType = 2"

definition tx_signer :: "EthTx \<Rightarrow> Signer" where
  "tx_signer tx = (if et_Protected tx then LatestSignerForChainID (et_ChainId tx) else FrontierSigner)"

text \<open>The fields every transaction type has.\<close>

definition legacy_fields :: "EthTx \<Rightarrow> address \<Rightarrow> hash \<Rightarrow> int \<Rightarrow> int \<Rightarrow> int \<Rightarrow> RPCTransaction" where
  "legacy_fields tx from blockHash blockNumber index chainID =
     \<lparr>tx_BlockHash = (if blockHash = 0 then None else Some blockHash),
      tx_BlockNumber = (if blockHash = 0 then None else Some blockNumber), tx_From = from, tx_Gas = et_Gas tx,
      tx_GasPrice = Some (et_GasPrice tx), tx_GasFeeCap = None, tx_GasTipCap = None, tx_Hash = et_Hash tx,
      tx_Input = et_Data tx, tx_Nonce = et_Nonce tx, tx_To = et_To tx,
      tx_TransactionIndex = (if blockHash = 0 then None else Some index), tx_Value = Some (et_Value tx),
      tx_Type = et_Type tx, tx_Accesses = None, tx_ChainID = Some chainID, tx_V = Some (et_V tx), tx_R = Some (et_R tx),
      tx_S = Some (et_S tx), tx_Virtual = False, tx_CosmosHash = None, tx_CosmosMsgIndex = None\<rparr>"

definition dynamic_price :: "EthTx \<Rightarrow> hash \<Rightarrow> int option \<Rightarrow> int" where
  "dynamic_price tx blockHash baseFee =
     (case baseFee of
        Some fee \<Rightarrow>
          if blockHash = 0 then et_GasFeeCap tx
          else if et_GasFeeCap tx < et_GasTipCap tx + fee then et_GasFeeCap tx else et_GasTipCap tx + fee
      | None \<Rightarrow> et_GasFeeCap tx)"

text \<open>\<open>AsTransaction\<close> returns nil for a message that cannot be unpacked, on which the code panics.\<close>

definition NewRPCTransaction :: "MsgEthereumTx \<Rightarrow> hash \<Rightarrow> int \<Rightarrow> int \<Rightarrow> int option \<Rightarrow> int \<Rightarrow> (go_error + RPCTransaction) option" where
  "NewRPCTransaction msg blockHash blockNumber index baseFee chainID =
     map_option (\<lambda>tx.
       bindR (GetSenderLegacy msg (tx_signer tx)) (\<lambda>from.
         let result = legacy_fields tx from blockHash blockNumber index chainID in
         Inr (if et_Type tx = AccessListTxType
              then result\<lparr>tx_Accesses := Some (et_AccessList tx), tx_ChainID := Some (et_ChainId tx)\<rparr>
              else if et_Type tx = DynamicFeeTxType
              then result\<lparr>tx_Accesses := Some (et_AccessList tx), tx_ChainID := Some (et_ChainId tx),
                          tx_GasFeeCap := Some (et_GasFeeCap tx), tx_GasTipCap := Some (et_GasTipCap tx),
                          tx_GasPrice := Some (dynamic_price tx blockHash baseFee)\<rparr>
              else result))) (AsTransaction msg)"

text \<open>The value of the first attribute \<open>basefee\<close> of a \<open>txfees\<close> event; the last event that has a
  readable one decides.\<close>

definition event_base_fee :: "Chain_Lib \<Rightarrow> Event \<Rightarrow> int option" where
  "event_base_fee L ev =
     (if EvType ev \<noteq> ''txfees'' then None
      else
        (case filter (\<lambda>a. Key a = ''basefee'') (Attributes ev) of
           [] \<Rightarrow> None
         | a # _ \<Rightarrow> (case NewDec_RoundInt L (Val a) of Inl _ \<Rightarrow> None | Inr n \<Rightarrow> Some n)))"

fun first_base_fee :: "Chain_Lib \<Rightarrow> Event list \<Rightarrow> int option" where
  "first_base_fee L [] = None"
| "first_base_fee L (ev # evs) = (case event_base_fee L ev of Some n \<Rightarrow> Some n | None \<Rightarrow> first_base_fee L evs)"

definition BaseFeeFromEvents :: "Chain_Lib \<Rightarrow> Event list \<Rightarrow> int option" where
  "BaseFeeFromEvents L events = first_base_fee L (rev events)"

definition TxExceedBlockGasLimit :: "ExecTxResult \<Rightarrow> bool" where
  "TxExceedBlockGasLimit res = Contains (Log res) ExceedBlockGasLimitError"

definition TxSuccessOrExceedsBlockGasLimit :: "ExecTxResult \<Rightarrow> bool" where
  "TxSuccessOrExceedsBlockGasLimit res \<longleftrightarrow> Code res = 0 \<or> TxExceedBlockGasLimit res"

definition TxAnteFailed :: "Chain_Lib \<Rightarrow> ExecTxResult option \<Rightarrow> bool" where
  "TxAnteFailed L res =
     (case res of
        None \<Rightarrow> False
      | Some r \<Rightarrow>
          if Code r = 0 then False
          else if Events r \<noteq> [] then False
          else if Codespace r = evm_ModuleName L \<or> TxExceedBlockGasLimit r then False
          else \<not> Contains (Log r) MsgExecutionFailedLog)"

section \<open>Lemmas\<close>

lemma dynamic_price_bounds:
  assumes "blockHash \<noteq> 0" and "baseFee = Some fee" and "0 \<le> et_GasTipCap tx"
  shows "dynamic_price tx blockHash baseFee \<le> et_GasFeeCap tx"
    and "fee \<le> et_GasFeeCap tx \<Longrightarrow> fee \<le> dynamic_price tx blockHash baseFee"
  using assms by (simp_all add: dynamic_price_def)

text \<open>The transactions root of a header is the empty root exactly for blocks that have data: the
  condition of the source is the wrong way round.\<close>

lemma EthHeaderFromTendermint_root:
  "h_DataHash header \<noteq> [] \<Longrightarrow> eh_TxHash (EthHeaderFromTendermint E header bloom baseFee) = EmptyRootHash E"
  "h_DataHash header = [] \<Longrightarrow> eh_TxHash (EthHeaderFromTendermint E header bloom baseFee) = 0"
  by (simp_all add: EthHeaderFromTendermint_def bytes_to_hash_def)

text \<open>A result whose transaction was included and charged is never taken for an ante failure.\<close>

lemma TxAnteFailed_not_success: "TxSuccessOrExceedsBlockGasLimit r \<Longrightarrow> \<not> TxAnteFailed L (Some r)"
  by (auto simp: TxSuccessOrExceedsBlockGasLimit_def TxAnteFailed_def)

end
