(* ===== verification/KV_Indexer.thy ===== *)
theory KV_Indexer
  imports KV_Cache Rpc_Types
begin

text \<open>
  Indexing a block: \<open>indexBlockWithStats\<close> of \<open>internal/indexer/kv_indexer.go\<close> with its helpers, and
  \<open>saveVirtualTx\<close> of \<open>virtual.go\<close>. The local variables of the function that its closures and loops
  update are the record \<open>IndexState\<close>; each loop body is one definition. A panic inside is recovered
  by the function and returned as an error, so it is an \<open>Inl\<close> here as well. The database changes only
  when the batch is written at the end.
\<close>

section \<open>Definitions\<close>

subsection \<open>Helpers\<close>

definition WithVirtualCosmosEvents :: "bool \<Rightarrow> string \<Rightarrow> ('d, 'b) KVIndexer \<Rightarrow> ('d, 'b) KVIndexer" where
  "WithVirtualCosmosEvents enabled chainID kv =
     (let kv1 = kv\<lparr>virtualizationEnabled := enabled\<rparr>; s = TrimSpace chainID in
      if \<not> enabled \<or> s = [] then kv1
      else
        let neg = (hd s = CHR ''-''); body = (if hd s = CHR ''-'' \<or> hd s = CHR ''+'' then tl s else s) in
        if body = [] \<or> \<not> list_all is_digit body then kv1
        else
          let n = foldl (\<lambda>a c. a * 10 + int (the (digit_val c))) 0 body in
          if neg \<or> n \<le> 0 then kv1 else kv1\<lparr>virtualChainID := Some n\<rparr>)"

definition isEthTx :: "SdkTx \<Rightarrow> bool" where
  "isEthTx tx \<longleftrightarrow> GetExtensionOptions tx = Some [''/injective.evm.v1.ExtensionOptionsEthereumTx'']"

definition saveTxResult :: "('d, 'b) KVIndexer \<Rightarrow> 'b \<Rightarrow> hash \<Rightarrow> TxResult \<Rightarrow> go_error + 'b" where
  "saveTxResult kv b txHash txResult =
     bindR (wrapR (\<lambda>e. Wrap e ''set tx-hash key'') (batch_Set (kv_db kv) b (TxHashKey txHash) (mustMarshalTxResult (kv_codec kv) (Some txResult)))) (\<lambda>b.
       wrapR (\<lambda>e. Wrap e ''set tx-index key'') (batch_Set (kv_db kv) b (TxIndexKey (tr_Height txResult) (tr_EthTxIndex txResult)) (hash_bytes txHash)))"

text \<open>The nil check of \<open>saveVirtualTx\<close> has no counterpart: a \<open>VirtualTx\<close> always has both parts.\<close>

definition saveVirtualTx :: "('d, 'b) KVIndexer \<Rightarrow> 'b \<Rightarrow> int \<Rightarrow> VirtualTx \<Rightarrow> go_error + 'b" where
  "saveVirtualTx kv b height tx =
     (let txHash = tx_Hash (Transaction tx) in
      bindR (mustMarshalReceipt (kv_eth kv) (kv_codec kv) (cachedVirtualReceipt (kv_eth kv) (kv_chain kv) (TxReceipt tx))) (\<lambda>rbz.
      bindR (wrapR (\<lambda>e. Wrap e ''set virtual receipt'') (batch_Set (kv_db kv) b (ReceiptKey txHash) rbz)) (\<lambda>b.
      bindR (wrapR (\<lambda>e. Wrap e ''set virtual rpc tx hash'')
        (batch_Set (kv_db kv) b (RPCtxHashKey txHash) (mustMarshalRPCTransaction (kv_codec kv) (Transaction tx)))) (\<lambda>b.
      bindR (wrapR (\<lambda>e. Wrap e ''set virtual rpc tx marker'') (batch_Set (kv_db kv) b (VirtualRPCtxKey txHash) [1])) (\<lambda>b.
        wrapR (\<lambda>e. Wrap e ''set virtual rpc tx index'')
          (batch_Set (kv_db kv) b (RPCtxIndexKey height (i32 (r_TransactionIndex (TxReceipt tx)))) (hash_bytes txHash)))))))"

definition blockBaseFeeFromResults :: "Chain_Lib \<Rightarrow> ResultBlockResults option \<Rightarrow> int option" where
  "blockBaseFeeFromResults L r = (case r of None \<Rightarrow> None | Some br \<Rightarrow> BaseFeeFromEvents L (br_FinalizeBlockEvents br))"

definition blockTxResults :: "ResultBlockResults option \<Rightarrow> ExecTxResult option list" where
  "blockTxResults r = (case r of None \<Rightarrow> [] | Some br \<Rightarrow> br_TxResults br)"

definition blockMinerFromHeader :: "Block \<Rightarrow> address" where
  "blockMinerFromHeader block = bytes_to_addr (h_ProposerAddress (b_Header block))"

definition encodeOptionalBig :: "Eth_Lib \<Rightarrow> int option \<Rightarrow> string" where
  "encodeOptionalBig E v = (case v of None \<Rightarrow> [] | Some x \<Rightarrow> EncodeBig E x)"

definition visibleRPCTxsRoot :: "Eth_Lib \<Rightarrow> Chain_Lib \<Rightarrow> hash list \<Rightarrow> hash" where
  "visibleRPCTxsRoot E L txHashes =
     (if txHashes = [] then EmptyRootHash E else bytes_to_hash (Merkle_Hash L (map hash_bytes txHashes)))"

definition receiptEffectiveGasPrice :: "Chain_Lib \<Rightarrow> EthTx \<Rightarrow> int option \<Rightarrow> int" where
  "receiptEffectiveGasPrice L tx baseFee =
     (case baseFee of
        None \<Rightarrow> et_GasPrice tx
      | Some fee \<Rightarrow>
          if et_Type tx \<noteq> DynamicFeeTxType then et_GasPrice tx
          else EffectiveGasPrice_of L fee (et_GasFeeCap tx) (et_GasTipCap tx))"

subsection \<open>State and context\<close>

record 'b IndexState =
  s_batch :: 'b
  s_blockLogs :: "RPCLog option list list"
  s_flatLogs :: "RPCLog option list"
  s_logIndex :: int
  s_blockGasUsed :: int
  s_gasBefore :: int
  s_ethTxIndex :: int
  s_rpcTxIndex :: int
  s_visible :: "hash list"
  s_IndexedEthTxs :: int

record BlockCtx =
  c_height :: int
  c_hash :: hash
  c_baseFee :: "int option"

record TxCtx =
  t_txIndex :: int
  t_bytes :: bytes
  t_result :: ExecTxResult
  t_msgs :: "Msg list"
  t_virtual :: Response

definition init_state :: "'b \<Rightarrow> 'b IndexState" where
  "init_state b =
     \<lparr>s_batch = b, s_blockLogs = [], s_flatLogs = [], s_logIndex = 0, s_blockGasUsed = 0, s_gasBefore = 0, s_ethTxIndex = 0,
      s_rpcTxIndex = 0, s_visible = [], s_IndexedEthTxs = 0\<rparr>"

text \<open>The closures of the function.\<close>

definition appendLogGroup :: "RPCLog option list \<Rightarrow> 'b IndexState \<Rightarrow> 'b IndexState" where
  "appendLogGroup logs s = s\<lparr>s_blockLogs := s_blockLogs s @ [logs], s_flatLogs := s_flatLogs s @ logs\<rparr>"

definition appendVisibleRPCTxHash :: "('d, 'b) KVIndexer \<Rightarrow> hash \<Rightarrow> 'b IndexState \<Rightarrow> 'b IndexState" where
  "appendVisibleRPCTxHash kv txHash s =
     (if virtualizationEnabled kv then s\<lparr>s_visible := s_visible s @ [txHash]\<rparr> else s)"

definition virtualLogContext :: "BlockCtx \<Rightarrow> int \<Rightarrow> hash \<Rightarrow> int \<Rightarrow> LogContext" where
  "virtualLogContext C logIndex txHash txIndex =
     \<lparr>lc_BlockHash = c_hash C, lc_BlockNumber = u64 (c_height C), lc_TxHash = txHash, lc_TxIndex = u64 txIndex,
      lc_FirstLogIndex = logIndex, lc_CosmosHash = None\<rparr>"

definition storeVirtualTx :: "('d, 'b) KVIndexer \<Rightarrow> BlockCtx \<Rightarrow> 'b IndexState \<Rightarrow> VirtualTx \<Rightarrow> go_error + 'b IndexState" where
  "storeVirtualTx kv C s tx =
     bindR (wrapR (\<lambda>e. Wrap e ''IndexBlock'') (saveVirtualTx kv (s_batch s) (c_height C) tx)) (\<lambda>b.
       Inr (appendLogGroup (tx_logs tx) (appendVisibleRPCTxHash kv (tx_Hash (Transaction tx)) (s\<lparr>s_batch := b\<rparr>))))"

text \<open>The body shared by the loops over synthetic transactions and by the two block transactions: count
  the logs, store, count the transaction.\<close>

definition add_virtual :: "('d, 'b) KVIndexer \<Rightarrow> BlockCtx \<Rightarrow> 'b IndexState \<Rightarrow> VirtualTx \<Rightarrow> go_error + 'b IndexState" where
  "add_virtual kv C s tx =
     bindR (storeVirtualTx kv C (s\<lparr>s_logIndex := u64 (s_logIndex s + int (length (tx_logs tx)))\<rparr>) tx) (\<lambda>s.
       Inr (s\<lparr>s_rpcTxIndex := i32 (s_rpcTxIndex s + 1)\<rparr>))"

definition eth_msg_indexes :: "Msg list \<Rightarrow> int \<Rightarrow> bool" where
  "eth_msg_indexes msgs i \<longleftrightarrow> 0 \<le> i \<and> i < int (length msgs) \<and> (case msgs ! nat i of EthereumMsg _ \<Rightarrow> True | OtherMsg _ \<Rightarrow> False)"

definition synthetic_context :: "('d, 'b) KVIndexer \<Rightarrow> BlockCtx \<Rightarrow> TxCtx \<Rightarrow> 'b IndexState \<Rightarrow> int \<Rightarrow> TxContext" where
  "synthetic_context kv C T s ethGas =
     \<lparr>Tx = t_bytes T, EthereumMessageIndexes = eth_msg_indexes (t_msgs T), EthereumGasUsed = ethGas,
      TotalMessages = int (length (t_msgs T)), ctx_BlockHash = c_hash C, ctx_BlockNumber = u64 (c_height C),
      ctx_TxIndex = u64 (s_rpcTxIndex s), FirstLogIndex = s_logIndex s, CumulativeGasUsedBefore = s_gasBefore s,
      ChainID = virtualChainID kv\<rparr>"

definition add_synthetic :: "('d, 'b) KVIndexer \<Rightarrow> BlockCtx \<Rightarrow> TxCtx \<Rightarrow> 'b IndexState \<Rightarrow> int \<Rightarrow> go_error + 'b IndexState" where
  "add_synthetic kv C T s ethGas =
     (if \<not> virtualizationEnabled kv then Inr s
      else
        bindR (wrapR (\<lambda>e. newBlockParseError (Some e) ''failed to build virtual transaction'')
          (SyntheticTxs (kv_eth kv) (kv_chain kv) (t_virtual T) (synthetic_context kv C T s ethGas))) (\<lambda>virtualTxs.
          foldR (add_virtual kv C) s virtualTxs))"

subsection \<open>Ethereum messages\<close>

text \<open>Gas used, failure, hash, reason and VM error of a message.\<close>

definition message_outcome ::
  "Chain_Lib \<Rightarrow> ExecTxResult \<Rightarrow> ParsedTxs \<Rightarrow> int \<Rightarrow> int \<Rightarrow> MsgEthereumTx \<Rightarrow> go_error + (int \<times> bool \<times> hash \<times> string \<times> string)" where
  "message_outcome L result txs ethTxIndex msgIndex ethMsg =
     (if Code result \<noteq> 0 \<and> Codespace result \<noteq> evm_ModuleName L
      then Inr (GetGas ethMsg, True, EthMsg_Hash ethMsg, [], [])
      else
        (case GetTxByMsgIndex txs msgIndex of
           None \<Rightarrow> Inl (newBlockParseError None ''msg index not found in results'')
         | Some parsedTx \<Rightarrow>
             if 0 \<le> p_EthTxIndex parsedTx \<and> p_EthTxIndex parsedTx \<noteq> ethTxIndex
             then Inl (newBlockParseError None ''eth tx index mismatch'')
             else Inr (p_GasUsed parsedTx, p_Failed parsedTx, p_Hash parsedTx, p_Reason parsedTx, p_VMError parsedTx)))"

definition message_logs :: "Chain_Lib \<Rightarrow> ExecTxResult \<Rightarrow> int \<Rightarrow> int \<Rightarrow> bool \<Rightarrow> go_error + RPCLog option list" where
  "message_logs L result msgIndex height failed =
     (if Data result \<noteq> []
      then
        bindR (wrapR (\<lambda>e. newBlockParseError (Some e) ''failed to decode msg logs'') (DecodeMsgLogs L (Data result) msgIndex (u64 height))) (\<lambda>evmLogs.
          Inr (WrapLogs evmLogs False None))
      else if \<not> failed then Inl (newBlockParseError None ''missing tx response data'')
      else Inr [])"

text \<open>With virtualization the genuine logs get their block-wide metadata, and the virtual logs of the
  message follow them.\<close>

definition visible_logs :: "('d, 'b) KVIndexer \<Rightarrow> BlockCtx \<Rightarrow> TxCtx \<Rightarrow> int \<Rightarrow> hash \<Rightarrow> int \<Rightarrow> int \<Rightarrow> RPCLog option list \<Rightarrow> RPCLog option list" where
  "visible_logs kv C T logIndex txHash visibleTxIndex msgIndex logs =
     (if virtualizationEnabled kv
      then
        SetLogMetadata logs (virtualLogContext C logIndex txHash visibleTxIndex) @
        LogsForMessage (t_virtual T) msgIndex (int (length (t_msgs T)))
          (virtualLogContext C (u64 (logIndex + int (length logs))) txHash visibleTxIndex)
      else logs)"

definition next_log_index :: "('d, 'b) KVIndexer \<Rightarrow> int \<Rightarrow> RPCLog option list \<Rightarrow> int" where
  "next_log_index kv logIndex logs = (if virtualizationEnabled kv then u64 (logIndex + int (length logs)) else logIndex)"

definition store_message ::
  "('d, 'b) KVIndexer \<Rightarrow> BlockCtx \<Rightarrow> 'b \<Rightarrow> hash \<Rightarrow> CachedReceipt \<Rightarrow> MsgEthereumTx \<Rightarrow> int \<Rightarrow> int \<Rightarrow> go_error + 'b" where
  "store_message kv C b txHash receipt ethMsg visibleTxIndex chainID =
     bindR (mustMarshalReceipt (kv_eth kv) (kv_codec kv) receipt) (\<lambda>rbz.
     bindR (wrapR (\<lambda>e. Wrap e ''IndexBlock, set receipt'') (batch_Set (kv_db kv) b (ReceiptKey txHash) rbz)) (\<lambda>b.
     bindR (case NewRPCTransaction ethMsg (c_hash C) (u64 (c_height C)) (u64 visibleTxIndex) (c_baseFee C) chainID of
              None \<Rightarrow> Inl (Errorf ''runtime error: invalid memory address or nil pointer dereference'')
            | Some r \<Rightarrow> wrapR (\<lambda>e. newBlockParseError (Some e) ''failed to build rpc tx'') r) (\<lambda>rpcTx.
     bindR (wrapR (\<lambda>e. Wrap e ''IndexBlock, set rpc tx hash'')
       (batch_Set (kv_db kv) b (RPCtxHashKey txHash) (mustMarshalRPCTransaction (kv_codec kv) (rpcTx\<lparr>tx_Hash := txHash\<rparr>)))) (\<lambda>b.
       wrapR (\<lambda>e. Wrap e ''IndexBlock, set rpc tx index'')
         (batch_Set (kv_db kv) b (RPCtxIndexKey (c_height C) visibleTxIndex) (hash_bytes txHash))))))"

definition index_eth_message ::
  "('d, 'b) KVIndexer \<Rightarrow> BlockCtx \<Rightarrow> TxCtx \<Rightarrow> ParsedTxs \<Rightarrow> 'b IndexState \<Rightarrow> int \<Rightarrow> int \<Rightarrow> MsgEthereumTx \<Rightarrow> go_error + ('b IndexState \<times> int)" where
  "index_eth_message kv C T txs s cumulative msgIndex ethMsg =
     (let visibleTxIndex = (if virtualizationEnabled kv then s_rpcTxIndex s else s_ethTxIndex s) in
      bindR (message_outcome (kv_chain kv) (t_result T) txs (s_ethTxIndex s) msgIndex ethMsg) (\<lambda>(gas, failed, txHash, reason, vmError).
        let cumulative' = u64 (cumulative + gas) in
        bindR (wrapR (\<lambda>e. Wrap e ''IndexBlock'') (saveTxResult kv (s_batch s) txHash
          \<lparr>tr_Height = c_height C, tr_TxIndex = u32 (t_txIndex T), tr_MsgIndex = u32 msgIndex, tr_EthTxIndex = s_ethTxIndex s,
           tr_Failed = failed, tr_GasUsed = gas, tr_CumulativeGasUsed = cumulative'\<rparr>)) (\<lambda>b.
        case AsTransaction ethMsg of
          None \<Rightarrow> Inl (newBlockParseError None ''failed to unpack eth tx data'')
        | Some txData \<Rightarrow>
            bindR (message_logs (kv_chain kv) (t_result T) msgIndex (c_height C) failed) (\<lambda>evmLogs.
            let logs = visible_logs kv C T (s_logIndex s) txHash visibleTxIndex msgIndex evmLogs in
            bindR (wrapR (\<lambda>e. newBlockParseError (Some e) ''failed to derive tx sender'') (GetSenderLegacy ethMsg (tx_signer txData))) (\<lambda>from.
            let receipt = buildCachedReceipt (kv_eth kv) (kv_chain kv) (if failed then 0 else 1) (u64 (s_gasBefore s + cumulative')) gas reason vmError
                  logs txHash (if et_To txData = None then Some (CreateAddress (kv_eth kv) from (et_Nonce txData)) else None) (c_hash C)
                  (u64 (c_height C)) (u64 visibleTxIndex) (receiptEffectiveGasPrice (kv_chain kv) txData (c_baseFee C)) from (et_To txData)
                  (et_Type txData) in
            bindR (store_message kv C b txHash receipt ethMsg visibleTxIndex (et_ChainId txData)) (\<lambda>b.
              let s1 = appendLogGroup logs (appendVisibleRPCTxHash kv txHash (s\<lparr>s_batch := b\<rparr>)) in
              Inr (s1\<lparr>s_logIndex := next_log_index kv (s_logIndex s) logs, s_IndexedEthTxs := i64 (s_IndexedEthTxs s + 1),
                      s_ethTxIndex := i32 (s_ethTxIndex s + 1), s_rpcTxIndex := i32 (s_rpcTxIndex s + 1)\<rparr>, cumulative')))))))"

text \<open>The loop over the messages; other messages are skipped.\<close>

fun index_messages ::
  "('d, 'b) KVIndexer \<Rightarrow> BlockCtx \<Rightarrow> TxCtx \<Rightarrow> ParsedTxs \<Rightarrow> 'b IndexState \<Rightarrow> int \<Rightarrow> int \<Rightarrow> Msg list \<Rightarrow> go_error + ('b IndexState \<times> int)" where
  "index_messages kv C T txs s cumulative msgIndex [] = Inr (s, cumulative)"
| "index_messages kv C T txs s cumulative msgIndex (OtherMsg _ # ms) = index_messages kv C T txs s cumulative (msgIndex + 1) ms"
| "index_messages kv C T txs s cumulative msgIndex (EthereumMsg m # ms) =
     bindR (index_eth_message kv C T txs s cumulative msgIndex m) (\<lambda>(s', cumulative').
       index_messages kv C T txs s' cumulative' (msgIndex + 1) ms)"

subsection \<open>Transactions\<close>

definition add_gas :: "ExecTxResult \<Rightarrow> 'b IndexState \<Rightarrow> 'b IndexState" where
  "add_gas result s =
     s\<lparr>s_blockGasUsed := u64 (s_blockGasUsed s + u64 (GasUsed result)), s_gasBefore := u64 (s_gasBefore s + u64 (GasUsed result))\<rparr>"

definition empty_response :: Response where
  "empty_response = \<lparr>rs_entries = [], rs_code = 0, rs_gasUsed = 0\<rparr>"

definition index_tx ::
  "('d, 'b) KVIndexer \<Rightarrow> BlockCtx \<Rightarrow> ExecTxResult option list \<Rightarrow> 'b IndexState \<Rightarrow> int \<Rightarrow> bytes \<Rightarrow> go_error + 'b IndexState" where
  "index_tx kv C results s txIndex txBytes =
     (if int (length results) \<le> txIndex
      then Inl (newBlockParseError None ''tx results shorter than block tx list'')
      else
        (case results ! nat txIndex of
           None \<Rightarrow> Inl (newBlockParseError None ''missing tx result'')
         | Some result \<Rightarrow>
             bindR (wrapR (\<lambda>e. newBlockParseError (Some e) ''failed to decode tx'') (TxDecoder (kv_chain kv) txBytes)) (\<lambda>tx.
             bindR (if virtualizationEnabled kv
                    then wrapR (\<lambda>e. newBlockParseError (Some e) ''failed to parse virtual events'')
                      (ParseResponse (kv_eth kv) (kv_chain kv) (Some result))
                    else Inr empty_response) (\<lambda>virtualResponse.
             let T = \<lparr>t_txIndex = txIndex, t_bytes = txBytes, t_result = result, t_msgs = GetMsgs tx, t_virtual = virtualResponse\<rparr> in
             if \<not> isEthTx tx
             then bindR (add_synthetic kv C T s 0) (\<lambda>s. Inr (add_gas result s))
             else
               (case ParseTxResult (kv_eth kv) (kv_chain kv) result (Some tx) of
                  None \<Rightarrow> Inl (Errorf ''runtime error: index out of range or interface conversion'')
                | Some parsed \<Rightarrow>
                    bindR (wrapR (\<lambda>e. newBlockParseError (Some e) ''failed to parse tx result'') parsed) (\<lambda>txs.
                    bindR (index_messages kv C T txs s 0 0 (GetMsgs tx)) (\<lambda>(s, ethGas).
                    bindR (add_synthetic kv C T s ethGas) (\<lambda>s. Inr (add_gas result s)))))))))"

fun index_txs ::
  "('d, 'b) KVIndexer \<Rightarrow> BlockCtx \<Rightarrow> ExecTxResult option list \<Rightarrow> 'b IndexState \<Rightarrow> int \<Rightarrow> bytes list \<Rightarrow> go_error + 'b IndexState" where
  "index_txs kv C results s txIndex [] = Inr s"
| "index_txs kv C results s txIndex (tx # txs) =
     bindR (index_tx kv C results s txIndex tx) (\<lambda>s'. index_txs kv C results s' (txIndex + 1) txs)"

subsection \<open>Blocks\<close>

definition add_block_tx :: "('d, 'b) KVIndexer \<Rightarrow> BlockCtx \<Rightarrow> 'b IndexState \<Rightarrow> hash \<Rightarrow> EthLog option list \<Rightarrow> int \<Rightarrow> go_error + 'b IndexState" where
  "add_block_tx kv C s txHash events cumulative =
     (if events = [] then Inr s
      else add_virtual kv C s
        (NewBlockTx (kv_eth kv) txHash events (virtualLogContext C (s_logIndex s) txHash (s_rpcTxIndex s)) (virtualChainID kv) cumulative))"

definition visible_count :: "('d, 'b) KVIndexer \<Rightarrow> 'b IndexState \<Rightarrow> int" where
  "visible_count kv s = (if virtualizationEnabled kv then s_rpcTxIndex s else s_ethTxIndex s)"

definition transactions_root :: "('d, 'b) KVIndexer \<Rightarrow> Block \<Rightarrow> 'b IndexState \<Rightarrow> go_error + string" where
  "transactions_root kv block s =
     (if visible_count kv s \<le> 0 then Inr (Hash_Hex (kv_eth kv) (EmptyRootHash (kv_eth kv)))
      else if virtualizationEnabled kv
      then
        (if i32 (int (length (s_visible s))) \<noteq> visible_count kv s
         then Inl (newBlockParseError None ''visible rpc tx root count mismatch'')
         else Inr (Hash_Hex (kv_eth kv) (visibleRPCTxsRoot (kv_eth kv) (kv_chain kv) (s_visible s))))
      else Inr (Hash_Hex (kv_eth kv) (bytes_to_hash (h_DataHash (b_Header block)))))"

definition block_meta_of :: "('d, 'b) KVIndexer \<Rightarrow> Block \<Rightarrow> BlockCtx \<Rightarrow> 'b IndexState \<Rightarrow> string \<Rightarrow> CachedBlockMeta" where
  "block_meta_of kv block C s root =
     \<lparr>bm_Height = c_height C, bm_Hash = Hash_Hex (kv_eth kv) (c_hash C),
      bm_ParentHash = Hash_Hex (kv_eth kv) (bytes_to_hash (h_LastBlockID (b_Header block))),
      bm_StateRoot = hexutil_Encode (kv_eth kv) (h_AppHash (b_Header block)),
      bm_Miner = Address_Hex (kv_eth kv) (blockMinerFromHeader block), bm_Timestamp = h_Time (b_Header block),
      bm_Size = u64 (b_Size block), bm_GasLimit = cachedGasLimit kv, bm_GasUsed = s_blockGasUsed s,
      bm_EthTxCount = visible_count kv s, bm_TxCount = i32 (int (length (b_Txs block))),
      bm_Bloom = hexutil_Encode (kv_eth kv) (LogsBloom_of (kv_chain kv) (EthLogs (s_flatLogs s))),
      bm_TransactionsRoot = root, bm_BaseFee = encodeOptionalBig (kv_eth kv) (c_baseFee C),
      bm_VirtualizedCosmosEvents = virtualizationEnabled kv\<rparr>"

definition index_content :: "('d, 'b) KVIndexer \<Rightarrow> 'b \<Rightarrow> Block \<Rightarrow> ResultBlockResults option \<Rightarrow> BlockCtx \<Rightarrow> go_error + 'b IndexState" where
  "index_content kv b block blockResults C =
     bindR (wrapR (\<lambda>e. newBlockParseError (Some e) ''failed to normalize tx response indexes'')
       (NormalizeTxResponseIndexes (kv_chain kv) (blockTxResults blockResults))) (\<lambda>results.
     bindR (case blockResults of
              None \<Rightarrow> Inr ([], [])
            | Some br \<Rightarrow>
                if virtualizationEnabled kv
                then wrapR (\<lambda>e. newBlockParseError (Some e) ''failed to parse finalize virtual events'')
                  (virtual_SplitBlockEvents (kv_eth kv) (kv_chain kv) (br_FinalizeBlockEvents br))
                else Inr ([], [])) (\<lambda>(beginEvents, endEvents).
     bindR (add_block_tx kv C (init_state b) (BeginBlockHash (kv_eth kv) (c_height C)) beginEvents 0) (\<lambda>s.
     bindR (index_txs kv C results s 0 (b_Txs block)) (\<lambda>s.
       add_block_tx kv C s (EndBlockHash (kv_eth kv) (c_height C)) endEvents (s_gasBefore s)))))"

text \<open>The result is the new database and the number of indexed Ethereum transactions.\<close>

definition indexBlockWithStats :: "('d, 'b) KVIndexer \<Rightarrow> 'd \<Rightarrow> Block \<Rightarrow> ResultBlockResults option \<Rightarrow> go_error + ('d \<times> int)" where
  "indexBlockWithStats kv d block blockResults =
     (let height = h_Height (b_Header block);
          C = \<lparr>c_height = height, c_hash = bytes_to_hash (b_Hash block),
               c_baseFee = blockBaseFeeFromResults (kv_chain kv) blockResults\<rparr> in
      bindR (resetBlock kv d (db_NewBatch (kv_db kv) d) height) (\<lambda>b.
      bindR (index_content kv b block blockResults C) (\<lambda>s.
      bindR (transactions_root kv block s) (\<lambda>root.
      bindR (wrapR (\<lambda>e. Wrap e ''IndexBlock, set block meta'')
        (batch_Set (kv_db kv) (s_batch s) (BlockMetaKey height) (mustMarshalBlockMeta (kv_codec kv) (block_meta_of kv block C s root)))) (\<lambda>b.
      bindR (wrapR (\<lambda>e. Wrap e ''IndexBlock, set block hash map'') (batch_Set (kv_db kv) b (BlockHashKey (c_hash C)) (be64 height))) (\<lambda>b.
      bindR (wrapR (\<lambda>e. Wrap e ''IndexBlock, set block logs'')
        (batch_Set (kv_db kv) b (BlockLogsKey height) (mustMarshalBlockLogs (kv_codec kv) (s_blockLogs s)))) (\<lambda>b.
      bindR (wrapR (\<lambda>e. Wrap e ''IndexBlock, write batch'') (batch_Write (kv_db kv) d b)) (\<lambda>d'.
        Inr (d', s_IndexedEthTxs s)))))))))"

definition IndexBlockWithStats :: "('d, 'b) KVIndexer \<Rightarrow> 'd \<Rightarrow> Block \<Rightarrow> ExecTxResult option list \<Rightarrow> go_error + ('d \<times> int)" where
  "IndexBlockWithStats kv d block txResults =
     indexBlockWithStats kv d block
       (Some \<lparr>br_Height = h_Height (b_Header block), br_TxResults = txResults, br_FinalizeBlockEvents = []\<rparr>)"

definition IndexBlock :: "('d, 'b) KVIndexer \<Rightarrow> 'd \<Rightarrow> Block \<Rightarrow> ExecTxResult option list \<Rightarrow> go_error + 'd" where
  "IndexBlock kv d block txResults = bindR (IndexBlockWithStats kv d block txResults) (\<lambda>(d', _). Inr d')"

definition IndexBlockWithResults :: "('d, 'b) KVIndexer \<Rightarrow> 'd \<Rightarrow> Block \<Rightarrow> ResultBlockResults option \<Rightarrow> go_error + 'd" where
  "IndexBlockWithResults kv d block blockResults = bindR (indexBlockWithStats kv d block blockResults) (\<lambda>(d', _). Inr d')"

definition IndexBlockWithStatsAndResults :: "('d, 'b) KVIndexer \<Rightarrow> 'd \<Rightarrow> Block \<Rightarrow> ResultBlockResults option \<Rightarrow> go_error + ('d \<times> int)" where
  "IndexBlockWithStatsAndResults kv d block blockResults = indexBlockWithStats kv d block blockResults"

end
