(* ===== verification/KV_Indexed.thy ===== *)
theory KV_Indexed
  imports KV_Indexer
begin

text \<open>
  What indexing a block establishes. The specification is a list of visible transactions, genuine and
  virtual: each with its hash, logs, receipt, RPC transaction and, for a genuine one, its result. The
  invariant \<open>built\<close> says that the variables of \<open>indexBlockWithStats\<close> and the operations in its batch are
  those of such a list; every loop of the function keeps it. The properties then follow for the written
  database: the block reads back consistently, its logs are numbered through the block, and the other
  blocks are untouched.
\<close>

section \<open>Visible transactions\<close>

record Visible =
  v_hash :: hash
  v_logs :: "RPCLog option list"
  v_receipt :: CachedReceipt
  v_tx :: RPCTransaction
  v_result :: "TxResult option"

definition receipt_bytes :: "('d, 'b) KVIndexer \<Rightarrow> Visible \<Rightarrow> bytes" where
  "receipt_bytes kv v = projr (mustMarshalReceipt (kv_eth kv) (kv_codec kv) (v_receipt v))"

text \<open>The operations that store a visible transaction at an index of a height.\<close>

definition visible_ops :: "('d, 'b) KVIndexer \<Rightarrow> int \<Rightarrow> int \<Rightarrow> Visible \<Rightarrow> (bytes \<times> bytes option) list" where
  "visible_ops kv h idx v =
     (case v_result v of
        None \<Rightarrow>
          [(ReceiptKey (v_hash v), Some (receipt_bytes kv v)),
           (RPCtxHashKey (v_hash v), Some (mustMarshalRPCTransaction (kv_codec kv) (v_tx v))),
           (VirtualRPCtxKey (v_hash v), Some [1])]
      | Some r \<Rightarrow>
          [(TxHashKey (v_hash v), Some (mustMarshalTxResult (kv_codec kv) (Some r))),
           (TxIndexKey h (tr_EthTxIndex r), Some (hash_bytes (v_hash v))),
           (ReceiptKey (v_hash v), Some (receipt_bytes kv v)),
           (RPCtxHashKey (v_hash v), Some (mustMarshalRPCTransaction (kv_codec kv) (v_tx v)))]) @
     [(RPCtxIndexKey h idx, Some (hash_bytes (v_hash v)))]"

definition eth_count :: "Visible list \<Rightarrow> nat" where
  "eth_count vs = length (filter (\<lambda>v. v_result v \<noteq> None) vs)"

abbreviation all_logs :: "Visible list \<Rightarrow> RPCLog option list" where
  "all_logs vs \<equiv> concat (map v_logs vs)"

text \<open>The laws of third-party code the properties rest on: decoded logs are not nil, the amounts of a decoded
  transaction are not negative and the price of a dynamic-fee transaction is its fee cap, and
  \<open>EffectiveGasPrice\<close> is the smaller one of the fee cap and of the tip on top of the base fee.\<close>

definition logs_present :: "Chain_Lib \<Rightarrow> bool" where
  "logs_present L \<longleftrightarrow> (\<forall>bz i h ls. DecodeMsgLogs L bz i h = Inr ls \<longrightarrow> None \<notin> set ls)"

definition amounts_nonneg :: "EthTx \<Rightarrow> bool" where
  "amounts_nonneg t \<longleftrightarrow> 0 \<le> et_GasPrice t \<and> 0 \<le> et_GasFeeCap t \<and> 0 \<le> et_GasTipCap t \<and> 0 \<le> et_Value t \<and> 0 \<le> et_ChainId t \<and>
     0 \<le> et_V t \<and> 0 \<le> et_R t \<and> 0 \<le> et_S t \<and> (et_Type t = DynamicFeeTxType \<longrightarrow> et_GasPrice t = et_GasFeeCap t)"

definition msg_nonneg :: "Msg \<Rightarrow> bool" where
  "msg_nonneg m = (case m of OtherMsg _ \<Rightarrow> True | EthereumMsg e \<Rightarrow> (\<forall>t. AsTransaction e = Some t \<longrightarrow> amounts_nonneg t))"

definition decodes_nonneg :: "Chain_Lib \<Rightarrow> bool" where
  "decodes_nonneg L \<longleftrightarrow> (\<forall>bz tx. TxDecoder L bz = Inr tx \<longrightarrow> list_all msg_nonneg (GetMsgs tx))"

definition amounts_ok :: "('d, 'b) KVIndexer \<Rightarrow> BlockCtx \<Rightarrow> bool" where
  "amounts_ok kv C \<longleftrightarrow> nonneg (c_baseFee C) \<and> nonneg (virtualChainID kv) \<and> decodes_nonneg (kv_chain kv) \<and>
     (\<forall>fee cap tip. EffectiveGasPrice_of (kv_chain kv) fee cap tip = min (tip + fee) cap)"

text \<open>What is known of the visible transaction at position \<open>idx\<close>, with \<open>eth\<close> genuine transactions and
  \<open>first\<close> logs before it.\<close>

definition tx_ok :: "('d, 'b) KVIndexer \<Rightarrow> BlockCtx \<Rightarrow> nat \<Rightarrow> Visible \<Rightarrow> bool" where
  "tx_ok kv C idx v \<longleftrightarrow>
     tx_Hash (v_tx v) = v_hash v \<and> (tx_Virtual (v_tx v) \<longleftrightarrow> v_result v = None) \<and>
     (c_hash C \<noteq> 0 \<longrightarrow> tx_BlockHash (v_tx v) = Some (c_hash C) \<and> tx_BlockNumber (v_tx v) = Some (u64 (c_height C)) \<and>
        (int idx < 2 ^ 31 \<longrightarrow> tx_TransactionIndex (v_tx v) = Some (int idx))) \<and>
     (amounts_ok kv C \<longrightarrow> bigs_nonneg (v_tx v))"

definition receipt_ok :: "('d, 'b) KVIndexer \<Rightarrow> BlockCtx \<Rightarrow> nat \<Rightarrow> Visible \<Rightarrow> bool" where
  "receipt_ok kv C idx v \<longleftrightarrow>
     (\<exists>bz. mustMarshalReceipt (kv_eth kv) (kv_codec kv) (v_receipt v) = Inr bz) \<and>
     (\<exists>st cg g reason vmErr ca ti price from to ty.
        v_receipt v = buildCachedReceipt (kv_eth kv) (kv_chain kv) st cg g reason vmErr (v_logs v) (v_hash v) ca (c_hash C)
          (u64 (c_height C)) ti price from to ty \<and>
        (int idx < 2 ^ 31 \<longrightarrow> ti = int idx) \<and> (amounts_ok kv C \<and> c_hash C \<noteq> 0 \<longrightarrow> tx_GasPrice (v_tx v) = Some price) \<and>
        (\<forall>r. v_result v = Some r \<longrightarrow> g = tr_GasUsed r \<and> st = (if tr_Failed r then 0 else 1)))"

definition result_ok :: "BlockCtx \<Rightarrow> nat \<Rightarrow> Visible \<Rightarrow> bool" where
  "result_ok C eth v \<longleftrightarrow> (\<forall>r. v_result v = Some r \<longrightarrow> tr_Height r = c_height C \<and> tr_EthTxIndex r = i32 (int eth))"

definition log_at :: "BlockCtx \<Rightarrow> nat \<Rightarrow> hash \<Rightarrow> RPCLog \<Rightarrow> bool" where
  "log_at C idx h l \<longleftrightarrow> TxHash l = h \<and> BlockHash l = c_hash C \<and> BlockNumber l = u64 (c_height C) \<and>
     (int idx < 2 ^ 31 \<longrightarrow> TxIndex l = int idx)"

definition numbered_logs :: "BlockCtx \<Rightarrow> nat \<Rightarrow> nat \<Rightarrow> hash \<Rightarrow> RPCLog option list \<Rightarrow> bool" where
  "numbered_logs C idx first h logs \<longleftrightarrow>
     (\<forall>l. Some l \<in> set logs \<longrightarrow> log_at C idx h l) \<and>
     (None \<notin> set logs \<longrightarrow> map (map_option Index) logs = index_run (int first) (length logs))"

definition logs_ok :: "('d, 'b) KVIndexer \<Rightarrow> BlockCtx \<Rightarrow> nat \<Rightarrow> nat \<Rightarrow> Visible \<Rightarrow> bool" where
  "logs_ok kv C idx first v \<longleftrightarrow>
     (logs_present (kv_chain kv) \<longrightarrow> None \<notin> set (v_logs v)) \<and>
     (virtualizationEnabled kv \<longrightarrow> numbered_logs C idx first (v_hash v) (v_logs v))"

definition visible_ok :: "('d, 'b) KVIndexer \<Rightarrow> BlockCtx \<Rightarrow> nat \<Rightarrow> nat \<Rightarrow> nat \<Rightarrow> Visible \<Rightarrow> bool" where
  "visible_ok kv C idx eth first v \<longleftrightarrow>
     tx_ok kv C idx v \<and> receipt_ok kv C idx v \<and> result_ok C eth v \<and> logs_ok kv C idx first v \<and>
     (virtualizationEnabled kv \<or> v_result v \<noteq> None)"

definition list_ops :: "('d, 'b) KVIndexer \<Rightarrow> int \<Rightarrow> Visible list \<Rightarrow> (bytes \<times> bytes option) list" where
  "list_ops kv h vs = concat (map (\<lambda>i. visible_ops kv h (i32 (int i)) (vs ! i)) [0..<length vs])"

definition all_visible_ok :: "('d, 'b) KVIndexer \<Rightarrow> BlockCtx \<Rightarrow> Visible list \<Rightarrow> bool" where
  "all_visible_ok kv C vs \<longleftrightarrow>
     (\<forall>i<length vs. visible_ok kv C i (eth_count (take i vs)) (length (all_logs (take i vs))) (vs ! i))"

section \<open>The invariant\<close>

definition counters_ok :: "('d, 'b) KVIndexer \<Rightarrow> 'b IndexState \<Rightarrow> Visible list \<Rightarrow> bool" where
  "counters_ok kv s vs \<longleftrightarrow>
     s_blockLogs s = map v_logs vs \<and> s_flatLogs s = all_logs vs \<and>
     s_ethTxIndex s = i32 (int (eth_count vs)) \<and> s_IndexedEthTxs s = i64 (int (eth_count vs)) \<and>
     (virtualizationEnabled kv \<longrightarrow> s_visible s = map v_hash vs \<and> s_rpcTxIndex s = i32 (int (length vs)) \<and>
        s_logIndex s = u64 (int (length (all_logs vs))))"

definition built :: "('d, 'b) KVIndexer \<Rightarrow> ('b \<Rightarrow> (bytes \<times> bytes option) list) \<Rightarrow> BlockCtx \<Rightarrow> 'b \<Rightarrow> 'b IndexState \<Rightarrow> Visible list \<Rightarrow> bool" where
  "built kv bops C b0 s vs \<longleftrightarrow>
     bops (s_batch s) = bops b0 @ list_ops kv (c_height C) vs \<and> all_visible_ok kv C vs \<and> counters_ok kv s vs"

text \<open>A state with one more visible transaction.\<close>

definition extends ::
  "('d, 'b) KVIndexer \<Rightarrow> ('b \<Rightarrow> (bytes \<times> bytes option) list) \<Rightarrow> BlockCtx \<Rightarrow> nat \<Rightarrow> 'b IndexState \<Rightarrow> Visible \<Rightarrow> 'b IndexState \<Rightarrow> bool" where
  "extends kv bops C idx s v s' \<longleftrightarrow>
     bops (s_batch s') = bops (s_batch s) @ visible_ops kv (c_height C) (i32 (int idx)) v \<and>
     s_blockLogs s' = s_blockLogs s @ [v_logs v] \<and> s_flatLogs s' = s_flatLogs s @ v_logs v \<and>
     s_ethTxIndex s' = (if v_result v = None then s_ethTxIndex s else i32 (s_ethTxIndex s + 1)) \<and>
     s_IndexedEthTxs s' = (if v_result v = None then s_IndexedEthTxs s else i64 (s_IndexedEthTxs s + 1)) \<and>
     (virtualizationEnabled kv \<longrightarrow> s_visible s' = s_visible s @ [v_hash v] \<and> s_rpcTxIndex s' = i32 (s_rpcTxIndex s + 1) \<and>
        s_logIndex s' = u64 (s_logIndex s + int (length (v_logs v))))"

section \<open>Lemmas: counters\<close>

lemma i32_i32_add [simp]: "i32 (i32 x + y) = i32 (x + y)"
proof -
  have "take_bit 32 (i32 x + y) = take_bit 32 (take_bit 32 (i32 x) + y)"
    by (simp add: take_bit_eq_mod mod_add_left_eq)
  also have "take_bit 32 (i32 x) = take_bit 32 x" by (simp add: i32_def take_bit_signed_take_bit)
  finally have "take_bit 32 (i32 x + y) = take_bit 32 (x + y)" by (simp add: take_bit_eq_mod mod_add_left_eq)
  then show ?thesis unfolding i32_def by (simp add: signed_take_bit_eq_iff_take_bit_eq)
qed

lemma i32_add_i32 [simp]: "i32 (y + i32 x) = i32 (y + x)"
  using i32_i32_add [of x y] by (simp add: add.commute)

lemma i32_i32 [simp]: "i32 (i32 x) = i32 x"
  using i32_i32_add [of x 0] by simp

lemma i32_u64 [simp]: "i32 (u64 x) = i32 x"
  by (simp add: i32_def u64_def signed_take_bit_take_bit)

lemma i32_small: "0 \<le> x \<Longrightarrow> x < 2 ^ 31 \<Longrightarrow> i32 x = x"
  by (simp add: i32_def signed_take_bit_int_eq_self)

lemma u64_small: "0 \<le> x \<Longrightarrow> x < 2 ^ 31 \<Longrightarrow> u64 x = x"
  by (rule u64_id) (simp_all add: maxUint64_def)

lemma index_run_u64 [simp]: "index_run (u64 f) n = index_run f n"
  by (simp add: index_run_def)

lemma eth_count_snoc: "eth_count (vs @ [v]) = eth_count vs + (if v_result v = None then 0 else 1)"
  by (simp add: eth_count_def)

lemma list_ops_snoc: "list_ops kv h (vs @ [v]) = list_ops kv h vs @ visible_ops kv h (i32 (int (length vs))) v"
proof -
  have "map (\<lambda>i. visible_ops kv h (i32 (int i)) ((vs @ [v]) ! i)) [0..<length vs] =
      map (\<lambda>i. visible_ops kv h (i32 (int i)) (vs ! i)) [0..<length vs]"
    by (rule map_cong) (simp_all add: nth_append)
  then show ?thesis unfolding list_ops_def by (simp del: map_eq_conv)
qed

lemma all_visible_ok_snoc:
  assumes "all_visible_ok kv C vs" and "visible_ok kv C (length vs) (eth_count vs) (length (all_logs vs)) v"
  shows "all_visible_ok kv C (vs @ [v])"
  using assms by (auto simp: all_visible_ok_def nth_append less_Suc_eq)

lemma counters_ok_extends: "counters_ok kv s vs \<Longrightarrow> extends kv bops C (length vs) s v s' \<Longrightarrow> counters_ok kv s' (vs @ [v])"
  by (auto simp: counters_ok_def extends_def eth_count_snoc add.commute)

lemma built_extends:
  assumes "built kv bops C b0 s vs" and "extends kv bops C (length vs) s v s'"
    and "visible_ok kv C (length vs) (eth_count vs) (length (all_logs vs)) v"
  shows "built kv bops C b0 s' (vs @ [v])"
  using assms counters_ok_extends [OF _ assms(2)] all_visible_ok_snoc [OF _ assms(3)]
  by (auto simp: built_def list_ops_snoc extends_def)

text \<open>Every transaction of an index block that does not virtualize is genuine.\<close>

lemma all_genuine:
  assumes "all_visible_ok kv C vs" and "\<not> virtualizationEnabled kv"
  shows "eth_count vs = length vs"
proof -
  have "v_result v \<noteq> None" if "v \<in> set vs" for v
    using that assms by (auto simp: all_visible_ok_def visible_ok_def in_set_conv_nth)
  then have "filter (\<lambda>v. v_result v \<noteq> None) vs = vs" by (simp add: filter_id_conv)
  then show ?thesis unfolding eth_count_def by (simp only:)
qed

lemma visible_index:
  assumes "built kv bops C b0 s vs"
  shows "(if virtualizationEnabled kv then s_rpcTxIndex s else s_ethTxIndex s) = i32 (int (length vs))"
  using assms all_genuine [of kv C vs] by (auto simp: built_def counters_ok_def)

section \<open>Lemmas: virtual transactions\<close>

text \<open>What a virtual transaction says of itself, whatever its position.\<close>

definition virtual_static :: "('d, 'b) KVIndexer \<Rightarrow> BlockCtx \<Rightarrow> VirtualTx \<Rightarrow> bool" where
  "virtual_static kv C t \<longleftrightarrow>
     tx_Hash (Transaction t) = r_TransactionHash (TxReceipt t) \<and> tx_Virtual (Transaction t) \<and>
     tx_BlockHash (Transaction t) = Some (c_hash C) \<and> tx_BlockNumber (Transaction t) = Some (u64 (c_height C)) \<and>
     tx_TransactionIndex (Transaction t) = Some (r_TransactionIndex (TxReceipt t)) \<and>
     r_BlockHash (TxReceipt t) = c_hash C \<and> r_BlockNumber (TxReceipt t) = u64 (c_height C) \<and>
     (nonneg (virtualChainID kv) \<longrightarrow> bigs_nonneg (Transaction t)) \<and> tx_GasPrice (Transaction t) = Some 0 \<and>
     r_EffectiveGasPrice (TxReceipt t) = Some 0 \<and> None \<notin> set (tx_logs t) \<and> (\<forall>l. Some l \<in> set (tx_logs t) \<longrightarrow> log_of_tx t l)"

definition visible_of :: "('d, 'b) KVIndexer \<Rightarrow> VirtualTx \<Rightarrow> Visible" where
  "visible_of kv t =
     \<lparr>v_hash = tx_Hash (Transaction t), v_logs = tx_logs t,
      v_receipt = cachedVirtualReceipt (kv_eth kv) (kv_chain kv) (TxReceipt t), v_tx = Transaction t, v_result = None\<rparr>"

lemma visible_of_simps [simp]:
  "v_hash (visible_of kv t) = tx_Hash (Transaction t)" "v_logs (visible_of kv t) = tx_logs t"
  "v_receipt (visible_of kv t) = cachedVirtualReceipt (kv_eth kv) (kv_chain kv) (TxReceipt t)"
  "v_tx (visible_of kv t) = Transaction t" "v_result (visible_of kv t) = None"
  by (simp_all add: visible_of_def)

lemma visible_of_ok:
  assumes "virtual_static kv C t" and "virtualizationEnabled kv"
    and idx: "int idx < 2 ^ 31 \<longrightarrow> r_TransactionIndex (TxReceipt t) = int idx"
    and num: "map (map_option Index) (tx_logs t) = index_run (int first) (length (tx_logs t))"
    and bz: "mustMarshalReceipt (kv_eth kv) (kv_codec kv) (cachedVirtualReceipt (kv_eth kv) (kv_chain kv) (TxReceipt t)) = Inr bz"
  shows "visible_ok kv C idx eth first (visible_of kv t)"
proof -
  have "tx_ok kv C idx (visible_of kv t)" using assms(1) idx by (auto simp: tx_ok_def virtual_static_def amounts_ok_def)
  moreover have "receipt_ok kv C idx (visible_of kv t)"
  proof -
    let ?r = "TxReceipt t"
    have rr: "v_receipt (visible_of kv t) = buildCachedReceipt (kv_eth kv) (kv_chain kv) (r_Status ?r) (r_CumulativeGasUsed ?r) (r_GasUsed ?r)
        (r_Reason ?r) (r_VMError ?r) (v_logs (visible_of kv t)) (v_hash (visible_of kv t)) None (c_hash C) (u64 (c_height C))
        (r_TransactionIndex ?r) 0 (r_From ?r) (r_To ?r) (r_Type ?r)"
      using assms(1) by (simp add: virtual_static_def cachedVirtualReceipt_def)
    have g: "tx_GasPrice (v_tx (visible_of kv t)) = Some 0" using assms(1) by (simp add: virtual_static_def)
    have m: "\<exists>bz. mustMarshalReceipt (kv_eth kv) (kv_codec kv) (v_receipt (visible_of kv t)) = Inr bz" using bz by simp
    show ?thesis unfolding receipt_ok_def
      by (rule conjI, rule m, intro exI conjI, rule rr, rule idx, simp only: g simp_thms, simp)
  qed
  moreover have "result_ok C eth (visible_of kv t)" by (simp add: result_ok_def)
  moreover have "logs_ok kv C idx first (visible_of kv t)"
    using assms(1) idx num by (auto simp: logs_ok_def numbered_logs_def log_at_def virtual_static_def log_of_tx_def)
  ultimately show ?thesis using assms(2) by (simp add: visible_ok_def)
qed

lemma SetLogMetadata_some: "None \<in> set (SetLogMetadata logs c) \<longleftrightarrow> None \<in> set logs"
proof -
  have "None \<in> set (set_metadata_from c i logs) \<longleftrightarrow> None \<in> set logs" for i
    by (induction logs arbitrary: i) (auto simp: eq_commute [of None])
  then show ?thesis by (simp add: SetLogMetadata_def)
qed

lemma syntheticTx_static:
  assumes "ctx_BlockHash ctx = c_hash C" and "ctx_BlockNumber ctx = u64 (c_height C)" and "ChainID ctx = virtualChainID kv"
    and "\<forall>e\<in>set es. None \<notin> set (e_logs e)"
  shows "virtual_static kv C (syntheticTx E L r ctx es hook h g)"
proof -
  have "None \<notin> set (tx_logs (syntheticTx E L r ctx es hook h g))"
    using assms(4) by (auto simp: syntheticTx_logs SetLogMetadata_some entry_logs_some)
  moreover have "tx_BlockHash (Transaction (syntheticTx E L r ctx es hook h g)) = Some (c_hash C)"
    "tx_BlockNumber (Transaction (syntheticTx E L r ctx es hook h g)) = Some (u64 (c_height C))"
    "tx_TransactionIndex (Transaction (syntheticTx E L r ctx es hook h g)) = Some (ctx_TxIndex ctx)"
    "tx_Virtual (Transaction (syntheticTx E L r ctx es hook h g))"
    "tx_GasPrice (Transaction (syntheticTx E L r ctx es hook h g)) = Some 0"
    "r_EffectiveGasPrice (TxReceipt (syntheticTx E L r ctx es hook h g)) = Some 0"
    "r_BlockHash (TxReceipt (syntheticTx E L r ctx es hook h g)) = c_hash C"
    "r_BlockNumber (TxReceipt (syntheticTx E L r ctx es hook h g)) = u64 (c_height C)"
    "nonneg (virtualChainID kv) \<longrightarrow> bigs_nonneg (Transaction (syntheticTx E L r ctx es hook h g))"
    using assms(1-3) by (simp_all add: syntheticTx_def newRPCTransaction_def Let_def bigs_nonneg_def nonneg_def split: option.splits)
  ultimately show ?thesis using syntheticTx_log [of _ E L r ctx es hook h g] by (simp add: virtual_static_def)
qed

lemma context_kept [simp]:
  "ctx_BlockHash (after_tx ctx t) = ctx_BlockHash ctx" "ctx_BlockNumber (after_tx ctx t) = ctx_BlockNumber ctx"
  "ChainID (after_tx ctx t) = ChainID ctx" "ctx_BlockHash (with_ethereum_gas ctx) = ctx_BlockHash ctx"
  "ctx_BlockNumber (with_ethereum_gas ctx) = ctx_BlockNumber ctx" "ChainID (with_ethereum_gas ctx) = ChainID ctx"
  by (simp_all add: after_tx_def with_ethereum_gas_def)

lemma hook_txs_static:
  assumes "ctx_BlockHash ctx = c_hash C" and "ctx_BlockNumber ctx = u64 (c_height C)" and "ChainID ctx = virtualChainID kv"
    and "\<forall>e\<in>set es. None \<notin> set (e_logs e)" and "t \<in> set (hook_txs E L r cnt ctx prev n es)"
  shows "virtual_static kv C t"
  using assms
proof (induction es arbitrary: ctx prev n)
  case (Cons e es)
  obtain u m where u: "u = syntheticTx E L r ctx [e] (e_hook e) (hook_hash E L (Tx ctx) cnt (hook_index e) m) (hook_gas e)"
    "hook_txs E L r cnt ctx prev n (e # es) = u # hook_txs E L r cnt (after_tx ctx u) (Some (hook_index e)) (m + 1) es"
    by (rule hook_txs_Cons)
  have "virtual_static kv C u" unfolding u(1) by (rule syntheticTx_static) (use Cons.prems in simp_all)
  moreover have "virtual_static kv C t" if "t \<in> set (hook_txs E L r cnt (after_tx ctx u) (Some (hook_index e)) (m + 1) es)"
    by (rule Cons.IH [OF _ _ _ _ that]) (use Cons.prems in simp_all)
  ultimately show ?case using Cons.prems(5) u(2) by auto
qed simp

lemma SyntheticTxs_static:
  assumes "ParseResponse E L resp = Inr r" and "SyntheticTxs E L r ctx = Inr txs" and "t \<in> set txs"
    and c: "ctx_BlockHash ctx = c_hash C" "ctx_BlockNumber ctx = u64 (c_height C)" "ChainID ctx = virtualChainID kv"
  shows "virtual_static kv C t"
proof -
  have b: "\<forall>e\<in>set (bank_entries ctx r). None \<notin> set (e_logs e)"
    and h: "\<forall>e\<in>set (sort_key f (hook_entries ctx r)). None \<notin> set (e_logs e)" for f :: "entry \<Rightarrow> int"
    using ParseResponse_some [OF assms(1)] bank_entries_subset [of ctx r] hook_entries_subset [of f ctx r] by blast+
  show ?thesis using assms(2)
  proof (cases rule: SyntheticTxs_cases)
    case none
    then show ?thesis using assms(3) by simp
  next
    case bank
    then have "t = syntheticTx E L r ctx (bank_entries ctx r) None (CosmosTxHash E L (Tx ctx)) (rs_gasUsed r)" using assms(3) by simp
    then show ?thesis using syntheticTx_static [OF c b] by simp
  next
    case (hooks es)
    then show ?thesis using hook_txs_static [of "with_ethereum_gas ctx" C kv es t] c h [of hook_index] assms(3) by simp
  next
    case (both es u)
    then consider "t = u" | "t \<in> set (hook_txs E L r (hooksPerMessage (hook_entries ctx r)) (after_tx (with_ethereum_gas ctx) u) None 0 es)"
      using assms(3) by auto
    then show ?thesis
    proof cases
      case 1
      then show ?thesis using both(4) syntheticTx_static [of "with_ethereum_gas ctx" C kv] c b by simp
    next
      case 2
      then show ?thesis
        using hook_txs_static [of "after_tx (with_ethereum_gas ctx) u" C kv es t] both(3) c h [of hook_index] by simp
    qed
  qed
qed

lemma NewBlockTx_static:
  assumes "None \<notin> set events" and "lctx = virtualLogContext C logIndex h idx"
  shows "virtual_static kv C (NewBlockTx E h events lctx (virtualChainID kv) g)"
    and "map (map_option Index) (tx_logs (NewBlockTx E h events lctx (virtualChainID kv) g)) =
      index_run logIndex (length (tx_logs (NewBlockTx E h events lctx (virtualChainID kv) g)))"
    and "r_TransactionIndex (TxReceipt (NewBlockTx E h events lctx (virtualChainID kv) g)) = u64 idx"
proof -
  let ?ls = "WrapLogs events True None"
  have some: "None \<notin> set ?ls" using assms(1) by (auto simp: WrapLogs_def NewRPCLog_def)
  have logs: "tx_logs (NewBlockTx E h events lctx (virtualChainID kv) g) = SetLogMetadata ?ls lctx"
    by (simp add: NewBlockTx_def MaterializeLogs_def assms(2) virtualLogContext_def)
  have "None \<notin> set (SetLogMetadata ?ls lctx)" using some by (simp add: SetLogMetadata_some)
  moreover have "log_of_tx (NewBlockTx E h events lctx (virtualChainID kv) g) l" if "Some l \<in> set (SetLogMetadata ?ls lctx)" for l
  proof -
    from that obtain k l0 where "Some l0 \<in> set ?ls" "l = set_metadata lctx k l0"
      unfolding SetLogMetadata_def by (blast dest: set_metadata_from_mem)
    moreover from this have "Virtual l0" by (auto simp: WrapLogs_def NewRPCLog_def Some_eq_map_option)
    ultimately show ?thesis by (simp add: log_of_tx_def set_metadata_def Let_def NewBlockTx_def assms(2) virtualLogContext_def)
  qed
  ultimately show "virtual_static kv C (NewBlockTx E h events lctx (virtualChainID kv) g)"
    unfolding virtual_static_def logs
    by (simp add: NewBlockTx_def newRPCTransaction_def assms(2) virtualLogContext_def bigs_nonneg_def nonneg_def)
  show "map (map_option Index) (tx_logs (NewBlockTx E h events lctx (virtualChainID kv) g)) =
      index_run logIndex (length (tx_logs (NewBlockTx E h events lctx (virtualChainID kv) g)))"
    unfolding logs using SetLogMetadata_Index [OF some, of lctx] by (simp add: assms(2) virtualLogContext_def)
  show "r_TransactionIndex (TxReceipt (NewBlockTx E h events lctx (virtualChainID kv) g)) = u64 idx"
    by (simp add: NewBlockTx_def assms(2) virtualLogContext_def)
qed

section \<open>Lemmas: genuine transactions\<close>

lemma SetLogMetadata_at:
  assumes "Some l \<in> set (SetLogMetadata logs (virtualLogContext C f h (i32 (int idx))))"
  shows "log_at C idx h l"
proof -
  from assms obtain k l0 where "l = set_metadata (virtualLogContext C f h (i32 (int idx))) k l0"
    unfolding SetLogMetadata_def by (blast dest: set_metadata_from_mem)
  then show ?thesis
    by (simp add: log_at_def set_metadata_def virtualLogContext_def Let_def i32_small u64_small)
qed

lemma LogsForMessage_some:
  assumes "\<forall>e\<in>set (rs_entries r). None \<notin> set (e_logs e)"
  shows "None \<notin> set (LogsForMessage r i n c)"
  using assms by (auto simp: LogsForMessage_def SetLogMetadata_some entry_logs_some)

lemma visible_logs_ok:
  assumes "virtualizationEnabled kv" and "\<forall>e\<in>set (rs_entries (t_virtual T)). None \<notin> set (e_logs e)"
  shows "numbered_logs C idx first h (visible_logs kv C T (u64 (int first)) h (i32 (int idx)) i evmLogs)"
proof -
  let ?c = "\<lambda>f. virtualLogContext C f h (i32 (int idx))"
  let ?vs = "LogsForMessage (t_virtual T) i (int (length (t_msgs T))) (?c (u64 (u64 (int first) + int (length evmLogs))))"
  have logs: "visible_logs kv C T (u64 (int first)) h (i32 (int idx)) i evmLogs = SetLogMetadata evmLogs (?c (u64 (int first))) @ ?vs"
    using assms(1) by (simp add: visible_logs_def)
  have "log_at C idx h l" if "Some l \<in> set (SetLogMetadata evmLogs (?c (u64 (int first))) @ ?vs)" for l
    using that unfolding LogsForMessage_def by (auto dest: SetLogMetadata_at)
  moreover have "map (map_option Index) (SetLogMetadata evmLogs (?c (u64 (int first))) @ ?vs) =
      index_run (int first) (length (SetLogMetadata evmLogs (?c (u64 (int first))) @ ?vs))"
    if "None \<notin> set (SetLogMetadata evmLogs (?c (u64 (int first))) @ ?vs)"
  proof -
    have e: "map (map_option Index) (SetLogMetadata evmLogs (?c (u64 (int first)))) = index_run (int first) (length evmLogs)"
      using that SetLogMetadata_Index [of evmLogs "?c (u64 (int first))"]
      by (simp add: SetLogMetadata_some virtualLogContext_def)
    have v: "map (map_option Index) (LogsForMessage (t_virtual T) i n (?c f)) = index_run f (length (LogsForMessage (t_virtual T) i n (?c f)))"
      for n f
      unfolding LogsForMessage_def
      by (subst SetLogMetadata_Index) (use assms(2) in \<open>auto simp: entry_logs_some virtualLogContext_def\<close>)
    show ?thesis by (simp add: e v index_run_add)
  qed
  ultimately show ?thesis unfolding numbered_logs_def logs by blast
qed

lemma message_logs_some:
  assumes "message_logs L result i h failed = Inr logs" and "logs_present L"
  shows "None \<notin> set logs"
  using assms
  by (auto simp: message_logs_def logs_present_def WrapLogs_def NewRPCLog_def result_simps split: if_splits)

lemma visible_logs_some:
  assumes "None \<notin> set evmLogs" and "virtualizationEnabled kv \<Longrightarrow> \<forall>e\<in>set (rs_entries (t_virtual T)). None \<notin> set (e_logs e)"
  shows "None \<notin> set (visible_logs kv C T f h idx i evmLogs)"
  using assms LogsForMessage_some [of "t_virtual T"] by (auto simp: visible_logs_def SetLogMetadata_some)

lemma NewRPCTransaction_ok:
  assumes "NewRPCTransaction m (c_hash C) (u64 (c_height C)) (u64 (i32 (int idx))) (c_baseFee C) (et_ChainId t) = Some (Inr rpcTx)"
    and "AsTransaction m = Some t"
  shows "\<not> tx_Virtual rpcTx"
    and "c_hash C \<noteq> 0 \<longrightarrow> tx_BlockHash rpcTx = Some (c_hash C) \<and> tx_BlockNumber rpcTx = Some (u64 (c_height C)) \<and>
      (int idx < 2 ^ 31 \<longrightarrow> tx_TransactionIndex rpcTx = Some (int idx))"
    and "amounts_nonneg t \<and> nonneg (c_baseFee C) \<longrightarrow> bigs_nonneg rpcTx"
    and "amounts_nonneg t \<and> (\<forall>fee cap tip. EffectiveGasPrice_of L fee cap tip = min (tip + fee) cap) \<and> c_hash C \<noteq> 0 \<longrightarrow>
      tx_GasPrice rpcTx = Some (receiptEffectiveGasPrice L t (c_baseFee C))"
proof -
  obtain sender where r: "rpcTx = (let result = legacy_fields t sender (c_hash C) (u64 (c_height C)) (u64 (i32 (int idx))) (et_ChainId t) in
      if et_Type t = AccessListTxType
      then result\<lparr>tx_Accesses := Some (et_AccessList t), tx_ChainID := Some (et_ChainId t)\<rparr>
      else if et_Type t = DynamicFeeTxType
      then result\<lparr>tx_Accesses := Some (et_AccessList t), tx_ChainID := Some (et_ChainId t),
                  tx_GasFeeCap := Some (et_GasFeeCap t), tx_GasTipCap := Some (et_GasTipCap t),
                  tx_GasPrice := Some (dynamic_price t (c_hash C) (c_baseFee C))\<rparr>
      else result)"
    using assms by (auto simp: NewRPCTransaction_def result_simps Let_def)
  show "\<not> tx_Virtual rpcTx" unfolding r by (simp add: Let_def legacy_fields_def)
  show "c_hash C \<noteq> 0 \<longrightarrow> tx_BlockHash rpcTx = Some (c_hash C) \<and> tx_BlockNumber rpcTx = Some (u64 (c_height C)) \<and>
      (int idx < 2 ^ 31 \<longrightarrow> tx_TransactionIndex rpcTx = Some (int idx))"
    unfolding r by (simp add: Let_def legacy_fields_def i32_small u64_small)
  have "amounts_nonneg t \<and> nonneg (c_baseFee C) \<Longrightarrow> 0 \<le> dynamic_price t h (c_baseFee C)" for h
    by (auto simp: amounts_nonneg_def nonneg_def dynamic_price_def split: option.splits)
  then show "amounts_nonneg t \<and> nonneg (c_baseFee C) \<longrightarrow> bigs_nonneg rpcTx"
    unfolding r by (simp add: Let_def legacy_fields_def bigs_nonneg_def nonneg_def amounts_nonneg_def)
  have "DynamicFeeTxType \<noteq> AccessListTxType" by (simp add: DynamicFeeTxType_def AccessListTxType_def)
  then show "amounts_nonneg t \<and> (\<forall>fee cap tip. EffectiveGasPrice_of L fee cap tip = min (tip + fee) cap) \<and> c_hash C \<noteq> 0 \<longrightarrow>
      tx_GasPrice rpcTx = Some (receiptEffectiveGasPrice L t (c_baseFee C))"
    unfolding r
    by (auto simp: Let_def legacy_fields_def amounts_nonneg_def receiptEffectiveGasPrice_def dynamic_price_def split: option.splits)
qed

section \<open>Lemmas: the loops keep the invariant\<close>

text \<open>The visible transaction of an Ethereum message at position \<open>n\<close>, in the terms of the source.\<close>

definition message_visible ::
  "('d, 'b) KVIndexer \<Rightarrow> BlockCtx \<Rightarrow> TxCtx \<Rightarrow> ParsedTxs \<Rightarrow> 'b IndexState \<Rightarrow> nat \<Rightarrow> int \<Rightarrow> int \<Rightarrow> MsgEthereumTx \<Rightarrow> int \<Rightarrow> Visible \<Rightarrow> bool" where
  "message_visible kv C T txs s n cum i m cum' v \<longleftrightarrow>
     (\<exists>gas failed reason vmError t evmLogs sender rpcTx.
        message_outcome (kv_chain kv) (t_result T) txs (s_ethTxIndex s) i m = Inr (gas, failed, v_hash v, reason, vmError) \<and>
        cum' = u64 (cum + gas) \<and> AsTransaction m = Some t \<and>
        message_logs (kv_chain kv) (t_result T) i (c_height C) failed = Inr evmLogs \<and>
        v_logs v = visible_logs kv C T (s_logIndex s) (v_hash v) (i32 (int n)) i evmLogs \<and>
        GetSenderLegacy m (tx_signer t) = Inr sender \<and>
        v_receipt v = buildCachedReceipt (kv_eth kv) (kv_chain kv) (if failed then 0 else 1) (u64 (s_gasBefore s + cum')) gas reason vmError
          (v_logs v) (v_hash v) (if et_To t = None then Some (CreateAddress (kv_eth kv) sender (et_Nonce t)) else None) (c_hash C)
          (u64 (c_height C)) (u64 (i32 (int n))) (receiptEffectiveGasPrice (kv_chain kv) t (c_baseFee C)) sender (et_To t) (et_Type t) \<and>
        NewRPCTransaction m (c_hash C) (u64 (c_height C)) (u64 (i32 (int n))) (c_baseFee C) (et_ChainId t) = Some (Inr rpcTx) \<and>
        v_tx v = rpcTx\<lparr>tx_Hash := v_hash v\<rparr> \<and> v_result v \<noteq> None)"

context indexer_store
begin

lemma add_virtual_gas: "add_virtual kv C s t = Inr s' \<Longrightarrow> s_gasBefore s' = s_gasBefore s"
  by (auto simp: add_virtual_def storeVirtualTx_def result_simps appendLogGroup_def appendVisibleRPCTxHash_def)

lemma foldR_virtual_gas: "foldR (add_virtual kv C) s txs = Inr s' \<Longrightarrow> s_gasBefore s' = s_gasBefore s"
  by (induction txs arbitrary: s) (auto simp: result_simps dest: add_virtual_gas)

lemma add_virtual_extends:
  assumes "add_virtual kv C s t = Inr s'" and "i32 (r_TransactionIndex (TxReceipt t)) = i32 (int idx)"
  shows "extends kv bops C idx s (visible_of kv t) s'"
    and "\<exists>bz. mustMarshalReceipt (kv_eth kv) (kv_codec kv) (cachedVirtualReceipt (kv_eth kv) (kv_chain kv) (TxReceipt t)) = Inr bz"
proof -
  let ?h = "tx_Hash (Transaction t)"
  from assms(1) obtain rbz b1 b2 b3 b4 where
    rbz: "mustMarshalReceipt (kv_eth kv) (kv_codec kv) (cachedVirtualReceipt (kv_eth kv) (kv_chain kv) (TxReceipt t)) = Inr rbz"
    and b1: "batch_Set (kv_db kv) (s_batch s) (ReceiptKey ?h) rbz = Inr b1"
    and b2: "batch_Set (kv_db kv) b1 (RPCtxHashKey ?h) (mustMarshalRPCTransaction (kv_codec kv) (Transaction t)) = Inr b2"
    and b3: "batch_Set (kv_db kv) b2 (VirtualRPCtxKey ?h) [1] = Inr b3"
    and b4: "batch_Set (kv_db kv) b3 (RPCtxIndexKey (c_height C) (i32 (r_TransactionIndex (TxReceipt t)))) (hash_bytes ?h) = Inr b4"
    and s': "s' = (let s0 = s\<lparr>s_logIndex := u64 (s_logIndex s + int (length (tx_logs t)))\<rparr>;
        s1 = appendLogGroup (tx_logs t) (appendVisibleRPCTxHash kv ?h (s0\<lparr>s_batch := b4\<rparr>)) in
      s1\<lparr>s_rpcTxIndex := i32 (s_rpcTxIndex s1 + 1)\<rparr>)"
    unfolding add_virtual_def storeVirtualTx_def saveVirtualTx_def by (auto simp: Let_def result_simps)
  show "\<exists>bz. mustMarshalReceipt (kv_eth kv) (kv_codec kv) (cachedVirtualReceipt (kv_eth kv) (kv_chain kv) (TxReceipt t)) = Inr bz"
    using rbz by blast
  have "bops b4 = bops (s_batch s) @ visible_ops kv (c_height C) (i32 (int idx)) (visible_of kv t)"
    using batch_set_law [OF b1] batch_set_law [OF b2] batch_set_law [OF b3] batch_set_law [OF b4] assms(2) rbz
    by (simp add: visible_ops_def receipt_bytes_def)
  then show "extends kv bops C idx s (visible_of kv t) s'"
    by (simp add: extends_def s' Let_def appendLogGroup_def appendVisibleRPCTxHash_def)
qed

lemma add_virtual_built:
  assumes "built kv bops C b0 s vs" and "add_virtual kv C s t = Inr s'" and "virtualizationEnabled kv" and "virtual_static kv C t"
    and i: "i32 (r_TransactionIndex (TxReceipt t)) = i32 (int (length vs))"
      "int (length vs) < 2 ^ 31 \<longrightarrow> r_TransactionIndex (TxReceipt t) = int (length vs)"
    and num: "map (map_option Index) (tx_logs t) = index_run (int (length (all_logs vs))) (length (tx_logs t))"
  shows "built kv bops C b0 s' (vs @ [visible_of kv t])"
proof -
  from add_virtual_extends [OF assms(2) i(1)] obtain bz where
    "mustMarshalReceipt (kv_eth kv) (kv_codec kv) (cachedVirtualReceipt (kv_eth kv) (kv_chain kv) (TxReceipt t)) = Inr bz" by blast
  from built_extends [OF assms(1) add_virtual_extends(1) [OF assms(2) i(1)] visible_of_ok [OF assms(4,3) i(2) num this]]
  show ?thesis .
qed

lemma foldR_virtual_built:
  assumes "foldR (add_virtual kv C) s txs = Inr s'" and "built kv bops C b0 s vs" and "virtualizationEnabled kv"
    and "\<forall>t\<in>set txs. virtual_static kv C t"
    and "consecutive m (map (\<lambda>t. r_TransactionIndex (TxReceipt t)) txs)"
    and "i32 m = i32 (int (length vs))" and "int (length vs) < 2 ^ 31 \<longrightarrow> m = int (length vs)"
    and "map (map_option Index) (concat (map tx_logs txs)) = index_run (int (length (all_logs vs))) (length (concat (map tx_logs txs)))"
  shows "built kv bops C b0 s' (vs @ map (visible_of kv) txs)"
  using assms
proof (induction txs arbitrary: s vs m)
  case Nil
  then show ?case by simp
next
  case (Cons t txs)
  from Cons.prems(1) obtain s1 where s1: "add_virtual kv C s t = Inr s1" "foldR (add_virtual kv C) s1 txs = Inr s'"
    by (auto simp: result_simps)
  let ?f = "int (length (all_logs vs))"
  have "map (map_option Index) (tx_logs t) @ map (map_option Index) (concat (map tx_logs txs)) =
      index_run ?f (length (tx_logs t)) @ index_run (u64 (?f + int (length (tx_logs t)))) (length (concat (map tx_logs txs)))"
    using Cons.prems(8) by (simp add: index_run_add del: length_concat)
  then have n: "map (map_option Index) (tx_logs t) = index_run ?f (length (tx_logs t))"
    "map (map_option Index) (concat (map tx_logs txs)) =
      index_run (u64 (?f + int (length (tx_logs t)))) (length (concat (map tx_logs txs)))"
    by (simp_all add: append_eq_append_conv index_run_def del: length_concat)
  have m: "r_TransactionIndex (TxReceipt t) = m" "consecutive (u64 (m + 1)) (map (\<lambda>t. r_TransactionIndex (TxReceipt t)) txs)"
    using Cons.prems(5) by simp_all
  have b: "built kv bops C b0 s1 (vs @ [visible_of kv t])"
    using add_virtual_built [OF Cons.prems(2) s1(1) Cons.prems(3)] Cons.prems(4,6,7) m(1) n(1) by simp
  have "i32 (u64 (m + 1)) = i32 (int (length (vs @ [visible_of kv t])))"
    using Cons.prems(6) i32_i32_add [of m 1] i32_i32_add [of "int (length vs)" 1] by (simp add: add.commute)
  moreover have "int (length (vs @ [visible_of kv t])) < 2 ^ 31 \<longrightarrow> u64 (m + 1) = int (length (vs @ [visible_of kv t]))"
    using Cons.prems(7) u64_small [of "int (length vs) + 1"] by (simp add: add.commute)
  moreover have "map (map_option Index) (concat (map tx_logs txs)) =
      index_run (int (length (all_logs (vs @ [visible_of kv t])))) (length (concat (map tx_logs txs)))"
    using n(2) by (simp add: add.commute del: length_concat)
  ultimately have "built kv bops C b0 s' ((vs @ [visible_of kv t]) @ map (visible_of kv) txs)"
    using Cons.IH [OF s1(2) b Cons.prems(3) _ m(2)] Cons.prems(4) by simp
  then show ?case by simp
qed

lemma add_synthetic_shown:
  assumes "add_synthetic kv C T s g = Inr s'" and "built kv bops C b0 s vs" and "virtualizationEnabled kv"
    and "ParseResponse (kv_eth kv) (kv_chain kv) resp = Inr (t_virtual T)"
  obtains txs where "SyntheticTxs (kv_eth kv) (kv_chain kv) (t_virtual T) (synthetic_context kv C T s g) = Inr txs"
    and "foldR (add_virtual kv C) s txs = Inr s'" and "built kv bops C b0 s' (vs @ map (visible_of kv) txs)"
    and "\<forall>t\<in>set txs. virtual_static kv C t"
proof -
  let ?ctx = "synthetic_context kv C T s g"
  from assms(1,3) obtain txs where txs: "SyntheticTxs (kv_eth kv) (kv_chain kv) (t_virtual T) ?ctx = Inr txs"
    "foldR (add_virtual kv C) s txs = Inr s'" by (auto simp: add_synthetic_def result_simps)
  note parts = SyntheticTxs_parts [OF assms(4) txs(1)]
  have c: "s_rpcTxIndex s = i32 (int (length vs))" "s_logIndex s = u64 (int (length (all_logs vs)))"
    using assms(2,3) by (auto simp: built_def counters_ok_def)
  have st: "\<forall>t\<in>set txs. virtual_static kv C t"
    using SyntheticTxs_static [OF assms(4) txs(1), of _ C kv] by (simp add: synthetic_context_def)
  have "consecutive (u64 (i32 (int (length vs)))) (map (\<lambda>t. r_TransactionIndex (TxReceipt t)) txs)"
    using parts(1) c by (simp add: synthetic_context_def)
  moreover have "map (map_option Index) (concat (map tx_logs txs)) =
      index_run (int (length (all_logs vs))) (length (concat (map tx_logs txs)))"
    using parts(2) c by (simp add: synthetic_context_def del: length_concat)
  ultimately have "built kv bops C b0 s' (vs @ map (visible_of kv) txs)"
    using st foldR_virtual_built [OF txs(2) assms(2,3), of "u64 (i32 (int (length vs)))"] i32_small [of "int (length vs)"] u64_small [of "int (length vs)"]
    by (simp del: length_concat)
  then show thesis by (rule that [OF txs _ st])
qed

lemma add_synthetic_built:
  assumes "add_synthetic kv C T s g = Inr s'" and "built kv bops C b0 s vs"
    and "virtualizationEnabled kv \<Longrightarrow> ParseResponse (kv_eth kv) (kv_chain kv) resp = Inr (t_virtual T)"
  shows "\<exists>ws. built kv bops C b0 s' (vs @ ws)"
proof (cases "virtualizationEnabled kv")
  case False
  then show ?thesis using assms(1,2) by (intro exI [of _ "[]"]) (simp add: add_synthetic_def)
next
  case True
  from add_synthetic_shown [OF assms(1,2) True assms(3) [OF True]] show ?thesis by blast
qed

lemma add_block_tx_built:
  assumes "add_block_tx kv C s h events g = Inr s'" and "built kv bops C b0 s vs" and "None \<notin> set events"
    and "events \<noteq> [] \<Longrightarrow> virtualizationEnabled kv"
  shows "built kv bops C b0 s' (vs @ (if events = [] then [] else
    [visible_of kv (NewBlockTx (kv_eth kv) h events (virtualLogContext C (s_logIndex s) h (s_rpcTxIndex s)) (virtualChainID kv) g)]))"
proof (cases "events = []")
  case True
  then show ?thesis using assms(1,2) by (simp add: add_block_tx_def)
next
  case False
  let ?t = "NewBlockTx (kv_eth kv) h events (virtualLogContext C (s_logIndex s) h (s_rpcTxIndex s)) (virtualChainID kv) g"
  have c: "s_rpcTxIndex s = i32 (int (length vs))" "s_logIndex s = u64 (int (length (all_logs vs)))"
    using assms(2,4) False by (auto simp: built_def counters_ok_def)
  note st = NewBlockTx_static [where kv = kv and C = C and E = "kv_eth kv" and h = h and logIndex = "s_logIndex s" and
      idx = "s_rpcTxIndex s" and g = g, OF assms(3) refl]
  have idx: "r_TransactionIndex (TxReceipt ?t) = u64 (i32 (int (length vs)))" using st(3) unfolding c(1) .
  have num: "map (map_option Index) (tx_logs ?t) = index_run (int (length (all_logs vs))) (length (tx_logs ?t))"
    using st(2) unfolding c(2) index_run_u64 .
  have a: "add_virtual kv C s ?t = Inr s'" using assms(1) False by (simp add: add_block_tx_def)
  have "built kv bops C b0 s' (vs @ [visible_of kv ?t])"
    by (rule add_virtual_built [OF assms(2) a assms(4) [OF False] st(1) _ _ num]) (simp_all add: idx i32_small u64_small)
  then show ?thesis using False by simp
qed

lemma saveTxResult_ops:
  assumes "saveTxResult kv b h r = Inr b'"
  shows "bops b' = bops b @ [(TxHashKey h, Some (mustMarshalTxResult (kv_codec kv) (Some r))),
    (TxIndexKey (tr_Height r) (tr_EthTxIndex r), Some (hash_bytes h))]"
  using assms by (auto simp: saveTxResult_def result_simps dest!: batch_set_law)

lemma store_message_ops:
  assumes "store_message kv C b h receipt m idx chainID = Inr b'"
  obtains rbz rpcTx where "mustMarshalReceipt (kv_eth kv) (kv_codec kv) receipt = Inr rbz"
    "NewRPCTransaction m (c_hash C) (u64 (c_height C)) (u64 idx) (c_baseFee C) chainID = Some (Inr rpcTx)"
    "bops b' = bops b @ [(ReceiptKey h, Some rbz),
       (RPCtxHashKey h, Some (mustMarshalRPCTransaction (kv_codec kv) (rpcTx\<lparr>tx_Hash := h\<rparr>))),
       (RPCtxIndexKey (c_height C) idx, Some (hash_bytes h))]"
  using assms unfolding store_message_def
  by (auto simp: result_simps split: option.splits dest!: batch_set_law)

lemma index_eth_message_parts:
  assumes "index_eth_message kv C T txs s cum i m = Inr (s', cum')"
    and idx: "(if virtualizationEnabled kv then s_rpcTxIndex s else s_ethTxIndex s) = idx"
  obtains gas failed h reason vmError b1 t evmLogs sender b2 logs receipt where
    "message_outcome (kv_chain kv) (t_result T) txs (s_ethTxIndex s) i m = Inr (gas, failed, h, reason, vmError)" and "cum' = u64 (cum + gas)"
    and "saveTxResult kv (s_batch s) h
       \<lparr>tr_Height = c_height C, tr_TxIndex = u32 (t_txIndex T), tr_MsgIndex = u32 i, tr_EthTxIndex = s_ethTxIndex s,
        tr_Failed = failed, tr_GasUsed = gas, tr_CumulativeGasUsed = u64 (cum + gas)\<rparr> = Inr b1"
    and "AsTransaction m = Some t"
    and "message_logs (kv_chain kv) (t_result T) i (c_height C) failed = Inr evmLogs"
    and "logs = visible_logs kv C T (s_logIndex s) h idx i evmLogs"
    and "GetSenderLegacy m (tx_signer t) = Inr sender"
    and "receipt = buildCachedReceipt (kv_eth kv) (kv_chain kv) (if failed then 0 else 1) (u64 (s_gasBefore s + u64 (cum + gas))) gas
       reason vmError logs h (if et_To t = None then Some (CreateAddress (kv_eth kv) sender (et_Nonce t)) else None) (c_hash C)
       (u64 (c_height C)) (u64 idx) (receiptEffectiveGasPrice (kv_chain kv) t (c_baseFee C)) sender (et_To t) (et_Type t)"
    and "store_message kv C b1 h receipt m idx (et_ChainId t) = Inr b2"
    and "s' = (appendLogGroup logs (appendVisibleRPCTxHash kv h (s\<lparr>s_batch := b2\<rparr>)))
       \<lparr>s_logIndex := next_log_index kv (s_logIndex s) logs, s_IndexedEthTxs := i64 (s_IndexedEthTxs s + 1),
        s_ethTxIndex := i32 (s_ethTxIndex s + 1), s_rpcTxIndex := i32 (s_rpcTxIndex s + 1)\<rparr>"
  using assms(1) unfolding index_eth_message_def idx by (auto simp: Let_def result_simps split: option.splits)

lemma index_eth_message_built:
  assumes "index_eth_message kv C T txs s cum i m = Inr (s', cum')" and b: "built kv bops C b0 s vs"
    and e: "virtualizationEnabled kv \<Longrightarrow> \<forall>e\<in>set (rs_entries (t_virtual T)). None \<notin> set (e_logs e)"
    and nn: "amounts_ok kv C \<Longrightarrow> msg_nonneg (EthereumMsg m)"
  shows "\<exists>v. built kv bops C b0 s' (vs @ [v]) \<and> message_visible kv C T txs s (length vs) cum i m cum' v \<and> s_gasBefore s' = s_gasBefore s"
proof -
  let ?n = "length vs"
  have cnt: "s_ethTxIndex s = i32 (int (eth_count vs))" "virtualizationEnabled kv \<Longrightarrow> s_logIndex s = u64 (int (length (all_logs vs)))"
    using b by (auto simp: built_def counters_ok_def)
  from index_eth_message_parts [OF assms(1) visible_index [OF b]]
  obtain gas failed h reason vmError b1 t evmLogs sender b2 logs receipt where
    oc: "message_outcome (kv_chain kv) (t_result T) txs (s_ethTxIndex s) i m = Inr (gas, failed, h, reason, vmError)" "cum' = u64 (cum + gas)"
    and b1: "saveTxResult kv (s_batch s) h
       \<lparr>tr_Height = c_height C, tr_TxIndex = u32 (t_txIndex T), tr_MsgIndex = u32 i, tr_EthTxIndex = s_ethTxIndex s,
        tr_Failed = failed, tr_GasUsed = gas, tr_CumulativeGasUsed = u64 (cum + gas)\<rparr> = Inr b1"
    and t: "AsTransaction m = Some t"
    and evm: "message_logs (kv_chain kv) (t_result T) i (c_height C) failed = Inr evmLogs"
    and logs: "logs = visible_logs kv C T (s_logIndex s) h (i32 (int ?n)) i evmLogs"
    and sender: "GetSenderLegacy m (tx_signer t) = Inr sender"
    and receipt: "receipt = buildCachedReceipt (kv_eth kv) (kv_chain kv) (if failed then 0 else 1) (u64 (s_gasBefore s + u64 (cum + gas))) gas
       reason vmError logs h (if et_To t = None then Some (CreateAddress (kv_eth kv) sender (et_Nonce t)) else None) (c_hash C)
       (u64 (c_height C)) (u64 (i32 (int ?n))) (receiptEffectiveGasPrice (kv_chain kv) t (c_baseFee C)) sender (et_To t) (et_Type t)"
    and b2: "store_message kv C b1 h receipt m (i32 (int ?n)) (et_ChainId t) = Inr b2"
    and s': "s' = (appendLogGroup logs (appendVisibleRPCTxHash kv h (s\<lparr>s_batch := b2\<rparr>)))
       \<lparr>s_logIndex := next_log_index kv (s_logIndex s) logs, s_IndexedEthTxs := i64 (s_IndexedEthTxs s + 1),
        s_ethTxIndex := i32 (s_ethTxIndex s + 1), s_rpcTxIndex := i32 (s_rpcTxIndex s + 1)\<rparr>" .
  define r where "r = \<lparr>tr_Height = c_height C, tr_TxIndex = u32 (t_txIndex T), tr_MsgIndex = u32 i, tr_EthTxIndex = s_ethTxIndex s,
           tr_Failed = failed, tr_GasUsed = gas, tr_CumulativeGasUsed = u64 (cum + gas)\<rparr>"
  from store_message_ops [OF b2] obtain rbz rpcTx where
    rbz: "mustMarshalReceipt (kv_eth kv) (kv_codec kv) receipt = Inr rbz"
    and tx: "NewRPCTransaction m (c_hash C) (u64 (c_height C)) (u64 (i32 (int ?n))) (c_baseFee C) (et_ChainId t) = Some (Inr rpcTx)"
    and ops: "bops b2 = bops b1 @ [(ReceiptKey h, Some rbz),
       (RPCtxHashKey h, Some (mustMarshalRPCTransaction (kv_codec kv) (rpcTx\<lparr>tx_Hash := h\<rparr>))),
       (RPCtxIndexKey (c_height C) (i32 (int ?n)), Some (hash_bytes h))]" .
  define v where "v = \<lparr>v_hash = h, v_logs = logs, v_receipt = receipt, v_tx = rpcTx\<lparr>tx_Hash := h\<rparr>, v_result = Some r\<rparr>"
  have "extends kv bops C ?n s v s'"
    using ops saveTxResult_ops [OF b1] rbz
    by (simp add: extends_def s' v_def r_def visible_ops_def receipt_bytes_def appendLogGroup_def
        appendVisibleRPCTxHash_def next_log_index_def)
  moreover have "visible_ok kv C ?n (eth_count vs) (length (all_logs vs)) v"
  proof -
    have "tx_ok kv C ?n v"
      using NewRPCTransaction_ok [OF tx t] nn t
      by (auto simp: tx_ok_def v_def amounts_ok_def msg_nonneg_def bigs_nonneg_def)
    moreover have "receipt_ok kv C ?n v"
      unfolding receipt_ok_def
      by (rule conjI, use rbz in \<open>simp add: v_def\<close>, intro exI conjI, simp only: v_def Visible.select_convs receipt)
        (use NewRPCTransaction_ok(4) [OF tx t, of "kv_chain kv"] nn t in
          \<open>auto simp: v_def r_def i32_small u64_small amounts_ok_def msg_nonneg_def\<close>)
    moreover have "result_ok C (eth_count vs) v" using cnt(1) by (simp add: result_ok_def v_def r_def)
    moreover have "logs_ok kv C ?n (length (all_logs vs)) v"
      using visible_logs_ok [OF _ e, of kv C ?n "length (all_logs vs)" h i evmLogs] cnt(2)
        visible_logs_some [of evmLogs kv T C "s_logIndex s" h "i32 (int ?n)" i] message_logs_some [OF evm] e
      by (simp add: logs_ok_def v_def logs del: length_concat)
    ultimately show ?thesis by (simp add: visible_ok_def v_def)
  qed
  ultimately have "built kv bops C b0 s' (vs @ [v])" using built_extends [OF b] by blast
  moreover have "message_visible kv C T txs s ?n cum i m cum' v"
    unfolding message_visible_def
    by (intro exI conjI) (use oc t evm sender tx in \<open>simp_all add: v_def logs receipt\<close>)
  moreover have "s_gasBefore s' = s_gasBefore s" by (simp add: s' appendLogGroup_def appendVisibleRPCTxHash_def)
  ultimately show ?thesis by blast
qed

lemma index_messages_built:
  assumes "index_messages kv C T txs s cum i ms = Inr (s', cum')" and "built kv bops C b0 s vs"
    and "virtualizationEnabled kv \<Longrightarrow> \<forall>e\<in>set (rs_entries (t_virtual T)). None \<notin> set (e_logs e)"
    and "amounts_ok kv C \<Longrightarrow> list_all msg_nonneg ms"
  shows "\<exists>ws. built kv bops C b0 s' (vs @ ws)"
  using assms
proof (induction ms arbitrary: s cum i vs)
  case Nil
  then show ?case by (intro exI [of _ "[]"]) simp
next
  case (Cons m ms)
  show ?case
  proof (cases m)
    case (OtherMsg x)
    then show ?thesis using Cons by simp
  next
    case (EthereumMsg e)
    with Cons.prems(1) obtain s1 c1 where s1: "index_eth_message kv C T txs s cum i e = Inr (s1, c1)"
      "index_messages kv C T txs s1 c1 (i + 1) ms = Inr (s', cum')" by (auto simp: result_simps)
    obtain v where "built kv bops C b0 s1 (vs @ [v])"
      using index_eth_message_built [OF s1(1) Cons.prems(2)] Cons.prems(3,4) EthereumMsg by auto
    from Cons.IH [OF s1(2) this Cons.prems(3)] Cons.prems(4) have "\<exists>ws. built kv bops C b0 s' ((vs @ [v]) @ ws)" by auto
    then show ?thesis by (metis append_assoc)
  qed
qed

lemma built_add_gas [simp]: "built kv bops C b0 (add_gas result s) vs \<longleftrightarrow> built kv bops C b0 s vs"
  by (simp add: built_def counters_ok_def add_gas_def)

lemma index_tx_parts:
  assumes "index_tx kv C results s i bz = Inr s'"
  obtains result tx r T where "TxDecoder (kv_chain kv) bz = Inr tx"
    and "(if virtualizationEnabled kv then ParseResponse (kv_eth kv) (kv_chain kv) (Some result) else Inr empty_response) = Inr r"
    and "T = \<lparr>t_txIndex = i, t_bytes = bz, t_result = result, t_msgs = GetMsgs tx, t_virtual = r\<rparr>"
    and "(if \<not> isEthTx tx then bindR (add_synthetic kv C T s 0) (\<lambda>s. Inr (add_gas result s))
      else (case ParseTxResult (kv_eth kv) (kv_chain kv) result (Some tx) of
              None \<Rightarrow> Inl (Errorf ''runtime error: index out of range or interface conversion'')
            | Some parsed \<Rightarrow>
                bindR (wrapR (\<lambda>e. newBlockParseError (Some e) ''failed to parse tx result'') parsed) (\<lambda>txs.
                bindR (index_messages kv C T txs s 0 0 (GetMsgs tx)) (\<lambda>(s, ethGas).
                bindR (add_synthetic kv C T s ethGas) (\<lambda>s. Inr (add_gas result s)))))) = Inr s'"
    and "\<not> int (length results) \<le> i" and "results ! nat i = Some result"
proof -
  have n: "\<not> int (length results) \<le> i" using assms by (auto simp: index_tx_def)
  obtain result where result: "results ! nat i = Some result"
    using assms n by (cases "results ! nat i") (simp_all add: index_tx_def)
  obtain tx where tx: "TxDecoder (kv_chain kv) bz = Inr tx"
    using assms n result by (cases "TxDecoder (kv_chain kv) bz") (simp_all add: index_tx_def)
  have "\<exists>r. (if virtualizationEnabled kv then ParseResponse (kv_eth kv) (kv_chain kv) (Some result) else Inr empty_response) = Inr r"
    using assms n result tx
    by (cases "ParseResponse (kv_eth kv) (kv_chain kv) (Some result)"; cases "virtualizationEnabled kv") (simp_all add: index_tx_def)
  then obtain r where r: "(if virtualizationEnabled kv then ParseResponse (kv_eth kv) (kv_chain kv) (Some result) else Inr empty_response) = Inr r"
    by blast
  then have w: "(if virtualizationEnabled kv
       then wrapR (\<lambda>e. newBlockParseError (Some e) ''failed to parse virtual events'') (ParseResponse (kv_eth kv) (kv_chain kv) (Some result))
       else Inr empty_response) = Inr r" by (auto split: if_splits)
  show thesis
    by (rule that [OF tx r refl _ n result], use assms [unfolded index_tx_def if_not_P [OF n] result option.case tx wrapR.simps bindR.simps w Let_def] in simp)
qed

lemma index_tx_built:
  assumes "index_tx kv C results s i bz = Inr s'" and b: "built kv bops C b0 s vs"
  shows "\<exists>ws. built kv bops C b0 s' (vs @ ws)"
  using assms(1)
proof (cases rule: index_tx_parts)
  case (1 result tx r T)
  have p: "virtualizationEnabled kv \<Longrightarrow> ParseResponse (kv_eth kv) (kv_chain kv) (Some result) = Inr (t_virtual T)"
    using 1(2,3) by simp
  have e: "virtualizationEnabled kv \<Longrightarrow> \<forall>e\<in>set (rs_entries (t_virtual T)). None \<notin> set (e_logs e)"
    using ParseResponse_some [OF p] by blast
  have n: "amounts_ok kv C \<Longrightarrow> list_all msg_nonneg (GetMsgs tx)" using 1(1) by (auto simp: amounts_ok_def decodes_nonneg_def)
  show ?thesis
  proof (cases "isEthTx tx")
    case False
    with 1(4) obtain s1 where "add_synthetic kv C T s 0 = Inr s1" "s' = add_gas result s1" by (auto simp: result_simps)
    then show ?thesis using add_synthetic_built [OF _ b p] by simp
  next
    case True
    with 1(4) obtain txs s1 g s2 where a: "index_messages kv C T txs s 0 0 (GetMsgs tx) = Inr (s1, g)"
      "add_synthetic kv C T s1 g = Inr s2" "s' = add_gas result s2" by (auto simp: result_simps split: option.splits)
    from index_messages_built [OF a(1) b e n] obtain ws where ws: "built kv bops C b0 s1 (vs @ ws)" by blast
    from add_synthetic_built [OF a(2) ws p] obtain us where "built kv bops C b0 s2 ((vs @ ws) @ us)" by blast
    then show ?thesis unfolding a(3) built_add_gas append_assoc by blast
  qed
qed

lemma index_txs_built:
  assumes "index_txs kv C results s i txs = Inr s'" and "built kv bops C b0 s vs"
  shows "\<exists>ws. built kv bops C b0 s' (vs @ ws)"
  using assms
proof (induction txs arbitrary: s i vs)
  case Nil
  then show ?case by (intro exI [of _ "[]"]) simp
next
  case (Cons tx txs)
  from Cons.prems(1) obtain s1 where s1: "index_tx kv C results s i tx = Inr s1" "index_txs kv C results s1 (i + 1) txs = Inr s'"
    by (auto simp: result_simps)
  from index_tx_built [OF s1(1) Cons.prems(2)] obtain ws where "built kv bops C b0 s1 (vs @ ws)" by blast
  from Cons.IH [OF s1(2) this] show ?case unfolding append_assoc by blast
qed

lemma index_content_built:
  assumes "index_content kv b block br C = Inr s"
  shows "\<exists>vs. built kv bops C b s vs"
proof -
  from assms obtain results evs s1 s2 where
    evs: "(case br of None \<Rightarrow> Inr ([], [])
       | Some br \<Rightarrow>
           if virtualizationEnabled kv
           then wrapR (\<lambda>e. newBlockParseError (Some e) ''failed to parse finalize virtual events'')
             (virtual_SplitBlockEvents (kv_eth kv) (kv_chain kv) (br_FinalizeBlockEvents br))
           else Inr ([], [])) = Inr evs"
    and s1: "add_block_tx kv C (init_state b) (BeginBlockHash (kv_eth kv) (c_height C)) (fst evs) 0 = Inr s1"
    and s2: "index_txs kv C results s1 0 (b_Txs block) = Inr s2"
    and s: "add_block_tx kv C s2 (EndBlockHash (kv_eth kv) (c_height C)) (snd evs) (s_gasBefore s2) = Inr s"
    unfolding index_content_def by (auto simp: result_simps case_prod_beta)
  have ev: "None \<notin> set (fst evs)" "None \<notin> set (snd evs)" "virtualizationEnabled kv \<or> fst evs = [] \<and> snd evs = []"
    using evs
    by (auto simp: virtual_SplitBlockEvents_def result_simps split: option.splits if_splits dest!: bank_EthereumLogs_some)
  have "built kv bops C b (init_state b) []"
    by (simp add: built_def counters_ok_def init_state_def list_ops_def all_visible_ok_def eth_count_def i32_def i64_def u64_def)
  from add_block_tx_built [OF s1 this ev(1)] ev(3) obtain vs where "built kv bops C b s1 vs" by auto
  from index_txs_built [OF s2 this] obtain ws where "built kv bops C b s2 (vs @ ws)" by blast
  from add_block_tx_built [OF s this ev(2)] ev(3) show ?thesis by blast
qed

end

end
