(* ===== verification/Indexed_Block.thy ===== *)
theory Indexed_Block
  imports KV_Indexed
begin

text \<open>
  The database after \<open>indexBlockWithStats\<close>: what the getters return for the block just indexed, how its
  logs are numbered, and what stays as it was.
\<close>

section \<open>Lemmas: applying operations\<close>

lemma apply_ops_other: "k \<notin> fst ` set ops \<Longrightarrow> apply_ops m ops k = m k"
  by (induction ops arbitrary: m) auto

lemma apply_ops_unique:
  "(k, v) \<in> set ops \<Longrightarrow> (\<And>v'. (k, v') \<in> set ops \<Longrightarrow> v' = v) \<Longrightarrow> apply_ops m ops k = v"
proof (induction ops arbitrary: m)
  case (Cons op ops)
  obtain k1 v1 where op: "op = (k1, v1)" by (cases op)
  show ?case
  proof (cases "(k, v) \<in> set ops")
    case True
    have "apply_ops (m(k1 := v1)) ops k = v" by (rule Cons.IH [OF True]) (rule Cons.prems(2), simp)
    then show ?thesis by (simp only: op apply_ops.simps)
  next
    case False
    then have o: "op = (k, v)" using Cons.prems(1) by simp
    have "(k, v') \<notin> set ops" for v'
    proof
      assume "(k, v') \<in> set ops"
      moreover from this have "v' = v" by (intro Cons.prems(2)) simp
      ultimately show False using False by simp
    qed
    then have "k \<notin> fst ` set ops" by auto
    then show ?thesis unfolding o apply_ops.simps by (simp add: apply_ops_other)
  qed
qed simp

lemma apply_ops_set: "(\<And>v. (k, v) \<in> set ops \<Longrightarrow> v \<noteq> None) \<Longrightarrow> k \<in> dom (apply_ops m ops) \<longleftrightarrow> k \<in> dom m \<or> k \<in> fst ` set ops"
proof (induction ops arbitrary: m)
  case (Cons op ops)
  obtain k1 v1 where op: "op = (k1, v1)" by (cases op)
  have "k \<in> dom (apply_ops (m(k1 := v1)) ops) \<longleftrightarrow> k \<in> dom (m(k1 := v1)) \<or> k \<in> fst ` set ops"
    by (rule Cons.IH) (use Cons.prems in auto)
  moreover have "k = k1 \<Longrightarrow> v1 \<noteq> None" using Cons.prems op by auto
  ultimately show ?case using op by auto
qed simp

lemma sorted_pairs_equal:
  fixes xs ys :: "(bytes \<times> 'a) list"
  assumes "sorted_wrt (<) (map fst xs)" and "sorted_wrt (<) (map fst ys)" and "set xs = set ys"
  shows "xs = ys"
proof -
  have keys: "map fst xs = map fst ys"
    by (rule strict_sorted_equal [OF assms(2,1)]) (simp add: assms(3))
  have d: "distinct (map fst xs)" using assms(1) by (simp add: strict_sorted_iff)
  show ?thesis
  proof (rule nth_equalityI)
    show l: "length xs = length ys" using keys by (rule map_eq_imp_length_eq)
    fix i assume i: "i < length xs"
    then have f: "fst (xs ! i) = fst (ys ! i)" using arg_cong [OF keys, of "\<lambda>l. l ! i"] l by simp
    obtain k a where x: "xs ! i = (k, a)" by (cases "xs ! i")
    obtain b where y: "ys ! i = (k, b)" using f x by (cases "ys ! i") simp
    have "(k, a) \<in> set xs" "(k, b) \<in> set xs"
      using nth_mem [OF i] nth_mem [of i ys] i l x y unfolding assms(3) by simp_all
    then have "a = b" by (rule eq_key_imp_eq_value [OF d])
    with x y show "xs ! i = ys ! i" by simp
  qed
qed

section \<open>Lemmas: the operations of a block\<close>

lemma list_ops_iff: "op \<in> set (list_ops kv h vs) \<longleftrightarrow> (\<exists>i<length vs. op \<in> set (visible_ops kv h (i32 (int i)) (vs ! i)))"
  by (auto simp: list_ops_def)

definition block_ops :: "('d, 'b) KVIndexer \<Rightarrow> int \<Rightarrow> hash \<Rightarrow> CachedBlockMeta \<Rightarrow> Visible list \<Rightarrow> (bytes \<times> bytes option) list" where
  "block_ops kv h hash meta vs =
     list_ops kv h vs @
     [(BlockMetaKey h, Some (mustMarshalBlockMeta (kv_codec kv) meta)), (BlockHashKey hash, Some (be64 h)),
      (BlockLogsKey h, Some (mustMarshalBlockLogs (kv_codec kv) (map v_logs vs)))]"

text \<open>Every operation stores a value under a key of the block.\<close>

lemma visible_ops_iff:
  "(k, x) \<in> set (visible_ops kv h idx v) \<longleftrightarrow>
     k = ReceiptKey (v_hash v) \<and> x = Some (receipt_bytes kv v) \<or>
     k = RPCtxHashKey (v_hash v) \<and> x = Some (mustMarshalRPCTransaction (kv_codec kv) (v_tx v)) \<or>
     k = RPCtxIndexKey h idx \<and> x = Some (hash_bytes (v_hash v)) \<or>
     k = VirtualRPCtxKey (v_hash v) \<and> x = Some [1] \<and> v_result v = None \<or>
     (\<exists>r. v_result v = Some r \<and> (k = TxHashKey (v_hash v) \<and> x = Some (mustMarshalTxResult (kv_codec kv) (Some r)) \<or>
        k = TxIndexKey h (tr_EthTxIndex r) \<and> x = Some (hash_bytes (v_hash v))))"
  by (cases "v_result v") (auto simp: visible_ops_def)

lemma key_neqs [simp]:
  "BlockMetaKey h \<noteq> BlockHashKey b" "BlockMetaKey h \<noteq> BlockLogsKey h'" "BlockHashKey b \<noteq> BlockLogsKey h'"
  "BlockHashKey b \<noteq> BlockMetaKey h" "BlockLogsKey h' \<noteq> BlockMetaKey h" "BlockLogsKey h' \<noteq> BlockHashKey b"
  by (simp_all add: key_defs key_prefixes)

text \<open>The kind of a key, its first byte, tells the operations apart.\<close>

lemma visible_ops_kinds:
  assumes "(k, x) \<in> set (visible_ops kv h idx v)"
  shows "hd k = KeyPrefixReceipt \<or> hd k = KeyPrefixRPCtxHash \<or> hd k = KeyPrefixRPCtxIndex \<or> hd k = KeyPrefixVirtualRPCtx \<or>
    hd k = KeyPrefixTxHash \<or> hd k = KeyPrefixTxIndex"
    and "x \<noteq> None"
  using assms unfolding visible_ops_iff by (auto simp: key_defs)

lemma list_ops_kinds:
  assumes "(k, x) \<in> set (list_ops kv h vs)"
  shows "hd k \<noteq> KeyPrefixBlockMeta" "hd k \<noteq> KeyPrefixBlockHash" "hd k \<noteq> KeyPrefixBlockLogs" "x \<noteq> None"
proof -
  from assms obtain i where i: "(k, x) \<in> set (visible_ops kv h (i32 (int i)) (vs ! i))" unfolding list_ops_iff by blast
  from visible_ops_kinds [OF i]
  show "hd k \<noteq> KeyPrefixBlockMeta" "hd k \<noteq> KeyPrefixBlockHash" "hd k \<noteq> KeyPrefixBlockLogs" "x \<noteq> None"
    by (elim disjE; simp add: key_prefixes)+
qed

lemma block_ops_some: "(k, x) \<in> set (block_ops kv h hash meta vs) \<Longrightarrow> x \<noteq> None"
  unfolding block_ops_def set_append Un_iff using list_ops_kinds(4) by (elim disjE) auto

lemma block_ops_meta:
  "apply_ops m (block_ops kv h hash meta vs) (BlockMetaKey h) = Some (mustMarshalBlockMeta (kv_codec kv) meta)"
  "apply_ops m (block_ops kv h hash meta vs) (BlockHashKey hash) = Some (be64 h)"
  "apply_ops m (block_ops kv h hash meta vs) (BlockLogsKey h) = Some (mustMarshalBlockLogs (kv_codec kv) (map v_logs vs))"
  by (simp_all add: block_ops_def apply_ops_append)

lemma hd_keys [simp]:
  "hd (BlockMetaKey h) = KeyPrefixBlockMeta" "hd (BlockHashKey b) = KeyPrefixBlockHash" "hd (BlockLogsKey h) = KeyPrefixBlockLogs"
  "hd (ReceiptKey b) = KeyPrefixReceipt" "hd (RPCtxHashKey b) = KeyPrefixRPCtxHash" "hd (RPCtxIndexKey h i) = KeyPrefixRPCtxIndex"
  "hd (VirtualRPCtxKey b) = KeyPrefixVirtualRPCtx" "hd (TxHashKey b) = KeyPrefixTxHash" "hd (TxIndexKey h i) = KeyPrefixTxIndex"
  by (simp_all add: key_defs)

text \<open>Outside the three block entries only the transactions write.\<close>

lemma block_ops_list:
  assumes "hd k \<noteq> KeyPrefixBlockMeta" and "hd k \<noteq> KeyPrefixBlockHash" and "hd k \<noteq> KeyPrefixBlockLogs"
  shows "apply_ops m (block_ops kv h hash meta vs) k = apply_ops m (list_ops kv h vs) k"
  using assms by (auto simp: block_ops_def apply_ops_append)

section \<open>Lemmas: the written database\<close>

definition block_ctx :: "('d, 'b) KVIndexer \<Rightarrow> Block \<Rightarrow> ResultBlockResults option \<Rightarrow> BlockCtx" where
  "block_ctx kv block br =
     \<lparr>c_height = h_Height (b_Header block), c_hash = bytes_to_hash (b_Hash block),
      c_baseFee = blockBaseFeeFromResults (kv_chain kv) br\<rparr>"

lemma block_ctx_simps [simp]:
  "c_height (block_ctx kv block br) = h_Height (b_Header block)" "c_hash (block_ctx kv block br) = bytes_to_hash (b_Hash block)"
  "c_baseFee (block_ctx kv block br) = blockBaseFeeFromResults (kv_chain kv) br"
  by (simp_all add: block_ctx_def)

text \<open>The content of the store with the old data of the block removed.\<close>

definition cleared :: "('d, 'b) KVIndexer \<Rightarrow> (bytes \<rightharpoonup> bytes) \<Rightarrow> int \<Rightarrow> (bytes \<rightharpoonup> bytes)" where
  "cleared kv m h = (\<lambda>k. if k \<in> block_keys kv m h then None else m k)"

definition expected_root :: "('d, 'b) KVIndexer \<Rightarrow> Block \<Rightarrow> hash list \<Rightarrow> hash" where
  "expected_root kv block hashes =
     (if hashes = [] then EmptyRootHash (kv_eth kv)
      else if virtualizationEnabled kv then visibleRPCTxsRoot (kv_eth kv) (kv_chain kv) hashes
      else bytes_to_hash (h_DataHash (b_Header block)))"

text \<open>What the stored metadata says about the block.\<close>

definition meta_describes :: "('d, 'b) KVIndexer \<Rightarrow> Block \<Rightarrow> hash list \<Rightarrow> RPCLog option list \<Rightarrow> CachedBlockMeta \<Rightarrow> bool" where
  "meta_describes kv block hashes logs meta \<longleftrightarrow>
     bm_Height meta = h_Height (b_Header block) \<and> bm_Hash meta = Hash_Hex (kv_eth kv) (bytes_to_hash (b_Hash block)) \<and>
     bm_ParentHash meta = Hash_Hex (kv_eth kv) (bytes_to_hash (h_LastBlockID (b_Header block))) \<and>
     bm_EthTxCount meta = int (length hashes) \<and>
     bm_TransactionsRoot meta = Hash_Hex (kv_eth kv) (expected_root kv block hashes) \<and>
     bm_Bloom meta = hexutil_Encode (kv_eth kv) (LogsBloom_of (kv_chain kv) (EthLogs logs)) \<and>
     bm_VirtualizedCosmosEvents meta = virtualizationEnabled kv"

lemma counters_count:
  assumes "all_visible_ok kv C vs" and "counters_ok kv s vs"
  shows "visible_count kv s = i32 (int (length vs))"
  using assms all_genuine [OF assms(1)] by (auto simp: visible_count_def counters_ok_def)

lemma transactions_root_total:
  assumes "all_visible_ok kv C vs" and "counters_ok kv s vs"
  shows "\<exists>root. transactions_root kv block s = Inr root"
  using assms(2) counters_count [OF assms] by (auto simp: transactions_root_def counters_ok_def)

lemma meta_describes_of:
  assumes "all_visible_ok kv (block_ctx kv block br) vs" and "counters_ok kv s vs"
    and "transactions_root kv block s = Inr root" and "int (length vs) < 2 ^ 31"
  shows "meta_describes kv block (map v_hash vs) (all_logs vs) (block_meta_of kv block (block_ctx kv block br) s root)"
proof -
  have c: "visible_count kv s = int (length vs)" using counters_count [OF assms(1,2)] i32_small [of "int (length vs)"] assms(4) by simp
  have "root = Hash_Hex (kv_eth kv) (expected_root kv block (map v_hash vs))"
    using assms(2,3) c by (auto simp: transactions_root_def expected_root_def counters_ok_def split: if_splits)
  then show ?thesis using c assms(2) by (simp add: meta_describes_def block_meta_of_def counters_ok_def)
qed

context indexer_store
begin

lemma indexBlock_batch:
  assumes "indexBlockWithStats kv d block br = Inr (d', n)" and "store_layout (kvmap d)" and "height_ok (h_Height (b_Header block))"
  obtains b0 s root where "index_content kv b0 block br (block_ctx kv block br) = Inr s" "transactions_root kv block s = Inr root"
    "n = s_IndexedEthTxs s"
    "\<And>vs. built kv bops (block_ctx kv block br) b0 s vs \<Longrightarrow> kvmap d' = apply_ops (cleared kv (kvmap d) (h_Height (b_Header block)))
       (block_ops kv (h_Height (b_Header block)) (bytes_to_hash (b_Hash block)) (block_meta_of kv block (block_ctx kv block br) s root) vs)"
proof -
  let ?h = "h_Height (b_Header block)" and ?C = "block_ctx kv block br"
  from assms(1) obtain b0 s root b1 b2 b3 where b0: "resetBlock kv d (db_NewBatch (kv_db kv) d) ?h = Inr b0"
    and s: "index_content kv b0 block br ?C = Inr s" and root: "transactions_root kv block s = Inr root"
    and b1: "batch_Set (kv_db kv) (s_batch s) (BlockMetaKey ?h) (mustMarshalBlockMeta (kv_codec kv) (block_meta_of kv block ?C s root)) = Inr b1"
    and b2: "batch_Set (kv_db kv) b1 (BlockHashKey (c_hash ?C)) (be64 ?h) = Inr b2"
    and b3: "batch_Set (kv_db kv) b2 (BlockLogsKey ?h) (mustMarshalBlockLogs (kv_codec kv) (s_blockLogs s)) = Inr b3"
    and w: "batch_Write (kv_db kv) d b3 = Inr d'" and n: "n = s_IndexedEthTxs s"
    unfolding indexBlockWithStats_def Let_def block_ctx_def [symmetric] by (auto simp: result_simps)
  from resetBlock_ops [OF b0 assms(2,3)] obtain ks where ks: "bops b0 = map (\<lambda>k. (k, None)) ks" "set ks = block_keys kv (kvmap d) ?h"
    by (auto simp: new_batch_law)
  have "kvmap d' = apply_ops (cleared kv (kvmap d) ?h) (block_ops kv ?h (bytes_to_hash (b_Hash block)) (block_meta_of kv block ?C s root) vs)"
    if vs: "built kv bops ?C b0 s vs" for vs
  proof -
    have "bops b3 = map (\<lambda>k. (k, None)) ks @ block_ops kv ?h (bytes_to_hash (b_Hash block)) (block_meta_of kv block ?C s root) vs"
      using batch_set_law [OF b1] batch_set_law [OF b2] batch_set_law [OF b3] vs ks(1)
      by (simp add: built_def counters_ok_def block_ops_def)
    then show ?thesis using write_law [OF w] by (simp add: apply_ops_append apply_deletes ks(2) cleared_def)
  qed
  then show thesis by (rule that [OF s root n])
qed

lemma indexBlock_parts:
  assumes "indexBlockWithStats kv d block br = Inr (d', n)" and "store_layout (kvmap d)" and "height_ok (h_Height (b_Header block))"
  obtains vs s root where
    "all_visible_ok kv (block_ctx kv block br) vs" "counters_ok kv s vs" "transactions_root kv block s = Inr root"
    "n = i64 (int (eth_count vs))"
    "kvmap d' = apply_ops (cleared kv (kvmap d) (h_Height (b_Header block)))
       (block_ops kv (h_Height (b_Header block)) (bytes_to_hash (b_Hash block)) (block_meta_of kv block (block_ctx kv block br) s root) vs)"
proof -
  from indexBlock_batch [OF assms] obtain b0 s root where
    s: "index_content kv b0 block br (block_ctx kv block br) = Inr s" "transactions_root kv block s = Inr root" "n = s_IndexedEthTxs s"
    and m: "\<And>vs. built kv bops (block_ctx kv block br) b0 s vs \<Longrightarrow> kvmap d' = apply_ops (cleared kv (kvmap d) (h_Height (b_Header block)))
       (block_ops kv (h_Height (b_Header block)) (bytes_to_hash (b_Hash block)) (block_meta_of kv block (block_ctx kv block br) s root) vs)" by metis
  from index_content_built [OF s(1)] obtain vs where vs: "built kv bops (block_ctx kv block br) b0 s vs" by blast
  have "all_visible_ok kv (block_ctx kv block br) vs" "counters_ok kv s vs" "n = i64 (int (eth_count vs))"
    using vs s(3) by (simp_all add: built_def counters_ok_def)
  then show thesis by (rule that [OF _ _ s(2) _ m [OF vs]])
qed

end

lemma rpc_index_value:
  assumes "i < length vs" and "int (length vs) < 2 ^ 31"
  shows "apply_ops m (block_ops kv h hash meta vs) (RPCtxIndexKey h (int i)) = Some (hash_bytes (v_hash (vs ! i)))"
proof -
  have "apply_ops m (list_ops kv h vs) (RPCtxIndexKey h (int i)) = Some (hash_bytes (v_hash (vs ! i)))"
  proof (rule apply_ops_unique)
    show "(RPCtxIndexKey h (int i), Some (hash_bytes (v_hash (vs ! i)))) \<in> set (list_ops kv h vs)"
      unfolding list_ops_iff visible_ops_iff using assms i32_small [of "int i"] by auto
  next
    fix x assume "(RPCtxIndexKey h (int i), x) \<in> set (list_ops kv h vs)"
    then obtain j where j: "j < length vs" "(RPCtxIndexKey h (int i), x) \<in> set (visible_ops kv h (i32 (int j)) (vs ! j))"
      unfolding list_ops_iff by blast
    then have x: "RPCtxIndexKey h (int i) = RPCtxIndexKey h (int j)" "x = Some (hash_bytes (v_hash (vs ! j)))"
      unfolding visible_ops_iff using assms i32_small [of "int j"] by (auto simp: key_defs key_prefixes)
    have "int i = int j"
      using x(1) be64_inj_iff [of "int i" "int j"] assms j(1) by (simp add: RPCtxIndexKey_def maxUint64_def)
    then show "x = Some (hash_bytes (v_hash (vs ! i)))" using x(2) by simp
  qed
  then show ?thesis by (subst block_ops_list) (simp_all add: key_prefixes)
qed

text \<open>The keys a block may write: its own block entries, the index entries of its height, and entries by hash.\<close>

lemma block_ops_keys:
  assumes "(k, x) \<in> set (block_ops kv h hash meta vs)"
  shows "k = BlockMetaKey h \<or> k = BlockHashKey hash \<or> k = BlockLogsKey h \<or> (\<exists>i. k = RPCtxIndexKey h i) \<or> (\<exists>i. k = TxIndexKey h i) \<or>
    (\<exists>v\<in>set vs. k = ReceiptKey (v_hash v) \<or> k = RPCtxHashKey (v_hash v) \<or> k = VirtualRPCtxKey (v_hash v) \<or> k = TxHashKey (v_hash v))"
proof (cases "(k, x) \<in> set (list_ops kv h vs)")
  case True
  then obtain i where i: "i < length vs" "(k, x) \<in> set (visible_ops kv h (i32 (int i)) (vs ! i))" unfolding list_ops_iff by blast
  from i(2) show ?thesis unfolding visible_ops_iff using nth_mem [OF i(1)] by blast
next
  case False
  then show ?thesis using assms by (auto simp: block_ops_def)
qed

lemma written_dom:
  "k \<in> dom (apply_ops m (block_ops kv h hash meta vs)) \<longleftrightarrow> k \<in> dom m \<or> (\<exists>x. (k, x) \<in> set (block_ops kv h hash meta vs))"
proof -
  have "k \<in> fst ` set ops \<longleftrightarrow> (\<exists>x. (k, x) \<in> set ops)" for ops :: "(bytes \<times> bytes option) list" by force
  then show ?thesis using apply_ops_set [of k "block_ops kv h hash meta vs" m] block_ops_some by metis
qed

lemma store_layout_written:
  assumes "store_layout m" and "height_ok h"
  shows "store_layout (apply_ops m (block_ops kv h hash meta vs))"
proof -
  let ?m = "apply_ops m (block_ops kv h hash meta vs)"
  have a: "r = be64 h" if "(KeyPrefixBlockMeta # r, x) \<in> set (block_ops kv h hash meta vs)" for r x
    using block_ops_keys [OF that] by (auto simp: key_defs key_prefixes)
  have b: "\<exists>i. r = be64 h @ be64 i" if "(KeyPrefixTxIndex # r, x) \<in> set (block_ops kv h hash meta vs)" for r x
    using block_ops_keys [OF that] by (auto simp: key_defs key_prefixes)
  have c: "\<exists>i. r = be64 h @ be64 i" if "(KeyPrefixRPCtxIndex # r, x) \<in> set (block_ops kv h hash meta vs)" for r x
    using block_ops_keys [OF that] by (auto simp: key_defs key_prefixes)
  have "\<exists>h. height_ok h \<and> r = be64 h" if "KeyPrefixBlockMeta # r \<in> dom ?m" for r
    using that a assms unfolding written_dom store_layout_def height_keys_ok_def by blast
  moreover have "\<exists>h i. height_ok h \<and> r = be64 h @ be64 i" if "KeyPrefixTxIndex # r \<in> dom ?m" for r
    using that b assms unfolding written_dom store_layout_def height_keys_ok_def by blast
  moreover have "\<exists>h i. height_ok h \<and> r = be64 h @ be64 i" if "KeyPrefixRPCtxIndex # r \<in> dom ?m" for r
    using that c assms unfolding written_dom store_layout_def height_keys_ok_def by blast
  ultimately show ?thesis unfolding store_layout_def height_keys_ok_def by blast
qed

lemma store_layout_cleared: "store_layout m \<Longrightarrow> store_layout (cleared kv m h)"
  by (erule store_layout_subset) (auto simp: cleared_def split: if_splits)

text \<open>The RPC index of the block holds the hashes of the visible transactions and nothing else.\<close>

lemma rpc_index_entries:
  assumes "int (length vs) < 2 ^ 31"
    and "m' = apply_ops (cleared kv m h) (block_ops kv h hash meta vs)"
  shows "{(k, v). k \<in> keys_under (rpcTxIndexPrefixStart h) m' \<and> m' k = Some v} =
    (\<lambda>i. (RPCtxIndexKey h (int i), hash_bytes (v_hash (vs ! i)))) ` {0..<length vs}"
proof -
  have val: "m' (RPCtxIndexKey h (int i)) = Some (hash_bytes (v_hash (vs ! i)))" if "i < length vs" for i
    unfolding assms(2) by (rule rpc_index_value [OF that assms(1)])
  have key: "\<exists>i<length vs. k = RPCtxIndexKey h (int i)" if k: "k \<in> keys_under (rpcTxIndexPrefixStart h) m'" for k
  proof -
    obtain r where r: "k = rpcTxIndexPrefixStart h @ r" "k \<in> dom m'" using k by (auto simp: keys_under_def)
    have "k \<notin> dom (cleared kv m h)" using r(1) by (auto simp: cleared_def block_keys_def keys_under_def split: if_splits)
    then obtain x where "(k, x) \<in> set (block_ops kv h hash meta vs)" using r(2) unfolding assms(2) written_dom by blast
    moreover have "k \<noteq> BlockMetaKey h" "k \<noteq> BlockHashKey hash" "k \<noteq> BlockLogsKey h" using r(1) by (auto simp: key_defs key_prefixes)
    ultimately have "(k, x) \<in> set (list_ops kv h vs)" by (auto simp: block_ops_def)
    then obtain i where i: "i < length vs" "(k, x) \<in> set (visible_ops kv h (i32 (int i)) (vs ! i))" unfolding list_ops_iff by blast
    then have "k = RPCtxIndexKey h (i32 (int i))" using r(1) unfolding visible_ops_iff by (auto simp: key_defs key_prefixes)
    then show ?thesis using i(1) assms(1) i32_small [of "int i"] by auto
  qed
  have under: "RPCtxIndexKey h (int i) \<in> keys_under (rpcTxIndexPrefixStart h) m'" if "i < length vs" for i
    using val [OF that] by (auto simp: keys_under_def key_defs)
  show ?thesis
  proof (intro set_eqI iffI)
    fix e assume "e \<in> {(k, v). k \<in> keys_under (rpcTxIndexPrefixStart h) m' \<and> m' k = Some v}"
    then obtain k v where e: "e = (k, v)" "k \<in> keys_under (rpcTxIndexPrefixStart h) m'" "m' k = Some v" by blast
    from key [OF e(2)] obtain i where "i < length vs" "k = RPCtxIndexKey h (int i)" by blast
    then show "e \<in> (\<lambda>i. (RPCtxIndexKey h (int i), hash_bytes (v_hash (vs ! i)))) ` {0..<length vs}"
      using e val [of i] by auto
  next
    fix e assume "e \<in> (\<lambda>i. (RPCtxIndexKey h (int i), hash_bytes (v_hash (vs ! i)))) ` {0..<length vs}"
    then show "e \<in> {(k, v). k \<in> keys_under (rpcTxIndexPrefixStart h) m' \<and> m' k = Some v}" using val under by auto
  qed
qed

lemma rpc_index_iterated:
  assumes "int (length vs) < 2 ^ 31" and m: "m' = apply_ops (cleared kv m h) (block_ops kv h hash meta vs)"
    and "store_layout m" and h: "height_ok h"
    and it: "iterates m' (rpcTxIndexPrefixStart h) (Some (rpcTxIndexPrefixEnd h)) kvs"
  shows "kvs = map (\<lambda>i. (RPCtxIndexKey h (int i), hash_bytes (v_hash (vs ! i)))) [0..<length vs]"
proof (rule sorted_pairs_equal)
  have lay: "store_layout m'" unfolding m by (rule store_layout_written [OF store_layout_cleared [OF assms(3)] h])
  show "sorted_wrt (<) (map fst kvs)" using it by (simp add: iterates_def)
  have "RPCtxIndexKey h (int i) < RPCtxIndexKey h (int j)" if "i < j" "j < length vs" for i j
    using that assms(1) by (simp add: RPCtxIndexKey_def append_less_append be64_less maxUint64_def)
  then show "sorted_wrt (<) (map fst (map (\<lambda>i. (RPCtxIndexKey h (int i), hash_bytes (v_hash (vs ! i)))) [0..<length vs]))"
    by (auto simp: sorted_wrt_iff_nth_less)
  have "set kvs = {(k, v). k \<in> keys_under (rpcTxIndexPrefixStart h) m' \<and> m' k = Some v}"
    using iterates_height [OF it [unfolded rpcTxIndexPrefixStart_def rpcTxIndexPrefixEnd_def] h] lay
    by (simp add: store_layout_def rpcTxIndexPrefixStart_def)
  then show "set kvs = set (map (\<lambda>i. (RPCtxIndexKey h (int i), hash_bytes (v_hash (vs ! i)))) [0..<length vs])"
    unfolding rpc_index_entries [OF assms(1) m] by simp
qed

section \<open>Lemmas: the getters on the written database\<close>

definition reads_succeed :: "('d, 'b) KVIndexer \<Rightarrow> 'd \<Rightarrow> bool" where
  "reads_succeed kv d \<longleftrightarrow> (\<forall>k. \<exists>v. db_Get (kv_db kv) d k = Inr v) \<and> (\<forall>s e. \<exists>kvs. db_Iterator (kv_db kv) d s e = Inr kvs)"

context indexer_store
begin

lemma get_value:
  assumes "reads_succeed kv d" and "kvmap d k = Some v"
  shows "db_Get (kv_db kv) d k = Inr v"
proof -
  obtain x where "db_Get (kv_db kv) d k = Inr x" using assms(1) unfolding reads_succeed_def by blast
  with get_law [of d k x] assms(2) show ?thesis by simp
qed

lemma read_logs:
  assumes "reads_succeed kv d" and "kvmap d (BlockLogsKey h) = Some (mustMarshalBlockLogs (kv_codec kv) groups)" and "capnp_codec (kv_codec kv)"
  shows "GetLogsByBlockHeight kv d h = Inr (map (map stored_log) groups)"
proof -
  have "mustMarshalBlockLogs (kv_codec kv) groups \<noteq> []" by (simp add: mustMarshalBlockLogs_def)
  with get_value [OF assms(1,2)] show ?thesis
    by (simp add: GetLogsByBlockHeight_def capnp_codec.block_logs [OF assms(3)])
qed

lemma read_meta:
  assumes "reads_succeed kv d" and "kvmap d (BlockMetaKey h) = Some (mustMarshalBlockMeta (kv_codec kv) meta)" and "capnp_codec (kv_codec kv)"
  shows "GetBlockMetaByHeight kv d h = Inr meta" and "IsBlockIndexed kv d h = Inr True"
proof -
  have "mustMarshalBlockMeta (kv_codec kv) meta \<noteq> []" by (simp add: mustMarshalBlockMeta_def)
  with get_value [OF assms(1,2)] show "GetBlockMetaByHeight kv d h = Inr meta" "IsBlockIndexed kv d h = Inr True"
    by (simp_all add: GetBlockMetaByHeight_def IsBlockIndexed_def capnp_codec.block_meta [OF assms(3)])
qed

lemma read_height:
  assumes "reads_succeed kv d" and "kvmap d (BlockHashKey hash) = Some (be64 h)" and "height_ok h"
  shows "height_of_hash kv d caller hash = Inr h"
proof -
  have "length (be64 h) \<noteq> 0" by simp
  then have "be64 h \<noteq> []" by (simp only: length_0_conv not_False_eq_True)
  with get_value [OF assms(1,2)] assms(3) show ?thesis
    by (simp add: height_of_hash_def from_be64_be64 height_ok_wrap)
qed

lemma read_hashes:
  assumes "reads_succeed kv d'" and "int (length vs) < 2 ^ 31"
    and "kvmap d' = apply_ops (cleared kv m h) (block_ops kv h hash meta vs)" and "store_layout m" and "height_ok h"
  shows "GetRPCTransactionHashesByBlockHeight kv d' h = Inr (map v_hash vs)"
proof -
  obtain kvs where kvs: "db_Iterator (kv_db kv) d' (rpcTxIndexPrefixStart h) (Some (rpcTxIndexPrefixEnd h)) = Inr kvs"
    using assms(1) unfolding reads_succeed_def by blast
  have "map (\<lambda>kv. bytes_to_hash (snd kv)) kvs = map (\<lambda>i. v_hash (vs ! i)) [0..<length vs]"
    unfolding rpc_index_iterated [OF assms(2-5) iterator_law [OF kvs]] by simp
  also have "\<dots> = map v_hash vs" by (rule nth_equalityI) simp_all
  finally show ?thesis by (simp add: GetRPCTransactionHashesByBlockHeight_def kvs)
qed

end

lemma visible_present:
  assumes "all_visible_ok kv C vs" and "logs_present (kv_chain kv)"
  shows "map (map stored_log) (map v_logs vs) = map v_logs vs"
proof -
  have "map stored_log (v_logs v) = v_logs v" if "v \<in> set vs" for v
    using that assms map_stored_log [of "v_logs v"]
    by (auto simp: all_visible_ok_def visible_ok_def logs_ok_def in_set_conv_nth)
  then show ?thesis by simp
qed

lemma hash_value:
  assumes "distinct (map v_hash vs)" and "i < length vs" and "(k, x) \<in> set (visible_ops kv h (i32 (int i)) (vs ! i))"
    and k: "k \<in> {ReceiptKey (v_hash (vs ! i)), RPCtxHashKey (v_hash (vs ! i)), VirtualRPCtxKey (v_hash (vs ! i)), TxHashKey (v_hash (vs ! i))}"
  shows "apply_ops m (block_ops kv h hash meta vs) k = x"
proof -
  have "apply_ops m (list_ops kv h vs) k = x"
  proof (rule apply_ops_unique)
    show "(k, x) \<in> set (list_ops kv h vs)" unfolding list_ops_iff using assms(2,3) by blast
  next
    fix x' assume "(k, x') \<in> set (list_ops kv h vs)"
    then obtain j where j: "j < length vs" "(k, x') \<in> set (visible_ops kv h (i32 (int j)) (vs ! j))" unfolding list_ops_iff by blast
    then have "v_hash (vs ! j) = v_hash (vs ! i)" using k unfolding visible_ops_iff by (auto simp: key_defs key_prefixes)
    then have "j = i" using assms(1,2) j(1) by (simp add: distinct_conv_nth) blast
    with j(2) assms(3) k show "x' = x" unfolding visible_ops_iff by (auto simp: key_defs key_prefixes)
  qed
  then show ?thesis using k by (subst block_ops_list) (auto simp: key_prefixes)
qed

lemma eth_count_mono:
  assumes "i < j" and "j \<le> length vs" and "v_result (vs ! i) \<noteq> None"
  shows "eth_count (take i vs) < eth_count (take j vs)"
proof -
  have "take j vs = take i vs @ vs ! i # drop (Suc i) (take j vs)"
    using id_take_nth_drop [of i "take j vs"] assms(1,2) by (simp add: min_def)
  then have "eth_count (take j vs) = eth_count (take i vs @ vs ! i # drop (Suc i) (take j vs))" by (rule arg_cong)
  then show ?thesis using assms(3) by (simp add: eth_count_def)
qed

lemma eth_index_value:
  assumes "all_visible_ok kv C vs" and "int (length vs) < 2 ^ 31" and "i < length vs" and r: "v_result (vs ! i) = Some r"
  shows "apply_ops m (block_ops kv (c_height C) hash meta vs) (TxIndexKey (c_height C) (tr_EthTxIndex r)) = Some (hash_bytes (v_hash (vs ! i)))"
proof -
  let ?h = "c_height C"
  have e: "tr_EthTxIndex q = int (eth_count (take j vs))" if "j < length vs" "v_result (vs ! j) = Some q" for j q
  proof -
    have "eth_count (take j vs) \<le> length (take j vs)" unfolding eth_count_def by (rule length_filter_le)
    then have "int (eth_count (take j vs)) < 2 ^ 31" using that(1) assms(2) by simp
    then show ?thesis using assms(1) that i32_small by (auto simp: all_visible_ok_def visible_ok_def result_ok_def)
  qed
  have "apply_ops m (list_ops kv ?h vs) (TxIndexKey ?h (tr_EthTxIndex r)) = Some (hash_bytes (v_hash (vs ! i)))"
  proof (rule apply_ops_unique)
    show "(TxIndexKey ?h (tr_EthTxIndex r), Some (hash_bytes (v_hash (vs ! i)))) \<in> set (list_ops kv ?h vs)"
      unfolding list_ops_iff visible_ops_iff using assms(3) r by auto
  next
    fix x assume "(TxIndexKey ?h (tr_EthTxIndex r), x) \<in> set (list_ops kv ?h vs)"
    then obtain j q where j: "j < length vs" "v_result (vs ! j) = Some q" "TxIndexKey ?h (tr_EthTxIndex r) = TxIndexKey ?h (tr_EthTxIndex q)"
      "x = Some (hash_bytes (v_hash (vs ! j)))"
      unfolding list_ops_iff visible_ops_iff by (auto simp: key_defs key_prefixes)
    have b: "int (eth_count (take l vs)) \<le> maxUint64" if "l < length vs" for l
    proof -
      have "eth_count (take l vs) \<le> length (take l vs)" unfolding eth_count_def by (rule length_filter_le)
      then show ?thesis using that assms(2) by (simp add: maxUint64_def)
    qed
    have "eth_count (take i vs) = eth_count (take j vs)"
      using j(3) be64_inj_iff [of "int (eth_count (take i vs))" "int (eth_count (take j vs))"] b [OF assms(3)] b [OF j(1)]
      unfolding e [OF assms(3) r] e [OF j(1,2)] by (simp add: TxIndexKey_def)
    then have "j = i"
      using eth_count_mono [of i j vs] eth_count_mono [of j i vs] assms(3) j(1,2) r by (metis less_imp_le nat_neq_iff option.distinct(1))
    then show "x = Some (hash_bytes (v_hash (vs ! i)))" using j(4) by simp
  qed
  then show ?thesis by (subst block_ops_list) (simp_all add: key_prefixes)
qed

context indexer_store
begin

lemma read_tx:
  assumes "reads_succeed kv d" and "kvmap d (RPCtxHashKey h) = Some (mustMarshalRPCTransaction (kv_codec kv) t)"
    and "capnp_codec (kv_codec kv)" and "bigs_nonneg t"
  shows "GetRPCTransactionByHash kv d h = Inr t"
proof -
  have "mustMarshalRPCTransaction (kv_codec kv) t \<noteq> []" by (simp add: mustMarshalRPCTransaction_def)
  moreover have "unmarshalRPCTransactionPayload (kv_codec kv) (mustMarshalRPCTransaction (kv_codec kv) t) = Inr t"
    using assms(4) by (intro capnp_codec.rpc_transaction [OF assms(3)]) (simp_all add: bigs_nonneg_def)
  ultimately show ?thesis using get_value [OF assms(1,2)] by (simp add: GetRPCTransactionByHash_def)
qed

lemma read_result:
  assumes "reads_succeed kv d" and "kvmap d (TxHashKey h) = Some (mustMarshalTxResult (kv_codec kv) (Some r))"
    and "capnp_codec (kv_codec kv)"
  shows "GetByTxHash kv d h = Inr r"
proof -
  have "mustMarshalTxResult (kv_codec kv) (Some r) \<noteq> []" by (simp add: mustMarshalTxResult_def)
  with get_value [OF assms(1,2)] show ?thesis by (simp add: GetByTxHash_def capnp_codec.tx_result [OF assms(3)])
qed

lemma read_index:
  assumes "reads_succeed kv d"
  shows "kvmap d (RPCtxIndexKey b i) = Some (hash_bytes h) \<Longrightarrow> GetRPCTransactionByBlockAndIndex kv d b i = GetRPCTransactionByHash kv d h"
    and "kvmap d (TxIndexKey b i) = Some (hash_bytes h) \<Longrightarrow> GetByBlockAndIndex kv d b i = GetByTxHash kv d h"
proof -
  have "length (hash_bytes h) \<noteq> 0" by simp
  then have n: "hash_bytes h \<noteq> []" by (simp only: length_0_conv not_False_eq_True)
  show "kvmap d (RPCtxIndexKey b i) = Some (hash_bytes h) \<Longrightarrow> GetRPCTransactionByBlockAndIndex kv d b i = GetRPCTransactionByHash kv d h"
    using get_value [OF assms] n by (simp add: GetRPCTransactionByBlockAndIndex_def)
  show "kvmap d (TxIndexKey b i) = Some (hash_bytes h) \<Longrightarrow> GetByBlockAndIndex kv d b i = GetByTxHash kv d h"
    using get_value [OF assms] n by (simp add: GetByBlockAndIndex_def)
qed

lemma read_receipt_exact:
  assumes "reads_succeed kv d" and "kvmap d (ReceiptKey (v_hash v)) = Some (receipt_bytes kv v)"
    and codec: "capnp_codec (kv_codec kv)" and hex: "eth_hex (kv_eth kv)" and ok: "receipt_ok kv C idx v" and logs: "None \<notin> set (v_logs v)"
  shows "GetReceiptByTxHash kv d (v_hash v) = Inr (CachedReceipt_ToMap (kv_eth kv) (v_receipt v))"
proof -
  let ?E = "kv_eth kv" and ?K = "kv_codec kv"
  from ok obtain bz st cg g reason vmErr ca ti price sender to ty where bz: "mustMarshalReceipt ?E ?K (v_receipt v) = Inr bz"
    and r: "v_receipt v = buildCachedReceipt ?E (kv_chain kv) st cg g reason vmErr (v_logs v) (v_hash v) ca (c_hash C)
          (u64 (c_height C)) ti price sender to ty"
    unfolding receipt_ok_def by blast
  have "\<exists>m. DecodeBig ?E (EncodeBig ?E price) = Inr m"
    using bz eth_hex.big_nonempty [OF hex, of price]
    by (auto simp: mustMarshalReceipt_def r buildCachedReceipt_def setHexBigData_def result_simps)
  then have p: "0 \<le> price" "price < 2 ^ 256" using eth_hex.big_range [OF hex] by blast+
  from capnp_codec.receipt [OF codec hex p r] bz have un: "unmarshalReceiptPayload ?E ?K bz = Inr (v_receipt v)"
    using map_stored_log [OF logs] by (simp add: r buildCachedReceipt_def)
  have n: "bz \<noteq> []" using bz by (auto simp: mustMarshalReceipt_def result_simps)
  have "receipt_bytes kv v = bz" using bz by (simp add: receipt_bytes_def)
  then show ?thesis using get_value [OF assms(1,2)] n un by (simp add: GetReceiptByTxHash_def)
qed

lemma read_receipt:
  assumes "reads_succeed kv d" and "kvmap d (ReceiptKey (v_hash v)) = Some (receipt_bytes kv v)"
    and codec: "capnp_codec (kv_codec kv)" and hex: "eth_hex (kv_eth kv)" and ok: "receipt_ok kv C idx v" and logs: "None \<notin> set (v_logs v)"
    and "int idx < 2 ^ 31" and "amounts_ok kv C" and "c_hash C \<noteq> 0"
  shows "\<exists>rm. GetReceiptByTxHash kv d (v_hash v) = Inr rm \<and> rm_transactionHash rm = v_hash v \<and> rm_blockHash rm = Hash_Hex (kv_eth kv) (c_hash C) \<and>
    rm_transactionIndex rm = int idx \<and> rm_logs rm = v_logs v \<and> rm_effectiveGasPrice rm = tx_GasPrice (v_tx v) \<and>
    (\<forall>r. v_result v = Some r \<longrightarrow> rm_gasUsed rm = tr_GasUsed r \<and> rm_status rm = (if tr_Failed r then 0 else 1))"
proof -
  let ?E = "kv_eth kv"
  from ok obtain bz st cg g reason vmErr ca ti price sender to ty where bz: "mustMarshalReceipt ?E (kv_codec kv) (v_receipt v) = Inr bz"
    and r: "v_receipt v = buildCachedReceipt ?E (kv_chain kv) st cg g reason vmErr (v_logs v) (v_hash v) ca (c_hash C)
          (u64 (c_height C)) ti price sender to ty"
    and f: "ti = int idx" "tx_GasPrice (v_tx v) = Some price" "\<forall>r. v_result v = Some r \<longrightarrow> g = tr_GasUsed r \<and> st = (if tr_Failed r then 0 else 1)"
    using assms(7-9) unfolding receipt_ok_def by blast
  have "\<exists>m. DecodeBig ?E (EncodeBig ?E price) = Inr m"
    using bz eth_hex.big_nonempty [OF hex, of price]
    by (auto simp: mustMarshalReceipt_def r buildCachedReceipt_def setHexBigData_def result_simps)
  then have p: "0 \<le> price" "price < 2 ^ 256" using eth_hex.big_range [OF hex] by blast+
  show ?thesis
    using f p read_receipt_exact [OF assms(1-6)]
    by (intro exI [of _ "CachedReceipt_ToMap ?E (v_receipt v)"])
      (simp add: CachedReceipt_ToMap_def r buildCachedReceipt_def eth_hex.hash_hex [OF hex] eth_hex.big_nonempty [OF hex] eth_hex.decode_big [OF hex])
qed

end

text \<open>The numbering of the logs, transaction by transaction, is a numbering of the block.\<close>

lemma logs_numbered_through:
  assumes "all_visible_ok kv C vs" and "virtualizationEnabled kv" and "\<forall>v\<in>set vs. None \<notin> set (v_logs v)"
  shows "map (map_option Index) (all_logs vs) = index_run 0 (length (all_logs vs))"
proof -
  have "map (map_option Index) (all_logs (take n vs)) = index_run 0 (length (all_logs (take n vs)))" if "n \<le> length vs" for n
    using that
  proof (induction n)
    case (Suc n)
    then have n: "n < length vs" by simp
    have "map (map_option Index) (v_logs (vs ! n)) = index_run (int (length (all_logs (take n vs)))) (length (v_logs (vs ! n)))"
      using assms n by (auto simp: all_visible_ok_def visible_ok_def logs_ok_def numbered_logs_def simp del: length_concat)
    moreover have "all_logs (take (Suc n) vs) = all_logs (take n vs) @ v_logs (vs ! n)" using n by (simp add: take_Suc_conv_app_nth)
    ultimately show ?case using Suc.IH n by (simp add: index_run_add del: length_concat)
  qed simp
  from this [of "length vs"] show ?thesis by simp
qed

context indexer_store
begin

text \<open>The list of visible transactions, seen through the getters.\<close>

lemma indexBlock_seen:
  assumes "indexBlockWithStats kv d block br = Inr (d', n)" and "store_layout (kvmap d)" and "height_ok (h_Height (b_Header block))"
    and "capnp_codec (kv_codec kv)" and "logs_present (kv_chain kv)" and "reads_succeed kv d'"
    and "GetLogsByBlockHeight kv d' (h_Height (b_Header block)) = Inr groups" and "int (length groups) < 2 ^ 31"
  obtains vs s root where "groups = map v_logs vs" "GetRPCTransactionHashesByBlockHeight kv d' (h_Height (b_Header block)) = Inr (map v_hash vs)"
    "int (length vs) < 2 ^ 31" "all_visible_ok kv (block_ctx kv block br) vs" "counters_ok kv s vs" "transactions_root kv block s = Inr root"
    "n = i64 (int (eth_count vs))" "\<forall>v\<in>set vs. None \<notin> set (v_logs v)"
    "kvmap d' = apply_ops (cleared kv (kvmap d) (h_Height (b_Header block)))
       (block_ops kv (h_Height (b_Header block)) (bytes_to_hash (b_Hash block)) (block_meta_of kv block (block_ctx kv block br) s root) vs)"
proof -
  let ?h = "h_Height (b_Header block)" and ?C = "block_ctx kv block br"
  from indexBlock_parts [OF assms(1-3)] obtain vs s root where
    vs: "all_visible_ok kv ?C vs" "counters_ok kv s vs" "transactions_root kv block s = Inr root" "n = i64 (int (eth_count vs))"
    and m: "kvmap d' = apply_ops (cleared kv (kvmap d) ?h) (block_ops kv ?h (bytes_to_hash (b_Hash block)) (block_meta_of kv block ?C s root) vs)" .
  have "kvmap d' (BlockLogsKey ?h) = Some (mustMarshalBlockLogs (kv_codec kv) (map v_logs vs))" unfolding m by (rule block_ops_meta(3))
  then have g: "groups = map v_logs vs"
    using assms(7) read_logs [OF assms(6) _ assms(4)] visible_present [OF vs(1) assms(5)] by simp
  then have l: "int (length vs) < 2 ^ 31" using assms(8) by simp
  have "\<forall>v\<in>set vs. None \<notin> set (v_logs v)"
    using vs(1) assms(5) by (auto simp: all_visible_ok_def visible_ok_def logs_ok_def in_set_conv_nth)
  then show thesis by (rule that [OF g read_hashes [OF assms(6) l m assms(2,3)] l vs _ m])
qed

text \<open>What indexing a block does to the store as a whole.\<close>

lemma indexBlock_effect:
  assumes "store_layout (kvmap d)" and "height_ok (h_Height (b_Header block))"
    and idx: "indexBlockWithStats kv d block br = Inr (d', n)"
  shows "store_layout (kvmap d') \<and> meta_heights (kvmap d') = insert (h_Height (b_Header block)) (meta_heights (kvmap d)) \<and>
    (\<forall>h'. height_ok h' \<and> h' \<noteq> h_Height (b_Header block) \<longrightarrow>
       (\<forall>k\<in>{BlockMetaKey h', BlockLogsKey h', TxIndexKey h' i, RPCtxIndexKey h' i, TraceBlockKey h' c}. kvmap d' k = kvmap d k))"
proof -
  let ?h = "h_Height (b_Header block)"
  from indexBlock_parts [OF idx assms(1,2)] obtain vs s root where
    m: "kvmap d' = apply_ops (cleared kv (kvmap d) ?h)
       (block_ops kv ?h (bytes_to_hash (b_Hash block)) (block_meta_of kv block (block_ctx kv block br) s root) vs)" .
  let ?ops = "block_ops kv ?h (bytes_to_hash (b_Hash block)) (block_meta_of kv block (block_ctx kv block br) s root) vs"
  have same: "kvmap d' k = kvmap d k"
    if h': "height_ok h'" "h' \<noteq> ?h" and k: "k \<in> {BlockMetaKey h', BlockLogsKey h', TxIndexKey h' i, RPCtxIndexKey h' i, TraceBlockKey h' c}" for h' k
  proof -
    have ne: "be64 h' @ x \<noteq> be64 ?h @ y" "be64 h' \<noteq> be64 ?h" for x y
      using be64_eq_iff [OF h'(1) assms(2)] h'(2) by (auto dest: arg_cong [where f = "take 8"])
    have "k \<notin> fst ` set ?ops"
    proof
      assume "k \<in> fst ` set ?ops"
      then obtain x where "(k, x) \<in> set ?ops" by auto
      from block_ops_keys [OF this] k ne show False by (auto simp: key_defs key_prefixes)
    qed
    moreover have "k \<notin> block_keys kv (kvmap d) ?h"
      using k block_keys_other_height [OF assms(2) h', where kv = kv and m = "kvmap d"]
        block_keys_meta [OF assms(2) h'(1), of kv "kvmap d"] h'(2) by (elim insertE) simp_all
    ultimately show ?thesis unfolding m by (simp add: apply_ops_other cleared_def)
  qed
  have new: "BlockMetaKey ?h \<in> dom (kvmap d')" unfolding m domIff block_ops_meta(1) by simp
  have "height_ok x \<and> BlockMetaKey x \<in> dom (kvmap d') \<longleftrightarrow> x = ?h \<or> height_ok x \<and> BlockMetaKey x \<in> dom (kvmap d)" for x
  proof (cases "x = ?h")
    case True
    then show ?thesis using new assms(2) by simp
  next
    case False
    have "height_ok x \<Longrightarrow> kvmap d' (BlockMetaKey x) = kvmap d (BlockMetaKey x)" by (rule same [OF _ False]) simp_all
    with False show ?thesis unfolding domIff by (cases "height_ok x") (simp_all del: not_None_eq)
  qed
  then have "meta_heights (kvmap d') = insert ?h (meta_heights (kvmap d))" unfolding meta_heights_def by blast
  moreover have "store_layout (kvmap d')"
    unfolding m by (rule store_layout_written [OF store_layout_cleared [OF assms(1)] assms(2)])
  ultimately show ?thesis using same by blast
qed

end

text \<open>The getters of a block, together.\<close>

lemma indexBlock_getters:
  assumes "indexer_store kv kvmap bops" and "capnp_codec (kv_codec kv)" and "logs_present (kv_chain kv)"
    and "store_layout (kvmap d)" and "height_ok (h_Height (b_Header block))"
    and idx: "indexBlockWithStats kv d block br = Inr (d', n)" and reads: "reads_succeed kv d'"
    and groups: "GetLogsByBlockHeight kv d' (h_Height (b_Header block)) = Inr groups" "int (length groups) < 2 ^ 31"
  shows "\<exists>hashes meta. GetRPCTransactionHashesByBlockHeight kv d' (h_Height (b_Header block)) = Inr hashes \<and>
    length hashes = length groups \<and> meta_describes kv block hashes (concat groups) meta \<and>
    GetBlockMetaByHeight kv d' (h_Height (b_Header block)) = Inr meta \<and>
    GetBlockMetaByHash kv d' (bytes_to_hash (b_Hash block)) = Inr meta \<and>
    GetLogsByBlockHash kv d' (bytes_to_hash (b_Hash block)) = Inr groups \<and>
    IsBlockIndexed kv d' (h_Height (b_Header block)) = Inr True"
proof -
  let ?h = "h_Height (b_Header block)"
  from indexer_store.indexBlock_seen [OF assms(1) idx assms(4,5,2,3) reads groups] obtain vs s root where
    g: "groups = map v_logs vs" "GetRPCTransactionHashesByBlockHeight kv d' ?h = Inr (map v_hash vs)" "int (length vs) < 2 ^ 31"
    and vs: "all_visible_ok kv (block_ctx kv block br) vs" "counters_ok kv s vs" "transactions_root kv block s = Inr root"
    and m: "kvmap d' = apply_ops (cleared kv (kvmap d) ?h)
       (block_ops kv ?h (bytes_to_hash (b_Hash block)) (block_meta_of kv block (block_ctx kv block br) s root) vs)" .
  note w = block_ops_meta [of "cleared kv (kvmap d) ?h" kv ?h "bytes_to_hash (b_Hash block)"
      "block_meta_of kv block (block_ctx kv block br) s root" vs, folded m]
  have "height_of_hash kv d' caller (bytes_to_hash (b_Hash block)) = Inr ?h" for caller
    by (rule indexer_store.read_height [OF assms(1) reads w(2) assms(5)])
  then show ?thesis
    using indexer_store.read_meta [OF assms(1) reads w(1) assms(2)] meta_describes_of [OF vs g(3)] groups(1) g
    by (intro exI [of _ "map v_hash vs"] exI [of _ "block_meta_of kv block (block_ctx kv block br) s root"])
      (simp add: GetBlockMetaByHash_def GetLogsByBlockHash_def)
qed

section \<open>Properties\<close>

text \<open>C2: A block that was indexed reads back as one consistent whole, whatever was stored for its height
  before: the metadata is found by height and by hash and describes the block, and the transaction
  hashes of the RPC index, the log groups, the transaction count, the transactions root and the logs
  bloom of the metadata all speak of the same list of transactions.\<close>

theorem IndexBlock_reads_back:
  assumes "indexer_store kv kvmap bops" and "capnp_codec (kv_codec kv)" and "logs_present (kv_chain kv)"
    and "store_layout (kvmap d)" and "height_ok (h_Height (b_Header block))"
    and idx: "indexBlockWithStats kv d block br = Inr (d', n)" and reads: "reads_succeed kv d'"
    and groups: "GetLogsByBlockHeight kv d' (h_Height (b_Header block)) = Inr groups" "int (length groups) < 2 ^ 31"
  shows "\<exists>hashes meta. GetRPCTransactionHashesByBlockHeight kv d' (h_Height (b_Header block)) = Inr hashes \<and>
    length hashes = length groups \<and> meta_describes kv block hashes (concat groups) meta \<and>
    GetBlockMetaByHeight kv d' (h_Height (b_Header block)) = Inr meta \<and>
    GetBlockMetaByHash kv d' (bytes_to_hash (b_Hash block)) = Inr meta \<and>
    GetLogsByBlockHash kv d' (bytes_to_hash (b_Hash block)) = Inr groups \<and>
    IsBlockIndexed kv d' (h_Height (b_Header block)) = Inr True"
  by (rule indexBlock_getters [OF assms])

text \<open>C4: The transactions of an indexed block are found again and agree with each other. Looking a position
  of the block up gives the transaction that its hash gives, which names that hash, the block and the
  position; the receipt of that hash names them too, carries the log group of the position, and shows
  the gas price of the transaction; a virtual transaction is marked as such; and a genuine one has a
  result, found by its hash and by its Ethereum index, whose gas and status are those of the receipt. The
  block has a non-zero hash, its visible transactions have distinct hashes, its amounts are not negative, and the store
  answers the reads.\<close>

theorem IndexBlock_lookup:
  assumes "indexer_store kv kvmap bops" and "capnp_codec (kv_codec kv)" and "eth_hex (kv_eth kv)" and "logs_present (kv_chain kv)"
    and am: "amounts_ok kv (block_ctx kv block br)" and nz: "bytes_to_hash (b_Hash block) \<noteq> 0"
    and "store_layout (kvmap d)" and "height_ok (h_Height (b_Header block))"
    and idx: "indexBlockWithStats kv d block br = Inr (d', n)" and reads: "reads_succeed kv d'"
    and groups: "GetLogsByBlockHeight kv d' (h_Height (b_Header block)) = Inr groups" "int (length groups) < 2 ^ 31"
    and hashes: "GetRPCTransactionHashesByBlockHeight kv d' (h_Height (b_Header block)) = Inr hashes" "distinct hashes" and "i < length hashes"
  shows "\<exists>t rm. GetRPCTransactionByBlockAndIndex kv d' (h_Height (b_Header block)) (int i) = Inr t \<and>
    GetRPCTransactionByHash kv d' (hashes ! i) = Inr t \<and> tx_Hash t = hashes ! i \<and>
    tx_BlockHash t = Some (bytes_to_hash (b_Hash block)) \<and> tx_TransactionIndex t = Some (int i) \<and>
    GetReceiptByTxHash kv d' (hashes ! i) = Inr rm \<and> rm_transactionHash rm = hashes ! i \<and>
    rm_blockHash rm = Hash_Hex (kv_eth kv) (bytes_to_hash (b_Hash block)) \<and> rm_transactionIndex rm = int i \<and>
    rm_logs rm = groups ! i \<and> rm_effectiveGasPrice rm = tx_GasPrice t \<and>
    (if tx_Virtual t then IsVirtualRPCTransaction kv d' (hashes ! i) = Inr True
     else \<exists>r. GetByTxHash kv d' (hashes ! i) = Inr r \<and> GetByBlockAndIndex kv d' (h_Height (b_Header block)) (tr_EthTxIndex r) = Inr r \<and>
       tr_Height r = h_Height (b_Header block) \<and> rm_gasUsed rm = tr_GasUsed r \<and> rm_status rm = (if tr_Failed r then 0 else 1))"
proof -
  let ?h = "h_Height (b_Header block)" and ?C = "block_ctx kv block br"
  from indexer_store.indexBlock_seen [OF assms(1) idx assms(7,8,2,4) reads groups] obtain vs s root where
    g: "groups = map v_logs vs" "GetRPCTransactionHashesByBlockHeight kv d' ?h = Inr (map v_hash vs)" and l: "int (length vs) < 2 ^ 31"
    and vs: "all_visible_ok kv ?C vs"
    and m: "kvmap d' = apply_ops (cleared kv (kvmap d) ?h) (block_ops kv ?h (bytes_to_hash (b_Hash block)) (block_meta_of kv block ?C s root) vs)" .
  let ?meta = "block_meta_of kv block ?C s root"
  have hs: "hashes = map v_hash vs" using hashes(1) g(2) by simp
  then have i: "i < length vs" and d: "distinct (map v_hash vs)" using hashes(2) assms(15) by simp_all
  let ?v = "vs ! i"
  have ok: "tx_ok kv ?C i ?v" "receipt_ok kv ?C i ?v" "result_ok ?C (eth_count (take i vs)) ?v" "None \<notin> set (v_logs ?v)"
    using vs i assms(4) by (auto simp: all_visible_ok_def visible_ok_def logs_ok_def)
  note val = hash_value [OF d i, of _ _ kv ?h "cleared kv (kvmap d) ?h" "bytes_to_hash (b_Hash block)" ?meta, folded m, unfolded visible_ops_iff]
  have il: "int i < 2 ^ 31" using i l by simp
  have t: "GetRPCTransactionByHash kv d' (v_hash ?v) = Inr (v_tx ?v)"
    using ok(1) am by (intro indexer_store.read_tx [OF assms(1) reads _ assms(2)] val) (simp_all add: tx_ok_def)
  have ri: "kvmap d' (RPCtxIndexKey ?h (int i)) = Some (hash_bytes (v_hash ?v))" unfolding m by (rule rpc_index_value [OF i l])
  have t': "GetRPCTransactionByBlockAndIndex kv d' ?h (int i) = Inr (v_tx ?v)"
    using indexer_store.read_index(1) [OF assms(1) reads ri] t by simp
  have "kvmap d' (ReceiptKey (v_hash ?v)) = Some (receipt_bytes kv ?v)" by (rule val) simp_all
  from indexer_store.read_receipt [OF assms(1) reads this assms(2,3) ok(2,4) il am] nz obtain rm where
    rm: "GetReceiptByTxHash kv d' (v_hash ?v) = Inr rm" "rm_transactionHash rm = v_hash ?v" "rm_transactionIndex rm = int i"
      "rm_blockHash rm = Hash_Hex (kv_eth kv) (bytes_to_hash (b_Hash block))" "rm_logs rm = v_logs ?v" "rm_effectiveGasPrice rm = tx_GasPrice (v_tx ?v)"
      "\<forall>r. v_result ?v = Some r \<longrightarrow> rm_gasUsed rm = tr_GasUsed r \<and> rm_status rm = (if tr_Failed r then 0 else 1)" by auto
  have virt: "IsVirtualRPCTransaction kv d' (v_hash ?v) = Inr True" if "v_result ?v = None"
  proof -
    have "kvmap d' (VirtualRPCtxKey (v_hash ?v)) = Some [1]" by (rule val) (simp_all add: that)
    then show ?thesis using indexer_store.get_value [OF assms(1) reads] by (simp add: IsVirtualRPCTransaction_def)
  qed
  have gen: "GetByTxHash kv d' (v_hash ?v) = Inr r \<and> GetByBlockAndIndex kv d' ?h (tr_EthTxIndex r) = Inr r \<and> tr_Height r = ?h"
    if "v_result ?v = Some r" for r
  proof -
    have "kvmap d' (TxHashKey (v_hash ?v)) = Some (mustMarshalTxResult (kv_codec kv) (Some r))" by (rule val) (simp_all add: that)
    then have "GetByTxHash kv d' (v_hash ?v) = Inr r" using indexer_store.read_result [OF assms(1) reads _ assms(2)] by blast
    moreover have "kvmap d' (TxIndexKey ?h (tr_EthTxIndex r)) = Some (hash_bytes (v_hash ?v))"
      unfolding m by (rule eth_index_value [OF vs l i that, unfolded block_ctx_simps])
    ultimately show ?thesis
      using indexer_store.read_index(2) [OF assms(1) reads] ok(3) that by (simp add: result_ok_def)
  qed
  have h: "hashes ! i = v_hash ?v" "groups ! i = v_logs ?v" using hs g(1) i by simp_all
  show ?thesis unfolding h
    using t t' rm(1-6) virt gen rm(7) ok(1) nz il
    by (intro exI [of _ "v_tx ?v"] exI [of _ rm]) (cases "v_result ?v"; simp add: tx_ok_def)
qed

text \<open>C10: With virtualization the logs of a block are numbered through the block, over genuine and virtual
  transactions alike, from 0 without a gap; and every log names the hash and the position of the
  transaction it is stored with, and the block.\<close>

theorem IndexBlock_logs_numbered:
  assumes "indexer_store kv kvmap bops" and "capnp_codec (kv_codec kv)" and "logs_present (kv_chain kv)"
    and "store_layout (kvmap d)" and "height_ok (h_Height (b_Header block))" and virt: "virtualizationEnabled kv"
    and idx: "indexBlockWithStats kv d block br = Inr (d', n)" and reads: "reads_succeed kv d'"
    and groups: "GetLogsByBlockHeight kv d' (h_Height (b_Header block)) = Inr groups" "int (length groups) < 2 ^ 31"
    and hashes: "GetRPCTransactionHashesByBlockHeight kv d' (h_Height (b_Header block)) = Inr hashes"
  shows "map (map_option Index) (concat groups) = index_run 0 (length (concat groups)) \<and>
    (\<forall>i<length groups. \<forall>l. Some l \<in> set (groups ! i) \<longrightarrow>
       TxHash l = hashes ! i \<and> TxIndex l = int i \<and> BlockHash l = bytes_to_hash (b_Hash block) \<and> BlockNumber l = h_Height (b_Header block))"
proof -
  let ?h = "h_Height (b_Header block)" and ?C = "block_ctx kv block br"
  from indexer_store.indexBlock_seen [OF assms(1) idx assms(4,5,2,3) reads groups] obtain vs s root where
    g: "groups = map v_logs vs" "GetRPCTransactionHashesByBlockHeight kv d' ?h = Inr (map v_hash vs)" and l: "int (length vs) < 2 ^ 31"
    and vs: "all_visible_ok kv ?C vs" and some: "\<forall>v\<in>set vs. None \<notin> set (v_logs v)" .
  have hs: "hashes = map v_hash vs" using hashes g(2) by simp
  have "log_at ?C i (v_hash (vs ! i)) x" if "i < length vs" "Some x \<in> set (v_logs (vs ! i))" for i x
    using vs that virt by (auto simp: all_visible_ok_def visible_ok_def logs_ok_def numbered_logs_def)
  then have "TxHash x = hashes ! i \<and> TxIndex x = int i \<and> BlockHash x = bytes_to_hash (b_Hash block) \<and> BlockNumber x = ?h"
    if "i < length vs" "Some x \<in> set (groups ! i)" for i x
    using that l assms(5) by (force simp: log_at_def g(1) hs height_ok_wrap)
  then show ?thesis using logs_numbered_through [OF vs virt some] g(1) by (simp del: length_concat)
qed

text \<open>C16: Indexing a block leaves the other blocks alone: the layout of the store is kept, the set of
  indexed heights grows by exactly this height, and the metadata, the logs, both transaction indexes
  and the cached block traces of every other height are as before.\<close>

theorem IndexBlock_isolates:
  assumes "indexer_store kv kvmap bops" and "store_layout (kvmap d)" and "height_ok (h_Height (b_Header block))"
    and idx: "indexBlockWithStats kv d block br = Inr (d', n)"
  shows "store_layout (kvmap d') \<and> meta_heights (kvmap d') = insert (h_Height (b_Header block)) (meta_heights (kvmap d)) \<and>
    (\<forall>h'. height_ok h' \<and> h' \<noteq> h_Height (b_Header block) \<longrightarrow>
       (\<forall>k\<in>{BlockMetaKey h', BlockLogsKey h', TxIndexKey h' i, RPCtxIndexKey h' i, TraceBlockKey h' c}. kvmap d' k = kvmap d k))"
  by (rule indexer_store.indexBlock_effect [OF assms])

text \<open>C40: The check for a mismatch between the number of visible transactions and the hashes collected for
  the transactions root never fails: whenever the transactions of a block were indexed, the root is
  computed.\<close>

theorem visible_root_defined:
  assumes "indexer_store kv kvmap bops" and "index_content kv b block br C = Inr s"
  shows "\<exists>root. transactions_root kv block s = Inr root"
proof -
  from indexer_store.index_content_built [OF assms] obtain vs where "built kv bops C b s vs" by blast
  then show ?thesis using transactions_root_total [of kv C vs s block] by (auto simp: built_def)
qed

section \<open>An example block\<close>

text \<open>A block with one Ethereum transaction, which ran out of block gas after it had logged twice.\<close>

definition demo_tx :: EthTx where
  "demo_tx =
     \<lparr>et_Type = 0, et_Protected = True, et_ChainId = 1776, et_Gas = 21000, et_GasPrice = 5, et_GasFeeCap = 5, et_GasTipCap = 5, et_Hash = 9,
      et_Data = [], et_Nonce = 0, et_To = Some 2, et_Value = 7, et_V = 1, et_R = 1, et_S = 1, et_AccessList = []\<rparr>"

definition demo_msg :: MsgEthereumTx where
  "demo_msg = \<lparr>GetGas = 21000, EthMsg_Hash = 9, AsTransaction = Some demo_tx, GetSenderLegacy = (\<lambda>s. Inr 1)\<rparr>"

definition demo_sdk_tx :: SdkTx where
  "demo_sdk_tx = \<lparr>GetMsgs = [EthereumMsg demo_msg], GetExtensionOptions = Some [''/injective.evm.v1.ExtensionOptionsEthereumTx'']\<rparr>"

definition demo_lib :: Chain_Lib where
  "demo_lib =
     null_chain\<lparr>TxDecoder := (\<lambda>bs. Inr demo_sdk_tx), LogsBloom_of := (\<lambda>ls. replicate 256 255), EffectiveGasPrice_of := (\<lambda>fee cap tip. min (tip + fee) cap),
       DecodeMsgLogs := (\<lambda>d i h. Inr (if d = [] then [] else [Some (plain_log 3 [] []), Some (plain_log 4 [6] [1])]))\<rparr>"

definition demo_kv :: "(memdb, membatch) KVIndexer" where
  "demo_kv = mem_kv\<lparr>kv_chain := demo_lib, virtualChainID := Some 1776\<rparr>"

definition demo_block :: Block where
  "demo_block =
     \<lparr>b_Header = \<lparr>h_Height = 5, h_Hash = [7], h_LastBlockID = [6], h_AppHash = replicate 32 1, h_DataHash = [8], h_ProposerAddress = [1], h_Time = 100\<rparr>,
      b_Txs = [[1]], b_Hash = [7], b_Size = 100\<rparr>"

definition demo_res :: ExecTxResult where
  "demo_res = \<lparr>Code = 11, Data = [1], GasUsed = 30000, Events = [], Codespace = ''sdk'', Log = ''out of gas''\<rparr>"

definition demo_results :: ResultBlockResults where
  "demo_results = \<lparr>br_Height = 5, br_TxResults = [Some demo_res], br_FinalizeBlockEvents = []\<rparr>"

lemma demo_kv_simps [simp]:
  "kv_eth demo_kv = std_eth" "kv_chain demo_kv = demo_lib" "kv_codec demo_kv = count_codec" "kv_db demo_kv = MemDB"
  "virtualizationEnabled demo_kv"
  by (simp_all add: demo_kv_def mem_kv_def)

lemma MemDB_simps [simp]:
  "batch_Set MemDB b k v = Inr (b @ [(k, Some v)])" "batch_Write MemDB d b = Inr (mem_apply d b)" "db_NewBatch MemDB d = []"
  by (simp_all add: MemDB_def)

lemma demo_reset: "\<exists>b. resetBlock demo_kv [] [] h = Inr b"
proof -
  have "resetBlock demo_kv d b h = resetBlock mem_kv d b h" for d b
    unfolding resetBlock_def deleteTraceKeysForBlock_def demo_kv_simps mem_kv_simps ..
  then show ?thesis using mem_resetBlock [of "[]" h] by simp
qed

lemma demo_receipt:
  "\<exists>bz. mustMarshalReceipt std_eth count_codec (buildCachedReceipt std_eth L st cg g reason vmErr logs h ca bh bn ti 5 sender to ty) = Inr bz"
  using count.receipt [OF std.eth_hex_axioms, of 5 _ L st cg g reason vmErr logs h ca bh bn ti sender to ty, OF _ _ refl] by auto

lemma demo_message:
  assumes "T = \<lparr>t_txIndex = 0, t_bytes = [1], t_result = demo_res, t_msgs = [EthereumMsg demo_msg], t_virtual = r\<rparr>" and "c_baseFee C = None"
  shows "\<exists>s' c logs. index_eth_message demo_kv C T txs s 0 0 demo_msg = Inr (s', c) \<and> s_blockLogs s' = s_blockLogs s @ [logs]"
proof -
  let ?logs = "visible_logs demo_kv C T (s_logIndex s) 9 (s_rpcTxIndex s) 0 (WrapLogs [Some (plain_log 3 [] []), Some (plain_log 4 [6] [1])] False None)"
  obtain bz where bz: "mustMarshalReceipt std_eth count_codec (buildCachedReceipt std_eth demo_lib 0 (u64 (s_gasBefore s + 21000)) 21000 [] []
      ?logs 9 None (c_hash C) (u64 (c_height C)) (u64 (s_rpcTxIndex s)) 5 1 (Some 2) 0) = Inr bz" using demo_receipt by blast
  have o: "message_outcome demo_lib demo_res txs (s_ethTxIndex s) 0 demo_msg = Inr (21000, True, 9, [], [])"
    by (simp add: message_outcome_def demo_res_def demo_lib_def null_chain_def demo_msg_def)
  have l: "message_logs demo_lib demo_res 0 (c_height C) True = Inr (WrapLogs [Some (plain_log 3 [] []), Some (plain_log 4 [6] [1])] False None)"
    by (simp add: message_logs_def demo_res_def demo_lib_def)
  have p: "receiptEffectiveGasPrice demo_lib demo_tx (c_baseFee C) = 5" by (simp add: receiptEffectiveGasPrice_def assms(2) demo_tx_def)
  obtain t where t: "NewRPCTransaction demo_msg (c_hash C) (u64 (c_height C)) (u64 (s_rpcTxIndex s)) (c_baseFee C) 1776 = Some (Inr t)"
    by (simp add: NewRPCTransaction_def demo_msg_def Let_def)
  have a: "AsTransaction demo_msg = Some demo_tx" "GetSenderLegacy demo_msg = (\<lambda>s. Inr 1)" by (simp_all add: demo_msg_def)
  have f: "et_To demo_tx = Some 2" "et_Type demo_tx = 0" "et_ChainId demo_tx = 1776" by (simp_all add: demo_tx_def)
  have r: "t_result T = demo_res" by (simp add: assms(1))
  show ?thesis
    by (simp add: index_eth_message_def r o l a f p saveTxResult_def store_message_def bz t appendLogGroup_def appendVisibleRPCTxHash_def Let_def)
qed

lemma demo_content:
  assumes "c_height C = 5" and "c_baseFee C = None"
  shows "\<exists>s logs. index_content demo_kv b demo_block (Some demo_results) C = Inr s \<and> s_blockLogs s = [logs]"
proof -
  have n: "NormalizeTxResponseIndexes demo_lib [Some demo_res] = Inr [Some demo_res]"
    by (simp add: NormalizeTxResponseIndexes_def norm_result_def demo_res_def Let_def)
  have v: "virtual_SplitBlockEvents std_eth demo_lib [] = Inr ([], [])"
    by (simp add: virtual_SplitBlockEvents_def bank_ParseEvents_def bank_EthereumLogs_def)
  have d: "TxDecoder demo_lib [1] = Inr demo_sdk_tx" "isEthTx demo_sdk_tx" "GetMsgs demo_sdk_tx = [EthereumMsg demo_msg]"
    by (simp_all add: demo_lib_def isEthTx_def demo_sdk_tx_def)
  have pt: "\<exists>txs. ParseTxResult std_eth demo_lib demo_res (Some demo_sdk_tx) = Some (Inr txs)"
    by (simp add: ParseTxResult_def parse_events_def demo_res_def demo_lib_def null_chain_def)
  then obtain txs where txs: "ParseTxResult std_eth demo_lib demo_res (Some demo_sdk_tx) = Some (Inr txs)" ..
  have pr: "\<exists>r. ParseResponse std_eth demo_lib (Some demo_res) = Inr r \<and> rs_entries r = []"
    by (simp add: ParseResponse_def demo_res_def)
  then obtain r where r: "ParseResponse std_eth demo_lib (Some demo_res) = Inr r" "rs_entries r = []" by blast
  define T where "T = \<lparr>t_txIndex = 0, t_bytes = [1], t_result = demo_res, t_msgs = [EthereumMsg demo_msg], t_virtual = r\<rparr>"
  from demo_message [OF T_def assms(2), of txs "init_state b"] obtain s c logs where
    s: "index_eth_message demo_kv C T txs (init_state b) 0 0 demo_msg = Inr (s, c)" "s_blockLogs s = [logs]"
    by (auto simp: init_state_def)
  have sy: "add_synthetic demo_kv C T s c = Inr s"
    using r(2) by (simp add: add_synthetic_def SyntheticTxs_def bank_entries_def hook_entries_def T_def)
  have tx: "index_tx demo_kv C [Some demo_res] (init_state b) 0 [1] = Inr (add_gas demo_res s)"
    by (simp add: index_tx_def d r(1) txs T_def [symmetric] s(1) sy)
  have "index_content demo_kv b demo_block (Some demo_results) C = Inr (add_gas demo_res s)"
    by (simp add: index_content_def demo_results_def blockTxResults_def n v add_block_tx_def demo_block_def tx)
  then show ?thesis using s(2) by (simp add: add_gas_def)
qed

lemma demo_indexed:
  obtains d' n logs where "indexBlockWithStats demo_kv [] demo_block (Some demo_results) = Inr (d', n)"
    "GetLogsByBlockHeight demo_kv d' 5 = Inr [logs]"
proof -
  define C where "C = \<lparr>c_height = 5, c_hash = bytes_to_hash [7], c_baseFee = None\<rparr>"
  obtain b where b: "resetBlock demo_kv [] [] 5 = Inr b" using demo_reset by blast
  obtain s logs where s: "index_content demo_kv b demo_block (Some demo_results) C = Inr s" "s_blockLogs s = [logs]"
    using demo_content [of C b] by (auto simp: C_def)
  obtain root where root: "transactions_root demo_kv demo_block s = Inr root"
  proof -
    have "indexer_store demo_kv map_of (\<lambda>b. b)" by (simp add: indexer_store_def mem.ordered_kv_axioms)
    from indexer_store.index_content_built [OF this s(1)] obtain vs where "built demo_kv (\<lambda>b. b) C b s vs" by blast
    then show thesis using that transactions_root_total [of demo_kv C vs s demo_block] by (auto simp: built_def)
  qed
  define meta where "meta = mustMarshalBlockMeta count_codec (block_meta_of demo_kv demo_block C s root)"
  let ?ops = "s_batch s @ [(BlockMetaKey 5, Some meta), (BlockHashKey (bytes_to_hash [7]), Some (be64 5)),
      (BlockLogsKey 5, Some (mustMarshalBlockLogs count_codec [logs]))]"
  have c: "\<lparr>c_height = h_Height (b_Header demo_block), c_hash = bytes_to_hash (b_Hash demo_block),
      c_baseFee = blockBaseFeeFromResults demo_lib (Some demo_results)\<rparr> = C"
    by (simp add: C_def demo_block_def blockBaseFeeFromResults_def demo_results_def BaseFeeFromEvents_def)
  have h: "h_Height (b_Header demo_block) = 5" "c_hash C = bytes_to_hash [7]" by (simp_all add: demo_block_def C_def)
  have "indexBlockWithStats demo_kv [] demo_block (Some demo_results) = Inr (mem_apply [] ?ops, s_IndexedEthTxs s)"
    unfolding indexBlockWithStats_def demo_kv_simps c Let_def unfolding h b
    by (simp add: b s root meta_def h)
  moreover have "map_of (mem_apply [] ?ops) (BlockLogsKey 5) = Some (mustMarshalBlockLogs count_codec [logs])"
    by (simp add: map_of_mem_apply apply_ops_append)
  then have "GetLogsByBlockHeight demo_kv (mem_apply [] ?ops) 5 = Inr [map stored_log logs]"
    using count.block_logs [of "[logs]"] by (simp add: GetLogsByBlockHeight_def MemDB_def mustMarshalBlockLogs_def)
  ultimately show thesis by (rule that)
qed

lemma demo_hyps:
  "indexer_store demo_kv map_of (\<lambda>b. b)" "capnp_codec (kv_codec demo_kv)" "eth_hex (kv_eth demo_kv)" "logs_present (kv_chain demo_kv)"
  "amounts_ok demo_kv (block_ctx demo_kv demo_block (Some demo_results))" "bytes_to_hash (b_Hash demo_block) \<noteq> 0"
  "store_layout (map_of ([] :: memdb))" "height_ok (h_Height (b_Header demo_block))" "reads_succeed demo_kv d"
proof -
  have "decodes_nonneg demo_lib"
    by (simp add: decodes_nonneg_def demo_lib_def demo_sdk_tx_def msg_nonneg_def demo_msg_def amounts_nonneg_def demo_tx_def DynamicFeeTxType_def)
  moreover have "blockBaseFeeFromResults demo_lib (Some demo_results) = None"
    by (simp add: blockBaseFeeFromResults_def demo_results_def BaseFeeFromEvents_def)
  moreover have "virtualChainID demo_kv = Some 1776" by (simp add: demo_kv_def mem_kv_def)
  moreover have "EffectiveGasPrice_of demo_lib fee cap tip = min (tip + fee) cap" for fee cap tip by (simp add: demo_lib_def)
  ultimately show "amounts_ok demo_kv (block_ctx demo_kv demo_block (Some demo_results))"
    by (simp add: amounts_ok_def nonneg_def)
  show "logs_present (kv_chain demo_kv)" by (auto simp: logs_present_def demo_lib_def)
  show "bytes_to_hash (b_Hash demo_block) \<noteq> 0" by (simp add: demo_block_def bytes_to_hash_def be_nat_def)
  show "reads_succeed demo_kv d" by (simp add: reads_succeed_def MemDB_def)
  show "height_ok (h_Height (b_Header demo_block))" by (simp add: demo_block_def height_ok_def maxInt64_def)
  show "store_layout (map_of ([] :: memdb))" by (simp add: store_layout_def height_keys_ok_def)
  show "indexer_store demo_kv map_of (\<lambda>b. b)" by (simp add: indexer_store_def mem.ordered_kv_axioms)
qed (simp_all add: count.capnp_codec_axioms std.eth_hex_axioms)

lemma demo_height: "h_Height (b_Header demo_block) = 5"
  by (simp add: demo_block_def)

lemma demo_seen:
  obtains d' n logs x where "indexBlockWithStats demo_kv [] demo_block (Some demo_results) = Inr (d', n)"
    "GetLogsByBlockHeight demo_kv d' (h_Height (b_Header demo_block)) = Inr [logs]"
    "GetRPCTransactionHashesByBlockHeight demo_kv d' (h_Height (b_Header demo_block)) = Inr [x]"
proof -
  obtain d' n logs where d: "indexBlockWithStats demo_kv [] demo_block (Some demo_results) = Inr (d', n)"
    "GetLogsByBlockHeight demo_kv d' (h_Height (b_Header demo_block)) = Inr [logs]"
    using demo_indexed unfolding demo_height by blast
  have "int (length [logs]) < 2 ^ 31" by simp
  from indexer_store.indexBlock_seen [OF demo_hyps(1) d(1) demo_hyps(7,8,2,4,9) d(2) this] obtain vs :: "Visible list" where
    "[logs] = map v_logs vs" "GetRPCTransactionHashesByBlockHeight demo_kv d' (h_Height (b_Header demo_block)) = Inr (map v_hash vs)" .
  then show thesis using that [OF d] by (cases vs) auto
qed

theorem IndexBlock_reads_back_witness:
  "\<exists>d' n hashes meta. indexBlockWithStats demo_kv [] demo_block (Some demo_results) = Inr (d', n) \<and>
    GetRPCTransactionHashesByBlockHeight demo_kv d' 5 = Inr hashes \<and> length hashes = 1 \<and>
    GetBlockMetaByHeight demo_kv d' 5 = Inr meta \<and> bm_EthTxCount meta = 1"
proof -
  obtain d' n logs x where d: "indexBlockWithStats demo_kv [] demo_block (Some demo_results) = Inr (d', n)"
    "GetLogsByBlockHeight demo_kv d' (h_Height (b_Header demo_block)) = Inr [logs]" using demo_seen by blast
  have "int (length [logs]) < 2 ^ 31" by simp
  from IndexBlock_reads_back [OF demo_hyps(1,2,4,7,8) d(1) demo_hyps(9) d(2) this] d(1) show ?thesis
    unfolding demo_height meta_describes_def by auto
qed

theorem IndexBlock_lookup_witness:
  "\<exists>d' n h t rm. indexBlockWithStats demo_kv [] demo_block (Some demo_results) = Inr (d', n) \<and>
    GetRPCTransactionHashesByBlockHeight demo_kv d' 5 = Inr [h] \<and> GetRPCTransactionByBlockAndIndex demo_kv d' 5 0 = Inr t \<and>
    tx_Hash t = h \<and> GetReceiptByTxHash demo_kv d' h = Inr rm \<and> rm_transactionIndex rm = 0"
proof -
  obtain d' n logs x where d: "indexBlockWithStats demo_kv [] demo_block (Some demo_results) = Inr (d', n)"
    "GetLogsByBlockHeight demo_kv d' (h_Height (b_Header demo_block)) = Inr [logs]"
    "GetRPCTransactionHashesByBlockHeight demo_kv d' (h_Height (b_Header demo_block)) = Inr [x]" by (rule demo_seen)
  have "int (length [logs]) < 2 ^ 31" "distinct [x]" "0 < length [x]" by simp_all
  from IndexBlock_lookup [OF demo_hyps(1-8) d(1) demo_hyps(9) d(2) this(1) d(3) this(2,3)] d(1,3) show ?thesis
    unfolding demo_height by auto
qed

theorem IndexBlock_logs_numbered_witness:
  "\<exists>d' n logs. indexBlockWithStats demo_kv [] demo_block (Some demo_results) = Inr (d', n) \<and>
    GetLogsByBlockHeight demo_kv d' 5 = Inr [logs] \<and> map (map_option Index) logs = index_run 0 (length logs)"
proof -
  obtain d' n logs x where d: "indexBlockWithStats demo_kv [] demo_block (Some demo_results) = Inr (d', n)"
    "GetLogsByBlockHeight demo_kv d' (h_Height (b_Header demo_block)) = Inr [logs]"
    "GetRPCTransactionHashesByBlockHeight demo_kv d' (h_Height (b_Header demo_block)) = Inr [x]" by (rule demo_seen)
  have "int (length [logs]) < 2 ^ 31" by simp
  from IndexBlock_logs_numbered [OF demo_hyps(1,2,4,7,8) demo_kv_simps(5) d(1) demo_hyps(9) d(2) this d(3)] d(1,2) show ?thesis
    unfolding demo_height by auto
qed

theorem IndexBlock_isolates_witness:
  "\<exists>d' n. indexBlockWithStats demo_kv [] demo_block (Some demo_results) = Inr (d', n) \<and> meta_heights (map_of d') = {5} \<and>
    map_of d' (BlockMetaKey 6) = None"
proof -
  obtain d' n logs x where d: "indexBlockWithStats demo_kv [] demo_block (Some demo_results) = Inr (d', n)" using demo_seen by blast
  have "height_ok 6" by (simp add: height_ok_def maxInt64_def)
  moreover have "meta_heights (map_of ([] :: memdb)) = {}" by (simp add: meta_heights_def)
  ultimately have "meta_heights (map_of d') = {5}" "map_of d' (BlockMetaKey 6) = None"
    using IndexBlock_isolates [OF demo_hyps(1,7,8) d] unfolding demo_height by auto
  with d show ?thesis by blast
qed

theorem visible_root_defined_witness:
  "\<exists>s root. index_content demo_kv [] demo_block (Some demo_results) (block_ctx demo_kv demo_block (Some demo_results)) = Inr s \<and>
    transactions_root demo_kv demo_block s = Inr root"
proof -
  have "c_baseFee (block_ctx demo_kv demo_block (Some demo_results)) = None" "c_height (block_ctx demo_kv demo_block (Some demo_results)) = 5"
    by (simp_all add: demo_block_def blockBaseFeeFromResults_def demo_results_def BaseFeeFromEvents_def)
  from demo_content [OF this(2,1), of "[]"] obtain s where
    "index_content demo_kv [] demo_block (Some demo_results) (block_ctx demo_kv demo_block (Some demo_results)) = Inr s" by blast
  with visible_root_defined [OF demo_hyps(1) this] show ?thesis by blast
qed

end
