(* ===== verification/Sync_Service.thy ===== *)
theory Sync_Service
  imports Block_Ranges Block_Sync Sync_Status Indexed_Block
begin

text \<open>
  The sync service of \<open>internal/indexer/service.go\<close>: the handler that indexes a fetched block or
  cleans up after a failure, the gap queue, the forward queue, \<open>Run\<close> with its sequential and its
  parallel mode, and \<open>Resync\<close>. The queues run the block getter of \<open>Block_Getter\<close> with the handler,
  so that their steps interleave with those of its goroutines and, in parallel mode, with each
  other; a call of the handler is one step. The time of a step is chosen by the step. Logging and
  the pace counter are left out.
\<close>

section \<open>Definitions\<close>

subsection \<open>The indexer behind the interface\<close>

text \<open>\<open>TxIndexer\<close> as the service uses it; the optional methods found by a type assertion are options.
  A nil block makes the indexer panic.\<close>

record 'd TxIndexer =
  ti_IndexBlock :: "'d \<Rightarrow> Block \<Rightarrow> ExecTxResult option list \<Rightarrow> go_error + 'd"
  ti_DeleteBlock :: "'d \<Rightarrow> int \<Rightarrow> go_error + 'd"
  withResults :: "('d \<Rightarrow> Block \<Rightarrow> ResultBlockResults option \<Rightarrow> go_error + 'd) option"
  withStats :: "('d \<Rightarrow> Block \<Rightarrow> ExecTxResult option list \<Rightarrow> go_error + ('d \<times> int)) option"
  withStatsAndResults :: "('d \<Rightarrow> Block \<Rightarrow> ResultBlockResults option \<Rightarrow> go_error + ('d \<times> int)) option"

text \<open>The indexer of the gateway has all of them.\<close>

definition KVTxIndexer :: "('d, 'b) KVIndexer \<Rightarrow> 'd TxIndexer" where
  "KVTxIndexer kv =
     \<lparr>ti_IndexBlock = IndexBlock kv, ti_DeleteBlock = DeleteBlock kv, withResults = Some (IndexBlockWithResults kv),
      withStats = Some (IndexBlockWithStats kv), withStatsAndResults = Some (IndexBlockWithStatsAndResults kv)\<rparr>"

definition txResultsFromBlockResults :: "ResultBlockResults option \<Rightarrow> ExecTxResult option list" where
  "txResultsFromBlockResults br = (case br of None \<Rightarrow> [] | Some r \<Rightarrow> br_TxResults r)"

text \<open>A nil block is dereferenced: within \<open>indexBlockWithStats\<close>, which turns the panic into an error, or before
  it, by the variants without block results, where the panic is \<open>None\<close>.\<close>

definition recovering :: "(Block \<Rightarrow> go_error + 'a) \<Rightarrow> Block option \<Rightarrow> go_error + 'a" where
  "recovering f block =
     (case block of Some b \<Rightarrow> f b | None \<Rightarrow> Inl (Errorf ''runtime error: invalid memory address or nil pointer dereference''))"

definition indexBlock :: "'d TxIndexer \<Rightarrow> 'd \<Rightarrow> Block option \<Rightarrow> ResultBlockResults option \<Rightarrow> (go_error + 'd) option" where
  "indexBlock ti d block br =
     (case withResults ti of
        Some f \<Rightarrow> Some (recovering (\<lambda>b. f d b br) block)
      | None \<Rightarrow> map_option (\<lambda>b. ti_IndexBlock ti d b (txResultsFromBlockResults br)) block)"

definition indexBlockForResync :: "'d TxIndexer \<Rightarrow> 'd \<Rightarrow> Block option \<Rightarrow> ResultBlockResults option \<Rightarrow> (go_error + ('d \<times> int)) option" where
  "indexBlockForResync ti d block br =
     (case withStatsAndResults ti of
        Some f \<Rightarrow> Some (recovering (\<lambda>b. f d b br) block)
      | None \<Rightarrow>
          (case withStats ti of
             Some f \<Rightarrow> map_option (\<lambda>b. f d b (txResultsFromBlockResults br)) block
           | None \<Rightarrow> map_option (\<lambda>r. bindR r (\<lambda>d'. Inr (d', 0))) (indexBlock ti d block br)))"

definition cleanupFailedBlock :: "'d TxIndexer \<Rightarrow> 'd \<Rightarrow> int \<Rightarrow> go_error + 'd" where
  "cleanupFailedBlock ti d h = wrapR (\<lambda>e. Wrap e (''delete failed block '' @ Itoa h)) (ti_DeleteBlock ti d h)"

definition joinErrors :: "go_error option \<Rightarrow> go_error option \<Rightarrow> go_error option" where
  "joinErrors primary secondary =
     (case primary of
        None \<Rightarrow> secondary
      | Some p \<Rightarrow> (case secondary of None \<Rightarrow> Some p | Some e \<Rightarrow> Some (Joined p e)))"

subsection \<open>The service and its world\<close>

text \<open>The fields of the \<open>Syncer\<close> and of its configuration that do not change; a publisher gets the
  database because it reads what was indexed.\<close>

record ('d, 'b, 'p) Syncer =
  Earliest :: int
  FetchJobs :: int
  AllowGaps :: bool
  EnableSync :: bool
  ParallelSyncTipAndGaps :: bool
  sync_db :: "('d, 'b) DB"
  indexer :: "'d TxIndexer option"
  tipPublisher :: "('d \<Rightarrow> int \<Rightarrow> 'p \<Rightarrow> go_error + 'p) option"

text \<open>What changes: the database, the tracker (if there is one) and the published streams.\<close>

record ('d, 'p) World =
  w_db :: 'd
  w_status :: "Tracker option"
  w_tip :: 'p

definition with_status :: "(Tracker \<Rightarrow> Tracker) \<Rightarrow> ('d, 'p) World \<Rightarrow> ('d, 'p) World" where
  "with_status f w = w\<lparr>w_status := map_option f (w_status w)\<rparr>"

text \<open>The node answers a request for a block with a \<open>ResultBlock\<close>, whose block may be nil.\<close>

type_synonym 'val Fetched = "(Block option, ResultBlockResults, 'val) NewBlockData"

definition block_of :: "'val Fetched \<Rightarrow> Block option" where
  "block_of nb = (case Block nb of Some b \<Rightarrow> b | None \<Rightarrow> None)"

definition publish_tip :: "('d, 'b, 'p) Syncer \<Rightarrow> bool \<Rightarrow> int \<Rightarrow> ('d, 'p) World \<Rightarrow> ('d, 'p) World" where
  "publish_tip s publishTip h w =
     (case tipPublisher s of
        Some pub \<Rightarrow> if publishTip then (case pub (w_db w) h (w_tip w) of Inl _ \<Rightarrow> w | Inr p \<Rightarrow> w\<lparr>w_tip := p\<rparr>) else w
      | None \<Rightarrow> w)"

text \<open>The handler: its error and the world after it, or \<open>None\<close> for a panic.\<close>

definition handleSyncedBlock ::
  "('d, 'b, 'p) Syncer \<Rightarrow> 'd TxIndexer \<Rightarrow> bool \<Rightarrow> int \<Rightarrow> 'val Fetched \<Rightarrow> ('d, 'p) World \<Rightarrow> (go_error option \<times> ('d, 'p) World) option" where
  "handleSyncedBlock s ti publishTip now nb w =
     (if Skipped nb then Some (None, with_status (MarkBlock now (Height nb) False) w)
      else case indexBlock ti (w_db w) (block_of nb) (BlockResults nb) of
        None \<Rightarrow> None
      | Some r \<Rightarrow>
          (case r of
             Inl err \<Rightarrow>
               (case cleanupFailedBlock ti (w_db w) (Height nb) of
                  Inl cleanupErr \<Rightarrow> Some (joinErrors (Some (Wrap err (''index block '' @ Itoa (Height nb)))) (Some cleanupErr), w)
                | Inr d' \<Rightarrow>
                    let w' = with_status (MarkBlock now (Height nb) False) (w\<lparr>w_db := d'\<rparr>)
                    in if errors_Is err ErrBlockParse \<and> AllowGaps s then Some (None, w')
                       else Some (Some (Wrap err (''index block '' @ Itoa (Height nb))), w'))
           | Inr d' \<Rightarrow>
               Some (None, publish_tip s publishTip (Height nb) (with_status (MarkBlock now (Height nb) True) (w\<lparr>w_db := d'\<rparr>)))))"

subsection \<open>The getter with a handler\<close>

text \<open>The consumer calls the handler for a block of the expected height that was not skipped.\<close>

definition calls_handler :: "bool \<Rightarrow> ('blk, 'res, 'val) blockGetter \<Rightarrow> ('blk, 'res, 'val, 'e) Sync \<Rightarrow> bool" where
  "calls_handler prefer_ctx b c \<longleftrightarrow>
     sync_pc c = Receiving \<and> in_range c \<and> \<not> (ctxDone b \<and> prefer_ctx) \<and> newBlocksC b \<noteq> [] \<and>
     Height (hd (newBlocksC b)) = expected c \<and> \<not> Skipped (hd (newBlocksC b))"

text \<open>The steps of \<open>sync_step\<close>, with the handler computed on a state \<open>w\<close>. The node may answer a request
  for height \<open>h\<close> with the block \<open>x\<close> when \<open>answers h x\<close>.\<close>

inductive service_step ::
  "(int \<Rightarrow> 'blk \<Rightarrow> bool) \<Rightarrow> (int \<Rightarrow> ('blk, 'res, 'val) NewBlockData \<Rightarrow> 'w \<Rightarrow> ('e option \<times> 'w) option) \<Rightarrow>
    ('blk, 'res, 'val, 'e) system \<times> 'w \<Rightarrow> ('blk, 'res, 'val, 'e) system \<times> 'w \<Rightarrow> bool"
  for answers handler where
  job: "i < length (jobs b) \<Longrightarrow>
    (\<forall>h. jobs b ! i = JobFetching h \<longrightarrow>
      (\<exists>rb rr rv. (\<forall>x. rb = Inr x \<longrightarrow> answers (i64 h) x) \<and> r \<in> set (fetchBlockByNum (fetchValidators b) h rb rr rv))) \<Longrightarrow>
    service_step answers handler ((b, c), w) ((job_step i r b, c), w)"
| announce: "service_step answers handler ((b, c), w) ((announce_step b, c), w)"
| receive: "\<not> calls_handler prefer_ctx b c \<Longrightarrow> consumer_step prefer_ctx None b c = (b', c') \<Longrightarrow>
    service_step answers handler ((b, c), w) ((b', c'), w)"
| handle: "calls_handler prefer_ctx b c \<Longrightarrow> handler now (hd (newBlocksC b)) w = Some (hr, w') \<Longrightarrow>
    consumer_step prefer_ctx hr b c = (b', c') \<Longrightarrow> service_step answers handler ((b, c), w) ((b', c'), w')"
| close: "sync_pc c \<noteq> Receiving \<Longrightarrow> service_step answers handler ((b, c), w) ((close_step b, c), w)"
| cancel: "service_step answers handler ((b, c), w) ((b\<lparr>ctxDone := True\<rparr>, c), w)"

subsection \<open>The gap queue\<close>

type_synonym 'val Fetching = "(Block option, ResultBlockResults, 'val, go_error) system"

text \<open>\<open>context.Canceled\<close> in the error chain.\<close>

definition is_canceled :: "go_error sync_error \<Rightarrow> bool" where
  "is_canceled err = (case err of CtxCanceled \<Rightarrow> True | HandlerErr e \<Rightarrow> errors_Is e Canceled | _ \<Rightarrow> False)"

text \<open>The loop of \<open>syncGaps\<close>: the gaps still to do, the gap being synced, and what the function has
  returned. \<open>gq_done\<close> is a ghost: the gaps reported as complete.\<close>

record 'val GapQueue =
  gq_todo :: "BlockRange list"
  gq_current :: "(BlockRange \<times> 'val Fetching) option"
  gq_result :: "go_error sync_error option option"
  gq_done :: "BlockRange list"

definition gap_returned ::
  "bool \<Rightarrow> int \<Rightarrow> BlockRange \<Rightarrow> go_error sync_error option \<Rightarrow> 'val GapQueue \<Rightarrow> ('d, 'p) World \<Rightarrow> 'val GapQueue \<times> ('d, 'p) World" where
  "gap_returned par now gap r q w =
     (case r of
        Some err \<Rightarrow>
          if is_canceled err then (q\<lparr>gq_current := None, gq_result := Some (Some err)\<rparr>, w)
          else (q\<lparr>gq_current := None\<rparr>, w)
      | None \<Rightarrow>
          (q\<lparr>gq_current := None, gq_done := gq_done q @ [gap]\<rparr>,
           with_status (if par then CompleteGap now (Start gap) (End gap) else CompleteCurrentSegment now) w))"

inductive gap_step ::
  "('d, 'b, 'p) Syncer \<Rightarrow> 'd TxIndexer \<Rightarrow> (int \<Rightarrow> Block option \<Rightarrow> bool) \<Rightarrow> bool \<Rightarrow>
    'val GapQueue \<times> ('d, 'p) World \<Rightarrow> 'val GapQueue \<times> ('d, 'p) World \<Rightarrow> bool"
  for s ti answers par where
  next_gap: "gq_result q = None \<Longrightarrow> gq_current q = None \<Longrightarrow> gq_todo q = gap # rest \<Longrightarrow>
    gap_step s ti answers par (q, w)
      (q\<lparr>gq_todo := rest, gq_current := Some (gap, SyncRange (FetchJobs s) (Start gap) (End gap) (AllowGaps s) False)\<rparr>,
       if par then w else with_status (StartSegment now ''gap'' (Start gap) (Some (End gap))) w)"
| fetch: "gq_current q = Some (gap, y) \<Longrightarrow> service_step answers (handleSyncedBlock s ti False) (y, w) (y', w') \<Longrightarrow>
    gap_step s ti answers par (q, w) (q\<lparr>gq_current := Some (gap, y')\<rparr>, w')"
| returned: "gq_current q = Some (gap, (b, c)) \<Longrightarrow> sync_pc c = Returned r \<Longrightarrow>
    gap_step s ti answers par (q, w) (gap_returned par now gap r q w)"
| finished: "gq_result q = None \<Longrightarrow> gq_current q = None \<Longrightarrow> gq_todo q = [] \<Longrightarrow>
    gap_step s ti answers par (q, w) (q\<lparr>gq_result := Some None\<rparr>, w)"

definition syncGaps :: "BlockRange list \<Rightarrow> 'val GapQueue" where
  "syncGaps gaps = \<lparr>gq_todo = gaps, gq_current = None, gq_result = None, gq_done = []\<rparr>"

subsection \<open>The forward queue\<close>

record 'val TipQueue =
  tq_sys :: "'val Fetching"
  tq_result :: "go_error sync_error option option"

definition runForwardSync :: "('d, 'b, 'p) Syncer \<Rightarrow> int \<Rightarrow> int \<Rightarrow> bool \<Rightarrow> ('d, 'p) World \<Rightarrow> 'val TipQueue \<times> ('d, 'p) World" where
  "runForwardSync s now start manageStatus w =
     (\<lparr>tq_sys = SyncForward (FetchJobs s) start False, tq_result = None\<rparr>,
      if manageStatus then with_status (StartSegment now ''forward'' start None) (with_status (SetPhase now ''forward_sync'') w) else w)"

definition tip_returned :: "int \<Rightarrow> go_error sync_error option \<Rightarrow> 'val TipQueue \<Rightarrow> ('d, 'p) World \<Rightarrow> 'val TipQueue \<times> ('d, 'p) World" where
  "tip_returned now r t w =
     (case r of
        Some err \<Rightarrow>
          if is_canceled err then (t\<lparr>tq_result := Some (Some err)\<rparr>, w)
          else (t\<lparr>tq_result := Some None\<rparr>, with_status (SetPhase now ''forward_sync_stopped'') w)
      | None \<Rightarrow> (t\<lparr>tq_result := Some None\<rparr>, w))"

inductive tip_step ::
  "('d, 'b, 'p) Syncer \<Rightarrow> 'd TxIndexer \<Rightarrow> (int \<Rightarrow> Block option \<Rightarrow> bool) \<Rightarrow>
    'val TipQueue \<times> ('d, 'p) World \<Rightarrow> 'val TipQueue \<times> ('d, 'p) World \<Rightarrow> bool"
  for s ti answers where
  fetch: "tq_result t = None \<Longrightarrow> service_step answers (handleSyncedBlock s ti True) (tq_sys t, w) (y', w') \<Longrightarrow>
    tip_step s ti answers (t, w) (t\<lparr>tq_sys := y'\<rparr>, w')"
| returned: "tq_result t = None \<Longrightarrow> sync_pc (snd (tq_sys t)) = Returned r \<Longrightarrow>
    tip_step s ti answers (t, w) (tip_returned now r t w)"

subsection \<open>Run\<close>

text \<open>The answer of the node about the requested earliest block: the text of an error, or the block.\<close>

definition resolveEarliestBlock :: "('d, 'b, 'p) Syncer \<Rightarrow> (int \<Rightarrow> string + Block option) \<Rightarrow> int \<Rightarrow> go_error + int" where
  "resolveEarliestBlock s client_Block requested =
     (case client_Block requested of
        Inr None \<Rightarrow> Inl (Errorf (''validate earliest block '' @ Itoa requested @ '': empty block response''))
      | Inr (Some _) \<Rightarrow> Inr requested
      | Inl msg \<Rightarrow>
          (case LowestAvailableHeight (Some msg) of (chainEarliest, ok) \<Rightarrow>
             if \<not> ok then Inl (Wrap (Errorf msg) (''validate earliest block '' @ Itoa requested))
             else if \<not> AllowGaps s then
               Inl (Errorf (''earliest block '' @ Itoa requested @ '' before chain earliest '' @ Itoa chainEarliest))
             else Inr chainEarliest))"

record ResultStatus =
  EarliestBlockHeight :: int
  LatestBlockHeight :: int

definition choose_earliest :: "('d, 'b, 'p) Syncer \<Rightarrow> (int \<Rightarrow> string + Block option) \<Rightarrow> ResultStatus \<Rightarrow> go_error + int" where
  "choose_earliest s client_Block st =
     (if Earliest s \<le> 0 then Inr (if EarliestBlockHeight st \<le> 0 then 1 else EarliestBlockHeight st)
      else resolveEarliestBlock s client_Block (Earliest s))"

text \<open>What \<open>Run\<close> does before its queues start: it ends at once, or goes on with the gaps up to the head.\<close>

datatype run_plan = RunEnds "go_error option" | RunQueues int int "BlockRange list"

definition Run_prepare ::
  "('d, 'b, 'p) Syncer \<Rightarrow> int \<Rightarrow> go_error + ResultStatus \<Rightarrow> (int \<Rightarrow> string + Block option) \<Rightarrow> ('d, 'p) World \<Rightarrow> run_plan \<times> ('d, 'p) World" where
  "Run_prepare s now status client_Block w =
     (case indexer s of
        None \<Rightarrow> (RunEnds None, w)
      | Some _ \<Rightarrow>
          if \<not> EnableSync s then (RunEnds None, with_status (SetPhase now ''sync_disabled'') w)
          else let w = with_status (SetPhase now ''initializing'') w in
            (case status of
               Inl err \<Rightarrow> (RunEnds (Some err), w)
             | Inr st \<Rightarrow>
                 (case choose_earliest s client_Block st of
                    Inl err \<Rightarrow> (RunEnds (Some err), w)
                  | Inr earliest \<Rightarrow>
                      let head = LatestBlockHeight st;
                          w = with_status (SetEarliestBlock now earliest) (with_status (SetChainHead now head) w)
                      in if head < earliest then (RunEnds None, with_status (SetPhase now ''idle'') w)
                         else (case LoadIndexedRanges (sync_db s) (w_db w) of
                                 Inl err \<Rightarrow> (RunEnds (Some err), w)
                               | Inr ranges \<Rightarrow>
                                   let gaps = ComputeGaps earliest head ranges
                                   in (RunQueues earliest head gaps,
                                       with_status (SetGaps now (length gaps)) (with_status (SetPhase now ''initial_gap_sync'') w))))))"

record 'val RunState =
  rs_gaps :: "'val GapQueue"
  rs_tip :: "'val TipQueue option"
  rs_result :: "go_error sync_error option option"

text \<open>The queues run one after the other, or in parallel when there are gaps and the configuration asks
  for it.\<close>

definition in_parallel :: "('d, 'b, 'p) Syncer \<Rightarrow> BlockRange list \<Rightarrow> bool" where
  "in_parallel s gaps \<longleftrightarrow> gaps \<noteq> [] \<and> ParallelSyncTipAndGaps s"

definition start_queues :: "('d, 'b, 'p) Syncer \<Rightarrow> int \<Rightarrow> int \<Rightarrow> BlockRange list \<Rightarrow> ('d, 'p) World \<Rightarrow> 'val RunState \<times> ('d, 'p) World" where
  "start_queues s now head gaps w =
     (if in_parallel s gaps then
        let tipStart = i64 (head + 1);
            w = with_status (StartSegment now ''forward'' tipStart None) (with_status (SetPhase now ''parallel_gap_tip_sync'') w);
            (t, w') = runForwardSync s now tipStart False w
        in (\<lparr>rs_gaps = syncGaps gaps, rs_tip = Some t, rs_result = None\<rparr>, w')
      else (\<lparr>rs_gaps = syncGaps gaps, rs_tip = None, rs_result = None\<rparr>, w))"

text \<open>The collecting loop of \<open>runParallelTipAndGaps\<close>: the cancellation that came last, if any. The
  order of the two results is free.\<close>

definition canceled_of :: "go_error sync_error option list \<Rightarrow> go_error sync_error option" where
  "canceled_of rs = fold (\<lambda>r acc. case r of Some e \<Rightarrow> if is_canceled e then Some e else acc | None \<Rightarrow> acc) rs None"

inductive run_step ::
  "('d, 'b, 'p) Syncer \<Rightarrow> 'd TxIndexer \<Rightarrow> (int \<Rightarrow> Block option \<Rightarrow> bool) \<Rightarrow> int \<Rightarrow> bool \<Rightarrow>
    'val RunState \<times> ('d, 'p) World \<Rightarrow> 'val RunState \<times> ('d, 'p) World \<Rightarrow> bool"
  for s ti answers head par where
  gap: "rs_result r = None \<Longrightarrow> gap_step s ti answers par (rs_gaps r, w) (q, w') \<Longrightarrow>
    run_step s ti answers head par (r, w) (r\<lparr>rs_gaps := q\<rparr>, w')"
| tip: "rs_result r = None \<Longrightarrow> rs_tip r = Some t \<Longrightarrow> tip_step s ti answers (t, w) (t', w') \<Longrightarrow>
    run_step s ti answers head par (r, w) (r\<lparr>rs_tip := Some t'\<rparr>, w')"
| follow: "rs_result r = None \<Longrightarrow> \<not> par \<Longrightarrow> rs_tip r = None \<Longrightarrow> gq_result (rs_gaps r) = Some None \<Longrightarrow>
    runForwardSync s now (i64 (head + 1)) True w = (t, w') \<Longrightarrow>
    run_step s ti answers head par (r, w) (r\<lparr>rs_tip := Some t\<rparr>, w')"
| gaps_canceled: "rs_result r = None \<Longrightarrow> \<not> par \<Longrightarrow> gq_result (rs_gaps r) = Some (Some err) \<Longrightarrow>
    run_step s ti answers head par (r, w) (r\<lparr>rs_result := Some (Some err)\<rparr>, w)"
| tip_ended: "rs_result r = None \<Longrightarrow> \<not> par \<Longrightarrow> rs_tip r = Some t \<Longrightarrow> tq_result t = Some e \<Longrightarrow>
    run_step s ti answers head par (r, w) (r\<lparr>rs_result := Some e\<rparr>, w)"
| both_ended: "rs_result r = None \<Longrightarrow> par \<Longrightarrow> rs_tip r = Some t \<Longrightarrow> gq_result (rs_gaps r) = Some e1 \<Longrightarrow>
    tq_result t = Some e2 \<Longrightarrow> rs \<in> {[e1, e2], [e2, e1]} \<Longrightarrow>
    run_step s ti answers head par (r, w) (r\<lparr>rs_result := Some (canceled_of rs)\<rparr>, w)"

subsection \<open>Resync\<close>

record ResyncStats =
  BlocksSynced :: int
  UniqueTxnsSeen :: int

definition resync_handler ::
  "'d TxIndexer \<Rightarrow> int \<Rightarrow> 'val Fetched \<Rightarrow> 'd \<times> ResyncStats \<Rightarrow> (go_error option \<times> 'd \<times> ResyncStats) option" where
  "resync_handler ti now nb ds =
     (case ds of (d, stats) \<Rightarrow>
        if Skipped nb then Some (Some (Errorf (''block '' @ Itoa (Height nb) @ '' was skipped during resync'')), d, stats)
        else case indexBlockForResync ti d (block_of nb) (BlockResults nb) of
          None \<Rightarrow> None
        | Some r \<Rightarrow>
            (case r of
               Inl err \<Rightarrow>
                 (case cleanupFailedBlock ti d (Height nb) of
                    Inl cleanupErr \<Rightarrow> Some (joinErrors (Some (Wrap err (''index block '' @ Itoa (Height nb)))) (Some cleanupErr), d, stats)
                  | Inr d' \<Rightarrow> Some (Some (Wrap err (''index block '' @ Itoa (Height nb))), d', stats))
             | Inr (d', n) \<Rightarrow>
                 Some (None, d', stats\<lparr>BlocksSynced := i64 (BlocksSynced stats + 1), UniqueTxnsSeen := i64 (UniqueTxnsSeen stats + n)\<rparr>)))"

record 'val ResyncQueue =
  rq_todo :: "BlockRange list"
  rq_current :: "(BlockRange \<times> 'val Fetching) option"
  rq_result :: "go_error sync_error option option"

definition resync_returned :: "go_error sync_error option \<Rightarrow> 'val ResyncQueue \<Rightarrow> 'val ResyncQueue" where
  "resync_returned r q =
     (case r of Some err \<Rightarrow> q\<lparr>rq_current := None, rq_result := Some (Some err)\<rparr> | None \<Rightarrow> q\<lparr>rq_current := None\<rparr>)"

inductive resync_step ::
  "('d, 'b, 'p) Syncer \<Rightarrow> 'd TxIndexer \<Rightarrow> (int \<Rightarrow> Block option \<Rightarrow> bool) \<Rightarrow>
    'val ResyncQueue \<times> 'd \<times> ResyncStats \<Rightarrow> 'val ResyncQueue \<times> 'd \<times> ResyncStats \<Rightarrow> bool"
  for s ti answers where
  next_target: "rq_result q = None \<Longrightarrow> rq_current q = None \<Longrightarrow> rq_todo q = target # rest \<Longrightarrow>
    resync_step s ti answers (q, ds)
      (q\<lparr>rq_todo := rest, rq_current := Some (target, SyncRange (FetchJobs s) (Start target) (End target) False False)\<rparr>, ds)"
| fetch: "rq_current q = Some (target, y) \<Longrightarrow> service_step answers (resync_handler ti) (y, ds) (y', ds') \<Longrightarrow>
    resync_step s ti answers (q, ds) (q\<lparr>rq_current := Some (target, y')\<rparr>, ds')"
| returned: "rq_current q = Some (target, (b, c)) \<Longrightarrow> sync_pc c = Returned r \<Longrightarrow>
    resync_step s ti answers (q, ds) (resync_returned r q, ds)"
| finished: "rq_result q = None \<Longrightarrow> rq_current q = None \<Longrightarrow> rq_todo q = [] \<Longrightarrow>
    resync_step s ti answers (q, ds) (q\<lparr>rq_result := Some None\<rparr>, ds)"

text \<open>\<open>Resync\<close> without an indexer or without targets fails at once.\<close>

definition Resync :: "('d, 'b, 'p) Syncer \<Rightarrow> BlockRange list \<Rightarrow> 'd \<Rightarrow> go_error + 'val ResyncQueue \<times> 'd \<times> ResyncStats" where
  "Resync s targets d =
     (case indexer s of
        None \<Rightarrow> Inl (Errorf ''tx indexer not configured'')
      | Some _ \<Rightarrow>
          if targets = [] then Inl (Errorf ''no resync targets provided'')
          else Inr (\<lparr>rq_todo = NormalizeRanges targets, rq_current = None, rq_result = None\<rparr>, d, \<lparr>BlocksSynced = 0, UniqueTxnsSeen = 0\<rparr>))"

end
