(* ===== verification/Sync_Runs.thy ===== *)
theory Sync_Runs
  imports Sync_Service
begin

text \<open>
  What a run of the sync service leaves in the store, in every interleaving: a contract for the
  block handlers, the effect of a getter that calls such a handler, and the invariants of the gap
  queue, of the two queues together, and of \<open>Resync\<close>.
\<close>

section \<open>Blocks come from the node\<close>

definition genuine :: "(int \<Rightarrow> 'blk \<Rightarrow> bool) \<Rightarrow> ('blk, 'res, 'val) NewBlockData \<Rightarrow> bool" where
  "genuine answers d \<longleftrightarrow> (\<not> Skipped d \<longrightarrow> (\<exists>x. Block d = Some x \<and> answers (Height d) x))"

fun job_genuine :: "(int \<Rightarrow> 'blk \<Rightarrow> bool) \<Rightarrow> ('blk, 'res, 'val) job_pc \<Rightarrow> bool" where
  "job_genuine answers (JobStore h d) = genuine answers d"
| "job_genuine answers _ = True"

fun ann_genuine :: "(int \<Rightarrow> 'blk \<Rightarrow> bool) \<Rightarrow> ('blk, 'res, 'val) ann_pc \<Rightarrow> bool" where
  "ann_genuine answers (AnnSend h d) = genuine answers d"
| "ann_genuine answers _ = True"

definition flow_inv :: "(int \<Rightarrow> 'blk \<Rightarrow> bool) \<Rightarrow> ('blk, 'res, 'val) blockGetter \<Rightarrow> bool" where
  "flow_inv answers b \<longleftrightarrow>
     (\<forall>(k, d)\<in>set (newBlocksMap b). genuine answers d) \<and> (\<forall>p\<in>set (jobs b). job_genuine answers p) \<and>
     ann_genuine answers (announcer b) \<and> (\<forall>d\<in>set (newBlocksC b). genuine answers d)"

lemma service_sync_step:
  assumes "service_step answers handler (y, w) (y', w')"
  shows "sync_step y y'"
  using assms
proof (cases rule: service_step.cases)
  case (job i b r c)
  then show ?thesis by (auto intro!: sync_step.job) blast
qed (auto intro: sync_step.intros)

lemma flow_inv_cond_signal [simp]: "flow_inv answers (cond_signal b) = flow_inv answers b"
  by (auto simp: flow_inv_def cond_signal_def split: ann_pc.split)

lemma flow_inv_set_job:
  "flow_inv answers b \<Longrightarrow> job_genuine answers p \<Longrightarrow> flow_inv answers (set_job i p b)"
  using set_update_subset_insert [of "jobs b" i p] by (auto simp: flow_inv_def)

lemma fetched_genuine:
  assumes "\<forall>x. rb = Inr x \<longrightarrow> answers (i64 h) x" and "r \<in> set (fetchBlockByNum vals h rb rr rv)"
    and "after_fetch gaps isdone h r = DeliverBlock d"
  shows "genuine answers d"
  using assms
  by (cases rb) (auto simp: fetchBlockByNum_def after_fetch_def genuine_def errors_of_def Let_def split: if_splits sum.splits)

lemma job_step_flow:
  assumes "flow_inv answers b" and "i < length (jobs b)"
    and "\<forall>h. jobs b ! i = JobFetching h \<longrightarrow>
      (\<exists>rb rr rv. (\<forall>x. rb = Inr x \<longrightarrow> answers (i64 h) x) \<and> r \<in> set (fetchBlockByNum (fetchValidators b) h rb rr rv))"
  shows "flow_inv answers (job_step i r b)"
proof (cases "jobs b ! i")
  case JobNext
  have "flow_inv answers (b\<lparr>height := h, assigned := n\<rparr>) = flow_inv answers b" for h n by (simp add: flow_inv_def)
  with JobNext assms(1) show ?thesis by (simp add: job_step_def getHeightToFetch_def flow_inv_set_job)
next
  case (JobFetching h)
  then show ?thesis
    using assms fetched_genuine
    by (auto simp: job_step_def intro!: flow_inv_set_job split: job_action.splits) blast
next
  case (JobStore h d)
  then have "genuine answers d" using assms(1,2) nth_mem [of i "jobs b"] by (fastforce simp: flow_inv_def)
  then have "flow_inv answers (b\<lparr>newBlocksMap := AList.update h d (newBlocksMap b)\<rparr>)"
    using assms(1) set_AList_update [of h d "newBlocksMap b"] by (fastforce simp: flow_inv_def)
  with JobStore show ?thesis by (simp add: job_step_def Let_def flow_inv_set_job)
qed (use assms(1) in \<open>simp_all add: job_step_def flow_inv_set_job\<close>)

lemma announce_step_flow:
  assumes "flow_inv answers b"
  shows "flow_inv answers (announce_step b)"
proof (cases "announcer b")
  case (AnnLookup h)
  have "genuine answers ev" if "map_of (newBlocksMap b) h = Some ev" for ev
    using assms map_of_SomeD [OF that] by (auto simp: flow_inv_def)
  moreover have "set (AList.delete h (newBlocksMap b)) \<subseteq> set (newBlocksMap b)" by (auto simp: AList.delete_eq)
  ultimately show ?thesis
    using assms AnnLookup by (fastforce simp: announce_step_def flow_inv_def ann_exit_def split: option.splits)
next
  case (AnnSend h ev)
  then show ?thesis
    using assms by (auto simp: announce_step_def flow_inv_def ann_after_send_def ann_exit_def split: BlockGetterDirection.splits)
qed (use assms in \<open>simp_all add: announce_step_def flow_inv_def ann_exit_def\<close>)

lemma consumer_step_channel:
  assumes "consumer_step prefer_ctx hr b c = (b', c')"
  shows "b' = b \<or> (\<exists>d. newBlocksC b = d # newBlocksC b' \<and> b' = b\<lparr>newBlocksC := newBlocksC b'\<rparr>)"
  using assms by (auto simp: consumer_step_def split: if_splits list.splits)

lemma consumer_step_flow:
  assumes "flow_inv answers b" and "consumer_step prefer_ctx hr b c = (b', c')"
  shows "flow_inv answers b'"
proof -
  consider "b' = b" | d rest where "newBlocksC b = d # rest" "b' = b\<lparr>newBlocksC := rest\<rparr>"
    using consumer_step_channel [OF assms(2)] by metis
  then show ?thesis using assms(1) by cases (simp_all add: flow_inv_def)
qed

lemma service_step_flow:
  assumes "service_step answers handler ((b, c), w) ((b', c'), w')" and "flow_inv answers b"
  shows "flow_inv answers b'"
  using assms(1)
proof (cases rule: service_step.cases)
  case (job i r)
  then show ?thesis using job_step_flow [OF assms(2), of i r] by simp
next
  case announce
  then show ?thesis using announce_step_flow [OF assms(2)] by simp
next
  case (receive prefer_ctx)
  then show ?thesis using consumer_step_flow [OF assms(2)] by blast
next
  case (handle prefer_ctx now hr)
  then show ?thesis using consumer_step_flow [OF assms(2)] by blast
next
  case close
  have "flow_inv answers (b\<lparr>closing := True\<rparr>) = flow_inv answers b" "flow_inv answers (b\<lparr>closeC := True\<rparr>) = flow_inv answers b"
    by (simp_all add: flow_inv_def)
  then show ?thesis using close assms(2) by (simp add: close_step_def)
next
  case cancel
  then show ?thesis using assms(2) by (simp add: flow_inv_def)
qed

section \<open>A getter that stores blocks\<close>

text \<open>A getter that allows no gaps, somewhere in its run from \<open>start\<close>.\<close>

definition fetch_inv :: "(int \<Rightarrow> 'blk \<Rightarrow> bool) \<Rightarrow> int \<Rightarrow> ('blk, 'res, 'val, 'e) system \<Rightarrow> bool" where
  "fetch_inv answers start y \<longleftrightarrow>
     (case y of (b, c) \<Rightarrow>
        system_inv start (b, c) \<and> flow_inv answers b \<and> \<not> allowGaps b \<and> 0 \<le> start \<and>
        start + int (length (consumed c)) \<le> maxInt64)"

lemma fetch_inv_next:
  assumes "fetch_inv answers start (b, c)" and "newBlocksC b = d # rest"
  shows "Height d = start + int (length (consumed c))" and "\<not> Skipped d" and "genuine answers d"
proof -
  have inv: "getter_inv start b" "sent b = consumed c @ newBlocksC b" "\<not> allowGaps b" "flow_inv answers b"
    "0 \<le> start" "start + int (length (consumed c)) \<le> maxInt64"
    using assms(1) by (auto simp: fetch_inv_def system_inv_def)
  have "blocks_from False start ((consumed c @ [d]) @ rest)" using inv(1-3) assms(2) by (simp add: getter_inv_def)
  from blocks_from_prefix [OF this] have "block_at False (start + int (length (consumed c))) d" by (simp add: blocks_from_append)
  moreover have "is_i64 (start + int (length (consumed c)))" using inv(5,6) by (simp add: is_i64_def minInt64_def)
  ultimately show "Height d = start + int (length (consumed c))" "\<not> Skipped d" by (simp_all add: block_at_def)
  show "genuine answers d" using inv(4) assms(2) by (simp add: flow_inv_def)
qed

lemma fetch_inv_expected:
  assumes "fetch_inv answers start (b, c)" and "sync_pc c = Receiving \<or> sync_pc c = Returned None"
  shows "expected c = start + int (length (consumed c))" and "handled c = consumed c"
    and "sync_pc c = Returned None \<Longrightarrow> \<not> in_range c"
proof -
  have inv: "consumer_inv start c" "system_inv start (b, c)" "\<not> allowGaps b" "0 \<le> start" "start + int (length (consumed c)) \<le> maxInt64"
    using assms(1) by (auto simp: fetch_inv_def system_inv_def)
  have u: "caught_up start c" using inv(1) assms(2) by (auto simp: consumer_inv_def)
  have "is_i64 (start + int (length (consumed c)))" using inv(4,5) by (simp add: is_i64_def minInt64_def)
  then show "expected c = start + int (length (consumed c))" using u by (simp add: caught_up_def)
  have "\<forall>d\<in>set (consumed c). \<not> Skipped d"
    using blocks_from_Height(2) [OF system_inv_consumed [OF inv(2)]] inv(3) by blast
  then have "filter (\<lambda>d. \<not> Skipped d) (consumed c) = consumed c" by (simp add: filter_id_conv)
  then show "handled c = consumed c" using u by (simp add: caught_up_def)
  show "sync_pc c = Returned None \<Longrightarrow> \<not> in_range c" using inv(1) by (simp add: consumer_inv_def)
qed

lemma fetch_inv_heights:
  assumes "fetch_inv answers start (b, c)"
  shows "Height ` set (consumed c) = {start..<start + int (length (consumed c))}"
proof -
  have inv: "system_inv start (b, c)" "0 \<le> start" "start + int (length (consumed c)) \<le> maxInt64"
    using assms by (auto simp: fetch_inv_def)
  have "i64 (start + int i) = start + int i" if "i < length (consumed c)" for i
    using that inv by (intro i64_id) (simp add: is_i64_def minInt64_def)
  then have "map Height (consumed c) = [start..start + int (length (consumed c)) - 1]"
    unfolding blocks_from_Height(1) [OF system_inv_consumed [OF inv(1)]] map_upt_upto [symmetric] by simp
  then have "set (map Height (consumed c)) = {start..start + int (length (consumed c)) - 1}" by simp
  then show ?thesis by auto
qed

text \<open>What was handled is stored, unless the getter has failed.\<close>

definition stored :: "('w \<Rightarrow> int set) \<Rightarrow> ('blk, 'res, 'val, 'e) Sync \<Rightarrow> 'w \<Rightarrow> bool" where
  "stored heights c w \<longleftrightarrow>
     (sync_pc c = Receiving \<or> sync_pc c = Returned None \<longrightarrow> Height ` set (handled c) \<subseteq> heights w)"

text \<open>The contract of a block handler over a state with a set of stored heights: a call touches only
  the height of its block, and when it returns no error that height is stored.\<close>

locale block_handler =
  fixes answers :: "int \<Rightarrow> 'blk \<Rightarrow> bool"
    and handler :: "int \<Rightarrow> ('blk, 'res, 'val) NewBlockData \<Rightarrow> 'w \<Rightarrow> ('e option \<times> 'w) option"
    and heights :: "'w \<Rightarrow> int set" and state_ok :: "'w \<Rightarrow> bool"
  assumes handler_law: "\<lbrakk>state_ok w; genuine answers nb; \<not> Skipped nb; handler now nb w = Some (hr, w')\<rbrakk> \<Longrightarrow>
      state_ok w' \<and> heights w' - {Height nb} = heights w - {Height nb} \<and> (hr = None \<longrightarrow> Height nb \<in> heights w')"
    and answers_law: "answers h x \<Longrightarrow> height_ok h"
begin

lemma consumer_step_fetch_inv:
  assumes "fetch_inv answers start (b, c)" and "sync_step (b, c) (b', c')" and "flow_inv answers b'"
    and "consumed c' = consumed c \<or> (\<exists>d rest. newBlocksC b = d # rest \<and> length (consumed c') = Suc (length (consumed c)))"
  shows "fetch_inv answers start (b', c')"
proof -
  have "start + int (length (consumed c')) \<le> maxInt64"
    using assms(4)
  proof
    assume "\<exists>d rest. newBlocksC b = d # rest \<and> length (consumed c') = Suc (length (consumed c))"
    then obtain d rest where d: "newBlocksC b = d # rest" "length (consumed c') = Suc (length (consumed c))" by blast
    note n = fetch_inv_next [OF assms(1) d(1)]
    obtain x where "answers (Height d) x" using n(2,3) by (auto simp: genuine_def)
    from answers_law [OF this] show ?thesis using n(1) d(2) by (simp add: height_ok_def)
  qed (use assms(1) in \<open>simp add: fetch_inv_def\<close>)
  then show ?thesis
    using assms(1,3) sync_step_inv [OF assms(2), of start] sync_step_allowGaps [OF assms(2)] by (simp add: fetch_inv_def)
qed

lemma consumer_step_received:
  assumes "consumer_step prefer_ctx hr b c = (b', c')"
  shows "consumed c' = consumed c \<or> (\<exists>d rest. newBlocksC b = d # rest \<and> length (consumed c') = Suc (length (consumed c)))"
  using assms by (auto simp: consumer_step_def sync_block_frame split: if_splits list.splits)

lemma step_fetch_inv:
  assumes "fetch_inv answers start (b, c)" and "service_step answers handler ((b, c), w) ((b', c'), w')"
  shows "fetch_inv answers start (b', c')"
proof (rule consumer_step_fetch_inv [OF assms(1) service_sync_step [OF assms(2)]])
  show "flow_inv answers b'" using assms service_step_flow by (auto simp: fetch_inv_def)
  show "consumed c' = consumed c \<or> (\<exists>d rest. newBlocksC b = d # rest \<and> length (consumed c') = Suc (length (consumed c)))"
    using assms(2) by (cases rule: service_step.cases) (auto dest: consumer_step_received)
qed

lemma handled_block:
  assumes "fetch_inv answers start (b, c)" and "calls_handler prefer_ctx b c"
  shows "genuine answers (hd (newBlocksC b))" and "\<not> Skipped (hd (newBlocksC b))"
    and "Height (hd (newBlocksC b)) = start + int (length (consumed c))"
    and "sync_end c = Some en \<Longrightarrow> Height (hd (newBlocksC b)) \<le> en"
proof -
  obtain d rest where d: "newBlocksC b = d # rest" using assms(2) by (cases "newBlocksC b") (auto simp: calls_handler_def)
  note n = fetch_inv_next [OF assms(1) d]
  show "genuine answers (hd (newBlocksC b))" "\<not> Skipped (hd (newBlocksC b))"
    "Height (hd (newBlocksC b)) = start + int (length (consumed c))" using n d by simp_all
  show "sync_end c = Some en \<Longrightarrow> Height (hd (newBlocksC b)) \<le> en" using assms(2) by (simp add: calls_handler_def in_range_def)
qed

text \<open>A step changes nothing outside the range of the getter.\<close>

lemma step_frame:
  assumes "fetch_inv answers start (b, c)" and "state_ok w" and "service_step answers handler ((b, c), w) ((b', c'), w')"
  shows "state_ok w'" and "h < start \<or> sync_end c = Some en \<and> en < h \<Longrightarrow> h \<in> heights w' \<longleftrightarrow> h \<in> heights w"
proof -
  have "state_ok w' \<and> (h < start \<or> sync_end c = Some en \<and> en < h \<longrightarrow> (h \<in> heights w' \<longleftrightarrow> h \<in> heights w))"
    using assms(3)
  proof (cases rule: service_step.cases)
    case (handle prefer_ctx now hr)
    note b = handled_block [OF assms(1) handle(1)]
    have "state_ok w'" and e: "heights w' - {Height (hd (newBlocksC b))} = heights w - {Height (hd (newBlocksC b))}"
      using handler_law [OF assms(2) b(1,2) handle(2)] by simp_all
    moreover have "h \<noteq> Height (hd (newBlocksC b))" if "h < start \<or> sync_end c = Some en \<and> en < h"
      using that b(3) b(4) [of en] by auto
    ultimately show ?thesis by blast
  qed (use assms(2) in simp_all)
  then show "state_ok w'" "h < start \<or> sync_end c = Some en \<and> en < h \<Longrightarrow> h \<in> heights w' \<longleftrightarrow> h \<in> heights w" by blast+
qed

lemma step_stored:
  assumes "fetch_inv answers start (b, c)" and "state_ok w" and "stored heights c w"
    and "service_step answers handler ((b, c), w) ((b', c'), w')"
  shows "stored heights c' w'"
  using assms(4)
proof (cases rule: service_step.cases)
  case (receive prefer_ctx)
  have "handled c' = handled c" if "sync_pc c' = Receiving \<or> sync_pc c' = Returned None"
    using receive that by (auto simp: consumer_step_def sync_block_def sync_return_def calls_handler_def Let_def split: if_splits list.splits)
  moreover have "sync_pc c = Receiving \<or> sync_pc c = Returned None" if "sync_pc c' = Receiving \<or> sync_pc c' = Returned None"
    using receive that by (auto simp: consumer_step_def split: if_splits)
  ultimately show ?thesis using assms(3) receive(1) by (auto simp: stored_def)
next
  case (handle prefer_ctx now hr)
  note b = handled_block [OF assms(1) handle(1)]
  have r: "sync_pc c = Receiving" using handle(1) by (simp add: calls_handler_def)
  have law: "heights w' - {Height (hd (newBlocksC b))} = heights w - {Height (hd (newBlocksC b))}"
    "hr = None \<longrightarrow> Height (hd (newBlocksC b)) \<in> heights w'" using handler_law [OF assms(2) b(1,2) handle(2)] by simp_all
  have "Height ` set (handled c) = {start..<start + int (length (consumed c))}"
    using fetch_inv_expected(2) [OF assms(1)] r fetch_inv_heights [OF assms(1)] by simp
  then have old: "Height ` set (handled c) \<subseteq> heights w'" using assms(3) r law(1) b(3) by (auto simp: stored_def)
  obtain d rest where d: "newBlocksC b = d # rest" using handle(1) by (cases "newBlocksC b") (auto simp: calls_handler_def)
  then have "c' = sync_block hr d c" "Height d = expected c" "\<not> Skipped d"
    using handle(1,3) by (auto simp: consumer_step_def calls_handler_def)
  then have "hr = None \<and> handled c' = handled c @ [d] \<or> sync_pc c' = Returned (Some (HandlerErr (the hr)))"
    by (cases hr) (simp_all add: sync_block_def sync_return_def Let_def)
  then show ?thesis using old law(2) d by (auto simp: stored_def image_subset_iff)
qed (use assms(3) in simp_all)

lemma range_stored:
  assumes "fetch_inv answers start (b, c)" and "stored heights c w" and "sync_pc c = Returned None" and "sync_end c = Some en"
  shows "{start..en} \<subseteq> heights w"
proof -
  have "\<not> in_range c" "expected c = start + int (length (consumed c))" "handled c = consumed c"
    using fetch_inv_expected [OF assms(1)] assms(3) by simp_all
  then show ?thesis using assms(2-4) fetch_inv_heights [OF assms(1)] by (auto simp: stored_def in_range_def)
qed

lemma step_sync_end: "service_step answers handler ((b, c), w) ((b', c'), w') \<Longrightarrow> sync_end c' = sync_end c"
  by (erule service_step.cases) (auto dest: consumer_step_consumed)

end

section \<open>The handlers of the service\<close>

text \<open>The node answers a request for a height with the block of that height, or with a response without block.\<close>

definition node_ok :: "(int \<Rightarrow> Block option \<Rightarrow> bool) \<Rightarrow> bool" where
  "node_ok answers \<longleftrightarrow> (\<forall>h x. answers h x \<longrightarrow> height_ok h \<and> (\<forall>block. x = Some block \<longrightarrow> h_Height (b_Header block) = h))"

lemma genuine_block:
  assumes "node_ok answers" and "genuine answers nb" and "\<not> Skipped nb"
  shows "height_ok (Height nb)" and "block_of nb = Some block \<Longrightarrow> h_Height (b_Header block) = Height nb"
  using assms unfolding genuine_def node_ok_def block_of_def by force+

lemma World_simps [simp]:
  "w_db (publish_tip s publishTip h w) = w_db w" "w_status (publish_tip s publishTip h w) = w_status w"
  "w_db (with_status f w) = w_db w" "w_status (with_status f w) = map_option f (w_status w)"
  by (simp_all add: publish_tip_def with_status_def split: option.split sum.split)

text \<open>What a handler does to the heights: the block is indexed, or removed, or the clean-up fails too.\<close>

context indexer_store
begin

lemma index_heights:
  assumes "indexBlockWithStats kv d block br = Inr (d', n)" and "store_layout (kvmap d)" and "height_ok (h_Height (b_Header block))"
  shows "store_layout (kvmap d') \<and> meta_heights (kvmap d') = insert (h_Height (b_Header block)) (meta_heights (kvmap d))"
  using indexBlock_effect [OF assms(2,3,1)] by blast

lemma cleanup_heights:
  assumes "cleanupFailedBlock (KVTxIndexer kv) d h = Inr d'" and "store_layout (kvmap d)" and "height_ok h"
  shows "store_layout (kvmap d') \<and> meta_heights (kvmap d') = meta_heights (kvmap d) - {h}"
proof -
  have "DeleteBlock kv d h = Inr d'" using assms(1) by (auto simp: cleanupFailedBlock_def KVTxIndexer_def result_simps)
  from DeleteBlock_effect [OF indexer_store_axioms assms(2,3) this] show ?thesis by blast
qed

lemma handleSyncedBlock_effect:
  assumes "handleSyncedBlock s (KVTxIndexer kv) publishTip now nb w = Some (hr, w')" and "node_ok answers"
    and "genuine answers nb" and "\<not> Skipped nb" and "store_layout (kvmap (w_db w))"
  shows "store_layout (kvmap (w_db w')) \<and>
    (hr = None \<and> meta_heights (kvmap (w_db w')) = insert (Height nb) (meta_heights (kvmap (w_db w))) \<or>
     (hr = None \<longrightarrow> AllowGaps s) \<and> meta_heights (kvmap (w_db w')) = meta_heights (kvmap (w_db w)) - {Height nb} \<or>
     hr \<noteq> None \<and> w_db w' = w_db w)"
proof -
  note b = genuine_block [OF assms(2-4)]
  obtain r where r: "indexBlock (KVTxIndexer kv) (w_db w) (block_of nb) (BlockResults nb) = Some r"
    by (simp add: indexBlock_def KVTxIndexer_def)
  show ?thesis
  proof (cases r)
    case (Inr d')
    with r obtain block n where n: "block_of nb = Some block" "indexBlockWithStats kv (w_db w) block (BlockResults nb) = Inr (d', n)"
      by (auto simp: indexBlock_def KVTxIndexer_def IndexBlockWithResults_def recovering_def result_simps split: option.splits)
    note i = index_heights [OF n(2) assms(5), unfolded b(2) [OF n(1)], OF b(1)]
    have "hr = None" "w_db w' = d'" using assms(1,4) r Inr by (auto simp: handleSyncedBlock_def)
    then show ?thesis using i by simp
  next
    case (Inl err)
    show ?thesis
    proof (cases "cleanupFailedBlock (KVTxIndexer kv) (w_db w) (Height nb)")
      case (Inl ce)
      then show ?thesis using assms(1,4,5) r \<open>r = Inl err\<close> by (auto simp: handleSyncedBlock_def joinErrors_def)
    next
      case (Inr d')
      note i = cleanup_heights [OF this assms(5) b(1)]
      have "hr = None \<longrightarrow> AllowGaps s" "w_db w' = d'"
        using assms(1,4) r Inr \<open>r = Inl err\<close> by (auto simp: handleSyncedBlock_def Let_def split: if_splits)
      then show ?thesis using i by simp
    qed
  qed
qed

lemma resync_handler_effect:
  assumes "resync_handler (KVTxIndexer kv) now nb (d, st) = Some (hr, d', st')" and "node_ok answers"
    and "genuine answers nb" and "\<not> Skipped nb" and "store_layout (kvmap d)"
  shows "store_layout (kvmap d') \<and>
    (hr = None \<and> meta_heights (kvmap d') = insert (Height nb) (meta_heights (kvmap d)) \<and> BlocksSynced st' = i64 (BlocksSynced st + 1) \<or>
     hr \<noteq> None \<and> st' = st \<and> (meta_heights (kvmap d') = meta_heights (kvmap d) - {Height nb} \<or> d' = d))"
proof -
  note b = genuine_block [OF assms(2-4)]
  obtain r where r: "indexBlockForResync (KVTxIndexer kv) d (block_of nb) (BlockResults nb) = Some r"
    by (simp add: indexBlockForResync_def KVTxIndexer_def)
  show ?thesis
  proof (cases r)
    case (Inr dn)
    with r obtain block d1 n where dn: "dn = (d1, n)" "indexBlockWithStats kv d block (BlockResults nb) = Inr (d1, n)" "block_of nb = Some block"
      by (cases dn) (auto simp: indexBlockForResync_def KVTxIndexer_def IndexBlockWithStatsAndResults_def recovering_def split: option.splits)
    note i = index_heights [OF dn(2) assms(5), unfolded b(2) [OF dn(3)], OF b(1)]
    have "hr = None" "d' = d1" "BlocksSynced st' = i64 (BlocksSynced st + 1)" using assms(1,4) r Inr dn(1) by (auto simp: resync_handler_def)
    then show ?thesis using i by simp
  next
    case (Inl err)
    show ?thesis
    proof (cases "cleanupFailedBlock (KVTxIndexer kv) d (Height nb)")
      case (Inl ce)
      then show ?thesis using assms(1,4,5) r \<open>r = Inl err\<close> by (auto simp: resync_handler_def joinErrors_def)
    next
      case (Inr d1)
      note i = cleanup_heights [OF this assms(5) b(1)]
      have "hr \<noteq> None" "d' = d1" "st' = st"
        using assms(1,4) r Inr \<open>r = Inl err\<close> by (auto simp: resync_handler_def)
      then show ?thesis using i by simp
    qed
  qed
qed

end

locale sync_node = indexer_store kv kvmap bops
  for kv :: "('d, 'b) KVIndexer" and kvmap :: "'d \<Rightarrow> bytes \<rightharpoonup> bytes" and bops :: "'b \<Rightarrow> (bytes \<times> bytes option) list" +
  fixes answers :: "int \<Rightarrow> Block option \<Rightarrow> bool"
  assumes node: "node_ok answers"

sublocale sync_node \<subseteq> resync: block_handler answers "resync_handler (KVTxIndexer kv)"
  "\<lambda>(d, st). meta_heights (kvmap d)" "\<lambda>(d, st). store_layout (kvmap d)"
proof
  fix w :: "'d \<times> ResyncStats" and nb :: "'val Fetched" and now hr w'
  assume a: "case w of (d, st) \<Rightarrow> store_layout (kvmap d)" "genuine answers nb" "\<not> Skipped nb" "resync_handler (KVTxIndexer kv) now nb w = Some (hr, w')"
  obtain d st d' st' where w: "w = (d, st)" "w' = (d', st')" by (cases w, cases w') auto
  from resync_handler_effect [OF a(4) [unfolded w] node a(2,3)] a(1) w show
    "(case w' of (d, st) \<Rightarrow> store_layout (kvmap d)) \<and>
      (case w' of (d, st) \<Rightarrow> meta_heights (kvmap d)) - {Height nb} = (case w of (d, st) \<Rightarrow> meta_heights (kvmap d)) - {Height nb} \<and>
      (hr = None \<longrightarrow> Height nb \<in> (case w' of (d, st) \<Rightarrow> meta_heights (kvmap d)))" by auto
qed (use node in \<open>auto simp: node_ok_def\<close>)

text \<open>A service that does not allow gaps.\<close>

locale strict_sync = sync_node kv kvmap bops answers
  for kv :: "('d, 'b) KVIndexer" and kvmap bops answers +
  fixes s :: "('d, 'b, 'p) Syncer"
  assumes strict: "\<not> AllowGaps s"
begin

lemma strict_handler:
  assumes "store_layout (kvmap (w_db w))" and "genuine answers nb" and "\<not> Skipped nb"
    and "handleSyncedBlock s (KVTxIndexer kv) publishTip now nb w = Some (hr, w')"
  shows "store_layout (kvmap (w_db w')) \<and> meta_heights (kvmap (w_db w')) - {Height nb} = meta_heights (kvmap (w_db w)) - {Height nb} \<and>
    (hr = None \<longrightarrow> Height nb \<in> meta_heights (kvmap (w_db w')))"
  using handleSyncedBlock_effect [OF assms(4) node assms(2,3,1)] strict by auto

end

sublocale strict_sync \<subseteq> gaps: block_handler answers "handleSyncedBlock s (KVTxIndexer kv) False"
  "\<lambda>w. meta_heights (kvmap (w_db w))" "\<lambda>w. store_layout (kvmap (w_db w))"
  by unfold_locales (rule strict_handler, assumption+, use node in \<open>auto simp: node_ok_def\<close>)

sublocale strict_sync \<subseteq> tip: block_handler answers "handleSyncedBlock s (KVTxIndexer kv) True"
  "\<lambda>w. meta_heights (kvmap (w_db w))" "\<lambda>w. store_layout (kvmap (w_db w))"
  by unfold_locales (rule strict_handler, assumption+, use node in \<open>auto simp: node_ok_def\<close>)

end
