(* ===== verification/Sync_Complete.thy ===== *)
theory Sync_Complete
  imports Sync_Runs
begin

text \<open>
  The gap queue and the forward queue of the sync service on the shared store and tracker. The
  invariant holds in every interleaving of the two queues and their goroutines; it says which gaps
  are closed and that the tracker counts them.
\<close>

section \<open>The tracker during a run\<close>

definition gaps_left :: "Tracker \<Rightarrow> int \<times> string option" where
  "gaps_left t = (gapsRemaining t, map_option Type (currentSegment t))"

lemma gaps_left_simps [simp]:
  "gaps_left (MarkBlock now h indexed t) = gaps_left t" "gaps_left (SetPhase now p t) = gaps_left t"
  "gaps_left (StartSegment now kind start e t) = (gapsRemaining t, Some kind)"
  by (cases "currentSegment t"; simp add: gaps_left_def MarkBlock_def SetPhase_def StartSegment_def)+

lemma handler_gaps_left:
  fixes w :: "('d, 'p) World"
  assumes "handleSyncedBlock s ti publishTip now nb w = Some (hr, w')"
  shows "map_option gaps_left (w_status w') = map_option gaps_left (w_status w)"
proof -
  have m: "map_option gaps_left (w_status (with_status (MarkBlock now h i) x)) = map_option gaps_left (w_status x)"
    for h i and x :: "('d, 'p) World" by (simp add: option.map_comp comp_def)
  show ?thesis
    using assms unfolding handleSyncedBlock_def Let_def
    by (simp del: World_simps(4) add: m split: if_split_asm option.split_asm sum.split_asm)
      (auto simp del: World_simps(4) simp: m)
qed

lemma step_gaps_left:
  assumes "service_step answers (handleSyncedBlock s ti publishTip) (y, w) (y', w')"
  shows "map_option gaps_left (w_status w') = map_option gaps_left (w_status w)"
  using assms by (cases rule: service_step.cases) (auto dest: handler_gaps_left)

section \<open>Invariants of the queues\<close>

definition gaps_ok :: "BlockRange list \<Rightarrow> bool" where
  "gaps_ok gaps \<longleftrightarrow> normal_ranges gaps \<and> (\<forall>g\<in>set gaps. 0 \<le> Start g \<and> End g < maxInt64)"

definition queue_inv :: "(int \<Rightarrow> Block option \<Rightarrow> bool) \<Rightarrow> BlockRange list \<Rightarrow> 'val GapQueue \<Rightarrow> bool" where
  "queue_inv answers gaps q \<longleftrightarrow>
     (\<exists>seen. gaps = seen @ (case gq_current q of Some (g, y) \<Rightarrow> [g] | None \<Rightarrow> []) @ gq_todo q \<and> set (gq_done q) \<subseteq> set seen) \<and>
     distinct (gq_done q) \<and> (gq_result q \<noteq> None \<longrightarrow> gq_current q = None) \<and>
     (\<forall>g b c. gq_current q = Some (g, (b, c)) \<longrightarrow> fetch_inv answers (Start g) (b, c) \<and> sync_end c = Some (End g) \<and>
        Start g + int (length (consumed c)) \<le> End g + 1)"

definition queue_stored :: "('w \<Rightarrow> int set) \<Rightarrow> 'val GapQueue \<Rightarrow> 'w \<Rightarrow> bool" where
  "queue_stored heights q w \<longleftrightarrow>
     (\<forall>g\<in>set (gq_done q). {Start g..End g} \<subseteq> heights w) \<and>
     (\<forall>g b c. gq_current q = Some (g, (b, c)) \<longrightarrow> stored heights c w)"

definition queue_status :: "BlockRange list \<Rightarrow> bool \<Rightarrow> 'val GapQueue \<Rightarrow> ('d, 'p) World \<Rightarrow> bool" where
  "queue_status gaps par q w \<longleftrightarrow>
     (\<forall>n k. map_option gaps_left (w_status w) = Some (n, k) \<longrightarrow>
        n = int (length gaps) - int (length (gq_done q)) \<and> (\<not> par \<and> gq_current q \<noteq> None \<longrightarrow> k = Some ''gap''))"

lemma normal_distinct: "normal_ranges gaps \<Longrightarrow> distinct gaps"
proof (induction gaps)
  case (Cons g gaps)
  then have "normal_ranges gaps" "\<forall>r\<in>set gaps. End g + 1 < Start r" "Start g \<le> End g" by (simp_all add: normal_ranges_def)
  then show ?case using Cons.IH by force
qed simp

lemma queue_disjoint:
  assumes "gaps_ok gaps" and "queue_inv answers gaps q" and "gq_current q = Some (g, y)" and "g' \<in> set (gq_done q)"
  shows "End g' < Start g"
proof -
  from assms(2,3) obtain seen where "gaps = seen @ [g] @ gq_todo q" "set (gq_done q) \<subseteq> set seen" by (auto simp: queue_inv_def)
  then show ?thesis using assms(1,4) by (fastforce simp: gaps_ok_def normal_ranges_def sorted_wrt_append)
qed

lemma queue_mem:
  assumes "queue_inv answers gaps q"
  shows "set (gq_todo q) \<subseteq> set gaps" and "gq_current q = Some (g, y) \<Longrightarrow> g \<in> set gaps" and "set (gq_done q) \<subseteq> set gaps"
  using assms by (auto simp: queue_inv_def)

lemma SyncRange_fetch_inv:
  assumes "0 \<le> start" and "start \<le> en" and "en < maxInt64"
  shows "fetch_inv answers start (SyncRange n start en False vals)" and "sync_end (snd (SyncRange n start en False vals)) = Some en"
    and "handled (snd (SyncRange n start en False vals)) = []"
proof -
  have i: "is_i64 start" using assms by (simp add: is_i64_def minInt64_def)
  show "fetch_inv answers start (SyncRange n start en False vals)"
    using SyncRange_init [OF i, of n en False vals] assms
    by (auto simp: fetch_inv_def SyncRange_def start_sync_def newBlockGetter_def flow_inv_def Let_def)
  show "sync_end (snd (SyncRange n start en False vals)) = Some en" "handled (snd (SyncRange n start en False vals)) = []"
    using assms by (simp_all add: SyncRange_def start_sync_def Let_def)
qed

lemma SyncForward_fetch_inv:
  assumes "0 \<le> start" and "start \<le> maxInt64"
  shows "fetch_inv answers start (SyncForward n start vals)"
proof -
  have i: "is_i64 start" using assms by (simp add: is_i64_def minInt64_def)
  show ?thesis
    using SyncForward_init [OF i, of n vals] assms
    by (auto simp: fetch_inv_def SyncForward_def start_sync_def newBlockGetter_def flow_inv_def Let_def)
qed

text \<open>The heights of the current gap are those of its getter; the heights of a finished gap stay.\<close>

lemma stored_mono:
  assumes "stored heights c w" and "fetch_inv answers start (b, c)"
    and "\<And>h. start \<le> h \<Longrightarrow> h \<le> en \<Longrightarrow> h \<in> heights w \<Longrightarrow> h \<in> heights w'" and "start + int (length (consumed c)) \<le> en + 1"
  shows "stored heights c w'"
  unfolding stored_def
proof
  assume r: "sync_pc c = Receiving \<or> sync_pc c = Returned None"
  have "Height ` set (handled c) = {start..<start + int (length (consumed c))}"
    using fetch_inv_expected(2) [OF assms(2) r] fetch_inv_heights [OF assms(2)] by simp
  moreover have "Height ` set (handled c) \<subseteq> heights w" using assms(1) r unfolding stored_def by blast
  ultimately show "Height ` set (handled c) \<subseteq> heights w'" using assms(3,4) by auto
qed

abbreviation heights_in :: "('d \<Rightarrow> bytes \<rightharpoonup> bytes) \<Rightarrow> ('d, 'p) World \<Rightarrow> int set" where
  "heights_in kvmap w \<equiv> meta_heights (kvmap (w_db w))"

definition gaps_inv ::
  "('d \<Rightarrow> bytes \<rightharpoonup> bytes) \<Rightarrow> (int \<Rightarrow> Block option \<Rightarrow> bool) \<Rightarrow> BlockRange list \<Rightarrow> bool \<Rightarrow> 'val GapQueue \<Rightarrow> ('d, 'p) World \<Rightarrow> bool" where
  "gaps_inv kvmap answers gaps par q w \<longleftrightarrow>
     queue_inv answers gaps q \<and> store_layout (kvmap (w_db w)) \<and> queue_stored (heights_in kvmap) q w \<and> queue_status gaps par q w"

text \<open>A gap that ends is counted by the tracker, in both modes.\<close>

lemma gaps_left_complete:
  "gaps_left (CompleteGap now start e t) = (if gapsRemaining t > 0 then gapsRemaining t - 1 else gapsRemaining t, map_option Type (currentSegment t))"
  "map_option Type (currentSegment t) = Some ''gap'' \<Longrightarrow>
    fst (gaps_left (CompleteCurrentSegment now t)) = (if gapsRemaining t > 0 then gapsRemaining t - 1 else gapsRemaining t)"
  by (auto simp: gaps_left_def CompleteGap_def CompleteCurrentSegment_def dec_gaps_def Let_def split: option.splits)

lemma queue_status_complete:
  assumes "queue_status gaps par q w" and "gq_current q \<noteq> None" and "length (gq_done q) < length gaps"
  shows "queue_status gaps par (q\<lparr>gq_current := None, gq_done := gq_done q @ [g]\<rparr>)
    (with_status (if par then CompleteGap now (Start g) (End g) else CompleteCurrentSegment now) w)"
proof (cases "w_status w")
  case (Some t)
  have "gapsRemaining t = int (length gaps) - int (length (gq_done q))" "\<not> par \<longrightarrow> map_option Type (currentSegment t) = Some ''gap''"
    using assms(1,2) Some by (auto simp: queue_status_def gaps_left_def)
  then show ?thesis
    using assms(3) Some gaps_left_complete(1) [of now "Start g" "End g" t] gaps_left_complete(2) [of t now]
    by (cases par) (auto simp: queue_status_def)
qed (simp add: queue_status_def)

lemma queue_done_length:
  assumes "gaps_ok gaps" and "queue_inv answers gaps q" and "gq_current q = Some (g, y)"
  shows "g \<notin> set (gq_done q)" and "length (gq_done q) < length gaps"
proof -
  from assms(2,3) obtain seen where s: "gaps = seen @ [g] @ gq_todo q" "set (gq_done q) \<subseteq> set seen" "distinct (gq_done q)"
    by (auto simp: queue_inv_def)
  have "distinct gaps" using assms(1) normal_distinct by (auto simp: gaps_ok_def)
  then show "g \<notin> set (gq_done q)" using s by auto
  have "length (gq_done q) \<le> card (set seen)" using s(2,3) by (metis card_mono distinct_card finite_set)
  also have "\<dots> \<le> length seen" by (rule card_length)
  finally show "length (gq_done q) < length gaps" using s(1) by simp
qed

context strict_sync
begin

lemma next_gap_inv:
  fixes q :: "'val GapQueue"
  assumes "gaps_ok gaps" and "gaps_inv kvmap answers gaps par q w" and "gq_result q = None" and "gq_current q = None" and "gq_todo q = gap # rest"
  shows "gaps_inv kvmap answers gaps par
    (q\<lparr>gq_todo := rest, gq_current := Some (gap, SyncRange (FetchJobs s) (Start gap) (End gap) (AllowGaps s) False)\<rparr>)
    (if par then w else with_status (StartSegment now ''gap'' (Start gap) (Some (End gap))) w)"
proof -
  have "gap \<in> set gaps" using queue_mem(1) [of answers gaps q] assms(2,5) by (auto simp: gaps_inv_def)
  then have g: "0 \<le> Start gap" "Start gap \<le> End gap" "End gap < maxInt64" using assms(1) by (auto simp: gaps_ok_def normal_ranges_def)
  obtain b c where y: "(SyncRange (FetchJobs s) (Start gap) (End gap) False False :: 'val Fetching) = (b, c)" by force
  have f: "fetch_inv answers (Start gap) (b, c)" "sync_end c = Some (End gap)" "handled c = []" "consumed c = []"
    using SyncRange_fetch_inv(1) [OF g, where answers = answers and n = "FetchJobs s" and vals = False] y g
    by (metis, auto simp: SyncRange_def start_sync_def Let_def)
  show ?thesis
    using assms(2-5) f strict g
    by (auto simp: gaps_inv_def queue_inv_def queue_stored_def queue_status_def stored_def y gaps_left_def StartSegment_def)
qed

lemma fetch_gap_inv:
  assumes "gaps_ok gaps" and "gaps_inv kvmap answers gaps par q w" and "gq_current q = Some (gap, y)"
    and "service_step answers (handleSyncedBlock s (KVTxIndexer kv) False) (y, w) (y', w')"
  shows "gaps_inv kvmap answers gaps par (q\<lparr>gq_current := Some (gap, y')\<rparr>) w'"
    and "h < Start gap \<or> End gap < h \<Longrightarrow> h \<in> heights_in kvmap w' \<longleftrightarrow> h \<in> heights_in kvmap w"
proof -
  obtain b c b' c' where y: "y = (b, c)" "y' = (b', c')" by (cases y, cases y') auto
  note st = assms(4) [unfolded y]
  have q: "queue_inv answers gaps q" "store_layout (kvmap (w_db w))" "queue_stored (heights_in kvmap) q w" "queue_status gaps par q w"
    using assms(2) by (simp_all add: gaps_inv_def)
  then have f: "fetch_inv answers (Start gap) (b, c)" "sync_end c = Some (End gap)" "Start gap + int (length (consumed c)) \<le> End gap + 1"
    "stored (heights_in kvmap) c w" using assms(3) y by (auto simp: queue_inv_def queue_stored_def)
  have gap: "0 \<le> Start gap" "End gap < maxInt64" using queue_mem(2) [OF q(1) assms(3)] assms(1) by (auto simp: gaps_ok_def)
  note fr = gaps.step_frame [OF f(1) q(2) st]
  show frame: "h \<in> heights_in kvmap w' \<longleftrightarrow> h \<in> heights_in kvmap w" if "h < Start gap \<or> End gap < h" for h
    using fr(2) [of h "End gap"] that f(2) by blast
  have "{Start g..End g} \<subseteq> heights_in kvmap w'" if "g \<in> set (gq_done q)" for g
    using queue_disjoint [OF assms(1) q(1) assms(3) that] frame q(3) that by (fastforce simp: queue_stored_def)
  moreover have "stored (heights_in kvmap) c' w'" by (rule gaps.step_stored [OF f(1) q(2) f(4) st])
  ultimately have "queue_stored (heights_in kvmap) (q\<lparr>gq_current := Some (gap, y')\<rparr>) w'" by (simp add: queue_stored_def y)
  moreover have "fetch_inv answers (Start gap) (b', c')" "sync_end c' = Some (End gap)" "Start gap + int (length (consumed c')) \<le> End gap + 1"
    using gaps.step_fetch_inv [OF f(1) st] gaps.step_sync_end [OF st] f
      sync_step_bound [OF service_sync_step [OF st], of "Start gap" "End gap"] gap by (auto simp: fetch_inv_def)
  then have "queue_inv answers gaps (q\<lparr>gq_current := Some (gap, y')\<rparr>)" using q(1) assms(3) y by (auto simp: queue_inv_def)
  moreover have "queue_status gaps par (q\<lparr>gq_current := Some (gap, y')\<rparr>) w'"
    using q(4) step_gaps_left [OF assms(4)] assms(3) by (simp add: queue_status_def)
  ultimately show "gaps_inv kvmap answers gaps par (q\<lparr>gq_current := Some (gap, y')\<rparr>) w'" using fr(1) by (simp add: gaps_inv_def)
qed

lemma gap_returned_inv:
  fixes q :: "'val GapQueue" and w :: "('d, 'p) World"
  assumes "gaps_ok gaps" and "gaps_inv kvmap answers gaps par q w" and "gq_current q = Some (gap, (b, c))" and "sync_pc c = Returned r"
    and "gap_returned par now gap r q w = (q', w')"
  shows "gaps_inv kvmap answers gaps par q' w'" and "w_db w' = w_db w"
proof -
  have q: "queue_inv answers gaps q" "store_layout (kvmap (w_db w))" "queue_stored (heights_in kvmap) q w" "queue_status gaps par q w"
    using assms(2) by (simp_all add: gaps_inv_def)
  then have f: "fetch_inv answers (Start gap) (b, c)" "sync_end c = Some (End gap)" "stored (heights_in kvmap) c w"
    using assms(3) by (auto simp: queue_inv_def queue_stored_def)
  from q(1) assms(3) obtain seen where seen: "gaps = (seen @ [gap]) @ gq_todo q" "set (gq_done q) \<subseteq> set seen" "distinct (gq_done q)"
    by (auto simp: queue_inv_def)
  note dl = queue_done_length [OF assms(1) q(1) assms(3)]
  show "w_db w' = w_db w" using assms(5) by (auto simp: gap_returned_def split: option.splits if_splits)
  show "gaps_inv kvmap answers gaps par q' w'"
  proof (cases r)
    case None
    then have e: "q' = q\<lparr>gq_current := None, gq_done := gq_done q @ [gap]\<rparr>"
      "w' = with_status (if par then CompleteGap now (Start gap) (End gap) else CompleteCurrentSegment now) w"
      using assms(5) by (simp_all add: gap_returned_def)
    have "{Start gap..End gap} \<subseteq> heights_in kvmap w" using gaps.range_stored [OF f(1,3) _ f(2)] assms(4) None by simp
    moreover have "queue_inv answers gaps q'" unfolding queue_inv_def e
      using seen dl(1) by (auto intro!: exI [of _ "seen @ [gap]"])
    moreover have "queue_status gaps par q' w'" unfolding e using queue_status_complete [OF q(4) _ dl(2)] assms(3) by simp
    ultimately show ?thesis using q by (auto simp: gaps_inv_def queue_stored_def e)
  next
    case (Some err)
    then have e: "w' = w" "gq_current q' = None" "gq_todo q' = gq_todo q" "gq_done q' = gq_done q"
      using assms(5) by (auto simp: gap_returned_def split: if_splits)
    have "queue_inv answers gaps q'" unfolding queue_inv_def e using seen by (auto intro!: exI [of _ "seen @ [gap]"])
    then show ?thesis using q by (auto simp: gaps_inv_def queue_stored_def queue_status_def e)
  qed
qed

lemma gap_step_inv:
  assumes "gaps_ok gaps" and "gaps_inv kvmap answers gaps par q w" and "gap_step s (KVTxIndexer kv) answers par (q, w) (q', w')"
  shows "gaps_inv kvmap answers gaps par q' w'" and "h \<notin> covered gaps \<Longrightarrow> h \<in> heights_in kvmap w' \<longleftrightarrow> h \<in> heights_in kvmap w"
proof -
  have "gaps_inv kvmap answers gaps par q' w' \<and> (h \<notin> covered gaps \<longrightarrow> (h \<in> heights_in kvmap w' \<longleftrightarrow> h \<in> heights_in kvmap w))"
    using assms(3)
  proof (cases rule: gap_step.cases)
    case (next_gap gap rest now)
    then show ?thesis using next_gap_inv [OF assms(1,2) next_gap(3-5), of now] by simp
  next
    case (fetch gap y y')
    have "gap \<in> set gaps" using queue_mem(2) [OF _ fetch(2), of answers gaps] assms(2) by (simp add: gaps_inv_def)
    then have "h < Start gap \<or> End gap < h" if "h \<notin> covered gaps" using that by (force simp: covered_def)
    then show ?thesis using fetch_gap_inv [OF assms(1,2) fetch(2,3)] fetch(1) by simp
  next
    case (returned gap b c r now)
    then show ?thesis using gap_returned_inv [OF assms(1,2) returned(2,3) returned(1) [symmetric]] by simp
  next
    case finished
    then show ?thesis using assms(2) by (simp add: gaps_inv_def queue_inv_def queue_stored_def queue_status_def)
  qed
  then show "gaps_inv kvmap answers gaps par q' w'" "h \<notin> covered gaps \<Longrightarrow> h \<in> heights_in kvmap w' \<longleftrightarrow> h \<in> heights_in kvmap w" by blast+
qed

text \<open>A change of the world that keeps the heights of the gaps and the counters of the tracker.\<close>

lemma gaps_inv_frame:
  fixes w w' :: "('d, 'p) World" and q :: "'val GapQueue"
  assumes "gaps_inv kvmap answers gaps par q w" and "store_layout (kvmap (w_db w'))"
    and same: "\<And>h. h \<in> covered gaps \<Longrightarrow> h \<in> heights_in kvmap w' \<longleftrightarrow> h \<in> heights_in kvmap w"
    and "queue_status gaps par q w'"
  shows "gaps_inv kvmap answers gaps par q w'"
proof -
  have q: "queue_inv answers gaps q" "queue_stored (heights_in kvmap) q w" using assms(1) by (simp_all add: gaps_inv_def)
  have "{Start g..End g} \<subseteq> heights_in kvmap w'" if "g \<in> set (gq_done q)" for g
  proof
    fix h
    assume h: "h \<in> {Start g..End g}"
    have "h \<in> covered gaps" using queue_mem(3) [OF q(1)] that h by (auto simp: covered_def)
    moreover have "h \<in> heights_in kvmap w" using q(2) that h unfolding queue_stored_def by blast
    ultimately show "h \<in> heights_in kvmap w'" using same by blast
  qed
  moreover have "stored (heights_in kvmap) c w'" if c: "gq_current q = Some (g, (b, c))" for g b c
  proof (rule stored_mono)
    show "stored (heights_in kvmap) c w" "fetch_inv answers (Start g) (b, c)" "Start g + int (length (consumed c)) \<le> End g + 1"
      using q c by (auto simp: queue_stored_def queue_inv_def)
    show "h \<in> heights_in kvmap w'" if "Start g \<le> h" "h \<le> End g" "h \<in> heights_in kvmap w" for h
      using that same [of h] queue_mem(2) [OF q(1) c] by (auto simp: covered_def)
  qed
  ultimately show ?thesis using assms(2,4) q(1) by (simp add: gaps_inv_def queue_stored_def)
qed

end

section \<open>Both queues\<close>

definition service_inv ::
  "('d \<Rightarrow> bytes \<rightharpoonup> bytes) \<Rightarrow> (int \<Rightarrow> Block option \<Rightarrow> bool) \<Rightarrow> BlockRange list \<Rightarrow> int \<Rightarrow> int set \<Rightarrow> bool \<Rightarrow> 'val RunState \<times> ('d, 'p) World \<Rightarrow> bool" where
  "service_inv kvmap answers gaps head base par rw \<longleftrightarrow>
     (case rw of (r, w) \<Rightarrow>
        gaps_inv kvmap answers gaps par (rs_gaps r) w \<and> base \<subseteq> heights_in kvmap w \<and>
        (\<forall>t. rs_tip r = Some t \<longrightarrow> fetch_inv answers (head + 1) (tq_sys t) \<and> (par \<or> gq_result (rs_gaps r) \<noteq> None)))"

lemma queue_status_same:
  assumes "queue_status gaps par q w" and "map_option gaps_left (w_status w') = map_option gaps_left (w_status w)"
  shows "queue_status gaps par q w'"
  using assms by (simp add: queue_status_def)

lemma tip_returned_frame:
  "w_db (snd (tip_returned now r t w)) = w_db w" "tq_sys (fst (tip_returned now r t w)) = tq_sys t"
  "map_option gaps_left (w_status (snd (tip_returned now r t w))) = map_option gaps_left (w_status w)"
  by (simp_all add: tip_returned_def option.map_comp comp_def split: option.split)

context strict_sync
begin

lemma tip_step_inv:
  assumes "gaps_inv kvmap answers gaps par q w" and "covered gaps \<subseteq> {..head}" and "fetch_inv answers (head + 1) (tq_sys t)"
    and "tip_step s (KVTxIndexer kv) answers (t, w) (t', w')"
  shows "gaps_inv kvmap answers gaps par q w' \<and> fetch_inv answers (head + 1) (tq_sys t') \<and>
    (\<forall>h\<le>head. h \<in> heights_in kvmap w' \<longleftrightarrow> h \<in> heights_in kvmap w)"
  using assms(4)
proof (cases rule: tip_step.cases)
  case (fetch y')
  obtain b c b' c' where y: "tq_sys t = (b, c)" "y' = (b', c')" by (cases "tq_sys t", cases y') auto
  have l: "store_layout (kvmap (w_db w))" "queue_status gaps par q w" using assms(1) by (simp_all add: gaps_inv_def)
  note st = fetch(3) [unfolded y] and f = assms(3) [unfolded y]
  note fr = tip.step_frame [OF f l(1) st]
  have same: "h \<in> heights_in kvmap w' \<longleftrightarrow> h \<in> heights_in kvmap w" if "h \<le> head" for h using fr(2) [of h] that by simp
  have "gaps_inv kvmap answers gaps par q w'"
    using same assms(2) by (intro gaps_inv_frame [OF assms(1) fr(1)] queue_status_same [OF l(2) step_gaps_left [OF fetch(3)]]) auto
  then show ?thesis using same tip.step_fetch_inv [OF f st] fetch(1) y by simp
next
  case (returned r now)
  have e: "w' = snd (tip_returned now r t w)" "t' = fst (tip_returned now r t w)" using returned(1) by (metis snd_conv, metis fst_conv)
  have "store_layout (kvmap (w_db w'))" "queue_status gaps par q w'"
    using assms(1) queue_status_same [of gaps par q w w'] by (simp_all add: gaps_inv_def e tip_returned_frame)
  moreover have "heights_in kvmap w' = heights_in kvmap w" by (simp add: e tip_returned_frame)
  ultimately have "gaps_inv kvmap answers gaps par q w'" by (intro gaps_inv_frame [OF assms(1)]) simp_all
  then show ?thesis using assms(3) by (simp add: e tip_returned_frame)
qed

lemma run_step_inv:
  assumes "gaps_ok gaps" and "covered gaps \<subseteq> {..head}" and "base \<subseteq> {..head}" and "base \<inter> covered gaps = {}" and "0 \<le> head" and "head < maxInt64"
    and "service_inv kvmap answers gaps head base par (r, w)" and "run_step s (KVTxIndexer kv) answers head par (r, w) (r', w')"
  shows "service_inv kvmap answers gaps head base par (r', w')"
  using assms(8)
proof (cases rule: run_step.cases)
  case (gap q)
  have i: "gaps_inv kvmap answers gaps par (rs_gaps r) w" "base \<subseteq> heights_in kvmap w" using assms(7) by (simp_all add: service_inv_def)
  have "par \<or> gq_result q \<noteq> None" if "par \<or> gq_result (rs_gaps r) \<noteq> None"
    using gap(3) that i(1) by (cases rule: gap_step.cases) (auto simp: gaps_inv_def queue_inv_def)
  moreover have "base \<subseteq> heights_in kvmap w'" using gap_step_inv(2) [OF assms(1) i(1) gap(3)] i(2) assms(4) by blast
  ultimately show ?thesis using gap_step_inv(1) [OF assms(1) i(1) gap(3)] assms(7) gap(1) by (auto simp: service_inv_def)
next
  case (tip t t')
  have i: "gaps_inv kvmap answers gaps par (rs_gaps r) w" "base \<subseteq> heights_in kvmap w" "fetch_inv answers (head + 1) (tq_sys t)"
    "par \<or> gq_result (rs_gaps r) \<noteq> None" using assms(7) tip(3) by (simp_all add: service_inv_def)
  note st = tip_step_inv [OF i(1) assms(2) i(3) tip(4)]
  then have "base \<subseteq> heights_in kvmap w'" using i(2) assms(3) by blast
  then show ?thesis using st i(4) tip(1) by (simp add: service_inv_def)
next
  case (follow now t)
  have i: "gaps_inv kvmap answers gaps par (rs_gaps r) w" "base \<subseteq> heights_in kvmap w" using assms(7) by (simp_all add: service_inv_def)
  have "i64 (head + 1) = head + 1" using assms(5,6) by (intro i64_id) (simp add: is_i64_def minInt64_def)
  then have t: "tq_sys t = SyncForward (FetchJobs s) (head + 1) False"
    "w' = with_status (StartSegment now ''forward'' (head + 1) None) (with_status (SetPhase now ''forward_sync'') w)"
    using follow(6) by (auto simp: runForwardSync_def)
  have "gq_current (rs_gaps r) = None" using i(1) follow(5) by (simp add: gaps_inv_def queue_inv_def)
  then have "queue_status gaps par (rs_gaps r) w'"
    using i(1) unfolding gaps_inv_def queue_status_def t
    by (cases "w_status w") (auto simp: gaps_left_def StartSegment_def SetPhase_def)
  then have "gaps_inv kvmap answers gaps par (rs_gaps r) w'"
    using i(1) by (intro gaps_inv_frame [OF i(1)]) (simp_all add: gaps_inv_def t)
  moreover have "fetch_inv answers (head + 1) (tq_sys t)" unfolding t using assms(5,6) by (intro SyncForward_fetch_inv) simp_all
  ultimately show ?thesis using follow(1,5) i(2) by (simp add: service_inv_def t)
qed (use assms(7) in \<open>auto simp: service_inv_def\<close>)

lemma run_inv_reachable:
  assumes "gaps_ok gaps" and "covered gaps \<subseteq> {..head}" and "base \<subseteq> {..head}" and "base \<inter> covered gaps = {}" and "0 \<le> head" and "head < maxInt64"
    and "(run_step s (KVTxIndexer kv) answers head par)\<^sup>*\<^sup>* rw rw'" and "service_inv kvmap answers gaps head base par rw"
  shows "service_inv kvmap answers gaps head base par rw'"
  using assms(7,8)
proof (induction rule: rtranclp_induct)
  case (step y z)
  then show ?case using run_step_inv [OF assms(1-6)] by (cases y, cases z) blast
qed

end

end
