(* ===== verification/Sync_Outcome.thy ===== *)
theory Sync_Outcome
  imports Sync_Complete
begin

text \<open>
  The outcome of \<open>Run\<close> and \<open>Resync\<close>: what the loaders and the gap computation find in the store
  after a run, compared with what the tracker and the returned statistics say.
\<close>

section \<open>Run\<close>

lemma LowestAvailableHeight_positive: "LowestAvailableHeight e = (h, True) \<Longrightarrow> 0 < h"
  by (auto simp: LowestAvailableHeight_def split: option.splits sum.splits if_splits)

lemma choose_earliest_positive:
  assumes "choose_earliest s client_Block st = Inr e"
  shows "1 \<le> e"
  using assms LowestAvailableHeight_positive
  by (force simp: choose_earliest_def resolveEarliestBlock_def split: if_splits sum.splits option.splits prod.splits)

lemma Run_prepare_queues:
  assumes "Run_prepare s now status client_Block w0 = (RunQueues earliest head gaps, w1)"
  obtains ranges where "LoadIndexedRanges (sync_db s) (w_db w0) = Inr ranges" "gaps = ComputeGaps earliest head ranges"
    "w_db w1 = w_db w0" "1 \<le> earliest" "earliest \<le> head" "\<forall>t. w_status w1 = Some t \<longrightarrow> gapsRemaining t = int (length gaps)"
proof -
  from assms obtain st where st: "status = Inr st" "choose_earliest s client_Block st = Inr earliest" "head = LatestBlockHeight st" "earliest \<le> head"
    by (auto simp: Run_prepare_def Let_def split: option.splits if_splits sum.splits)
  with assms obtain ranges where r: "LoadIndexedRanges (sync_db s) (w_db w0) = Inr ranges" "gaps = ComputeGaps earliest head ranges" "w_db w1 = w_db w0"
    by (auto simp: Run_prepare_def Let_def split: option.splits if_splits sum.splits)
  have "\<forall>t. w_status w1 = Some t \<longrightarrow> gapsRemaining t = int (length gaps)"
    using assms by (auto simp: Run_prepare_def Let_def SetGaps_def split: option.splits if_splits sum.splits)
  with that [OF r choose_earliest_positive [OF st(2)] st(4)] show thesis .
qed

context strict_sync
begin

lemma start_queues_inv:
  fixes w :: "('d, 'p) World"
  assumes "gaps_ok gaps" and "store_layout (kvmap (w_db w))" and "0 \<le> head" and "head < maxInt64" and "base \<subseteq> heights_in kvmap w"
    and "\<forall>t. w_status w = Some t \<longrightarrow> gapsRemaining t = int (length gaps)"
  shows "service_inv kvmap answers gaps head base (in_parallel s gaps) (start_queues s now head gaps w)"
proof -
  have h: "i64 (head + 1) = head + 1" using assms(3,4) by (intro i64_id) (simp add: is_i64_def minInt64_def)
  have f: "fetch_inv answers (head + 1) (SyncForward n (head + 1) vals)" for n vals
    using assms(3,4) by (intro SyncForward_fetch_inv) simp_all
  have q: "queue_inv answers gaps (syncGaps gaps)" "queue_stored (heights_in kvmap) (syncGaps gaps) x" for x :: "('d, 'p) World"
    by (simp_all add: queue_inv_def queue_stored_def syncGaps_def)
  show ?thesis
    using assms(2,5,6) q f
    by (auto simp: start_queues_def service_inv_def gaps_inv_def queue_status_def syncGaps_def runForwardSync_def h gaps_left_def
        StartSegment_def SetPhase_def Let_def)
qed

end

text \<open>When the tracker shows no gap left, every gap was closed.\<close>

lemma all_gaps_done:
  assumes "gaps_ok gaps" and "queue_inv answers gaps q" and "length (gq_done q) = length gaps"
  shows "set (gq_done q) = set gaps"
proof -
  have "distinct gaps" using assms(1) normal_distinct by (simp add: gaps_ok_def)
  moreover have "distinct (gq_done q)" using assms(2) by (simp add: queue_inv_def)
  ultimately have "card (set (gq_done q)) = card (set gaps)" using assms(3) by (simp add: distinct_card)
  then show ?thesis using queue_mem(3) [OF assms(2)] by (intro card_subset_eq) simp_all
qed

lemma covered_empty: "normal_ranges rs \<Longrightarrow> covered rs = {} \<Longrightarrow> rs = []"
  by (cases rs) (auto simp: covered_def normal_ranges_def)

lemma normal_valid:
  assumes "normal_ranges rs" and "covered rs \<subseteq> {h. height_ok h}"
  shows "\<forall>r\<in>set rs. valid_range r"
proof
  fix r
  assume r: "r \<in> set rs"
  then have "Start r \<le> End r" using assms(1) by (simp add: normal_ranges_def)
  then have "Start r \<in> covered rs" "End r \<in> covered rs" using r by (auto simp: covered_def)
  then have "height_ok (Start r)" "height_ok (End r)" using assms(2) by blast+
  then show "valid_range r" using \<open>Start r \<le> End r\<close> by (simp add: valid_range_def height_ok_def minInt64_def)
qed

lemma stored_heights_ok: "stored_heights m \<subseteq> {h. height_ok h}"
  by (auto simp: stored_heights_def meta_heights_def tx_heights_def)

text \<open>A store of an older version has the transaction index and no block metadata. Its heights count as
  indexed only as long as no block has metadata.\<close>

definition legacy_heights :: "(bytes \<rightharpoonup> bytes) \<Rightarrow> int set" where
  "legacy_heights m = (if meta_heights m = {} then tx_heights m else {})"

lemma stored_heights_split: "stored_heights m = meta_heights m \<union> legacy_heights m"
  by (simp add: stored_heights_def legacy_heights_def)

context indexer_store
begin

text \<open>The first block that is indexed into such a store makes the loader forget the others.\<close>

lemma legacy_heights_dropped:
  assumes "store_layout (kvmap d)" and "height_ok (h_Height (b_Header block))" and "indexBlockWithStats kv d block br = Inr (d', n)"
    and "meta_heights (kvmap d) = {}" and "\<And>st e. \<exists>kvs. db_Iterator (kv_db kv) d' st e = Inr kvs"
  shows "\<exists>ranges. LoadIndexedRanges (kv_db kv) d' = Inr ranges \<and> covered ranges = {h_Height (b_Header block)}"
proof -
  have m: "store_layout (kvmap d')" "meta_heights (kvmap d') = {h_Height (b_Header block)}"
    using indexBlock_effect [OF assms(1-3)] assms(4) by simp_all
  have "height_keys_ok (kvmap d')" using m(1) by (simp add: store_layout_def)
  from LoadIndexedRanges_spec [OF this assms(5)] m(2) show ?thesis by (auto simp: stored_heights_def)
qed

text \<open>The gaps of a store, as \<open>LoadIndexedRanges\<close> and \<open>ComputeGaps\<close> find them.\<close>

lemma loaded_gaps:
  assumes "store_layout (kvmap d)" and "\<And>st e. \<exists>kvs. db_Iterator (kv_db kv) d st e = Inr kvs" and "is_i64 earliest"
  obtains ranges where "LoadIndexedRanges (kv_db kv) d = Inr ranges" "normal_ranges (ComputeGaps earliest head ranges)"
    "covered (ComputeGaps earliest head ranges) = {earliest..head} - stored_heights (kvmap d)"
proof -
  have "height_keys_ok (kvmap d)" using assms(1) by (simp add: store_layout_def)
  from LoadIndexedRanges_spec [OF this assms(2)] obtain ranges where
    r: "LoadIndexedRanges (kv_db kv) d = Inr ranges" "normal_ranges ranges" "covered ranges = stored_heights (kvmap d)" by blast
  have "\<forall>r\<in>set ranges. valid_range r" using normal_valid [OF r(2)] stored_heights_ok r(3) by simp
  from ComputeGaps_spec [OF this assms(3), of head] show thesis using that [OF r(1)] r(3) by simp
qed

end

context strict_sync
begin

lemma run_outcome:
  fixes w0 w1 w :: "('d, 'p) World"
  assumes db: "sync_db s = kv_db kv" and layout: "store_layout (kvmap (w_db w0))"
    and its: "\<And>d st e. \<exists>kvs. db_Iterator (kv_db kv) d st e = Inr kvs"
    and plan: "Run_prepare s now status client_Block w0 = (RunQueues earliest head gaps, w1)" and head: "head < maxInt64"
    and run: "(run_step s (KVTxIndexer kv) answers head (in_parallel s gaps))\<^sup>*\<^sup>* (start_queues s now' head gaps w1) (r, w)"
    and t: "w_status w = Some t"
  shows "\<exists>ranges. LoadIndexedRanges (kv_db kv) (w_db w) = Inr ranges \<and>
    covered (ComputeGaps earliest head ranges) \<subseteq> covered gaps \<union> legacy_heights (kvmap (w_db w0)) \<and>
    (\<forall>g\<in>set (gq_done (rs_gaps r)). {Start g..End g} \<inter> covered (ComputeGaps earliest head ranges) = {}) \<and>
    gapsRemaining t = int (length gaps) - int (length (gq_done (rs_gaps r))) \<and>
    (gapsRemaining t = 0 \<longrightarrow> covered (ComputeGaps earliest head ranges) \<subseteq> legacy_heights (kvmap (w_db w0))) \<and>
    (gapsRemaining t = 0 \<and> legacy_heights (kvmap (w_db w0)) = {} \<longrightarrow> ComputeGaps earliest head ranges = [])"
proof -
  from Run_prepare_queues [OF plan] obtain ranges0 where p: "LoadIndexedRanges (kv_db kv) (w_db w0) = Inr ranges0"
    "gaps = ComputeGaps earliest head ranges0" "w_db w1 = w_db w0" "1 \<le> earliest" "earliest \<le> head"
    "\<forall>t. w_status w1 = Some t \<longrightarrow> gapsRemaining t = int (length gaps)" unfolding db by blast
  have e: "is_i64 earliest" using p(4,5) head by (simp add: is_i64_def minInt64_def)
  have cov: "covered gaps = {earliest..head} - stored_heights (kvmap (w_db w0))" and nr: "normal_ranges gaps"
    using loaded_gaps [OF layout its e, of head] p(1,2) by (metis Inr_inject)+
  have "0 \<le> Start g \<and> End g < maxInt64" if "g \<in> set gaps" for g
  proof -
    have "Start g \<in> covered gaps" "End g \<in> covered gaps" using that nr by (force simp: covered_def normal_ranges_def)+
    then show ?thesis using cov p(4) head by auto
  qed
  then have ok: "gaps_ok gaps" using nr by (simp add: gaps_ok_def)
  let ?L = "legacy_heights (kvmap (w_db w0))"
  let ?base = "{earliest..head} - covered gaps - ?L"
  have base: "?base \<subseteq> heights_in kvmap w1" unfolding cov p(3) stored_heights_split by blast
  have l1: "store_layout (kvmap (w_db w1))" and h0: "0 \<le> head" using layout p(3-5) by simp_all
  have "service_inv kvmap answers gaps head ?base (in_parallel s gaps) (start_queues s now' head gaps w1)"
    by (rule start_queues_inv [OF ok l1 h0 head base p(6)])
  note start = this
  have "covered gaps \<subseteq> {..head}" "?base \<subseteq> {..head}" "?base \<inter> covered gaps = {}" unfolding cov by auto
  note inv = run_inv_reachable [OF ok this h0 head run start]
  let ?q = "rs_gaps r"
  have q: "queue_inv answers gaps ?q" "store_layout (kvmap (w_db w))" "\<forall>g\<in>set (gq_done ?q). {Start g..End g} \<subseteq> heights_in kvmap w"
    "gapsRemaining t = int (length gaps) - int (length (gq_done ?q))" "?base \<subseteq> heights_in kvmap w"
    using inv t unfolding service_inv_def gaps_inv_def queue_stored_def queue_status_def gaps_left_def by simp_all
  obtain ranges where g: "LoadIndexedRanges (kv_db kv) (w_db w) = Inr ranges" "normal_ranges (ComputeGaps earliest head ranges)"
    "covered (ComputeGaps earliest head ranges) = {earliest..head} - stored_heights (kvmap (w_db w))"
    by (rule loaded_gaps [OF q(2) its e])
  have meta: "h \<in> stored_heights (kvmap (w_db w))" if "h \<in> heights_in kvmap w" for h using that unfolding stored_heights_def by (cases "heights_in kvmap w = {}") simp_all
  have sub: "covered (ComputeGaps earliest head ranges) \<subseteq> covered gaps \<union> ?L" unfolding g(3) using q(5) meta by blast
  have cl: "{Start g..End g} \<inter> covered (ComputeGaps earliest head ranges) = {}" if "g \<in> set (gq_done ?q)" for g
    using q(3) that meta unfolding g(3) by blast
  have zero: "covered (ComputeGaps earliest head ranges) \<subseteq> ?L" if "gapsRemaining t = 0"
  proof -
    have d: "set (gq_done ?q) = set gaps" using all_gaps_done [OF ok q(1)] that q(4) by simp
    have "covered (ComputeGaps earliest head ranges) \<inter> covered gaps = {}" using cl unfolding d covered_def [of gaps] by blast
    then show ?thesis using sub by blast
  qed
  have "ComputeGaps earliest head ranges = []" if "gapsRemaining t = 0" "?L = {}"
    by (rule covered_empty [OF g(2)]) (use zero that in simp)
  then show ?thesis using g(1) sub q(4) cl zero by blast
qed

end

section \<open>A run over one block\<close>

definition one_block :: "int \<Rightarrow> Block option \<Rightarrow> ResultBlockResults \<Rightarrow> 'val Fetched" where
  "one_block h x res = \<lparr>Height = h, Block = Some x, BlockResults = Some res, ActiveSet = [], Skipped = False\<rparr>"

lemma single_block_run:
  fixes handler :: "int \<Rightarrow> 'val Fetched \<Rightarrow> 'w \<Rightarrow> (go_error option \<times> 'w) option"
  assumes "answers h x" and "0 \<le> h" and "h < maxInt64" and "handler now (one_block h x res) w = Some (None, w')"
  shows "\<exists>b c. (service_step answers handler)\<^sup>*\<^sup>* (SyncRange 1 h h False False, w) ((b, c), w') \<and> sync_pc c = Returned None"
proof -
  let ?S = "service_step answers handler" and ?nb = "one_block h x res :: 'val Fetched"
  have w: "u64 h = h" "i64 h = h" "i64 (h + 1) = h + 1"
    using assms(2,3) by (auto simp: u64_def take_bit_int_eq_self maxInt64_def is_i64_def minInt64_def intro!: i64_id)
  define c0 :: "(Block option, ResultBlockResults, 'val, go_error) Sync"
    where "c0 = \<lparr>sync_pc = Receiving, expected = h, sync_end = Some h, handled = [], consumed = []\<rparr>"
  define b0 :: "(Block option, ResultBlockResults, 'val) blockGetter" where "b0 = newBlockGetter h 1 Forward False False"
  define b1 where "b1 = b0\<lparr>height := u64 (h + 1), assigned := 1, jobs := [JobTop h]\<rparr>"
  define b2 where "b2 = b1\<lparr>jobs := [JobFetching h]\<rparr>"
  define b3 where "b3 = b2\<lparr>jobs := [JobStore h ?nb]\<rparr>"
  define b4 where "b4 = b3\<lparr>jobs := [JobNext], newBlocksMap := [(h, ?nb)]\<rparr>"
  define b5 where "b5 = b4\<lparr>announcer := AnnLookup h\<rparr>"
  define b6 where "b6 = b5\<lparr>announcer := AnnSend h ?nb, newBlocksMap := []\<rparr>"
  define b7 where "b7 = b6\<lparr>announcer := AnnTop (u64 (h + 1)), newBlocksC := [?nb], sent := [?nb]\<rparr>"
  note defs = b7_def b6_def b5_def b4_def b3_def b2_def b1_def b0_def newBlockGetter_def
  note js = job_step_def getHeightToFetch_def set_job_def cond_signal_def tooFarFromHead_def isDone_def
  have "SyncRange 1 h h False False = (b0, c0)"
    using assms(2) w(1) by (simp add: SyncRange_def start_sync_def NewSyncer_jobs_def b0_def c0_def Let_def)
  moreover have "?S ((b0, c0), w) ((b1, c0), w)"
    using service_step.job [of 0 b0 answers "Inl CtxErr" handler c0 w] by (simp add: js defs)
  moreover have "?S ((b1, c0), w) ((b2, c0), w)"
    using service_step.job [of 0 b1 answers "Inl CtxErr" handler c0 w] by (simp add: js defs)
  moreover have "?S ((b2, c0), w) ((b3, c0), w)"
  proof -
    have "Inr ?nb \<in> set (fetchBlockByNum False h (Inr x) (Inr res) (Inr []))"
      using w(2) by (simp add: fetchBlockByNum_def errors_of_def one_block_def)
    then have "\<forall>h'. jobs b2 ! 0 = JobFetching h' \<longrightarrow>
      (\<exists>rb rr rv. (\<forall>x. rb = Inr x \<longrightarrow> answers (i64 h') x) \<and> Inr ?nb \<in> set (fetchBlockByNum (fetchValidators b2) h' rb rr rv))"
      using assms(1) w(2) by (auto simp: defs intro!: exI [of _ "Inr x"])
    from service_step.job [OF _ this, of handler c0 w] show ?thesis by (simp add: js defs after_fetch_def)
  qed
  moreover have "?S ((b3, c0), w) ((b4, c0), w)"
    using service_step.job [of 0 b3 answers "Inl CtxErr" handler c0 w] by (simp add: js defs)
  moreover have "?S ((b4, c0), w) ((b5, c0), w)" "?S ((b5, c0), w) ((b6, c0), w)" "?S ((b6, c0), w) ((b7, c0), w)"
    using service_step.announce [of answers handler b4 c0 w] service_step.announce [of answers handler b5 c0 w]
      service_step.announce [of answers handler b6 c0 w]
    by (simp_all add: announce_step_def ann_after_send_def isDone_def defs)
  moreover define c1 where "c1 = sync_block None ?nb c0"
  moreover have "?S ((b7, c0), w) ((b7\<lparr>newBlocksC := []\<rparr>, c1), w')"
    using assms(4) by (intro service_step.handle [of False _ _ _ now])
      (simp_all add: calls_handler_def consumer_step_def c1_def c0_def in_range_def one_block_def defs)
  moreover have "?S ((b7\<lparr>newBlocksC := []\<rparr>, c1), w') ((b7\<lparr>newBlocksC := []\<rparr>, sync_return None c1), w')"
    using w(3) by (intro service_step.receive [of False])
      (simp_all add: calls_handler_def consumer_step_def c1_def c0_def in_range_def one_block_def sync_block_def)
  moreover have "sync_pc (sync_return None c1) = Returned None" by simp
  ultimately show ?thesis by (metis (no_types, lifting) converse_rtranclp_into_rtranclp r_into_rtranclp)
qed

text \<open>The steps of the getter within the gap queue, and of the gap queue within a run.\<close>

lemma fetch_in_gap:
  assumes "(service_step answers (handleSyncedBlock s ti False))\<^sup>*\<^sup>* yw yw'" and "gq_current q = Some (gap, fst yw)"
  shows "(gap_step s ti answers par)\<^sup>*\<^sup>* (q, snd yw) (q\<lparr>gq_current := Some (gap, fst yw')\<rparr>, snd yw')"
  using assms(1)
proof (induction rule: rtranclp_induct)
  case base
  have "q\<lparr>gq_current := Some (gap, fst yw)\<rparr> = q" using assms(2) by simp
  then show ?case by simp
next
  case (step a b)
  have "gap_step s ti answers par (q\<lparr>gq_current := Some (gap, fst a)\<rparr>, snd a) (q\<lparr>gq_current := Some (gap, fst b)\<rparr>, snd b)"
    using gap_step.fetch [of "q\<lparr>gq_current := Some (gap, fst a)\<rparr>" gap "fst a" answers s ti "snd a" "fst b" "snd b" par] step.hyps(2) by simp
  with step.IH show ?case by (rule rtranclp.rtrancl_into_rtrancl)
qed

lemma gap_in_run:
  assumes "(gap_step s ti answers par)\<^sup>*\<^sup>* qw qw'" and "rs_result r = None" and "rs_gaps r = fst qw"
  shows "(run_step s ti answers head par)\<^sup>*\<^sup>* (r, snd qw) (r\<lparr>rs_gaps := fst qw'\<rparr>, snd qw')"
  using assms(1)
proof (induction rule: rtranclp_induct)
  case base
  have "r\<lparr>rs_gaps := fst qw\<rparr> = r" using assms(3) by simp
  then show ?case by simp
next
  case (step a b)
  have "run_step s ti answers head par (r\<lparr>rs_gaps := fst a\<rparr>, snd a) ((r\<lparr>rs_gaps := fst a\<rparr>)\<lparr>rs_gaps := fst b\<rparr>, snd b)"
    using step.hyps(2) assms(2) by (intro run_step.gap) simp_all
  with step.IH show ?case by simp
qed

definition demo_syncer :: "(memdb, membatch, unit) Syncer" where
  "demo_syncer = \<lparr>Earliest = 0, FetchJobs = 1, AllowGaps = False, EnableSync = True, ParallelSyncTipAndGaps = False,
     sync_db = MemDB, indexer = Some (KVTxIndexer demo_kv), tipPublisher = None\<rparr>"

definition demo_world :: "(memdb, unit) World" where
  "demo_world = \<lparr>w_db = [], w_status = Some (NewTracker 0 1 0), w_tip = ()\<rparr>"

definition demo_answers :: "int \<Rightarrow> Block option \<Rightarrow> bool" where
  "demo_answers h x \<longleftrightarrow> h = 5 \<and> x = Some demo_block"

definition demo_status :: ResultStatus where
  "demo_status = \<lparr>EarliestBlockHeight = 5, LatestBlockHeight = 5\<rparr>"

interpretation demo_sync: strict_sync demo_kv map_of "\<lambda>b. b" demo_answers demo_syncer
proof -
  have "node_ok demo_answers" using demo_hyps(8) by (simp add: node_ok_def demo_answers_def demo_height)
  then show "strict_sync demo_kv map_of (\<lambda>b. b) demo_answers demo_syncer"
    using demo_hyps(1)
    by (simp add: strict_sync_def strict_sync_axioms_def sync_node_def sync_node_axioms_def demo_syncer_def)
qed

lemma demo_prepare:
  "\<exists>w1. Run_prepare demo_syncer 0 (Inr demo_status) (\<lambda>h. Inr None) demo_world = (RunQueues 5 5 [rng 5 5], w1) \<and> w_db w1 = []"
proof -
  have "LoadIndexedRanges MemDB [] = Inr []" by (simp add: LoadIndexedRanges_def MemDB_def mem_range_def scan_heights_def)
  moreover have "ComputeGaps 5 5 [] = [rng 5 5]" by (simp add: ComputeGaps_def gaps_finish_def)
  ultimately show ?thesis
    by (simp add: Run_prepare_def choose_earliest_def demo_syncer_def demo_world_def demo_status_def Let_def)
qed

lemma demo_run:
  assumes "w_db w1 = []"
  shows "\<exists>(r :: unit RunState) w. (run_step demo_syncer (KVTxIndexer demo_kv) demo_answers 5 (in_parallel demo_syncer [rng 5 5]))\<^sup>*\<^sup>*
      (start_queues demo_syncer 0 5 [rng 5 5] w1) (r, w) \<and> gq_done (rs_gaps r) = [rng 5 5] \<and> (w_status w1 \<noteq> None \<longrightarrow> w_status w \<noteq> None)"
proof -
  let ?ti = "KVTxIndexer demo_kv" and ?s = demo_syncer
  define q0 :: "unit GapQueue" where "q0 = syncGaps [rng 5 5]"
  define w2 where "w2 = with_status (StartSegment 0 ''gap'' 5 (Some 5)) w1"
  obtain d' n logs x where d: "indexBlockWithStats demo_kv [] demo_block (Some demo_results) = Inr (d', n)" using demo_seen by blast
  define w3 where "w3 = with_status (MarkBlock 0 5 True) (w2\<lparr>w_db := d'\<rparr>)"
  have h: "handleSyncedBlock ?s ?ti False 0 (one_block 5 (Some demo_block) demo_results :: unit Fetched) w2 = Some (None, w3)"
    using assms d
    by (simp add: handleSyncedBlock_def one_block_def block_of_def indexBlock_def recovering_def KVTxIndexer_def IndexBlockWithResults_def
        w2_def w3_def publish_tip_def demo_syncer_def)
  have a: "demo_answers 5 (Some demo_block)" "(0 :: int) \<le> 5" "5 < maxInt64" by (simp_all add: demo_answers_def maxInt64_def)
  obtain b c where bc: "(service_step demo_answers (handleSyncedBlock ?s ?ti False))\<^sup>*\<^sup>* ((SyncRange 1 5 5 False False :: unit Fetching), w2) ((b, c), w3)"
    "sync_pc c = Returned None" using single_block_run [where answers = demo_answers and handler = "handleSyncedBlock ?s ?ti False", OF a h] by blast
  define q1 :: "unit GapQueue" where "q1 = q0\<lparr>gq_todo := [], gq_current := Some (rng 5 5, SyncRange 1 5 5 False False)\<rparr>"
  have "gap_step ?s ?ti demo_answers False (q0, w1) (q1, w2)"
    using gap_step.next_gap [of q0 "rng 5 5" "[]" ?s ?ti demo_answers False w1 0]
    by (simp add: q0_def q1_def syncGaps_def w2_def demo_syncer_def)
  moreover have "(gap_step ?s ?ti demo_answers False)\<^sup>*\<^sup>* (q1, w2) (q1\<lparr>gq_current := Some (rng 5 5, (b, c))\<rparr>, w3)"
    using fetch_in_gap [OF bc(1), of q1 "rng 5 5" False] by (simp add: q1_def)
  moreover obtain q2 w4 where q2: "gap_returned False 0 (rng 5 5) None (q1\<lparr>gq_current := Some (rng 5 5, (b, c))\<rparr>) w3 = (q2, w4)" by force
  moreover have "gap_step ?s ?ti demo_answers False (q1\<lparr>gq_current := Some (rng 5 5, (b, c))\<rparr>, w3) (q2, w4)"
    using gap_step.returned [of "q1\<lparr>gq_current := Some (rng 5 5, (b, c))\<rparr>" "rng 5 5" b c None ?s ?ti demo_answers False w3 0] bc(2) q2 by simp
  ultimately have "(gap_step ?s ?ti demo_answers False)\<^sup>*\<^sup>* (q0, w1) (q2, w4)"
    by (meson converse_rtranclp_into_rtranclp rtranclp.rtrancl_into_rtrancl)
  from gap_in_run [OF this, of "\<lparr>rs_gaps = q0, rs_tip = None, rs_result = None\<rparr>" 5] have
    "(run_step ?s ?ti demo_answers 5 False)\<^sup>*\<^sup>* (start_queues ?s 0 5 [rng 5 5] w1) (\<lparr>rs_gaps = q2, rs_tip = None, rs_result = None\<rparr>, w4)"
    by (simp add: start_queues_def in_parallel_def demo_syncer_def q0_def)
  moreover have "gq_done q2 = [rng 5 5]" "w_status w1 \<noteq> None \<longrightarrow> w_status w4 \<noteq> None"
    using q2 by (auto simp: gap_returned_def q1_def q0_def syncGaps_def w3_def w2_def)
  moreover have "in_parallel ?s [rng 5 5] = False" by (simp add: in_parallel_def demo_syncer_def)
  ultimately show ?thesis
    by (intro exI [of _ "\<lparr>rs_gaps = q2, rs_tip = None, rs_result = None\<rparr>"] exI [of _ w4]) (simp del: not_None_eq)
qed

section \<open>Resync\<close>

text \<open>The targets done so far are stored and counted, unless the resync has failed.\<close>

definition resync_inv ::
  "('d \<Rightarrow> bytes \<rightharpoonup> bytes) \<Rightarrow> (int \<Rightarrow> Block option \<Rightarrow> bool) \<Rightarrow> BlockRange list \<Rightarrow> int set \<Rightarrow> 'val ResyncQueue \<times> 'd \<times> ResyncStats \<Rightarrow> bool" where
  "resync_inv kvmap answers targets before qds \<longleftrightarrow>
     (case qds of (q, d, st) \<Rightarrow>
        store_layout (kvmap d) \<and> meta_heights (kvmap d) - covered targets = before - covered targets \<and>
        (rq_result q \<noteq> None \<longrightarrow> rq_current q = None) \<and>
        ((\<forall>e. rq_result q \<noteq> Some (Some e)) \<longrightarrow>
          (\<exists>seen. targets = seen @ (case rq_current q of Some (g, y) \<Rightarrow> [g] | None \<Rightarrow> []) @ rq_todo q \<and>
             covered seen \<subseteq> meta_heights (kvmap d) \<and>
             (case rq_current q of
                None \<Rightarrow> BlocksSynced st = int (card (covered seen)) \<and> (rq_result q \<noteq> None \<longrightarrow> rq_todo q = [])
              | Some (g, (b, c)) \<Rightarrow>
                  fetch_inv answers (Start g) (b, c) \<and> sync_end c = Some (End g) \<and> Start g + int (length (consumed c)) \<le> End g + 1 \<and>
                  stored (\<lambda>(d, st). meta_heights (kvmap d)) c (d, st) \<and>
                  (sync_pc c = Receiving \<or> sync_pc c = Returned None \<longrightarrow>
                     BlocksSynced st = int (card (covered seen)) + int (length (handled c)))))))"

lemma covered_snoc: "covered (seen @ [g]) = covered seen \<union> {Start g..End g}"
  by (auto simp: covered_def)

lemma covered_snoc_card:
  assumes "gaps_ok (seen @ g # rest)"
  shows "covered seen \<inter> {Start g..End g} = {}" and "card (covered (seen @ [g])) = card (covered seen) + nat (End g - Start g + 1)"
    and "int (card (covered seen)) \<le> Start g"
proof -
  have less: "\<forall>r\<in>set seen. End r < Start g" and pos: "\<forall>r\<in>set seen. 0 \<le> Start r"
    using assms by (auto simp: gaps_ok_def normal_ranges_def sorted_wrt_append)
  show dis: "covered seen \<inter> {Start g..End g} = {}" using less by (force simp: covered_def)
  show "card (covered (seen @ [g])) = card (covered seen) + nat (End g - Start g + 1)"
    unfolding covered_snoc using dis by (simp add: card_Un_disjoint)
  have "0 \<le> Start g" using assms by (simp add: gaps_ok_def)
  moreover have "covered seen \<subseteq> {0..<Start g}" using less pos by (force simp: covered_def)
  then have "card (covered seen) \<le> card {0..<Start g}" by (intro card_mono) simp_all
  ultimately show "int (card (covered seen)) \<le> Start g" by simp
qed

context sync_node
begin

lemma resync_step_count:
  fixes b :: "(Block option, ResultBlockResults, 'val) blockGetter"
  assumes "fetch_inv answers start (b, c)" and "store_layout (kvmap d)"
    and "service_step answers (resync_handler (KVTxIndexer kv)) ((b, c), d, st) ((b', c'), d', st')"
    and "sync_pc c' = Receiving \<or> sync_pc c' = Returned None"
  shows "(sync_pc c = Receiving \<or> sync_pc c = Returned None) \<and>
    (handled c' = handled c \<and> BlocksSynced st' = BlocksSynced st \<or>
     length (handled c') = Suc (length (handled c)) \<and> BlocksSynced st' = i64 (BlocksSynced st + 1))"
  using assms(3)
proof (cases rule: service_step.cases)
  case (receive prefer_ctx)
  have "handled c' = handled c" "sync_pc c = Receiving \<or> sync_pc c = Returned None"
    using receive assms(4) by (auto simp: consumer_step_def sync_block_def sync_return_def calls_handler_def Let_def split: if_splits list.splits)
  then show ?thesis using receive(1,2) by simp
next
  case (handle prefer_ctx now hr)
  note bl = resync.handled_block [OF assms(1) handle(1)]
  have eff: "hr = None \<and> BlocksSynced st' = i64 (BlocksSynced st + 1) \<or> hr \<noteq> None"
    using resync_handler_effect [OF handle(2) node bl(1,2) assms(2)] by blast
  obtain nb rest where nb: "newBlocksC b = nb # rest" using handle(1) by (cases "newBlocksC b") (auto simp: calls_handler_def)
  then have "c' = sync_block hr nb c" "Height nb = expected c" "\<not> Skipped nb" "sync_pc c = Receiving"
    using handle(1,3) by (auto simp: consumer_step_def calls_handler_def)
  then show ?thesis using eff assms(4) by (cases hr) (auto simp: sync_block_def sync_return_def Let_def)
qed (use assms(4) in auto)

lemma resync_fetch_inv:
  assumes "gaps_ok targets" and "resync_inv kvmap answers targets before (q, d, st)" and "rq_current q = Some (g, y)"
    and "service_step answers (resync_handler (KVTxIndexer kv)) (y, d, st) (y', d', st')"
  shows "resync_inv kvmap answers targets before (q\<lparr>rq_current := Some (g, y')\<rparr>, d', st')"
proof -
  have res: "rq_result q = None" using assms(2,3) by (auto simp: resync_inv_def)
  obtain b c b' c' where y: "y = (b, c)" "y' = (b', c')" by (cases y, cases y') auto
  note stp = assms(4) [unfolded y]
  from res assms(2,3) y obtain seen where t: "targets = seen @ [g] @ rq_todo q" and cs: "covered seen \<subseteq> meta_heights (kvmap d)"
    and f: "fetch_inv answers (Start g) (b, c)" "sync_end c = Some (End g)" "Start g + int (length (consumed c)) \<le> End g + 1"
    and sto: "stored (\<lambda>(d, st). meta_heights (kvmap d)) c (d, st)"
    and cnt: "sync_pc c = Receiving \<or> sync_pc c = Returned None \<Longrightarrow> BlocksSynced st = int (card (covered seen)) + int (length (handled c))"
    and lay: "store_layout (kvmap d)" and bef: "meta_heights (kvmap d) - covered targets = before - covered targets"
    by (auto simp: resync_inv_def)
  have ok: "gaps_ok (seen @ g # rq_todo q)" using assms(1) t by simp
  then have g: "0 \<le> Start g" "End g < maxInt64" by (simp_all add: gaps_ok_def)
  have lay': "case (d, st) of (d, st) \<Rightarrow> store_layout (kvmap d)" using lay by simp
  note fr = resync.step_frame [OF f(1) lay' stp]
  have same: "h \<in> meta_heights (kvmap d') \<longleftrightarrow> h \<in> meta_heights (kvmap d)" if "h \<notin> {Start g..End g}" for h
    using fr(2) [of h "End g"] that f(2) by auto
  have "covered seen \<subseteq> meta_heights (kvmap d')" using cs same covered_snoc_card(1) [OF ok] by blast
  moreover have "{Start g..End g} \<subseteq> covered targets" unfolding t by (auto simp: covered_def)
  then have "meta_heights (kvmap d') - covered targets = before - covered targets" using bef same by blast
  moreover have f': "fetch_inv answers (Start g) (b', c')" "sync_end c' = Some (End g)" "Start g + int (length (consumed c')) \<le> End g + 1"
    using resync.step_fetch_inv [OF f(1) stp] resync.step_sync_end [OF stp] f
      sync_step_bound [OF service_sync_step [OF stp], of "Start g" "End g"] g by (auto simp: fetch_inv_def)
  moreover have "stored (\<lambda>(d, st). meta_heights (kvmap d)) c' (d', st')" by (rule resync.step_stored [OF f(1) lay' sto stp])
  moreover have "BlocksSynced st' = int (card (covered seen)) + int (length (handled c'))"
    if r: "sync_pc c' = Receiving \<or> sync_pc c' = Returned None"
  proof -
    note n = resync_step_count [OF f(1) lay stp r]
    have "handled c' = consumed c'" by (rule fetch_inv_expected(2) [OF f'(1) r])
    then have "int (card (covered seen)) + int (length (handled c')) \<le> maxInt64"
      using covered_snoc_card(3) [OF ok] f'(3) g(2) by simp
    then show ?thesis using n cnt by (auto simp: i64_id is_i64_def minInt64_def)
  qed
  ultimately show ?thesis using fr(1) t res y by (auto simp: resync_inv_def)
qed

end

context sync_node
begin

lemma resync_step_inv:
  fixes qds qds' :: "'val ResyncQueue \<times> 'd \<times> ResyncStats"
  assumes "gaps_ok targets" and "resync_inv kvmap answers targets before qds"
    and "resync_step s (KVTxIndexer kv) answers qds qds'"
  shows "resync_inv kvmap answers targets before qds'"
  using assms(3)
proof (cases rule: resync_step.cases)
  case (next_target q g rest ds)
  obtain d st where ds: "ds = (d, st)" by force
  from assms(2) next_target ds obtain seen where t: "targets = seen @ g # rest" "covered seen \<subseteq> meta_heights (kvmap d)"
    "BlocksSynced st = int (card (covered seen))" by (auto simp: resync_inv_def)
  have g: "0 \<le> Start g" "Start g \<le> End g" "End g < maxInt64" using assms(1) t(1) by (auto simp: gaps_ok_def normal_ranges_def)
  obtain b c where y: "(SyncRange (FetchJobs s) (Start g) (End g) False False :: 'val Fetching) = (b, c)" by force
  have "fetch_inv answers (Start g) (b, c)" "sync_end c = Some (End g)" "handled c = []" "consumed c = []"
    using SyncRange_fetch_inv(1) [OF g, where answers = answers and n = "FetchJobs s" and vals = False] y g
    by (metis, auto simp: SyncRange_def start_sync_def Let_def)
  then show ?thesis using assms(2) next_target ds t y g by (auto simp: resync_inv_def stored_def)
next
  case (fetch q g y ds y' ds')
  obtain d st d' st' where ds: "ds = (d, st)" "ds' = (d', st')" by (cases ds, cases ds') auto
  have "resync_inv kvmap answers targets before (q, d, st)" using assms(2) fetch(1) ds by simp
  from resync_fetch_inv [OF assms(1) this fetch(3) fetch(4) [unfolded ds]] show ?thesis using fetch(2) ds by simp
next
  case (returned q g b c r ds)
  obtain d st where ds: "ds = (d, st)" by force
  show ?thesis
  proof (cases r)
    case None
    from assms(2) returned ds None obtain seen where t: "targets = seen @ g # rq_todo q" "covered seen \<subseteq> meta_heights (kvmap d)"
      and f: "fetch_inv answers (Start g) (b, c)" "sync_end c = Some (End g)" "Start g + int (length (consumed c)) \<le> End g + 1"
      "stored (\<lambda>(d, st). meta_heights (kvmap d)) c (d, st)" "BlocksSynced st = int (card (covered seen)) + int (length (handled c))"
      and res: "rq_result q = None" by (auto simp: resync_inv_def)
    have r: "sync_pc c = Returned None" using returned(4) None by simp
    have "{Start g..End g} \<subseteq> meta_heights (kvmap d)" using resync.range_stored [OF f(1,4) r f(2)] by simp
    moreover have "int (length (handled c)) = End g - Start g + 1" "Start g \<le> End g"
      using fetch_inv_expected [OF f(1)] r f(2,3) t(1) assms(1) by (auto simp: in_range_def gaps_ok_def normal_ranges_def)
    moreover have "gaps_ok (seen @ g # rq_todo q)" using assms(1) t(1) by simp
    note c = covered_snoc_card(2) [OF this]
    ultimately have "covered (seen @ [g]) \<subseteq> meta_heights (kvmap d)" "BlocksSynced st = int (card (covered (seen @ [g])))"
      using t(2) f(5) unfolding c covered_snoc by auto
    then show ?thesis using assms(2) returned(1,2) ds None t(1) res
      by (auto simp: resync_inv_def resync_returned_def intro!: exI [of _ "seen @ [g]"])
  next
    case (Some e)
    then show ?thesis using assms(2) returned(1,2) ds by (auto simp: resync_inv_def resync_returned_def)
  qed
next
  case (finished q ds)
  then show ?thesis using assms(2) by (auto simp: resync_inv_def)
qed

lemma resync_reachable:
  assumes "(resync_step s (KVTxIndexer kv) answers)\<^sup>*\<^sup>* qds qds'" and "gaps_ok targets" and "resync_inv kvmap answers targets before qds"
  shows "resync_inv kvmap answers targets before qds'"
  using assms(1,3) by (induction rule: rtranclp_induct) (auto intro: resync_step_inv [OF assms(2)])

end

section \<open>Properties\<close>

text \<open>C1: A sync run that allows no gaps loses no block that has metadata, and its status is true. In every
  interleaving of the gap queue, the forward queue and their goroutines, sequential or parallel, and
  whatever fails: the gaps that the loaders and the gap computation would find in the store up to the head
  lie within those found at the start and the legacy heights, those that were known from the transaction
  index only when no block had metadata; a gap reported as complete is closed and stays closed; the tracker's
  count of remaining gaps is the number of gaps not reported complete; and when it reaches zero the only
  gaps left are legacy heights, so none if the store had block metadata or was empty.\<close>

theorem Run_closes_gaps:
  fixes w0 w1 w :: "('d, 'p) World"
  assumes "indexer_store kv kvmap bops" and "node_ok answers" and "\<not> AllowGaps s"
    and "sync_db s = kv_db kv" and "store_layout (kvmap (w_db w0))"
    and "\<And>d st e. \<exists>kvs. db_Iterator (kv_db kv) d st e = Inr kvs"
    and "Run_prepare s now status client_Block w0 = (RunQueues earliest head gaps, w1)" and "head < maxInt64"
    and "(run_step s (KVTxIndexer kv) answers head (in_parallel s gaps))\<^sup>*\<^sup>* (start_queues s now' head gaps w1) (r, w)"
    and "w_status w = Some t"
  shows "\<exists>ranges. LoadIndexedRanges (kv_db kv) (w_db w) = Inr ranges \<and>
    covered (ComputeGaps earliest head ranges) \<subseteq> covered gaps \<union> legacy_heights (kvmap (w_db w0)) \<and>
    (\<forall>g\<in>set (gq_done (rs_gaps r)). {Start g..End g} \<inter> covered (ComputeGaps earliest head ranges) = {}) \<and>
    gapsRemaining t = int (length gaps) - int (length (gq_done (rs_gaps r))) \<and>
    (gapsRemaining t = 0 \<longrightarrow> covered (ComputeGaps earliest head ranges) \<subseteq> legacy_heights (kvmap (w_db w0))) \<and>
    (gapsRemaining t = 0 \<and> legacy_heights (kvmap (w_db w0)) = {} \<longrightarrow> ComputeGaps earliest head ranges = [])"
proof -
  have "strict_sync kv kvmap bops answers s"
    using assms(1-3) by (simp add: strict_sync_def strict_sync_axioms_def sync_node_def sync_node_axioms_def)
  from strict_sync.run_outcome [OF this assms(4-10)] show ?thesis .
qed

theorem Run_closes_gaps_witness:
  "\<exists>w1 (r :: unit RunState) w t ranges. Run_prepare demo_syncer 0 (Inr demo_status) (\<lambda>h. Inr None) demo_world = (RunQueues 5 5 [rng 5 5], w1) \<and>
    (run_step demo_syncer (KVTxIndexer demo_kv) demo_answers 5 (in_parallel demo_syncer [rng 5 5]))\<^sup>*\<^sup>* (start_queues demo_syncer 0 5 [rng 5 5] w1) (r, w) \<and>
    w_status w = Some t \<and> gapsRemaining t = 0 \<and> LoadIndexedRanges MemDB (w_db w) = Inr ranges \<and> ComputeGaps 5 5 ranges = []"
proof -
  obtain w1 where w1: "Run_prepare demo_syncer 0 (Inr demo_status) (\<lambda>h. Inr None) demo_world = (RunQueues 5 5 [rng 5 5], w1)" "w_db w1 = []"
    using demo_prepare by blast
  have "w_status w1 \<noteq> None" using w1(1) by (auto simp: Run_prepare_def demo_syncer_def demo_world_def Let_def split: sum.splits if_splits)
  with demo_run [OF w1(2)] obtain r :: "unit RunState" and w t where
    r: "(run_step demo_syncer (KVTxIndexer demo_kv) demo_answers 5 (in_parallel demo_syncer [rng 5 5]))\<^sup>*\<^sup>*
      (start_queues demo_syncer 0 5 [rng 5 5] w1) (r, w)" "gq_done (rs_gaps r) = [rng 5 5]" "w_status w = Some t" by blast
  have hyps: "sync_db demo_syncer = kv_db demo_kv" "store_layout (map_of (w_db demo_world))"
    "legacy_heights (map_of (w_db demo_world)) = {}" "(5 :: int) < maxInt64"
    using demo_hyps(7) by (simp_all add: demo_syncer_def demo_world_def legacy_heights_def tx_heights_def maxInt64_def)
  have its: "\<exists>kvs. db_Iterator (kv_db demo_kv) d st e = Inr kvs" for d st e by (simp add: MemDB_def)
  from Run_closes_gaps [OF demo_hyps(1) demo_sync.node demo_sync.strict hyps(1,2) its w1(1) hyps(4) r(1,3)] r(2) hyps(3)
  have "gapsRemaining t = 0" "\<exists>ranges. LoadIndexedRanges MemDB (w_db w) = Inr ranges \<and> ComputeGaps 5 5 ranges = []" by auto
  with w1(1) r(1,3) show ?thesis by blast
qed

text \<open>C6: \<open>Resync\<close> does what it was asked for, in every interleaving of the goroutines. Whenever it has
  returned, the stored heights outside the requested ranges are as before; and if it returned no error,
  every requested height is stored and the number of blocks it reports is the number of requested
  heights, as \<open>CountBlocks\<close> counts the normalized ranges.\<close>

theorem Resync_complete:
  fixes q :: "'val ResyncQueue"
  assumes "indexer_store kv kvmap bops" and "node_ok answers" and "store_layout (kvmap d)"
    and "\<forall>g\<in>set targets. 0 \<le> Start g \<and> Start g \<le> End g \<and> End g < maxInt64"
    and "Resync s targets d = Inr qds" and "(resync_step s (KVTxIndexer kv) answers)\<^sup>*\<^sup>* qds (q, d', st)" and "rq_result q = Some r"
  shows "(\<forall>h. h \<notin> covered targets \<longrightarrow> (h \<in> meta_heights (kvmap d') \<longleftrightarrow> h \<in> meta_heights (kvmap d))) \<and>
    (r = None \<longrightarrow> covered targets \<subseteq> meta_heights (kvmap d') \<and> BlocksSynced st = CountBlocks (NormalizeRanges targets))"
proof -
  let ?ts = "NormalizeRanges targets"
  have v: "\<forall>r\<in>set targets. valid_range r" using assms(4) by (auto simp: valid_range_def minInt64_def)
  note spec = NormalizeRanges_spec [OF v]
  have b: "0 \<le> Start g \<and> End g < maxInt64" if "g \<in> set ?ts" for g
  proof -
    have "Start g \<in> covered targets" "End g \<in> covered targets"
      using that spec(1) unfolding spec(2) [symmetric] by (force simp: covered_def normal_ranges_def)+
    then show ?thesis using assms(4) by (fastforce simp: covered_def)
  qed
  then have ok: "gaps_ok ?ts" using spec(1) by (simp add: gaps_ok_def)
  have n: "sync_node kv kvmap bops answers" using assms(1,2) by (simp add: sync_node_def sync_node_axioms_def)
  have "resync_inv kvmap answers ?ts (meta_heights (kvmap d)) qds"
    using assms(3,5) by (auto simp: Resync_def resync_inv_def covered_def split: option.splits if_splits)
  from sync_node.resync_reachable [OF n assms(6) ok this] have
    inv: "resync_inv kvmap answers ?ts (meta_heights (kvmap d)) (q, d', st)" .
  then have out: "meta_heights (kvmap d') - covered targets = meta_heights (kvmap d) - covered targets"
    unfolding resync_inv_def spec(2) by simp
  have "covered ?ts \<subseteq> meta_heights (kvmap d') \<and> BlocksSynced st = int (card (covered ?ts))" if "r = None"
    using inv assms(7) that by (auto simp: resync_inv_def)
  moreover have "CountBlocks ?ts = int (card (covered ?ts))" using CountBlocks_card [OF spec(1)] b by blast
  moreover have "h \<in> meta_heights (kvmap d') \<longleftrightarrow> h \<in> meta_heights (kvmap d)" if "h \<notin> covered targets" for h using out that by blast
  ultimately show ?thesis unfolding spec(2) by simp
qed

lemma fetch_in_resync:
  assumes "(service_step answers (resync_handler ti))\<^sup>*\<^sup>* yw yw'" and "rq_current q = Some (g, fst yw)"
  shows "(resync_step s ti answers)\<^sup>*\<^sup>* (q, snd yw) (q\<lparr>rq_current := Some (g, fst yw')\<rparr>, snd yw')"
  using assms(1)
proof (induction rule: rtranclp_induct)
  case base
  have "q\<lparr>rq_current := Some (g, fst yw)\<rparr> = q" using assms(2) by simp
  then show ?case by simp
next
  case (step a b)
  have "resync_step s ti answers (q\<lparr>rq_current := Some (g, fst a)\<rparr>, snd a) (q\<lparr>rq_current := Some (g, fst b)\<rparr>, snd b)"
    using resync_step.fetch [of "q\<lparr>rq_current := Some (g, fst a)\<rparr>" g "fst a" answers ti "snd a" "fst b" "snd b" s] step.hyps(2) by simp
  with step.IH show ?case by (rule rtranclp.rtrancl_into_rtrancl)
qed

lemma demo_resync:
  "\<exists>qds (q :: unit ResyncQueue) d' st. Resync demo_syncer [rng 5 5] [] = Inr qds \<and>
    (resync_step demo_syncer (KVTxIndexer demo_kv) demo_answers)\<^sup>*\<^sup>* qds (q, d', st) \<and> rq_result q = Some None"
proof -
  let ?ti = "KVTxIndexer demo_kv" and ?st = "\<lparr>BlocksSynced = 0, UniqueTxnsSeen = 0\<rparr>"
  define q0 :: "unit ResyncQueue" where "q0 = \<lparr>rq_todo = [rng 5 5], rq_current = None, rq_result = None\<rparr>"
  have "NormalizeRanges [rng 5 5] = [rng 5 5]" by (simp add: NormalizeRanges_def)
  then have r0: "Resync demo_syncer [rng 5 5] [] = Inr (q0, [], ?st)" by (simp add: Resync_def demo_syncer_def q0_def)
  obtain d' n logs x where d: "indexBlockWithStats demo_kv [] demo_block (Some demo_results) = Inr (d', n)" using demo_seen by blast
  define st' where "st' = ?st\<lparr>BlocksSynced := i64 1, UniqueTxnsSeen := i64 n\<rparr>"
  have h: "resync_handler ?ti 0 (one_block 5 (Some demo_block) demo_results :: unit Fetched) ([], ?st) = Some (None, d', st')"
    using d by (simp add: resync_handler_def one_block_def block_of_def indexBlockForResync_def recovering_def KVTxIndexer_def
        IndexBlockWithStatsAndResults_def st'_def)
  have a: "demo_answers 5 (Some demo_block)" "(0 :: int) \<le> 5" "5 < maxInt64" by (simp_all add: demo_answers_def maxInt64_def)
  obtain b c where bc: "(service_step demo_answers (resync_handler ?ti))\<^sup>*\<^sup>* ((SyncRange 1 5 5 False False :: unit Fetching), [], ?st) ((b, c), d', st')"
    "sync_pc c = Returned None" using single_block_run [where answers = demo_answers and handler = "resync_handler ?ti", OF a h] by blast
  define q1 :: "unit ResyncQueue" where "q1 = q0\<lparr>rq_todo := [], rq_current := Some (rng 5 5, SyncRange 1 5 5 False False)\<rparr>"
  let ?R = "resync_step demo_syncer ?ti demo_answers" and ?q = "q1\<lparr>rq_current := Some (rng 5 5, (b, c))\<rparr>"
  have "?R (q0, [], ?st) (q1, [], ?st)"
    using resync_step.next_target [of q0 "rng 5 5" "[]" demo_syncer ?ti demo_answers "([], ?st)"] by (simp add: q0_def q1_def demo_syncer_def)
  moreover have "?R\<^sup>*\<^sup>* (q1, [], ?st) (?q, d', st')" using fetch_in_resync [OF bc(1), of q1 "rng 5 5" demo_syncer] by (simp add: q1_def)
  moreover have "?R (?q, d', st') (resync_returned None ?q, d', st')" using bc(2) by (intro resync_step.returned) simp_all
  moreover have "?R (resync_returned None ?q, d', st') ((resync_returned None ?q)\<lparr>rq_result := Some None\<rparr>, d', st')"
    by (intro resync_step.finished) (simp_all add: resync_returned_def q1_def q0_def)
  ultimately have "?R\<^sup>*\<^sup>* (q0, [], ?st) ((resync_returned None ?q)\<lparr>rq_result := Some None\<rparr>, d', st')"
    by (meson converse_rtranclp_into_rtranclp rtranclp.rtrancl_into_rtrancl)
  with r0 show ?thesis by (intro exI [of _ "(q0, [], ?st)"] exI [of _ "(resync_returned None ?q)\<lparr>rq_result := Some None\<rparr>"] exI [of _ d'] exI [of _ st']) simp
qed

theorem Resync_complete_witness:
  "\<exists>(q :: unit ResyncQueue) qds d' st. Resync demo_syncer [rng 5 5] [] = Inr qds \<and>
    (resync_step demo_syncer (KVTxIndexer demo_kv) demo_answers)\<^sup>*\<^sup>* qds (q, d', st) \<and> 5 \<in> meta_heights (map_of d') \<and> BlocksSynced st = 1"
proof -
  obtain qds d' st and q :: "unit ResyncQueue" where r: "Resync demo_syncer [rng 5 5] [] = Inr qds"
    "(resync_step demo_syncer (KVTxIndexer demo_kv) demo_answers)\<^sup>*\<^sup>* qds (q, d', st)" "rq_result q = Some None" using demo_resync by blast
  have "CountBlocks (NormalizeRanges [rng 5 5]) = 1" by (simp add: NormalizeRanges_def CountBlocks_def i64_id is_i64_def minInt64_def maxInt64_def)
  moreover have "\<forall>g\<in>set [rng 5 5]. 0 \<le> Start g \<and> Start g \<le> End g \<and> End g < maxInt64" by (simp add: maxInt64_def)
  from Resync_complete [OF demo_hyps(1) demo_sync.node demo_hyps(7) this r] have
    "5 \<in> meta_heights (map_of d')" "BlocksSynced st = CountBlocks (NormalizeRanges [rng 5 5])" by (auto simp: covered_def)
  ultimately show ?thesis using r by auto
qed

end
