(* ===== verification/Cached_Block.thy ===== *)
theory Cached_Block
  imports Indexed_Block
begin

text \<open>
  Cached block metadata as an Ethereum header, \<open>internal/indexer/cache_collections.go\<close>: the
  validation of stored metadata and the header made of it. The metadata of an indexed block is valid,
  and its header is that of the block, under conditions that are made explicit.
\<close>

section \<open>Definitions\<close>

text \<open>A pointer to metadata is an option; \<open>None\<close> is nil, and as the result of the validation it is the
  absence of an error.\<close>

definition isHexHashString :: "Eth_Lib \<Rightarrow> string \<Rightarrow> bool" where
  "isHexHashString E s = (case hexutil_Decode E s of Inl _ \<Rightarrow> False | Inr bz \<Rightarrow> length bz = 32)"

definition CachedStateRoot :: "Eth_Lib \<Rightarrow> CachedBlockMeta option \<Rightarrow> bytes" where
  "CachedStateRoot E meta =
     (case meta of
        None \<Rightarrow> replicate 32 0
      | Some m \<Rightarrow> if bm_StateRoot m = [] then replicate 32 0 else FromHex E (bm_StateRoot m))"

definition CachedTransactionsRoot :: "Eth_Lib \<Rightarrow> CachedBlockMeta option \<Rightarrow> bool \<Rightarrow> hash" where
  "CachedTransactionsRoot E meta hasTransactions =
     (case meta of
        Some m \<Rightarrow>
          if bm_TransactionsRoot m \<noteq> [] then HexToHash E (bm_TransactionsRoot m)
          else if hasTransactions then 0 else EmptyRootHash E
      | None \<Rightarrow> if hasTransactions then 0 else EmptyRootHash E)"

definition CachedMiner :: "Eth_Lib \<Rightarrow> CachedBlockMeta option \<Rightarrow> address" where
  "CachedMiner E meta =
     (case meta of None \<Rightarrow> 0 | Some m \<Rightarrow> if bm_Miner m = [] then 0 else HexToAddress E (bm_Miner m))"

definition ValidateCachedBlockMeta :: "Eth_Lib \<Rightarrow> CachedBlockMeta option \<Rightarrow> go_error option" where
  "ValidateCachedBlockMeta E meta =
     (case meta of
        None \<Rightarrow> Some (Errorf ''cached block meta is nil'')
      | Some m \<Rightarrow>
          if bm_Height m < 1 then Some (Errorf ''cached block meta has invalid height'')
          else if bm_EthTxCount m < 0 then Some (Errorf ''cached block meta has invalid eth tx count'')
          else if bm_TxCount m < 0 then Some (Errorf ''cached block meta has invalid tx count'')
          else if \<not> isHexHashString E (bm_Hash m) then Some (Errorf ''cached block meta has invalid hash'')
          else if bm_ParentHash m \<noteq> [] \<and> \<not> isHexHashString E (bm_ParentHash m) then Some (Errorf ''cached block meta has invalid parent hash'')
          else if bm_StateRoot m \<noteq> [] \<and> \<not> isHexHashString E (bm_StateRoot m) then Some (Errorf ''cached block meta has invalid state root'')
          else if bm_Miner m \<noteq> [] \<and> \<not> IsHexAddress E (bm_Miner m) then Some (Errorf ''cached block meta has invalid miner'')
          else if bm_TransactionsRoot m \<noteq> [] \<and> \<not> isHexHashString E (bm_TransactionsRoot m)
          then Some (Errorf ''cached block meta has invalid transactions root'')
          else if bm_Bloom m \<noteq> [] \<and> (case hexutil_Decode E (bm_Bloom m) of Inl _ \<Rightarrow> True | Inr bz \<Rightarrow> length bz \<noteq> 256)
          then Some (Errorf ''cached block meta has invalid bloom length'')
          else if bm_BaseFee m = [] then None
          else (case DecodeBig E (bm_BaseFee m) of
                  Inl e \<Rightarrow> Some (Wrap e ''cached block meta has invalid base fee'')
                | Inr _ \<Rightarrow> None))"

text \<open>The fields of the header are set from the metadata; those the record \<open>EthHeader\<close> leaves out get
  constants.\<close>

definition HeaderFromCachedBlockMeta :: "Eth_Lib \<Rightarrow> CachedBlockMeta option \<Rightarrow> go_error + EthHeader" where
  "HeaderFromCachedBlockMeta E meta =
     (case (ValidateCachedBlockMeta E meta, meta) of
        (Some err, _) \<Rightarrow> Inl err
      | (None, None) \<Rightarrow> Inl (Errorf ''cached block meta is nil'')
      | (None, Some m) \<Rightarrow>
          let header =
            \<lparr>eh_ParentHash = HexToHash E (bm_ParentHash m), eh_UncleHash = EmptyUncleHash E, eh_Coinbase = CachedMiner E meta,
             eh_Root = bytes_to_hash (CachedStateRoot E meta), eh_TxHash = CachedTransactionsRoot E meta (0 < bm_EthTxCount m),
             eh_ReceiptHash = EmptyRootHash E, eh_Bloom = BytesToBloom E (FromHex E (bm_Bloom m)), eh_Number = bm_Height m,
             eh_GasLimit = bm_GasLimit m, eh_GasUsed = bm_GasUsed m, eh_Time = u64 (bm_Timestamp m), eh_BaseFee = None\<rparr>
          in if bm_BaseFee m = [] then Inr header
             else bindR (wrapR (\<lambda>e. Wrap e ''cached block meta has invalid base fee'') (DecodeBig E (bm_BaseFee m))) (\<lambda>baseFee.
               Inr (header\<lparr>eh_BaseFee := Some baseFee\<rparr>)))"

section \<open>The header of an indexed block\<close>

text \<open>The printers of go-ethereum never return an empty text, which the metadata uses for a missing value.\<close>

locale eth_text = eth_hex +
  assumes hash_nonempty: "Hash_Hex E h \<noteq> []"
    and address_nonempty: "Address_Hex E a \<noteq> []"
    and encode_nonempty: "hexutil_Encode E b \<noteq> []"
begin

lemma valid_hash [simp]: "isHexHashString E (Hash_Hex E h)"
  by (simp add: isHexHashString_def decode_hash)

lemma valid_bytes [simp]: "isHexHashString E (hexutil_Encode E b) \<longleftrightarrow> length b = 32"
  by (simp add: isHexHashString_def decode_hex)

end

interpretation std_text: eth_text std_eth
  by unfold_locales (simp_all add: std_eth_def)

text \<open>What a header must say about a block, its visible transactions and their logs.\<close>

definition header_of ::
  "('d, 'b) KVIndexer \<Rightarrow> Block \<Rightarrow> int option \<Rightarrow> int \<Rightarrow> hash list \<Rightarrow> RPCLog option list \<Rightarrow> EthHeader" where
  "header_of kv block baseFee gas hashes logs =
     \<lparr>eh_ParentHash = bytes_to_hash (h_LastBlockID (b_Header block)), eh_UncleHash = EmptyUncleHash (kv_eth kv),
      eh_Coinbase = bytes_to_addr (h_ProposerAddress (b_Header block)), eh_Root = bytes_to_hash (h_AppHash (b_Header block)),
      eh_TxHash = expected_root kv block hashes, eh_ReceiptHash = EmptyRootHash (kv_eth kv),
      eh_Bloom = BytesToBloom (kv_eth kv) (LogsBloom_of (kv_chain kv) (EthLogs logs)), eh_Number = h_Height (b_Header block),
      eh_GasLimit = cachedGasLimit kv, eh_GasUsed = gas, eh_Time = u64 (h_Time (b_Header block)), eh_BaseFee = baseFee\<rparr>"

text \<open>A block whose metadata passes the validation: a positive height, a state root and a bloom of the
  expected lengths, and a base fee that \<open>DecodeBig\<close> accepts.\<close>

definition describable :: "('d, 'b) KVIndexer \<Rightarrow> Block \<Rightarrow> int option \<Rightarrow> bool" where
  "describable kv block baseFee \<longleftrightarrow>
     1 \<le> h_Height (b_Header block) \<and> length (h_AppHash (b_Header block)) = 32 \<and> int (length (b_Txs block)) < 2 ^ 31 \<and>
     (\<forall>ls. length (LogsBloom_of (kv_chain kv) ls) = 256) \<and> (\<forall>fee. baseFee = Some fee \<longrightarrow> 0 \<le> fee \<and> fee < 2 ^ 256)"

lemma block_meta_header:
  assumes "eth_text (kv_eth kv)" and "describable kv block (c_baseFee (block_ctx kv block br))"
    and "all_visible_ok kv (block_ctx kv block br) vs" and "counters_ok kv s vs"
    and "transactions_root kv block s = Inr root" and "int (length vs) < 2 ^ 31"
  shows "HeaderFromCachedBlockMeta (kv_eth kv) (Some (block_meta_of kv block (block_ctx kv block br) s root)) =
    Inr (header_of kv block (blockBaseFeeFromResults (kv_chain kv) br) (s_blockGasUsed s) (map v_hash vs) (all_logs vs))"
proof -
  let ?E = "kv_eth kv" and ?C = "block_ctx kv block br" and ?fee = "blockBaseFeeFromResults (kv_chain kv) br"
  define m where "m = block_meta_of kv block ?C s root"
  note t = eth_text.hash_nonempty [OF assms(1)] eth_text.address_nonempty [OF assms(1)] eth_text.encode_nonempty [OF assms(1)]
    eth_text.valid_hash [OF assms(1)] eth_text.valid_bytes [OF assms(1)]
  have h: "eth_hex ?E" using assms(1) by (rule eth_text.axioms(1))
  note x = eth_hex.hash_hex [OF h] eth_hex.address_hex [OF h] eth_hex.from_hex [OF h] eth_hex.decode_hex [OF h] eth_hex.is_address [OF h]
  have d: "meta_describes kv block (map v_hash vs) (all_logs vs) m" unfolding m_def by (rule meta_describes_of [OF assms(3-6)])
  have m: "bm_StateRoot m = hexutil_Encode ?E (h_AppHash (b_Header block))" "bm_Miner m = Address_Hex ?E (blockMinerFromHeader block)"
    "bm_Timestamp m = h_Time (b_Header block)" "bm_TxCount m = int (length (b_Txs block))" "bm_BaseFee m = encodeOptionalBig ?E ?fee"
    "bm_GasLimit m = cachedGasLimit kv" "bm_GasUsed m = s_blockGasUsed s"
    using assms(2) i32_small [of "int (length (b_Txs block))"] by (simp_all add: m_def block_meta_of_def describable_def)
  have fee: "bm_BaseFee m = [] \<longleftrightarrow> ?fee = None" "\<And>f. ?fee = Some f \<Longrightarrow> DecodeBig ?E (bm_BaseFee m) = Inr f"
    using assms(2) eth_hex.big_nonempty [OF h] eth_hex.decode_big [OF h]
    by (auto simp: m(5) encodeOptionalBig_def describable_def split: option.splits)
  have bloom: "length (LogsBloom_of (kv_chain kv) ls) = 256" for ls using assms(2) by (simp add: describable_def)
  have "ValidateCachedBlockMeta ?E (Some m) = None"
    using assms(2) d fee by (cases ?fee) (simp_all add: ValidateCachedBlockMeta_def meta_describes_def m(1,2,4) t x describable_def)
  then have "HeaderFromCachedBlockMeta ?E (Some m) = Inr (header_of kv block ?fee (s_blockGasUsed s) (map v_hash vs) (all_logs vs))"
    using d fee
    by (cases ?fee) (simp_all add: HeaderFromCachedBlockMeta_def header_of_def CachedMiner_def CachedStateRoot_def CachedTransactionsRoot_def
        meta_describes_def m(1-3,6,7) t x blockMinerFromHeader_def Let_def)
  then show ?thesis by (simp add: m_def)
qed

text \<open>The metadata of a block with an empty application hash is written but can never be read as a header: the
  state root is stored as \<open>0x\<close>, which is neither missing nor 32 bytes long.\<close>

lemma empty_app_hash_refused:
  assumes "eth_text (kv_eth kv)" and "h_AppHash (b_Header block) = []"
  shows "\<exists>err. HeaderFromCachedBlockMeta (kv_eth kv) (Some (block_meta_of kv block C s root)) = Inl err"
proof -
  note t = eth_text.encode_nonempty [OF assms(1)] eth_text.valid_bytes [OF assms(1)]
  let ?m = "block_meta_of kv block C s root"
  have "bm_StateRoot ?m \<noteq> []" "\<not> isHexHashString (kv_eth kv) (bm_StateRoot ?m)" using assms(2) t by (simp_all add: block_meta_of_def)
  then have "\<exists>err. ValidateCachedBlockMeta (kv_eth kv) (Some ?m) = Some err" by (simp add: ValidateCachedBlockMeta_def)
  then show ?thesis by (auto simp: HeaderFromCachedBlockMeta_def)
qed

end
