(* ===== verification/Block_Numbers.thy ===== *)
theory Block_Numbers
  imports Chain_Types
begin

text \<open>
  Block numbers and tags of the JSON-RPC API, \<open>internal/evm/rpc/types/block.go\<close>. The number parsers of
  go-ethereum and of the \<open>cast\<close> package are the fields of \<open>Num_Lib\<close>; the JSON decoder of
  \<open>BlockNumberOrHash\<close> is an argument.
\<close>

section \<open>Definitions\<close>

text \<open>An error of \<open>hexutil\<close>: the sentinel the code asks for, or another one.\<close>

datatype hex_error = ErrMissingPrefix | HexError string

record Num_Lib =
  hexutil_DecodeUint64 :: "string \<Rightarrow> hex_error + int"
  cast_ToUint64 :: "string \<Rightarrow> int"
  Hash_UnmarshalText :: "string \<Rightarrow> go_error + hash"

definition EthPendingBlockNumber :: int where "EthPendingBlockNumber = -2"
definition EthLatestBlockNumber :: int where "EthLatestBlockNumber = -1"
definition EthEarliestBlockNumber :: int where "EthEarliestBlockNumber = 0"

definition BlockParamEarliest :: string where "BlockParamEarliest = ''earliest''"
definition BlockParamLatest :: string where "BlockParamLatest = ''latest''"
definition BlockParamFinalized :: string where "BlockParamFinalized = ''finalized''"
definition BlockParamSafe :: string where "BlockParamSafe = ''safe''"
definition BlockParamPending :: string where "BlockParamPending = ''pending''"

definition NewBlockNumber :: "int \<Rightarrow> int" where
  "NewBlockNumber n = (if minInt64 \<le> n \<and> n \<le> maxInt64 then n else EthLatestBlockNumber)"

definition strip_quotes :: "string \<Rightarrow> string" where
  "strip_quotes s = (if 2 \<le> length s \<and> hd s = CHR 0x22 \<and> last s = CHR 0x22 then butlast (tl s) else s)"

definition BlockNumber_UnmarshalJSON :: "Num_Lib \<Rightarrow> string \<Rightarrow> go_error + int" where
  "BlockNumber_UnmarshalJSON N data =
     (let input = strip_quotes (TrimSpace data) in
      if input = BlockParamEarliest then Inr EthEarliestBlockNumber
      else if input = BlockParamLatest \<or> input = BlockParamFinalized \<or> input = BlockParamSafe then Inr EthLatestBlockNumber
      else if input = BlockParamPending then Inr EthPendingBlockNumber
      else
        (case (case hexutil_DecodeUint64 N input of
                 Inl ErrMissingPrefix \<Rightarrow> Inr (cast_ToUint64 N input)
               | Inl (HexError m) \<Rightarrow> Inl (Errorf m)
               | Inr n \<Rightarrow> Inr n) of
           Inl err \<Rightarrow> Inl err
         | Inr blckNum \<Rightarrow>
             if maxInt64 < blckNum then Inl (Errorf ''block number larger than int64'') else Inr blckNum))"

definition BlockNumber_Int64 :: "int \<Rightarrow> int" where
  "BlockNumber_Int64 bn = (if bn < 0 then 0 else if bn = 0 then 1 else bn)"

definition TmHeight :: "int \<Rightarrow> int option" where
  "TmHeight bn = (if bn < 0 then None else Some (BlockNumber_Int64 bn))"

record BlockNumberOrHash =
  bnh_BlockNumber :: "int option"
  bnh_BlockHash :: "hash option"

definition checkUnmarshal :: "BlockNumberOrHash \<Rightarrow> go_error + BlockNumberOrHash" where
  "checkUnmarshal e =
     (if bnh_BlockNumber e \<noteq> None \<and> bnh_BlockHash e \<noteq> None
      then Inl (Errorf ''cannot specify both BlockHash and BlockNumber, choose one or the other'') else Inr e)"

definition decodeFromString :: "Num_Lib \<Rightarrow> string \<Rightarrow> BlockNumberOrHash \<Rightarrow> go_error + BlockNumberOrHash" where
  "decodeFromString N input bnh =
     (if input = BlockParamEarliest then Inr (bnh\<lparr>bnh_BlockNumber := Some EthEarliestBlockNumber\<rparr>)
      else if input = BlockParamLatest \<or> input = BlockParamFinalized then Inr (bnh\<lparr>bnh_BlockNumber := Some EthLatestBlockNumber\<rparr>)
      else if input = BlockParamPending then Inr (bnh\<lparr>bnh_BlockNumber := Some EthPendingBlockNumber\<rparr>)
      else if length input = 66
      then bindR (Hash_UnmarshalText N input) (\<lambda>h. Inr (bnh\<lparr>bnh_BlockHash := Some h\<rparr>))
      else
        (case hexutil_DecodeUint64 N input of
           Inl e \<Rightarrow> Inl (Errorf (case e of ErrMissingPrefix \<Rightarrow> ''hex string without 0x prefix'' | HexError m \<Rightarrow> m))
         | Inr n \<Rightarrow>
             if maxInt64 < n then Inl (Errorf ''integer overflow'') else Inr (bnh\<lparr>bnh_BlockNumber := Some n\<rparr>)))"

text \<open>The two attempts of the JSON decoder: as an object, then as a string.\<close>

definition BlockNumberOrHash_UnmarshalJSON ::
  "Num_Lib \<Rightarrow> (string \<Rightarrow> go_error + BlockNumberOrHash) \<Rightarrow> (string \<Rightarrow> go_error + string) \<Rightarrow> string \<Rightarrow> BlockNumberOrHash \<Rightarrow>
   go_error + BlockNumberOrHash" where
  "BlockNumberOrHash_UnmarshalJSON N object text_of data bnh =
     (case object data of
        Inr e \<Rightarrow> checkUnmarshal e
      | Inl _ \<Rightarrow> bindR (text_of data) (\<lambda>input. decodeFromString N input bnh))"

section \<open>Lemmas\<close>

text \<open>The parsed number is a tag or a height that fits; \<open>Int64\<close> of it is never negative.\<close>

lemma BlockNumber_UnmarshalJSON_range:
  assumes "\<forall>s n. hexutil_DecodeUint64 N s = Inr n \<longrightarrow> 0 \<le> n" and "\<forall>s. 0 \<le> cast_ToUint64 N s"
    and "BlockNumber_UnmarshalJSON N data = Inr bn"
  shows "-2 \<le> bn \<and> bn \<le> maxInt64 \<and> 0 \<le> BlockNumber_Int64 bn"
proof -
  let ?i = "strip_quotes (TrimSpace data)"
  have pos: "0 \<le> n" if "hexutil_DecodeUint64 N ?i = Inr n" for n using assms(1) that by blast
  have "-2 \<le> bn \<and> bn \<le> maxInt64"
    using assms(2,3) pos
    by (cases "hexutil_DecodeUint64 N ?i" rule: sum.exhaust)
      (auto simp: BlockNumber_UnmarshalJSON_def Let_def EthPendingBlockNumber_def EthLatestBlockNumber_def
        EthEarliestBlockNumber_def maxInt64_def split: if_splits hex_error.splits intro: order_trans [of "-2" 0])
  then show ?thesis by (simp add: BlockNumber_Int64_def)
qed

lemma strip_quotes_quoted [simp]: "strip_quotes (CHR 0x22 # s @ [CHR 0x22]) = s"
  by (simp add: strip_quotes_def)

text \<open>The comment of \<open>UnmarshalJSON\<close> promises an error for an unknown string; a string without the prefix
  \<open>0x\<close> that is no number is read as 0 by \<open>cast.ToUint64\<close>, which is the tag \<open>earliest\<close>.\<close>

lemma unknown_tag_is_earliest:
  assumes "hexutil_DecodeUint64 N ''foo'' = Inl ErrMissingPrefix" and "cast_ToUint64 N ''foo'' = 0"
  shows "BlockNumber_UnmarshalJSON N ''foo'' = Inr EthEarliestBlockNumber"
  using assms
  by (simp add: BlockNumber_UnmarshalJSON_def Let_def strip_quotes_def TrimSpace_visible visible_ascii_def BlockParamEarliest_def BlockParamLatest_def
      BlockParamFinalized_def BlockParamSafe_def BlockParamPending_def EthEarliestBlockNumber_def maxInt64_def)

text \<open>The tag \<open>safe\<close> is known to the parser of block numbers and not to the one of numbers or hashes.\<close>

lemma safe_tag_differs:
  assumes "hexutil_DecodeUint64 N ''safe'' = Inl ErrMissingPrefix"
  shows "BlockNumber_UnmarshalJSON N ''safe'' = Inr EthLatestBlockNumber"
    and "decodeFromString N ''safe'' bnh = Inl (Errorf ''hex string without 0x prefix'')"
  using assms
  by (simp_all add: BlockNumber_UnmarshalJSON_def decodeFromString_def Let_def strip_quotes_def TrimSpace_visible visible_ascii_def BlockParamEarliest_def
      BlockParamLatest_def BlockParamFinalized_def BlockParamSafe_def BlockParamPending_def)

end
