(* ===== verification/Backend_Core.thy ===== *)
theory Backend_Core
  imports Cached_Block Sync_Status Block_Numbers
begin

text \<open>
  The RPC backend, \<open>internal/evm/rpc/backend\<close>: its configuration and the services it calls as the record
  \<open>Backend\<close>, the state its calls change as \<open>BackendState\<close>, the in-memory cache of decoded values of
  \<open>materialized_cache.go\<close>, and the lookups of \<open>blocks.go\<close> that every other call starts with. The node is a
  parameter: the answers of its queries are the fields of \<open>Node\<close>.
\<close>

section \<open>Definitions\<close>

subsection \<open>Calls\<close>

text \<open>A backend call returns a value or an error and the new state; \<open>None\<close> is a panic, which the RPC server
  recovers after the call is lost. A call without effects on the state is a \<open>reply\<close>.\<close>

type_synonym 'a reply = "(go_error + 'a) option"
type_synonym ('s, 'a) call = "'s \<Rightarrow> ((go_error + 'a) \<times> 's) option"

definition ret :: "'a \<Rightarrow> ('s, 'a) call" where
  "ret x = (\<lambda>s. Some (Inr x, s))"

definition fail :: "go_error \<Rightarrow> ('s, 'a) call" where
  "fail e = (\<lambda>s. Some (Inl e, s))"

definition query :: "'a reply \<Rightarrow> ('s, 'a) call" where
  "query r = (\<lambda>s. map_option (\<lambda>x. (x, s)) r)"

text \<open>Run a call and look at its value and its error, as \<open>v, err := f()\<close> does; \<open>andThen\<close> returns an error at once.\<close>

definition attempt :: "('s, 'a) call \<Rightarrow> (go_error + 'a \<Rightarrow> ('s, 'b) call) \<Rightarrow> ('s, 'b) call" where
  "attempt m f = (\<lambda>s. case m s of None \<Rightarrow> None | Some (r, s') \<Rightarrow> f r s')"

definition andThen :: "('s, 'a) call \<Rightarrow> ('a \<Rightarrow> ('s, 'b) call) \<Rightarrow> ('s, 'b) call" where
  "andThen m f = attempt m (\<lambda>r. case r of Inl e \<Rightarrow> fail e | Inr x \<Rightarrow> f x)"

definition effect :: "('s \<Rightarrow> 's) \<Rightarrow> ('s, 'a) call \<Rightarrow> ('s, 'a) call" where
  "effect f m = (\<lambda>s. m (f s))"

definition bindP :: "'a reply \<Rightarrow> ('a \<Rightarrow> 'b reply) \<Rightarrow> 'b reply" where
  "bindP m f = (case m of None \<Rightarrow> None | Some (Inl e) \<Rightarrow> Some (Inl e) | Some (Inr x) \<Rightarrow> f x)"

subsection \<open>The node\<close>

record ResultBlock =
  rb_BlockID :: bytes
  rb_Block :: "Block option"

text \<open>The queries of the CometBFT client and of the gRPC clients: \<open>Block\<close>, \<open>BlockByHash\<close>, \<open>BlockResults\<close>,
  \<open>TxSearch\<close> and \<open>UnconfirmedTxs\<close>; the height headers returned with \<open>Params\<close>; \<open>GetEipBaseFee\<close> rounded to an
  integer; the account of a validator, decoded from bech32 or an error; and the gas limit of the consensus
  parameters.\<close>

record Node =
  node_Block :: "int \<Rightarrow> go_error + ResultBlock"
  node_BlockByHash :: "hash \<Rightarrow> go_error + ResultBlock option"
  node_BlockResults :: "int \<Rightarrow> go_error + ResultBlockResults option"
  node_TxSearch :: "string \<Rightarrow> go_error + ResultTx list"
  node_PendingTxs :: "go_error + SdkTx list"

record Node_Queries =
  q_Params_height :: "go_error + string list"
  q_EipBaseFee :: "int \<Rightarrow> go_error + int option"
  q_ValidatorAccount :: "int \<Rightarrow> bytes \<Rightarrow> go_error + (go_error + bytes)"
  q_BlockMaxGas :: "int \<Rightarrow> go_error + int"
  q_DecodeTxLogs :: "bytes \<Rightarrow> int \<Rightarrow> go_error + EthLog option list"
  q_UnwrapEthereumMsg :: "SdkTx \<Rightarrow> hash \<Rightarrow> go_error + MsgEthereumTx"
  q_EventTypeBlockBloom :: string
  q_AttributeKeyEthereumBloom :: string

subsection \<open>The materialized cache\<close>

text \<open>The cache of \<open>hashicorp/golang-lru\<close>: \<open>Get\<close> also marks its key as recently used.\<close>

record ('k, 'v, 'c) lru =
  lru_New :: "int \<Rightarrow> 'c option"
  lru_Get :: "'c \<Rightarrow> 'k \<Rightarrow> 'v option \<times> 'c"
  lru_Add :: "'c \<Rightarrow> 'k \<Rightarrow> 'v \<Rightarrow> 'c"

definition materializedReceiptCacheSize :: int where "materializedReceiptCacheSize = 8192"
definition materializedBlockLogsCacheSize :: int where "materializedBlockLogsCacheSize = 512"

record ('d, 'b, 'rc, 'lc) Backend =
  be_eth :: Eth_Lib
  be_chain :: Chain_Lib
  be_indexer :: "('d, 'b) KVIndexer option"
  be_VirtualizeCosmosEvents :: bool
  be_OfflineRPCOnly :: bool
  be_chainID :: int
  be_Client :: "Node option"
  be_queries :: Node_Queries
  be_receiptCache :: "(hash, ReceiptMap, 'rc) lru"
  be_logsCache :: "(int, RPCLog option list, 'lc) lru"

record ('rc, 'lc) BackendState =
  m_receipts :: 'rc
  m_blockLogs :: 'lc
  syncStatus :: "Tracker option"

type_synonym ('rc, 'lc, 'a) backend_call = "(('rc, 'lc) BackendState, 'a) call"

definition newMaterializedCache :: "('d, 'b, 'rc, 'lc) Backend \<Rightarrow> Tracker option \<Rightarrow> ('rc, 'lc) BackendState option" where
  "newMaterializedCache B status =
     (case (lru_New (be_receiptCache B) materializedReceiptCacheSize, lru_New (be_logsCache B) materializedBlockLogsCacheSize) of
        (Some rc, Some lc) \<Rightarrow> Some \<lparr>m_receipts = rc, m_blockLogs = lc, syncStatus = status\<rparr>
      | _ \<Rightarrow> None)"

definition getReceipt :: "('d, 'b, 'rc, 'lc) Backend \<Rightarrow> hash \<Rightarrow> ('rc, 'lc, ReceiptMap option) backend_call" where
  "getReceipt B h = (\<lambda>s. case lru_Get (be_receiptCache B) (m_receipts s) h of (v, c) \<Rightarrow> Some (Inr v, s\<lparr>m_receipts := c\<rparr>))"

definition addReceipt :: "('d, 'b, 'rc, 'lc) Backend \<Rightarrow> hash \<Rightarrow> ReceiptMap \<Rightarrow> ('rc, 'lc) BackendState \<Rightarrow> ('rc, 'lc) BackendState" where
  "addReceipt B h receipt s = s\<lparr>m_receipts := lru_Add (be_receiptCache B) (m_receipts s) h receipt\<rparr>"

definition getBlockLogs :: "('d, 'b, 'rc, 'lc) Backend \<Rightarrow> int \<Rightarrow> ('rc, 'lc, RPCLog option list option) backend_call" where
  "getBlockLogs B h = (\<lambda>s. case lru_Get (be_logsCache B) (m_blockLogs s) h of (v, c) \<Rightarrow> Some (Inr v, s\<lparr>m_blockLogs := c\<rparr>))"

definition addBlockLogs :: "('d, 'b, 'rc, 'lc) Backend \<Rightarrow> int \<Rightarrow> RPCLog option list \<Rightarrow> ('rc, 'lc) BackendState \<Rightarrow> ('rc, 'lc) BackendState" where
  "addBlockLogs B h logs s = s\<lparr>m_blockLogs := lru_Add (be_logsCache B) (m_blockLogs s) h logs\<rparr>"

text \<open>\<open>if b.syncStatus != nil\<close> around a counter.\<close>

definition record_status :: "(Tracker \<Rightarrow> Tracker) \<Rightarrow> ('rc, 'lc) BackendState \<Rightarrow> ('rc, 'lc) BackendState" where
  "record_status f s = s\<lparr>syncStatus := map_option f (syncStatus s)\<rparr>"

subsection \<open>Cached metadata\<close>

definition isIndexerCacheMiss :: "go_error \<Rightarrow> bool" where
  "isIndexerCacheMiss err = errors_Is err ErrCacheMiss"

definition cachedMetaMatchesVirtualization :: "('d, 'b, 'rc, 'lc) Backend \<Rightarrow> CachedBlockMeta option \<Rightarrow> bool" where
  "cachedMetaMatchesVirtualization B meta =
     (case meta of None \<Rightarrow> False | Some m \<Rightarrow> bm_VirtualizedCosmosEvents m = be_VirtualizeCosmosEvents B)"

definition indexedBlockHeight :: "('d, 'b, 'rc, 'lc) Backend \<Rightarrow> 'd \<Rightarrow> int \<Rightarrow> go_error + int" where
  "indexedBlockHeight B d blockNum =
     (case be_indexer B of
        None \<Rightarrow> Inr (-1)
      | Some kv \<Rightarrow> if blockNum < 0 then LoadLastBlock (kv_db kv) d else Inr (BlockNumber_Int64 blockNum))"

definition cachedBlockMetaByNumber :: "('d, 'b, 'rc, 'lc) Backend \<Rightarrow> 'd \<Rightarrow> int \<Rightarrow> go_error + CachedBlockMeta option" where
  "cachedBlockMetaByNumber B d blockNum =
     (case be_indexer B of
        None \<Rightarrow> Inr None
      | Some kv \<Rightarrow>
          bindR (indexedBlockHeight B d blockNum) (\<lambda>h.
            if h < 1 then Inr None else bindR (GetBlockMetaByHeight kv d h) (\<lambda>m. Inr (Some m))))"

definition cachedBlockMetaByHash :: "('d, 'b, 'rc, 'lc) Backend \<Rightarrow> 'd \<Rightarrow> hash \<Rightarrow> go_error + CachedBlockMeta option" where
  "cachedBlockMetaByHash B d h =
     (case be_indexer B of
        None \<Rightarrow> Inr None
      | Some kv \<Rightarrow> bindR (GetBlockMetaByHash kv d h) (\<lambda>m. Inr (Some m)))"

definition cacheOnlyDynamicBlockNumber :: "('d, 'b, 'rc, 'lc) Backend \<Rightarrow> int \<Rightarrow> bool" where
  "cacheOnlyDynamicBlockNumber B blockNum \<longleftrightarrow> be_indexer B \<noteq> None \<and> blockNum < 0"

subsection \<open>Blocks of the node\<close>

definition BlockNumber_latest :: "('d, 'b, 'rc, 'lc) Backend \<Rightarrow> 'd \<Rightarrow> go_error + int" where
  "BlockNumber_latest B d =
     (case be_indexer B of
        Some kv \<Rightarrow> bindR (LoadLastBlock (kv_db kv) d) (\<lambda>last. Inr (if 0 \<le> last then u64 last else 0))
      | None \<Rightarrow>
          bindR (q_Params_height (be_queries B)) (\<lambda>hdr.
            case hdr of
              [x] \<Rightarrow> (case ParseUint x 64 of Inl _ \<Rightarrow> Inl (Errorf ''failed to parse block height'') | Inr n \<Rightarrow> Inr (int n))
            | _ \<Rightarrow> Inl (Errorf ''unexpected gRPC header length'')))"

definition TendermintBlockByNumber :: "('d, 'b, 'rc, 'lc) Backend \<Rightarrow> 'd \<Rightarrow> int \<Rightarrow> go_error + ResultBlock option" where
  "TendermintBlockByNumber B d blockNum =
     bindR (if BlockNumber_Int64 blockNum \<le> 0 then bindR (BlockNumber_latest B d) (\<lambda>n. Inr (i64 n)) else Inr (BlockNumber_Int64 blockNum)) (\<lambda>h.
       case be_Client B of
         None \<Rightarrow> Inl (Errorf ''rpc client is nil'')
       | Some node \<Rightarrow> bindR (node_Block node h) (\<lambda>rb. Inr (if rb_Block rb = None then None else Some rb)))"

definition TendermintBlockResultByNumber :: "('d, 'b, 'rc, 'lc) Backend \<Rightarrow> int \<Rightarrow> go_error + ResultBlockResults option" where
  "TendermintBlockResultByNumber B h =
     (case be_Client B of None \<Rightarrow> Inl (Errorf ''invalid rpc client'') | Some node \<Rightarrow> node_BlockResults node h)"

definition TendermintBlockByHash :: "('d, 'b, 'rc, 'lc) Backend \<Rightarrow> hash \<Rightarrow> go_error + ResultBlock option" where
  "TendermintBlockByHash B blockHash =
     (case be_Client B of
        None \<Rightarrow> Inl (Errorf ''invalid rpc client'')
      | Some node \<Rightarrow>
          bindR (node_BlockByHash node blockHash) (\<lambda>rb.
            Inr (case rb of None \<Rightarrow> None | Some r \<Rightarrow> if rb_Block r = None then None else Some r)))"

definition BlockNumberFromTendermintByHash :: "('d, 'b, 'rc, 'lc) Backend \<Rightarrow> 'd \<Rightarrow> hash \<Rightarrow> go_error + int" where
  "BlockNumberFromTendermintByHash B d blockHash =
     (case cachedBlockMetaByHash B d blockHash of
        Inr (Some meta) \<Rightarrow> Inr (bm_Height meta)
      | r \<Rightarrow>
          if (case r of Inl err \<Rightarrow> \<not> isIndexerCacheMiss err | Inr _ \<Rightarrow> False) \<and> be_OfflineRPCOnly B
          then Inl (case r of Inl err \<Rightarrow> err | Inr _ \<Rightarrow> Errorf ''block not found for hash'')
          else if be_OfflineRPCOnly B then Inl (Errorf ''block not found for hash'')
          else
            bindR (TendermintBlockByHash B blockHash) (\<lambda>rb.
              case rb of
                None \<Rightarrow> Inl (Errorf ''block not found for hash'')
              | Some r \<Rightarrow> Inr (case rb_Block r of None \<Rightarrow> 0 | Some block \<Rightarrow> h_Height (b_Header block))))"

definition BlockNumberFromTendermint :: "('d, 'b, 'rc, 'lc) Backend \<Rightarrow> 'd \<Rightarrow> BlockNumberOrHash \<Rightarrow> go_error + int" where
  "BlockNumberFromTendermint B d bnh =
     (case (bnh_BlockHash bnh, bnh_BlockNumber bnh) of
        (None, None) \<Rightarrow> Inl (Errorf ''types BlockHash and BlockNumber cannot be both nil'')
      | (Some h, _) \<Rightarrow> bindR (BlockNumberFromTendermintByHash B d h) (\<lambda>n. Inr (NewBlockNumber n))
      | (None, Some n) \<Rightarrow> Inr n)"

fun ethereum_msgs :: "Msg list \<Rightarrow> MsgEthereumTx list" where
  "ethereum_msgs [] = []"
| "ethereum_msgs (EthereumMsg m # ms) = m # ethereum_msgs ms"
| "ethereum_msgs (OtherMsg _ # ms) = ethereum_msgs ms"

definition EthMsgsFromTendermintBlock :: "('d, 'b, 'rc, 'lc) Backend \<Rightarrow> Block option \<Rightarrow> MsgEthereumTx list" where
  "EthMsgsFromTendermintBlock B block =
     (case block of
        None \<Rightarrow> []
      | Some b \<Rightarrow>
          concat (map (\<lambda>tx. case TxDecoder (be_chain B) tx of Inl _ \<Rightarrow> [] | Inr decodedTx \<Rightarrow> ethereum_msgs (GetMsgs decodedTx)) (b_Txs b)))"

text \<open>\<open>BaseFee\<close> of \<open>chain_info.go\<close>: from the events of the block, else from the fee module.\<close>

definition BaseFee :: "('d, 'b, 'rc, 'lc) Backend \<Rightarrow> ResultBlockResults \<Rightarrow> go_error + int option" where
  "BaseFee B br =
     (case BaseFeeFromEvents (be_chain B) (br_FinalizeBlockEvents br) of
        Some fee \<Rightarrow> Inr (Some fee)
      | None \<Rightarrow> q_EipBaseFee (be_queries B) (br_Height br))"

text \<open>The callers log an error of \<open>BaseFee\<close> and go on without a base fee.\<close>

definition base_fee :: "('d, 'b, 'rc, 'lc) Backend \<Rightarrow> ResultBlockResults \<Rightarrow> int option" where
  "base_fee B br = (case BaseFee B br of Inl _ \<Rightarrow> None | Inr fee \<Rightarrow> fee)"

section \<open>The contract of the cache\<close>

text \<open>What the backend relies on: a lookup returns what is stored and changes nothing but the order of
  eviction; after an insertion the new entry may be there, and nothing is there that was not inserted.\<close>

locale lru_cache =
  fixes L :: "('k, 'v, 'c) lru" and content :: "'c \<Rightarrow> 'k \<rightharpoonup> 'v"
  assumes new_law: "lru_New L n = Some c \<Longrightarrow> content c = Map.empty"
    and get_law: "lru_Get L c k = (r, c') \<Longrightarrow> r = content c k \<and> content c' = content c"
    and add_law: "content (lru_Add L c k v) \<subseteq>\<^sub>m (content c)(k \<mapsto> v)"
begin

lemma add_entry:
  assumes "content (lru_Add L c k v) k' = Some w"
  shows "k' = k \<and> w = v \<or> content c k' = Some w"
proof -
  have "((content c)(k \<mapsto> v)) k' = Some w"
    using add_law [of c k v, unfolded map_le_def, rule_format, of k'] assms by (simp add: domI del: fun_upd_apply)
  then show ?thesis by (auto split: if_splits)
qed

end

text \<open>A concrete cache: the entries in the order of their last use, cut at the capacity.\<close>

definition list_lru :: "('k, 'v, nat \<times> ('k \<times> 'v) list) lru" where
  "list_lru =
     \<lparr>lru_New = (\<lambda>n. if n \<le> 0 then None else Some (nat n, [])),
      lru_Get = (\<lambda>(n, es) k. case map_of es k of
                   None \<Rightarrow> (None, (n, es))
                 | Some v \<Rightarrow> (Some v, (n, (k, v) # filter (\<lambda>e. fst e \<noteq> k) es))),
      lru_Add = (\<lambda>(n, es) k v. (n, take n ((k, v) # filter (\<lambda>e. fst e \<noteq> k) es)))\<rparr>"

lemma map_of_filter_neq: "map_of (filter (\<lambda>e. fst e \<noteq> k) es) k' = (if k' = k then None else map_of es k')"
  by (induction es) auto

lemma map_of_take_le: "map_of (take n es) \<subseteq>\<^sub>m map_of es"
  using map_le_map_add [of "map_of (take n es)" "map_of (drop n es)"] by (simp flip: map_of_append)

definition lru_content :: "nat \<times> ('k \<times> 'v) list \<Rightarrow> 'k \<rightharpoonup> 'v" where
  "lru_content c = map_of (snd c)"

interpretation recent: lru_cache list_lru lru_content
proof
  fix c :: "nat \<times> ('k \<times> 'v) list" and k v
  have "map_of ((k, v) # filter (\<lambda>e. fst e \<noteq> k) (snd c)) = (map_of (snd c))(k \<mapsto> v)"
    by (auto simp: fun_eq_iff map_of_filter_neq)
  then show "lru_content (lru_Add list_lru c k v) \<subseteq>\<^sub>m (lru_content c)(k \<mapsto> v)"
    using map_of_take_le [of "fst c" "(k, v) # filter (\<lambda>e. fst e \<noteq> k) (snd c)"]
    by (simp add: list_lru_def lru_content_def case_prod_beta)
next
  fix c c' :: "nat \<times> ('k \<times> 'v) list" and k r
  assume "lru_Get list_lru c k = (r, c')"
  then show "r = lru_content c k \<and> lru_content c' = lru_content c"
    by (auto simp: list_lru_def lru_content_def case_prod_beta fun_eq_iff map_of_filter_neq split: option.splits)
qed (auto simp: list_lru_def lru_content_def split: if_splits)

section \<open>Lemmas\<close>

named_theorems call_simps \<open>rewriting of backend calls\<close>

lemma call_run [call_simps]:
  "ret x s = Some (Inr x, s)" "fail e s = Some (Inl e, s)" "effect f m s = m (f s)"
  "query (Some r) s = Some (r, s)" "query None s = None"
  by (simp_all add: ret_def fail_def effect_def query_def)

lemma attempt_run [call_simps]:
  "m s = Some (r, s') \<Longrightarrow> attempt m f s = f r s'" "m s = None \<Longrightarrow> attempt m f s = None"
  by (simp_all add: attempt_def)

lemma andThen_run [call_simps]:
  "m s = Some (Inr x, s') \<Longrightarrow> andThen m f s = f x s'" "m s = Some (Inl e, s') \<Longrightarrow> andThen m f s = Some (Inl e, s')"
  by (simp_all add: andThen_def attempt_def fail_def)

lemma bindP_run [simp]: "bindP (Some (Inr x)) f = f x" "bindP (Some (Inl e)) f = Some (Inl e)" "bindP None f = None"
  by (simp_all add: bindP_def)

end
