(* ===== verification/Live_View.thy ===== *)
theory Live_View
  imports Backend_Core
begin

text \<open>
  The live view of a block, \<open>internal/evm/rpc/backend/virtual.go\<close>: with virtualization, the backend can
  build the transactions, receipts and logs of a block from the answers of the node, without the
  store. The view is related to what the indexer stores for the same block: clients see the same
  block whichever way it is served.
\<close>

section \<open>Definitions\<close>

definition effectiveGasPrice :: "Chain_Lib \<Rightarrow> EthTx \<Rightarrow> int option \<Rightarrow> int" where
  "effectiveGasPrice L tx baseFee =
     (if et_Type tx \<noteq> DynamicFeeTxType then et_GasPrice tx
      else (case baseFee of
              None \<Rightarrow> et_GasPrice tx
            | Some fee \<Rightarrow> EffectiveGasPrice_of L fee (et_GasFeeCap tx) (et_GasTipCap tx)))"

definition liveReceiptMap ::
  "Eth_Lib \<Rightarrow> Chain_Lib \<Rightarrow> int \<Rightarrow> int \<Rightarrow> int \<Rightarrow> RPCLog option list \<Rightarrow> hash \<Rightarrow> address option \<Rightarrow> string \<Rightarrow> int \<Rightarrow> int \<Rightarrow> int \<Rightarrow>
   address \<Rightarrow> address option \<Rightarrow> int \<Rightarrow> ReceiptMap" where
  "liveReceiptMap E L status cumulativeGasUsed gasUsed logs txHash contractAddress blockHash blockNumber transactionIndex price sender to txType =
     \<lparr>rm_status = status, rm_cumulativeGasUsed = cumulativeGasUsed, rm_logsBloom = BytesToBloom E (LogsBloom_of L (EthLogs logs)),
      rm_logs = logs, rm_transactionHash = txHash, rm_contractAddress = contractAddress, rm_gasUsed = gasUsed, rm_blockHash = blockHash,
      rm_blockNumber = blockNumber, rm_transactionIndex = transactionIndex, rm_effectiveGasPrice = Some price, rm_from = sender,
      rm_to = to, rm_type = txType, rm_reason = None, rm_vmError = None\<rparr>"

text \<open>The view, with the counters of the loops.\<close>

record LiveView =
  l_Transactions :: "RPCTransaction list"
  l_Receipts :: "ReceiptMap list"
  l_Logs :: "RPCLog option list list"

record LiveState = LiveView +
  l_logIndex :: int
  l_rpcTxIndex :: int
  l_gasBefore :: int

definition live_start :: LiveState where
  "live_start = \<lparr>l_Transactions = [], l_Receipts = [], l_Logs = [], l_logIndex = 0, l_rpcTxIndex = 0, l_gasBefore = 0\<rparr>"

text \<open>The closures \<open>virtualLogContext\<close>, \<open>appendLogs\<close> and \<open>appendVirtualTx\<close>.\<close>

definition live_log_context :: "BlockCtx \<Rightarrow> int \<Rightarrow> hash \<Rightarrow> int \<Rightarrow> LogContext" where
  "live_log_context C logIndex txHash txIndex =
     \<lparr>lc_BlockHash = c_hash C, lc_BlockNumber = u64 (c_height C), lc_TxHash = txHash, lc_TxIndex = u64 txIndex,
      lc_FirstLogIndex = logIndex, lc_CosmosHash = None\<rparr>"

definition appendLogs :: "RPCLog option list \<Rightarrow> LiveState \<Rightarrow> LiveState" where
  "appendLogs logs l = l\<lparr>l_Logs := l_Logs l @ [logs]\<rparr>"

definition appendVirtualTx :: "Eth_Lib \<Rightarrow> Chain_Lib \<Rightarrow> VirtualTx \<Rightarrow> LiveState \<Rightarrow> LiveState" where
  "appendVirtualTx E L tx l =
     appendLogs (tx_logs tx)
       (l\<lparr>l_Transactions := l_Transactions l @ [Transaction tx], l_Receipts := l_Receipts l @ [Receipt_ToMap E L (TxReceipt tx)]\<rparr>)"

text \<open>Count the logs, append, count the transaction: the body shared by the virtual transactions.\<close>

definition live_virtual :: "Eth_Lib \<Rightarrow> Chain_Lib \<Rightarrow> VirtualTx \<Rightarrow> LiveState \<Rightarrow> LiveState" where
  "live_virtual E L tx l =
     (let l1 = appendVirtualTx E L tx (l\<lparr>l_logIndex := u64 (l_logIndex l + int (length (tx_logs tx)))\<rparr>)
      in l1\<lparr>l_rpcTxIndex := u64 (l_rpcTxIndex l1 + 1)\<rparr>)"

definition live_block_tx :: "Eth_Lib \<Rightarrow> Chain_Lib \<Rightarrow> int \<Rightarrow> BlockCtx \<Rightarrow> LiveState \<Rightarrow> hash \<Rightarrow> EthLog option list \<Rightarrow> int \<Rightarrow> LiveState" where
  "live_block_tx E L chainID C l txHash events cumulative =
     (if events = [] then l
      else live_virtual E L (NewBlockTx E txHash events (live_log_context C (l_logIndex l) txHash (l_rpcTxIndex l)) (Some chainID) cumulative) l)"

text \<open>Gas, failure and hash of a message; \<open>parsedTxs\<close> is nil when the result could not be parsed.\<close>

definition live_outcome :: "Chain_Lib \<Rightarrow> ExecTxResult \<Rightarrow> ParsedTxs option \<Rightarrow> int \<Rightarrow> MsgEthereumTx \<Rightarrow> int \<times> bool \<times> hash" where
  "live_outcome L result parsedTxs msgIndex ethMsg =
     (if Code result \<noteq> 0 \<and> Codespace result \<noteq> evm_ModuleName L then (GetGas ethMsg, True, EthMsg_Hash ethMsg)
      else case parsedTxs of
        None \<Rightarrow> (GetGas ethMsg, False, EthMsg_Hash ethMsg)
      | Some txs \<Rightarrow>
          (case GetTxByMsgIndex txs msgIndex of
             None \<Rightarrow> (GetGas ethMsg, Code result \<noteq> 0, EthMsg_Hash ethMsg)
           | Some parsedTx \<Rightarrow> (p_GasUsed parsedTx, p_Failed parsedTx, p_Hash parsedTx)))"

definition live_message ::
  "Eth_Lib \<Rightarrow> Chain_Lib \<Rightarrow> int \<Rightarrow> BlockCtx \<Rightarrow> TxCtx \<Rightarrow> ParsedTxs option \<Rightarrow> LiveState \<Rightarrow> int \<Rightarrow> int \<Rightarrow> MsgEthereumTx \<Rightarrow> (LiveState \<times> int) reply" where
  "live_message E L chainID C T parsedTxs l cumulative msgIndex ethMsg =
     (case AsTransaction ethMsg of
        None \<Rightarrow> Some (Inl (Errorf ''failed to unpack tx data''))
      | Some txData \<Rightarrow>
          let (txGasUsed, txFailed, txHash) = live_outcome L (t_result T) parsedTxs msgIndex ethMsg;
              cumulative' = u64 (cumulative + txGasUsed);
              evmLogs = (case DecodeMsgLogs L (Data (t_result T)) msgIndex (u64 (c_height C)) of Inl _ \<Rightarrow> [] | Inr ls \<Rightarrow> ls);
              nativeLogs = SetLogMetadata (WrapLogs evmLogs False None) (live_log_context C (l_logIndex l) txHash (l_rpcTxIndex l));
              logIndex1 = u64 (l_logIndex l + int (length nativeLogs));
              virtualLogs = LogsForMessage (t_virtual T) msgIndex (int (length (t_msgs T))) (live_log_context C logIndex1 txHash (l_rpcTxIndex l));
              logIndex2 = u64 (logIndex1 + int (length virtualLogs));
              logs = nativeLogs @ virtualLogs
          in bindP (Some (GetSenderLegacy ethMsg (tx_signer txData))) (\<lambda>sender.
             bindP (NewRPCTransaction ethMsg (c_hash C) (u64 (c_height C)) (l_rpcTxIndex l) (c_baseFee C) chainID) (\<lambda>rpcTx.
               let receipt = liveReceiptMap E L (if txFailed then 0 else 1) (u64 (l_gasBefore l + cumulative')) txGasUsed logs txHash
                     (if et_To txData = None then Some (CreateAddress E sender (et_Nonce txData)) else None) (Hash_Hex E (c_hash C))
                     (u64 (c_height C)) (l_rpcTxIndex l) (effectiveGasPrice L txData (c_baseFee C)) sender (et_To txData) (et_Type txData);
                   l1 = appendLogs logs (l\<lparr>l_Transactions := l_Transactions l @ [rpcTx\<lparr>tx_Hash := txHash\<rparr>], l_Receipts := l_Receipts l @ [receipt]\<rparr>)
               in Some (Inr (l1\<lparr>l_logIndex := logIndex2, l_rpcTxIndex := u64 (l_rpcTxIndex l + 1)\<rparr>, cumulative')))))"

fun live_messages ::
  "Eth_Lib \<Rightarrow> Chain_Lib \<Rightarrow> int \<Rightarrow> BlockCtx \<Rightarrow> TxCtx \<Rightarrow> ParsedTxs option \<Rightarrow> LiveState \<Rightarrow> int \<Rightarrow> int \<Rightarrow> Msg list \<Rightarrow> (LiveState \<times> int) reply" where
  "live_messages E L chainID C T parsedTxs l cumulative msgIndex [] = Some (Inr (l, cumulative))"
| "live_messages E L chainID C T parsedTxs l cumulative msgIndex (OtherMsg _ # ms) =
     live_messages E L chainID C T parsedTxs l cumulative (msgIndex + 1) ms"
| "live_messages E L chainID C T parsedTxs l cumulative msgIndex (EthereumMsg m # ms) =
     bindP (live_message E L chainID C T parsedTxs l cumulative msgIndex m) (\<lambda>(l', cumulative').
       live_messages E L chainID C T parsedTxs l' cumulative' (msgIndex + 1) ms)"

definition live_gas :: "ExecTxResult \<Rightarrow> LiveState \<Rightarrow> LiveState" where
  "live_gas result l = l\<lparr>l_gasBefore := u64 (l_gasBefore l + u64 (GasUsed result))\<rparr>"

definition live_synthetic_context :: "int \<Rightarrow> BlockCtx \<Rightarrow> TxCtx \<Rightarrow> LiveState \<Rightarrow> int \<Rightarrow> TxContext" where
  "live_synthetic_context chainID C T l ethGas =
     \<lparr>Tx = t_bytes T, EthereumMessageIndexes = eth_msg_indexes (t_msgs T), EthereumGasUsed = ethGas,
      TotalMessages = int (length (t_msgs T)), ctx_BlockHash = c_hash C, ctx_BlockNumber = u64 (c_height C),
      ctx_TxIndex = l_rpcTxIndex l, FirstLogIndex = l_logIndex l, CumulativeGasUsedBefore = l_gasBefore l, ChainID = Some chainID\<rparr>"

definition live_tx ::
  "Eth_Lib \<Rightarrow> Chain_Lib \<Rightarrow> int \<Rightarrow> BlockCtx \<Rightarrow> ExecTxResult option list \<Rightarrow> LiveState \<Rightarrow> int \<Rightarrow> bytes \<Rightarrow> LiveState reply" where
  "live_tx E L chainID C results l txIndex txBz =
     (if int (length results) \<le> txIndex then Some (Inl (Errorf ''block results shorter than tx list''))
      else case results ! nat txIndex of
        None \<Rightarrow> Some (Inl (Errorf ''missing tx result''))
      | Some result \<Rightarrow>
          (case TxDecoder L txBz of
             Inl _ \<Rightarrow> Some (Inr (live_gas result l))
           | Inr tx \<Rightarrow>
               bindP (Some (ParseResponse E L (Some result))) (\<lambda>virtualResponse.
               let T = \<lparr>t_txIndex = txIndex, t_bytes = txBz, t_result = result, t_msgs = GetMsgs tx, t_virtual = virtualResponse\<rparr> in
               case ParseTxResult E L result (Some tx) of
                 None \<Rightarrow> None
               | Some parsed \<Rightarrow>
                   bindP (live_messages E L chainID C T (case parsed of Inl _ \<Rightarrow> None | Inr txs \<Rightarrow> Some txs) l 0 0 (GetMsgs tx)) (\<lambda>(l, ethGas).
                   bindP (Some (SyntheticTxs E L virtualResponse (live_synthetic_context chainID C T l ethGas))) (\<lambda>virtualTxs.
                     Some (Inr (live_gas result (fold (live_virtual E L) virtualTxs l))))))))"

fun live_txs ::
  "Eth_Lib \<Rightarrow> Chain_Lib \<Rightarrow> int \<Rightarrow> BlockCtx \<Rightarrow> ExecTxResult option list \<Rightarrow> LiveState \<Rightarrow> int \<Rightarrow> bytes list \<Rightarrow> LiveState reply" where
  "live_txs E L chainID C results l txIndex [] = Some (Inr l)"
| "live_txs E L chainID C results l txIndex (tx # txs) =
     bindP (live_tx E L chainID C results l txIndex tx) (\<lambda>l'. live_txs E L chainID C results l' (txIndex + 1) txs)"

definition live_content :: "Eth_Lib \<Rightarrow> Chain_Lib \<Rightarrow> int \<Rightarrow> BlockCtx \<Rightarrow> Block \<Rightarrow> ResultBlockResults \<Rightarrow> LiveState reply" where
  "live_content E L chainID C block br =
     bindP (Some (NormalizeTxResponseIndexes L (br_TxResults br))) (\<lambda>results.
     bindP (Some (virtual_SplitBlockEvents E L (br_FinalizeBlockEvents br))) (\<lambda>(beginEvents, endEvents).
     bindP (live_txs E L chainID C results (live_block_tx E L chainID C live_start (BeginBlockHash E (c_height C)) beginEvents 0) 0 (b_Txs block)) (\<lambda>l.
       Some (Inr (live_block_tx E L chainID C l (EndBlockHash E (c_height C)) endEvents (l_gasBefore l))))))"

definition liveVirtualBlockView :: "('d, 'b, 'rc, 'lc) Backend \<Rightarrow> ResultBlock option \<Rightarrow> ResultBlockResults option \<Rightarrow> LiveView reply" where
  "liveVirtualBlockView B resBlock blockRes =
     (case (Option.bind resBlock rb_Block, blockRes) of
        (None, _) \<Rightarrow> Some (Inl (Errorf ''tendermint block is nil''))
      | (Some block, None) \<Rightarrow> Some (Inl (Errorf ''tendermint block result is nil''))
      | (Some block, Some br) \<Rightarrow>
          let C = \<lparr>c_height = h_Height (b_Header block), c_hash = bytes_to_hash (b_Hash block), c_baseFee = base_fee B br\<rparr> in
          bindP (live_content (be_eth B) (be_chain B) (be_chainID B) C block br) (\<lambda>l. Some (Inr (LiveView.truncate l))))"

section \<open>The view and the store\<close>

text \<open>A live receipt never has a reason or a VM error, which a cached receipt of a genuine transaction may
  have; up to them the receipts are the same.\<close>

definition plain_receipt :: "ReceiptMap \<Rightarrow> ReceiptMap" where
  "plain_receipt r = r\<lparr>rm_reason := None, rm_vmError := None\<rparr>"

definition same_receipt :: "Eth_Lib \<Rightarrow> Visible \<Rightarrow> ReceiptMap \<Rightarrow> bool" where
  "same_receipt E v r \<longleftrightarrow>
     plain_receipt r = plain_receipt (CachedReceipt_ToMap E (v_receipt v)) \<and> (v_result v = None \<longrightarrow> r = CachedReceipt_ToMap E (v_receipt v))"

definition shown :: "Eth_Lib \<Rightarrow> int \<Rightarrow> LiveState \<Rightarrow> Visible list \<Rightarrow> bool" where
  "shown E gas l vs \<longleftrightarrow>
     l_Transactions l = map v_tx vs \<and> l_Logs l = map v_logs vs \<and> list_all2 (same_receipt E) vs (l_Receipts l) \<and>
     l_logIndex l = u64 (int (length (all_logs vs))) \<and> l_rpcTxIndex l = u64 (int (length vs)) \<and> l_gasBefore l = gas"

text \<open>An indexer and a backend of the same chain, both with virtualization. Logs decoded from an empty response are
  none.\<close>

definition twins :: "('d, 'b) KVIndexer \<Rightarrow> Eth_Lib \<Rightarrow> Chain_Lib \<Rightarrow> int \<Rightarrow> bool" where
  "twins kv E L chainID \<longleftrightarrow>
     kv_eth kv = E \<and> kv_chain kv = L \<and> virtualizationEnabled kv \<and> virtualChainID kv = Some chainID \<and> eth_hex E \<and>
     (\<forall>i h ls. DecodeMsgLogs L [] i h = Inr ls \<longrightarrow> ls = [])"

text \<open>A transaction that both sides read alike: Ethereum messages occur in Ethereum transactions only and name this
  chain, and the result of another transaction can be parsed without a panic.\<close>

definition readable_tx :: "Eth_Lib \<Rightarrow> Chain_Lib \<Rightarrow> int \<Rightarrow> bytes \<Rightarrow> ExecTxResult option \<Rightarrow> bool" where
  "readable_tx E L chainID bz res \<longleftrightarrow>
     (\<forall>tx. TxDecoder L bz = Inr tx \<longrightarrow>
        (\<forall>m t. EthereumMsg m \<in> set (GetMsgs tx) \<longrightarrow> isEthTx tx \<and> (AsTransaction m = Some t \<longrightarrow> et_ChainId t = chainID)) \<and>
        (\<forall>r. res = Some r \<longrightarrow> isEthTx tx \<or> ParseTxResult E L r (Some tx) \<noteq> None))"

lemma effectiveGasPrice_eq: "effectiveGasPrice L t fee = receiptEffectiveGasPrice L t fee"
  by (simp add: effectiveGasPrice_def receiptEffectiveGasPrice_def split: option.splits)

lemma u64_i32_small: "int n < 2 ^ 31 \<Longrightarrow> u64 (i32 (int n)) = u64 (int n)"
  by (simp add: i32_small)

lemma u64_idem [simp]: "u64 (u64 x) = u64 x"
  using u64_u64_add [of x 0] by simp

lemma live_context_eq: "int n < 2 ^ 31 \<Longrightarrow> live_log_context C f h (u64 (int n)) = virtualLogContext C f h (i32 (int n))"
  by (simp add: live_log_context_def virtualLogContext_def i32_small)

lemma cached_receipt_map:
  assumes hex: "eth_hex E" and bz: "mustMarshalReceipt E K r = Inr bz"
    and r: "r = buildCachedReceipt E L st cg g reason vmErr logs h ca bh bn ti price sender to ty"
  shows "plain_receipt (CachedReceipt_ToMap E r) = plain_receipt (liveReceiptMap E L st cg g logs h ca (Hash_Hex E bh) bn ti price sender to ty)"
proof -
  have "\<exists>m. DecodeBig E (EncodeBig E price) = Inr m"
    using bz eth_hex.big_nonempty [OF hex, of price]
    by (auto simp: mustMarshalReceipt_def r buildCachedReceipt_def setHexBigData_def result_simps)
  then have "0 \<le> price" "price < 2 ^ 256" using eth_hex.big_range [OF hex] by blast+
  moreover have "map_option (HexToAddress E \<circ> Address_Hex E) x = x" for x by (cases x) (simp_all add: eth_hex.address_hex [OF hex])
  ultimately show ?thesis
    by (simp add: plain_receipt_def CachedReceipt_ToMap_def liveReceiptMap_def r buildCachedReceipt_def evmLogsBloom_def option.map_comp
        eth_hex.hash_hex [OF hex] eth_hex.from_hex [OF hex] eth_hex.address_hex [OF hex] eth_hex.big_nonempty [OF hex] eth_hex.decode_big [OF hex])
qed

lemma virtual_receipt_map:
  assumes hex: "eth_hex E" and "r_EffectiveGasPrice r = Some 0"
  shows "CachedReceipt_ToMap E (cachedVirtualReceipt E L r) = Receipt_ToMap E L r"
proof -
  have "map_option (HexToAddress E \<circ> Address_Hex E) x = x" for x by (cases x) (simp_all add: eth_hex.address_hex [OF hex])
  then show ?thesis
    using assms(2) eth_hex.decode_big [OF hex, of 0]
    by (simp add: CachedReceipt_ToMap_def Receipt_ToMap_def cachedVirtualReceipt_def buildCachedReceipt_def evmLogsBloom_def LogsBloom_def option.map_comp
        eth_hex.hash_hex [OF hex] eth_hex.from_hex [OF hex] eth_hex.address_hex [OF hex] eth_hex.big_nonempty [OF hex])
qed

lemma outcome_eq:
  assumes "message_outcome L result txs n i m = Inr (gas, failed, h, reason, vmErr)"
  shows "live_outcome L result (Some txs) i m = (gas, failed, h)"
  using assms by (auto simp: message_outcome_def live_outcome_def split: if_splits option.splits)

lemma native_logs_eq:
  assumes "message_logs L result i height failed = Inr evmLogs" and "\<forall>i h ls. DecodeMsgLogs L [] i h = Inr ls \<longrightarrow> ls = []"
  shows "WrapLogs (case DecodeMsgLogs L (Data result) i (u64 height) of Inl _ \<Rightarrow> [] | Inr ls \<Rightarrow> ls) False None = evmLogs"
proof (cases "Data result = []")
  case True
  then have "evmLogs = []" using assms(1) by (auto simp: message_logs_def split: if_splits)
  then show ?thesis using True assms(2) by (auto simp: WrapLogs_def split: sum.splits)
next
  case False
  then show ?thesis using assms(1) by (auto simp: message_logs_def result_simps)
qed

lemma shown_virtual:
  assumes "shown (kv_eth kv) gas l vs" and "eth_hex (kv_eth kv)" and "virtual_static kv C t"
  shows "shown (kv_eth kv) gas (live_virtual (kv_eth kv) (kv_chain kv) t l) (vs @ [visible_of kv t])"
proof -
  have "CachedReceipt_ToMap (kv_eth kv) (v_receipt (visible_of kv t)) = Receipt_ToMap (kv_eth kv) (kv_chain kv) (TxReceipt t)"
    using virtual_receipt_map [OF assms(2)] assms(3) by (simp add: virtual_static_def)
  then show ?thesis
    using assms(1)
    by (simp add: shown_def live_virtual_def appendVirtualTx_def appendLogs_def same_receipt_def list_all2_appendI add.commute Let_def)
qed

lemma shown_virtuals:
  assumes "shown (kv_eth kv) gas l vs" and "eth_hex (kv_eth kv)" and "\<forall>t\<in>set txs. virtual_static kv C t"
  shows "shown (kv_eth kv) gas (fold (live_virtual (kv_eth kv) (kv_chain kv)) txs l) (vs @ map (visible_of kv) txs)"
  using assms
proof (induction txs arbitrary: l vs)
  case (Cons t txs)
  from shown_virtual [OF Cons.prems(1,2), of C t] Cons.prems(3) Cons.IH Cons.prems(2) show ?case by fastforce
qed simp

lemma live_message_shown:
  assumes tw: "twins kv E L chainID" and mv: "message_visible kv C T txs s (length vs) cum i m cum' v"
    and sh: "shown E (s_gasBefore s) l vs" and b: "s_logIndex s = u64 (int (length (all_logs vs)))"
    and marshal: "\<exists>bz. mustMarshalReceipt E (kv_codec kv) (v_receipt v) = Inr bz"
    and id: "\<And>t. AsTransaction m = Some t \<Longrightarrow> et_ChainId t = chainID" and n: "int (length vs) < 2 ^ 31"
  shows "\<exists>l'. live_message E L chainID C T (Some txs) l cum i m = Some (Inr (l', cum')) \<and> shown E (s_gasBefore s) l' (vs @ [v])"
proof -
  from mv [unfolded message_visible_def] obtain gas failed reason vmError t evmLogs sender rpcTx where
    oc: "message_outcome L (t_result T) txs (s_ethTxIndex s) i m = Inr (gas, failed, v_hash v, reason, vmError)"
    and cum: "cum' = u64 (cum + gas)" and t: "AsTransaction m = Some t"
    and evm: "message_logs L (t_result T) i (c_height C) failed = Inr evmLogs"
    and logs: "v_logs v = visible_logs kv C T (s_logIndex s) (v_hash v) (i32 (int (length vs))) i evmLogs"
    and sender: "GetSenderLegacy m (tx_signer t) = Inr sender"
    and receipt: "v_receipt v = buildCachedReceipt E L (if failed then 0 else 1) (u64 (s_gasBefore s + cum')) gas reason vmError
          (v_logs v) (v_hash v) (if et_To t = None then Some (CreateAddress E sender (et_Nonce t)) else None) (c_hash C)
          (u64 (c_height C)) (u64 (i32 (int (length vs)))) (receiptEffectiveGasPrice L t (c_baseFee C)) sender (et_To t) (et_Type t)"
    and tx: "NewRPCTransaction m (c_hash C) (u64 (c_height C)) (u64 (i32 (int (length vs)))) (c_baseFee C) (et_ChainId t) = Some (Inr rpcTx)"
    and v: "v_tx v = rpcTx\<lparr>tx_Hash := v_hash v\<rparr>" "v_result v \<noteq> None"
    using tw unfolding twins_def by (elim exE conjE) metis
  have hex: "eth_hex E" and virt: "virtualizationEnabled kv" and dec: "\<forall>i h ls. DecodeMsgLogs L [] i h = Inr ls \<longrightarrow> ls = []"
    using tw by (auto simp: twins_def)
  have l: "l_logIndex l = s_logIndex s" "l_rpcTxIndex l = u64 (int (length vs))" "l_gasBefore l = s_gasBefore s"
    using sh b by (simp_all add: shown_def)
  define logs1 where "logs1 = SetLogMetadata evmLogs (virtualLogContext C (s_logIndex s) (v_hash v) (i32 (int (length vs))))"
  define logs2 where "logs2 = LogsForMessage (t_virtual T) i (int (length (t_msgs T)))
      (virtualLogContext C (u64 (s_logIndex s + int (length evmLogs))) (v_hash v) (i32 (int (length vs))))"
  have vl: "v_logs v = logs1 @ logs2" "length logs1 = length evmLogs" using logs virt by (simp_all add: visible_logs_def logs1_def logs2_def)
  define r where "r = liveReceiptMap E L (if failed then 0 else 1) (u64 (s_gasBefore s + cum')) gas (v_logs v) (v_hash v)
      (if et_To t = None then Some (CreateAddress E sender (et_Nonce t)) else None) (Hash_Hex E (c_hash C))
      (u64 (c_height C)) (u64 (int (length vs))) (receiptEffectiveGasPrice L t (c_baseFee C)) sender (et_To t) (et_Type t)"
  have same: "same_receipt E v r"
    using marshal cached_receipt_map [OF hex _ receipt] v(2) by (auto simp: same_receipt_def r_def u64_i32_small [OF n])
  define l' where "l' = (appendLogs (v_logs v) (l\<lparr>l_Transactions := l_Transactions l @ [v_tx v], l_Receipts := l_Receipts l @ [r]\<rparr>))
      \<lparr>l_logIndex := u64 (s_logIndex s + int (length (v_logs v))), l_rpcTxIndex := u64 (int (length vs) + 1)\<rparr>"
  have "live_message E L chainID C T (Some txs) l cum i m = Some (Inr (l', cum'))"
    using tx id [OF t] sender
    by (simp add: live_message_def t outcome_eq [OF oc] l live_context_eq [OF n] native_logs_eq [OF evm dec] effectiveGasPrice_eq
        u64_i32_small [OF n] vl l'_def r_def v(1) cum Let_def logs1_def [symmetric] logs2_def [symmetric] add.assoc)
  moreover have "shown E (s_gasBefore s) l' (vs @ [v])"
    using sh same b by (simp add: shown_def l'_def appendLogs_def list_all2_appendI add.commute)
  ultimately show ?thesis by blast
qed

lemma built_facts:
  assumes "built kv bops C b0 s vs"
  shows "virtualizationEnabled kv \<Longrightarrow> s_logIndex s = u64 (int (length (all_logs vs)))" and "length (IndexState.s_blockLogs s) = length vs"
    and "v \<in> set vs \<Longrightarrow> \<exists>bz. mustMarshalReceipt (kv_eth kv) (kv_codec kv) (v_receipt v) = Inr bz"
  using assms by (auto simp: built_def counters_ok_def all_visible_ok_def visible_ok_def receipt_ok_def in_set_conv_nth)

context indexer_store
begin

lemma live_messages_shown:
  assumes tw: "twins kv E L chainID" and "index_messages kv C T txs s cum i ms = Inr (s', cum')" and "built kv bops C b0 s vs"
    and e: "\<forall>e\<in>set (rs_entries (t_virtual T)). None \<notin> set (e_logs e)" and "amounts_ok kv C \<Longrightarrow> list_all msg_nonneg ms"
    and "\<forall>m t. EthereumMsg m \<in> set ms \<and> AsTransaction m = Some t \<longrightarrow> et_ChainId t = chainID"
    and "shown E (s_gasBefore s) l vs" and "int (length (IndexState.s_blockLogs s')) < 2 ^ 31"
  shows "\<exists>l' ws. live_messages E L chainID C T (Some txs) l cum i ms = Some (Inr (l', cum')) \<and> built kv bops C b0 s' (vs @ ws) \<and>
    shown E (s_gasBefore s') l' (vs @ ws)"
  using assms(2,3,5-8)
proof (induction ms arbitrary: s cum i vs l)
  case Nil
  then show ?case by (intro exI [of _ l] exI [of _ "[]"]) simp
next
  case (Cons m ms)
  have virt: "virtualizationEnabled kv" and eq: "kv_eth kv = E" "kv_chain kv = L" using tw by (simp_all add: twins_def)
  show ?case
  proof (cases m)
    case (OtherMsg x)
    then show ?thesis using Cons by simp
  next
    case (EthereumMsg em)
    with Cons.prems(1) obtain s1 c1 where s1: "index_eth_message kv C T txs s cum i em = Inr (s1, c1)"
      "index_messages kv C T txs s1 c1 (i + 1) ms = Inr (s', cum')" by (auto simp: result_simps)
    obtain v where v: "built kv bops C b0 s1 (vs @ [v])" "message_visible kv C T txs s (length vs) cum i em c1 v" "s_gasBefore s1 = s_gasBefore s"
      using index_eth_message_built [OF s1(1) Cons.prems(2) e] Cons.prems(3) EthereumMsg by auto
    obtain us where us: "built kv bops C b0 s' ((vs @ [v]) @ us)"
      using index_messages_built [OF s1(2) v(1) e] Cons.prems(3) by auto
    have n: "int (length vs) < 2 ^ 31" using built_facts(2) [OF us] Cons.prems(6) by simp
    from live_message_shown [OF tw v(2) Cons.prems(5) built_facts(1) [OF Cons.prems(2) virt] _ _ n] built_facts(3) [OF v(1), of v] Cons.prems(4)
    obtain l1 where l1: "live_message E L chainID C T (Some txs) l cum i em = Some (Inr (l1, c1))" "shown E (s_gasBefore s1) l1 (vs @ [v])"
      unfolding v(3) using EthereumMsg eq by auto
    from Cons.IH [OF s1(2) v(1) _ _ l1(2)] Cons.prems(3,4,6) obtain l' ws where
      "live_messages E L chainID C T (Some txs) l1 c1 (i + 1) ms = Some (Inr (l', cum'))" "built kv bops C b0 s' ((vs @ [v]) @ ws)"
      "shown E (s_gasBefore s') l' ((vs @ [v]) @ ws)" by auto
    then show ?thesis using l1(1) EthereumMsg by (intro exI [of _ l'] exI [of _ "v # ws"]) simp
  qed
qed

lemma synthetic_shown:
  assumes tw: "twins kv E L chainID" and "add_synthetic kv C T s g = Inr s'" and "built kv bops C b0 s vs"
    and "ParseResponse E L resp = Inr (t_virtual T)" and sh: "shown E (s_gasBefore s) l vs" and n: "int (length vs) < 2 ^ 31"
  shows "\<exists>txs ws. SyntheticTxs E L (t_virtual T) (live_synthetic_context chainID C T l g) = Inr txs \<and> built kv bops C b0 s' (vs @ ws) \<and>
    s_gasBefore s' = s_gasBefore s \<and> shown E (s_gasBefore s) (fold (live_virtual E L) txs l) (vs @ ws)"
proof -
  have k: "kv_eth kv = E" "kv_chain kv = L" "virtualizationEnabled kv" "virtualChainID kv = Some chainID" "eth_hex E"
    using tw by (simp_all add: twins_def)
  from add_synthetic_shown [OF assms(2,3) k(3) assms(4) [folded k(1,2)]] obtain txs where
    txs: "SyntheticTxs E L (t_virtual T) (synthetic_context kv C T s g) = Inr txs" "foldR (add_virtual kv C) s txs = Inr s'"
      "built kv bops C b0 s' (vs @ map (visible_of kv) txs)" "\<forall>t\<in>set txs. virtual_static kv C t" unfolding k(1,2) by blast
  have "s_rpcTxIndex s = i32 (int (length vs))" using assms(3) k(3) by (simp add: built_def counters_ok_def)
  then have "synthetic_context kv C T s g = live_synthetic_context chainID C T l g"
    using sh built_facts(1) [OF assms(3) k(3)] u64_i32_small [OF n]
    by (simp add: synthetic_context_def live_synthetic_context_def shown_def k(4))
  moreover have "shown E (s_gasBefore s) (fold (live_virtual E L) txs l) (vs @ map (visible_of kv) txs)"
    using shown_virtuals [of kv "s_gasBefore s" l vs txs C] sh txs(4) k by simp
  ultimately show ?thesis using txs foldR_virtual_gas [OF txs(2)] by (intro exI [of _ txs] exI [of _ "map (visible_of kv) txs"]) simp
qed

lemma add_gas_simps [simp]:
  "s_gasBefore (add_gas result s) = u64 (s_gasBefore s + u64 (GasUsed result))"
  "IndexState.s_blockLogs (add_gas result s) = IndexState.s_blockLogs s"
  by (simp_all add: add_gas_def)

lemma shown_gas: "shown E gas l vs \<Longrightarrow> shown E (u64 (gas + u64 (GasUsed result))) (live_gas result l) vs"
  by (simp add: shown_def live_gas_def)

lemma live_messages_none:
  "(\<And>m. EthereumMsg m \<notin> set ms) \<Longrightarrow> live_messages E L chainID C T p l cum i ms = Some (Inr (l, cum))"
proof (induction ms arbitrary: i)
  case (Cons m ms)
  then show ?case by (cases m) auto
qed simp

lemma live_tx_shown:
  assumes tw: "twins kv E L chainID" and "index_tx kv C results s i bz = Inr s'" and b: "built kv bops C b0 s vs"
    and rd: "readable_tx E L chainID bz (results ! nat i)" and sh: "shown E (s_gasBefore s) l vs"
    and n: "int (length (IndexState.s_blockLogs s')) < 2 ^ 31"
  shows "\<exists>l' ws. live_tx E L chainID C results l i bz = Some (Inr l') \<and> built kv bops C b0 s' (vs @ ws) \<and> shown E (s_gasBefore s') l' (vs @ ws)"
  using assms(2)
proof (cases rule: index_tx_parts)
  case (1 result tx r T)
  have k: "kv_eth kv = E" "kv_chain kv = L" "virtualizationEnabled kv" using tw by (simp_all add: twins_def)
  have p: "ParseResponse E L (Some result) = Inr r" "t_virtual T = r" using 1(2,3) k by simp_all
  have dec: "TxDecoder L bz = Inr tx" using 1(1) k by simp
  have ids: "\<forall>m t. EthereumMsg m \<in> set (GetMsgs tx) \<and> AsTransaction m = Some t \<longrightarrow> et_ChainId t = chainID"
    and eth: "\<And>m. EthereumMsg m \<in> set (GetMsgs tx) \<Longrightarrow> isEthTx tx" using rd dec by (auto simp: readable_tx_def)
  have len: "int (length us) < 2 ^ 31" if "built kv bops C b0 s' (us @ ws)" for us ws
    using built_facts(2) [OF that] n by simp
  show ?thesis
  proof (cases "isEthTx tx")
    case False
    with 1(4) obtain s1 where s1: "add_synthetic kv C T s 0 = Inr s1" "s' = add_gas result s1" by (auto simp: result_simps)
    obtain ws0 where "built kv bops C b0 s1 (vs @ ws0)" using add_synthetic_built [OF s1(1) b, of "Some result"] p k by auto
    then have nv: "int (length vs) < 2 ^ 31" using len [of vs ws0] s1(2) by simp
    from synthetic_shown [OF tw s1(1) b p(1) [folded p(2)] sh nv] obtain txs ws where
      txs: "SyntheticTxs E L r (live_synthetic_context chainID C T l 0) = Inr txs" "built kv bops C b0 s1 (vs @ ws)" "s_gasBefore s1 = s_gasBefore s"
        "shown E (s_gasBefore s) (fold (live_virtual E L) txs l) (vs @ ws)" unfolding p(2) by blast
    obtain parsed where parsed: "ParseTxResult E L result (Some tx) = Some parsed" using rd dec False 1(6) by (auto simp: readable_tx_def)
    have "live_messages E L chainID C T q l 0 0 (GetMsgs tx) = Some (Inr (l, 0))" for q by (rule live_messages_none) (use eth False in blast)
    then have "live_tx E L chainID C results l i bz = Some (Inr (live_gas result (fold (live_virtual E L) txs l)))"
      using 1(5,6) dec p(1) parsed txs(1) by (simp add: live_tx_def 1(3) [symmetric] Let_def)
    then show ?thesis using txs(2,3) shown_gas [OF txs(4)] s1(2) by auto
  next
    case True
    with 1(4) k obtain txs s1 g s2 where a: "index_messages kv C T txs s 0 0 (GetMsgs tx) = Inr (s1, g)"
      "add_synthetic kv C T s1 g = Inr s2" "s' = add_gas result s2" "ParseTxResult E L result (Some tx) = Some (Inr txs)"
      by (auto simp: result_simps split: option.splits)
    have e: "\<forall>e\<in>set (rs_entries (t_virtual T)). None \<notin> set (e_logs e)" using ParseResponse_some [OF p(1)] p(2) by blast
    have nn: "amounts_ok kv C \<Longrightarrow> list_all msg_nonneg (GetMsgs tx)" using 1(1) by (auto simp: amounts_ok_def decodes_nonneg_def)
    obtain ws0 us0 where w0: "built kv bops C b0 s1 (vs @ ws0)" "built kv bops C b0 s2 ((vs @ ws0) @ us0)"
      using index_messages_built [OF a(1) b e nn] add_synthetic_built [OF a(2), of b0 _ "Some result"] p k by metis
    have n1: "int (length (IndexState.s_blockLogs s1)) < 2 ^ 31"
      using len [of "vs @ ws0" us0] w0 a(3) built_facts(2) [OF w0(1)] by simp
    from live_messages_shown [OF tw a(1) b e nn ids sh n1] obtain l1 ws where
      l1: "live_messages E L chainID C T (Some txs) l 0 0 (GetMsgs tx) = Some (Inr (l1, g))" "built kv bops C b0 s1 (vs @ ws)"
        "shown E (s_gasBefore s1) l1 (vs @ ws)" by blast
    have "int (length (vs @ ws)) < 2 ^ 31" using built_facts(2) [OF l1(2)] n1 by simp
    from synthetic_shown [OF tw a(2) l1(2) p(1) [folded p(2)] l1(3) this] obtain vtxs us where
      v: "SyntheticTxs E L r (live_synthetic_context chainID C T l1 g) = Inr vtxs" "built kv bops C b0 s2 ((vs @ ws) @ us)"
        "s_gasBefore s2 = s_gasBefore s1" "shown E (s_gasBefore s1) (fold (live_virtual E L) vtxs l1) ((vs @ ws) @ us)" unfolding p(2) by blast
    have "live_tx E L chainID C results l i bz = Some (Inr (live_gas result (fold (live_virtual E L) vtxs l1)))"
      using 1(5,6) dec p(1) a(4) l1(1) v(1) by (simp add: live_tx_def 1(3) [symmetric] Let_def)
    then show ?thesis using v(2,3) shown_gas [OF v(4)] a(3) by (intro exI [of _ "live_gas result (fold (live_virtual E L) vtxs l1)"] exI [of _ "ws @ us"]) simp
  qed
qed

lemma live_txs_shown:
  assumes tw: "twins kv E L chainID" and "index_txs kv C results s i bzs = Inr s'" and "built kv bops C b0 s vs" and "0 \<le> i"
    and "\<forall>j<length bzs. readable_tx E L chainID (bzs ! j) (results ! (nat i + j))" and "shown E (s_gasBefore s) l vs"
    and "int (length (IndexState.s_blockLogs s')) < 2 ^ 31"
  shows "\<exists>l' ws. live_txs E L chainID C results l i bzs = Some (Inr l') \<and> built kv bops C b0 s' (vs @ ws) \<and> shown E (s_gasBefore s') l' (vs @ ws)"
  using assms(2-7)
proof (induction bzs arbitrary: s i vs l)
  case Nil
  then show ?case by (intro exI [of _ l] exI [of _ "[]"]) simp
next
  case (Cons bz bzs)
  from Cons.prems(1) obtain s1 where s1: "index_tx kv C results s i bz = Inr s1" "index_txs kv C results s1 (i + 1) bzs = Inr s'"
    by (auto simp: result_simps)
  obtain ws0 us0 where w0: "built kv bops C b0 s1 (vs @ ws0)" "built kv bops C b0 s' ((vs @ ws0) @ us0)"
    using index_tx_built [OF s1(1) Cons.prems(2)] index_txs_built [OF s1(2)] by metis
  have n1: "int (length (IndexState.s_blockLogs s1)) < 2 ^ 31"
    using built_facts(2) [OF w0(1)] built_facts(2) [OF w0(2)] Cons.prems(6) by simp
  have "readable_tx E L chainID bz (results ! nat i)" using Cons.prems(4) by (auto dest: spec [of _ 0])
  from live_tx_shown [OF tw s1(1) Cons.prems(2) this Cons.prems(5) n1] obtain l1 ws where
    l1: "live_tx E L chainID C results l i bz = Some (Inr l1)" "built kv bops C b0 s1 (vs @ ws)" "shown E (s_gasBefore s1) l1 (vs @ ws)" by blast
  have "readable_tx E L chainID (bzs ! j) (results ! (nat (i + 1) + j))" if "j < length bzs" for j
    using Cons.prems(4) [rule_format, of "Suc j"] that Cons.prems(3) by (simp add: nat_add_distrib)
  with Cons.IH [OF s1(2) l1(2) _ _ l1(3) Cons.prems(6)] Cons.prems(3) obtain l' us where
    "live_txs E L chainID C results l1 (i + 1) bzs = Some (Inr l')" "built kv bops C b0 s' ((vs @ ws) @ us)"
    "shown E (s_gasBefore s') l' ((vs @ ws) @ us)" by auto
  then show ?case using l1(1) by (intro exI [of _ l'] exI [of _ "ws @ us"]) simp
qed

lemma live_block_tx_shown:
  assumes tw: "twins kv E L chainID" and "add_block_tx kv C s h events g = Inr s'" and b: "built kv bops C b0 s vs" and "None \<notin> set events"
    and sh: "shown E (s_gasBefore s) l vs" and n: "int (length vs) < 2 ^ 31"
  shows "\<exists>ws. built kv bops C b0 s' (vs @ ws) \<and> s_gasBefore s' = s_gasBefore s \<and>
    shown E (s_gasBefore s) (live_block_tx E L chainID C l h events g) (vs @ ws)"
proof (cases "events = []")
  case True
  then show ?thesis using assms(2) b sh by (intro exI [of _ "[]"]) (simp add: add_block_tx_def live_block_tx_def)
next
  case False
  have k: "kv_eth kv = E" "kv_chain kv = L" "virtualizationEnabled kv" "virtualChainID kv = Some chainID" "eth_hex E"
    using tw by (simp_all add: twins_def)
  have c: "s_rpcTxIndex s = i32 (int (length vs))" "s_logIndex s = u64 (int (length (all_logs vs)))"
    using b k(3) by (auto simp: built_def counters_ok_def)
  let ?t = "NewBlockTx E h events (virtualLogContext C (s_logIndex s) h (s_rpcTxIndex s)) (Some chainID) g"
  have st: "virtual_static kv C ?t"
    using NewBlockTx_static(1) [OF assms(4) refl, where kv = kv and C = C and E = E and h = h and g = g] k(4) by simp
  have "live_block_tx E L chainID C l h events g = live_virtual E L ?t l"
    using False sh live_context_eq [OF n] by (simp add: live_block_tx_def shown_def c)
  moreover have "built kv bops C b0 s' (vs @ [visible_of kv ?t])" using add_block_tx_built [OF assms(2) b assms(4) k(3)] False k by simp
  moreover have "s_gasBefore s' = s_gasBefore s" using assms(2) False by (simp add: add_block_tx_def add_virtual_gas)
  ultimately show ?thesis using shown_virtual [of kv "s_gasBefore s" l vs C ?t] sh st k by auto
qed

lemma live_content_shown:
  assumes tw: "twins kv E L chainID" and idx: "index_content kv b block (Some br) C = Inr s"
    and rd: "\<forall>results. NormalizeTxResponseIndexes L (br_TxResults br) = Inr results \<longrightarrow>
      (\<forall>j<length (b_Txs block). readable_tx E L chainID (b_Txs block ! j) (results ! j))"
    and n: "int (length (IndexState.s_blockLogs s)) < 2 ^ 31"
  shows "\<exists>l vs. live_content E L chainID C block br = Some (Inr l) \<and> built kv bops C b s vs \<and> shown E (s_gasBefore s) l vs"
proof -
  have k: "kv_eth kv = E" "kv_chain kv = L" "virtualizationEnabled kv" using tw by (simp_all add: twins_def)
  from idx obtain results bev eev s1 s2 where results: "NormalizeTxResponseIndexes L (br_TxResults br) = Inr results"
    and evs: "virtual_SplitBlockEvents E L (br_FinalizeBlockEvents br) = Inr (bev, eev)"
    and s1: "add_block_tx kv C (init_state b) (BeginBlockHash E (c_height C)) bev 0 = Inr s1"
    and s2: "index_txs kv C results s1 0 (b_Txs block) = Inr s2"
    and s: "add_block_tx kv C s2 (EndBlockHash E (c_height C)) eev (s_gasBefore s2) = Inr s"
    unfolding index_content_def k blockTxResults_def by (auto simp: result_simps k)
  have ev: "None \<notin> set bev" "None \<notin> set eev"
    using evs by (auto simp: virtual_SplitBlockEvents_def result_simps dest!: bank_EthereumLogs_some)
  have b0: "built kv bops C b (init_state b) []"
    by (simp add: built_def counters_ok_def init_state_def list_ops_def all_visible_ok_def eth_count_def i32_def i64_def u64_def)
  have "shown E (s_gasBefore (init_state b)) live_start []" by (simp add: shown_def live_start_def init_state_def u64_def)
  from live_block_tx_shown [OF tw s1 b0 ev(1) this] obtain vs1 where
    v1: "built kv bops C b s1 vs1" "shown E (s_gasBefore s1) (live_block_tx E L chainID C live_start (BeginBlockHash E (c_height C)) bev 0) vs1"
    by auto
  obtain ws0 us0 where w0: "built kv bops C b s2 (vs1 @ ws0)" "built kv bops C b s ((vs1 @ ws0) @ us0)"
    using index_txs_built [OF s2 v1(1)] add_block_tx_built [OF s _ ev(2) k(3)] by metis
  then have n2: "int (length (IndexState.s_blockLogs s2)) < 2 ^ 31"
    using built_facts(2) [OF w0(1)] built_facts(2) [OF w0(2)] n by simp
  from live_txs_shown [OF tw s2 v1(1) _ _ v1(2) n2] rd results obtain l2 ws where
    l2: "live_txs E L chainID C results (live_block_tx E L chainID C live_start (BeginBlockHash E (c_height C)) bev 0) 0 (b_Txs block) = Some (Inr l2)"
      "built kv bops C b s2 (vs1 @ ws)" "shown E (s_gasBefore s2) l2 (vs1 @ ws)" by auto
  have "int (length (vs1 @ ws)) < 2 ^ 31" using built_facts(2) [OF l2(2)] n2 by simp
  from live_block_tx_shown [OF tw s l2(2) ev(2) l2(3) this] obtain us where
    us: "built kv bops C b s ((vs1 @ ws) @ us)" "s_gasBefore s = s_gasBefore s2"
      "shown E (s_gasBefore s2) (live_block_tx E L chainID C l2 (EndBlockHash E (c_height C)) eev (s_gasBefore s2)) ((vs1 @ ws) @ us)" by blast
  have "l_gasBefore l2 = s_gasBefore s2" using l2(3) by (simp add: shown_def)
  then have "live_content E L chainID C block br = Some (Inr (live_block_tx E L chainID C l2 (EndBlockHash E (c_height C)) eev (s_gasBefore s2)))"
    by (simp add: live_content_def results evs l2(1))
  then show ?thesis using us by auto
qed

text \<open>The transactions of an indexed block, read from the store and built live.\<close>

lemma indexBlock_live:
  assumes tw: "twins kv E L chainID" and idx: "indexBlockWithStats kv d block (Some br) = Inr (d', n)"
    and lay: "store_layout (kvmap d)" "height_ok (h_Height (b_Header block))" and codec: "capnp_codec (kv_codec kv)"
    and pres: "logs_present (kv_chain kv)" and reads: "reads_succeed kv d'"
    and groups: "GetLogsByBlockHeight kv d' (h_Height (b_Header block)) = Inr groups" "int (length groups) < 2 ^ 31"
    and rd: "\<forall>results. NormalizeTxResponseIndexes L (br_TxResults br) = Inr results \<longrightarrow>
      (\<forall>j<length (b_Txs block). readable_tx E L chainID (b_Txs block ! j) (results ! j))"
  obtains l vs s root gas where "live_content E L chainID (block_ctx kv block (Some br)) block br = Some (Inr l)" "shown E gas l vs"
    "groups = map v_logs vs" "GetRPCTransactionHashesByBlockHeight kv d' (h_Height (b_Header block)) = Inr (map v_hash vs)"
    "all_visible_ok kv (block_ctx kv block (Some br)) vs"
    "kvmap d' = apply_ops (cleared kv (kvmap d) (h_Height (b_Header block)))
       (block_ops kv (h_Height (b_Header block)) (bytes_to_hash (b_Hash block)) (block_meta_of kv block (block_ctx kv block (Some br)) s root) vs)"
proof -
  let ?h = "h_Height (b_Header block)" and ?C = "block_ctx kv block (Some br)"
  from indexBlock_batch [OF idx lay] obtain b0 s root where s: "index_content kv b0 block (Some br) ?C = Inr s"
    and m: "\<And>vs. built kv bops ?C b0 s vs \<Longrightarrow> kvmap d' = apply_ops (cleared kv (kvmap d) ?h)
       (block_ops kv ?h (bytes_to_hash (b_Hash block)) (block_meta_of kv block ?C s root) vs)" by metis
  have g: "groups = map v_logs vs" if vs: "built kv bops ?C b0 s vs" for vs
  proof -
    have "kvmap d' (BlockLogsKey ?h) = Some (mustMarshalBlockLogs (kv_codec kv) (map v_logs vs))" unfolding m [OF vs] by (rule block_ops_meta(3))
    from groups(1) read_logs [OF reads this codec] have "groups = map (map stored_log) (map v_logs vs)" by simp
    moreover have "all_visible_ok kv ?C vs" using vs by (simp add: built_def)
    ultimately show ?thesis using visible_present [OF _ pres] by metis
  qed
  from index_content_built [OF s] obtain vs0 where "built kv bops ?C b0 s vs0" by blast
  then have "int (length (IndexState.s_blockLogs s)) < 2 ^ 31" using g built_facts(2) groups(2) by fastforce
  from live_content_shown [OF tw s rd this] obtain l vs where
    l: "live_content E L chainID ?C block br = Some (Inr l)" "built kv bops ?C b0 s vs" "shown E (s_gasBefore s) l vs" by blast
  have "int (length vs) < 2 ^ 31" using g [OF l(2)] groups(2) by simp
  from read_hashes [OF reads this m [OF l(2)] lay] that [OF l(1,3) g [OF l(2)] _ _ m [OF l(2)]] l(2)
  show thesis by (simp add: built_def)
qed

end

section \<open>Properties\<close>

text \<open>C7: With virtualization a block is the same whether it is served from the store or built live from the
  answers of the node. The live view of an indexed block exists; its log groups are the stored ones and
  its transactions have the stored hashes, in order; looking up each of them gives the transaction of the
  view; and the stored receipt is the receipt of the view, up to the reason and the VM error that only
  the store keeps, and exactly for a virtual transaction. This holds for a block that both sides read alike: its Ethereum
  messages are in transactions with the Ethereum extension option and carry the chain id of the gateway, which an
  unprotected legacy transaction does not; its Cosmos results can be parsed; the base fee is in the events of the
  block, or the node reports none; its visible transactions have distinct hashes; its amounts are not negative; and the
  store answers the reads.\<close>

theorem live_view_matches:
  assumes "indexer_store kv kvmap bops" and "capnp_codec (kv_codec kv)" and "logs_present (kv_chain kv)"
    and am: "amounts_ok kv (block_ctx kv block (Some br))" and "store_layout (kvmap d)" and "height_ok (h_Height (b_Header block))"
    and idx: "indexBlockWithStats kv d block (Some br) = Inr (d', n)" and reads: "reads_succeed kv d'"
    and groups: "GetLogsByBlockHeight kv d' (h_Height (b_Header block)) = Inr groups" "int (length groups) < 2 ^ 31"
    and hashes: "GetRPCTransactionHashesByBlockHeight kv d' (h_Height (b_Header block)) = Inr hashes" "distinct hashes"
    and tw: "twins kv (be_eth B) (be_chain B) (be_chainID B)" and fee: "base_fee B br = blockBaseFeeFromResults (kv_chain kv) (Some br)"
    and rd: "\<forall>results. NormalizeTxResponseIndexes (be_chain B) (br_TxResults br) = Inr results \<longrightarrow>
      (\<forall>j<length (b_Txs block). readable_tx (be_eth B) (be_chain B) (be_chainID B) (b_Txs block ! j) (results ! j))"
    and rb: "rb_Block rb = Some block"
  shows "\<exists>view. liveVirtualBlockView B (Some rb) (Some br) = Some (Inr view) \<and> l_Logs view = groups \<and>
    map tx_Hash (l_Transactions view) = hashes \<and> length (l_Receipts view) = length hashes \<and>
    (\<forall>i<length hashes. GetRPCTransactionByHash kv d' (hashes ! i) = Inr (l_Transactions view ! i) \<and>
       (\<exists>rm. GetReceiptByTxHash kv d' (hashes ! i) = Inr rm \<and> plain_receipt rm = plain_receipt (l_Receipts view ! i) \<and>
          (tx_Virtual (l_Transactions view ! i) \<longrightarrow> rm = l_Receipts view ! i)))"
proof -
  let ?h = "h_Height (b_Header block)" and ?C = "block_ctx kv block (Some br)" and ?E = "be_eth B"
  from indexer_store.indexBlock_live [OF assms(1) tw idx assms(5,6,2,3) reads groups rd] obtain l vs s root gas where
    l: "live_content ?E (be_chain B) (be_chainID B) ?C block br = Some (Inr l)" "shown ?E gas l vs"
    and g: "groups = map v_logs vs" "GetRPCTransactionHashesByBlockHeight kv d' ?h = Inr (map v_hash vs)"
    and vs: "all_visible_ok kv ?C vs"
    and m: "kvmap d' = apply_ops (cleared kv (kvmap d) ?h) (block_ops kv ?h (bytes_to_hash (b_Hash block)) (block_meta_of kv block ?C s root) vs)" .
  have E: "kv_eth kv = ?E" "eth_hex (kv_eth kv)" using tw by (simp_all add: twins_def)
  have hs: "hashes = map v_hash vs" using hashes(1) g(2) by simp
  have sh: "l_Transactions l = map v_tx vs" "l_Logs l = map v_logs vs" "list_all2 (same_receipt ?E) vs (l_Receipts l)"
    using l(2) by (simp_all add: shown_def)
  have each: "GetRPCTransactionByHash kv d' (v_hash (vs ! i)) = Inr (v_tx (vs ! i)) \<and> tx_Hash (v_tx (vs ! i)) = v_hash (vs ! i) \<and>
      GetReceiptByTxHash kv d' (v_hash (vs ! i)) = Inr (CachedReceipt_ToMap ?E (v_receipt (vs ! i))) \<and>
      (tx_Virtual (v_tx (vs ! i)) \<longrightarrow> v_result (vs ! i) = None)" if i: "i < length vs" for i
  proof -
    have ok: "tx_ok kv ?C i (vs ! i)" "receipt_ok kv ?C i (vs ! i)" "None \<notin> set (v_logs (vs ! i))"
      using vs i assms(3) by (auto simp: all_visible_ok_def visible_ok_def logs_ok_def)
    have d: "distinct (map v_hash vs)" using hashes(2) hs by simp
    note val = hash_value [OF d i, of _ _ kv ?h "cleared kv (kvmap d) ?h" "bytes_to_hash (b_Hash block)" "block_meta_of kv block ?C s root",
        folded m, unfolded visible_ops_iff]
    have "GetRPCTransactionByHash kv d' (v_hash (vs ! i)) = Inr (v_tx (vs ! i))"
      using ok(1) am by (intro indexer_store.read_tx [OF assms(1) reads _ assms(2)] val) (simp_all add: tx_ok_def)
    moreover have "kvmap d' (ReceiptKey (v_hash (vs ! i))) = Some (receipt_bytes kv (vs ! i))" by (rule val) simp_all
    ultimately show ?thesis
      using indexer_store.read_receipt_exact [OF assms(1) reads _ assms(2) E(2) ok(2,3)] ok(1) E(1) by (auto simp: tx_ok_def)
  qed
  have "liveVirtualBlockView B (Some rb) (Some br) = Some (Inr (LiveView.truncate l))"
    using l(1) fee by (simp add: liveVirtualBlockView_def rb block_ctx_def)
  moreover have "map tx_Hash (map v_tx vs) = map v_hash vs" using each by (auto simp: in_set_conv_nth)
  ultimately show ?thesis
    using sh each g(1) hs by (intro exI [of _ "LiveView.truncate l"]) (auto simp: LiveView.truncate_def list_all2_conv_all_nth same_receipt_def)
qed

section \<open>The example block\<close>

definition demo_queries :: Node_Queries where
  "demo_queries =
     \<lparr>q_Params_height = Inr [], q_EipBaseFee = (\<lambda>h. Inr None), q_ValidatorAccount = (\<lambda>h a. Inl (Errorf ''not found'')),
      q_BlockMaxGas = (\<lambda>h. Inr (-1)), q_DecodeTxLogs = (\<lambda>d h. Inr []), q_UnwrapEthereumMsg = (\<lambda>tx h. Inl (Errorf ''not found'')),
      q_EventTypeBlockBloom = ''block_bloom'', q_AttributeKeyEthereumBloom = ''bloom''\<rparr>"

definition demo_backend :: "(memdb, membatch, nat \<times> (hash \<times> ReceiptMap) list, nat \<times> (int \<times> RPCLog option list) list) Backend" where
  "demo_backend =
     \<lparr>be_eth = std_eth, be_chain = demo_lib, be_indexer = Some demo_kv, be_VirtualizeCosmosEvents = True, be_OfflineRPCOnly = False,
      be_chainID = 1776, be_Client = None, be_queries = demo_queries, be_receiptCache = list_lru, be_logsCache = list_lru\<rparr>"

lemma demo_twins:
  "twins demo_kv (be_eth demo_backend) (be_chain demo_backend) (be_chainID demo_backend)"
  "base_fee demo_backend demo_results = blockBaseFeeFromResults (kv_chain demo_kv) (Some demo_results)"
  "readable_tx (be_eth demo_backend) (be_chain demo_backend) (be_chainID demo_backend) [1] res"
proof -
  show "twins demo_kv (be_eth demo_backend) (be_chain demo_backend) (be_chainID demo_backend)"
    using std.eth_hex_axioms by (simp add: twins_def demo_backend_def) (simp add: demo_kv_def demo_lib_def)
  show "base_fee demo_backend demo_results = blockBaseFeeFromResults (kv_chain demo_kv) (Some demo_results)"
    by (simp add: base_fee_def BaseFee_def demo_backend_def demo_queries_def blockBaseFeeFromResults_def split: option.split)
  have "TxDecoder demo_lib [1] = Inr demo_sdk_tx" "isEthTx demo_sdk_tx" "GetMsgs demo_sdk_tx = [EthereumMsg demo_msg]"
    by (simp_all add: demo_lib_def isEthTx_def demo_sdk_tx_def)
  moreover have "AsTransaction demo_msg = Some t \<Longrightarrow> et_ChainId t = 1776" for t by (auto simp: demo_msg_def demo_tx_def)
  ultimately show "readable_tx (be_eth demo_backend) (be_chain demo_backend) (be_chainID demo_backend) [1] res"
    by (simp add: readable_tx_def demo_backend_def)
qed

theorem live_view_matches_witness:
  "\<exists>d' n hash view t. indexBlockWithStats demo_kv [] demo_block (Some demo_results) = Inr (d', n) \<and>
    GetRPCTransactionHashesByBlockHeight demo_kv d' 5 = Inr [hash] \<and> GetRPCTransactionByHash demo_kv d' hash = Inr t \<and>
    liveVirtualBlockView demo_backend (Some \<lparr>rb_BlockID = [7], rb_Block = Some demo_block\<rparr>) (Some demo_results) = Some (Inr view) \<and>
    l_Transactions view ! 0 = t"
proof -
  obtain d' n logs x where d: "indexBlockWithStats demo_kv [] demo_block (Some demo_results) = Inr (d', n)"
    "GetLogsByBlockHeight demo_kv d' (h_Height (b_Header demo_block)) = Inr [logs]"
    "GetRPCTransactionHashesByBlockHeight demo_kv d' (h_Height (b_Header demo_block)) = Inr [x]" by (rule demo_seen)
  have "int (length [logs]) < 2 ^ 31" "distinct [x]" by simp_all
  moreover have "\<forall>results. NormalizeTxResponseIndexes (be_chain demo_backend) (br_TxResults demo_results) = Inr results \<longrightarrow>
      (\<forall>j<length (b_Txs demo_block). readable_tx (be_eth demo_backend) (be_chain demo_backend) (be_chainID demo_backend) (b_Txs demo_block ! j) (results ! j))"
    using demo_twins(3) by (simp add: demo_block_def)
  moreover have "rb_Block \<lparr>rb_BlockID = [7], rb_Block = Some demo_block\<rparr> = Some demo_block" by simp
  ultimately show ?thesis
    using live_view_matches [OF demo_hyps(1,2,4,5,7,8) d(1) demo_hyps(9) d(2) _ d(3) _ demo_twins(1,2), of "\<lparr>rb_BlockID = [7], rb_Block = Some demo_block\<rparr>"] d(1,3)
    unfolding demo_height by auto
qed

end
