(* ===== verification/Backend_Logs.thy ===== *)
theory Backend_Logs
  imports Live_View
begin

text \<open>
  The logs of a block as the backend serves them, \<open>internal/evm/rpc/backend/filters.go\<close> and the headers and
  blooms of \<open>blocks.go\<close>: from the store when the block was indexed with the current virtualization
  setting, else from the node. Whole-block answers are kept in the materialized cache; the queries that keep
  it correct are characterised, and so is the query that does not.
\<close>

section \<open>Definitions\<close>

definition broadLogFilter :: "address list \<Rightarrow> hash list list \<Rightarrow> bool" where
  "broadLogFilter addresses topics \<longleftrightarrow> addresses = [] \<and> (\<forall>group\<in>set topics. group = [])"

definition filterGroupedLogs :: "RPCLog option list list \<Rightarrow> address list \<Rightarrow> hash list list \<Rightarrow> RPCLog option list" where
  "filterGroupedLogs logsList addresses topics = filter (\<lambda>log. LogMatches log addresses topics) (concat logsList)"

definition BloomStatus :: "int \<times> int" where
  "BloomStatus = (4096, 0)"

text \<open>\<open>evmtypes.DecodeTxLogs\<close> is a parameter; a missing result is a nil pointer.\<close>

fun decode_groups :: "(bytes \<Rightarrow> int \<Rightarrow> go_error + EthLog option list) \<Rightarrow> int \<Rightarrow> ExecTxResult option list \<Rightarrow> RPCLog option list list reply" where
  "decode_groups decode h [] = Some (Inr [])"
| "decode_groups decode h (None # rs) = None"
| "decode_groups decode h (Some r # rs) =
     bindP (Some (decode (Data r) h)) (\<lambda>logs. bindP (decode_groups decode h rs) (\<lambda>groups. Some (Inr (WrapLogs logs False None # groups))))"

definition GetLogsFromBlockResults :: "('d, 'b, 'rc, 'lc) Backend \<Rightarrow> ResultBlockResults option \<Rightarrow> RPCLog option list list reply" where
  "GetLogsFromBlockResults B blockRes =
     (case blockRes of
        None \<Rightarrow> None
      | Some br \<Rightarrow>
          bindP (Some (NormalizeTxResponseIndexes (be_chain B) (br_TxResults br)))
            (decode_groups (q_DecodeTxLogs (be_queries B)) (u64 (br_Height br))))"

subsection \<open>Blooms and headers\<close>

text \<open>The first attribute with the bloom key decides for its event: a value of another length ends the
  search in this event only.\<close>

fun bloom_attribute :: "string \<Rightarrow> EventAttribute list \<Rightarrow> bytes option" where
  "bloom_attribute key [] = None"
| "bloom_attribute key (a # as) =
     (if Key a = key then (if length (str_bytes (Val a)) = 256 then Some (str_bytes (Val a)) else None) else bloom_attribute key as)"

fun bloom_event :: "string \<Rightarrow> string \<Rightarrow> Event list \<Rightarrow> bytes option" where
  "bloom_event typ key [] = None"
| "bloom_event typ key (e # es) =
     (if EvType e \<noteq> typ then bloom_event typ key es
      else case bloom_attribute key (Attributes e) of None \<Rightarrow> bloom_event typ key es | Some bz \<Rightarrow> Some bz)"

definition cached_bloom :: "('d, 'b, 'rc, 'lc) Backend \<Rightarrow> 'd \<Rightarrow> int \<Rightarrow> bytes option" where
  "cached_bloom B d h =
     Option.bind (be_indexer B) (\<lambda>kv.
       case GetBlockMetaByHeight kv d h of
         Inl _ \<Rightarrow> None
       | Inr meta \<Rightarrow> if cachedMetaMatchesVirtualization B (Some meta) then Some (BytesToBloom (be_eth B) (FromHex (be_eth B) (bm_Bloom meta))) else None)"

text \<open>With virtualization the bloom is derived from the live view; \<open>Some None\<close> says that this did not succeed
  and the events of the block are used, \<open>None\<close> that building the view panicked.\<close>

definition virtual_bloom :: "('d, 'b, 'rc, 'lc) Backend \<Rightarrow> 'd \<Rightarrow> ResultBlockResults \<Rightarrow> bytes option option" where
  "virtual_bloom B d br =
     (if be_VirtualizeCosmosEvents B then
        (case TendermintBlockByNumber B d (br_Height br) of
           Inr (Some rb) \<Rightarrow>
             (case liveVirtualBlockView B (Some rb) (Some br) of
                None \<Rightarrow> None
              | Some (Inl _) \<Rightarrow> Some None
              | Some (Inr view) \<Rightarrow> Some (Some (BytesToBloom (be_eth B) (LogsBloom_of (be_chain B) (FlattenEthLogs (l_Logs view))))))
         | _ \<Rightarrow> Some None)
      else Some None)"

definition BlockBloom :: "('d, 'b, 'rc, 'lc) Backend \<Rightarrow> 'd \<Rightarrow> ResultBlockResults option \<Rightarrow> bytes reply" where
  "BlockBloom B d blockRes =
     (case blockRes of
        None \<Rightarrow> Some (Inl (Errorf ''block results are nil''))
      | Some br \<Rightarrow>
          (case cached_bloom B d (br_Height br) of
             Some bloom \<Rightarrow> Some (Inr bloom)
           | None \<Rightarrow>
               (case virtual_bloom B d br of
                  None \<Rightarrow> None
                | Some (Some bloom) \<Rightarrow> Some (Inr bloom)
                | Some None \<Rightarrow>
                    (case bloom_event (q_EventTypeBlockBloom (be_queries B)) (q_AttributeKeyEthereumBloom (be_queries B)) (br_FinalizeBlockEvents br) of
                       Some bz \<Rightarrow> Some (Inr (BytesToBloom (be_eth B) bz))
                     | None \<Rightarrow>
                         (case GetLogsFromBlockResults B (Some br) of
                            None \<Rightarrow> None
                          | Some (Inl _) \<Rightarrow> Some (Inl (Errorf ''block bloom event is not found''))
                          | Some (Inr groups) \<Rightarrow> Some (Inr (BytesToBloom (be_eth B) (LogsBloom_of (be_chain B) (FlattenEthLogs groups)))))))))"

definition GetBlockBloomByHeight :: "('d, 'b, 'rc, 'lc) Backend \<Rightarrow> 'd \<Rightarrow> int \<Rightarrow> bytes reply" where
  "GetBlockBloomByHeight B d h =
     (case cached_bloom B d h of
        Some bloom \<Rightarrow> Some (Inr bloom)
      | None \<Rightarrow>
          (case TendermintBlockResultByNumber B h of
             Inl err \<Rightarrow> Some (Inl err)
           | Inr None \<Rightarrow> Some (Inl (Errorf ''block result not found''))
           | Inr (Some br) \<Rightarrow> BlockBloom B d (Some br)))"

text \<open>The common part of \<open>HeaderByNumber\<close> and \<open>HeaderByHash\<close>: the cached metadata, else the node's block. An error of
  \<open>BlockBloom\<close> or \<open>BaseFee\<close> is logged; the zero bloom and no base fee take its place. \<open>BaseFee\<close> reads the
  results, which are then a nil pointer where the node returned none.\<close>

definition live_header :: "('d, 'b, 'rc, 'lc) Backend \<Rightarrow> 'd \<Rightarrow> Block \<Rightarrow> EthHeader reply" where
  "live_header B d block =
     (case TendermintBlockResultByNumber B (h_Height (b_Header block)) of
        Inl _ \<Rightarrow> Some (Inl (Errorf ''block result not found''))
      | Inr blockRes \<Rightarrow>
          (case BlockBloom B d blockRes of
             None \<Rightarrow> None
           | Some bloom \<Rightarrow>
               (case blockRes of
                  None \<Rightarrow> None
                | Some br \<Rightarrow>
                    Some (Inr (EthHeaderFromTendermint (be_eth B) (b_Header block)
                      (case bloom of Inl _ \<Rightarrow> replicate 256 0 | Inr bz \<Rightarrow> bz) (base_fee B br))))))"

definition header_by :: "('d, 'b, 'rc, 'lc) Backend \<Rightarrow> 'd \<Rightarrow> go_error + CachedBlockMeta option \<Rightarrow> go_error + ResultBlock option \<Rightarrow> EthHeader reply" where
  "header_by B d meta resBlock =
     (if (case meta of Inr (Some m) \<Rightarrow> cachedMetaMatchesVirtualization B (Some m) | _ \<Rightarrow> False)
      then Some (bindR meta (HeaderFromCachedBlockMeta (be_eth B)))
      else if be_OfflineRPCOnly B
      then Some (Inl (case meta of Inl err \<Rightarrow> if isIndexerCacheMiss err then Errorf ''block not found'' else err | Inr _ \<Rightarrow> Errorf ''block not found''))
      else
        bindP (Some resBlock) (\<lambda>rb.
          case rb of
            None \<Rightarrow> Some (Inl (Errorf ''block not found''))
          | Some r \<Rightarrow> (case rb_Block r of None \<Rightarrow> None | Some block \<Rightarrow> live_header B d block)))"

definition HeaderByNumber :: "('d, 'b, 'rc, 'lc) Backend \<Rightarrow> 'd \<Rightarrow> int \<Rightarrow> EthHeader reply" where
  "HeaderByNumber B d blockNum = header_by B d (cachedBlockMetaByNumber B d blockNum) (TendermintBlockByNumber B d blockNum)"

definition HeaderByHash :: "('d, 'b, 'rc, 'lc) Backend \<Rightarrow> 'd \<Rightarrow> hash \<Rightarrow> EthHeader reply" where
  "HeaderByHash B d blockHash = header_by B d (cachedBlockMetaByHash B d blockHash) (TendermintBlockByHash B blockHash)"

subsection \<open>Logs\<close>

definition log_hit :: "('rc, 'lc) BackendState \<Rightarrow> ('rc, 'lc) BackendState" where
  "log_hit = record_status (RecordBlockLogs Hit)"

definition log_fallback :: "('rc, 'lc) BackendState \<Rightarrow> ('rc, 'lc) BackendState" where
  "log_fallback s = record_status (RecordBlockLogs LiveFallback) (record_status (RecordBlockLogs Miss) s)"

text \<open>The part before the live path: with matching metadata the stored value is read, by \<open>read\<close>; metadata of the
  other virtualization mode is an error offline and counted as a miss online.\<close>

definition with_meta ::
  "('d, 'b, 'rc, 'lc) Backend \<Rightarrow> go_error + CachedBlockMeta \<Rightarrow> (CachedBlockMeta \<Rightarrow> ('rc, 'lc, 'a) backend_call) \<Rightarrow>
   ('rc, 'lc, 'a) backend_call \<Rightarrow> ('rc, 'lc, 'a) backend_call" where
  "with_meta B meta read live =
     (case meta of
        Inl _ \<Rightarrow> live
      | Inr m \<Rightarrow>
          if cachedMetaMatchesVirtualization B (Some m) then read m
          else if be_OfflineRPCOnly B then fail (Errorf ''cached block virtualization mode mismatch'')
          else effect log_fallback live)"

definition stored_or :: "go_error + 'a \<Rightarrow> ('rc, 'lc, 'a) backend_call \<Rightarrow> ('rc, 'lc, 'a) backend_call" where
  "stored_or r live = (case r of Inr logs \<Rightarrow> effect log_hit (ret logs) | Inl _ \<Rightarrow> effect log_fallback live)"

definition live_logs :: "('d, 'b, 'rc, 'lc) Backend \<Rightarrow> 'd \<Rightarrow> int \<Rightarrow> RPCLog option list list reply" where
  "live_logs B d h =
     bindP (Some (TendermintBlockResultByNumber B h)) (\<lambda>blockRes.
       if be_VirtualizeCosmosEvents B then
         bindP (Some (TendermintBlockByNumber B d h)) (\<lambda>resBlock.
           if resBlock = None then Some (Inl (Errorf ''block not found''))
           else bindP (liveVirtualBlockView B resBlock blockRes) (\<lambda>view. Some (Inr (l_Logs view))))
       else GetLogsFromBlockResults B blockRes)"

definition GetLogsByHeight :: "('d, 'b, 'rc, 'lc) Backend \<Rightarrow> 'd \<Rightarrow> int \<Rightarrow> ('rc, 'lc, RPCLog option list list) backend_call" where
  "GetLogsByHeight B d h =
     (case be_indexer B of
        None \<Rightarrow> query (live_logs B d h)
      | Some kv \<Rightarrow>
          with_meta B (GetBlockMetaByHeight kv d h) (\<lambda>m. stored_or (GetLogsByBlockHeight kv d h) (query (live_logs B d h))) (query (live_logs B d h)))"

definition live_logs_by_hash :: "('d, 'b, 'rc, 'lc) Backend \<Rightarrow> 'd \<Rightarrow> hash \<Rightarrow> ('rc, 'lc, RPCLog option list list) backend_call" where
  "live_logs_by_hash B d h =
     andThen (query (Some (TendermintBlockByHash B h))) (\<lambda>resBlock.
       case resBlock of
         None \<Rightarrow> fail (Errorf ''block not found for hash'')
       | Some rb \<Rightarrow> (case rb_Block rb of None \<Rightarrow> query None | Some block \<Rightarrow> GetLogsByHeight B d (h_Height (b_Header block))))"

definition GetLogs :: "('d, 'b, 'rc, 'lc) Backend \<Rightarrow> 'd \<Rightarrow> hash \<Rightarrow> ('rc, 'lc, RPCLog option list list) backend_call" where
  "GetLogs B d h =
     (case be_indexer B of
        None \<Rightarrow> live_logs_by_hash B d h
      | Some kv \<Rightarrow>
          with_meta B (GetBlockMetaByHash kv d h) (\<lambda>m. stored_or (GetLogsByBlockHash kv d h) (live_logs_by_hash B d h)) (live_logs_by_hash B d h))"

text \<open>A stored block under a filter: a broad filter is answered from the materialized cache, and its answer is
  put there.\<close>

definition filtered_stored ::
  "('d, 'b, 'rc, 'lc) Backend \<Rightarrow> int \<Rightarrow> address list \<Rightarrow> hash list list \<Rightarrow> go_error + RPCLog option list \<Rightarrow>
   ('rc, 'lc, RPCLog option list) backend_call \<Rightarrow> ('rc, 'lc, RPCLog option list) backend_call" where
  "filtered_stored B h addresses topics read live =
     andThen (if broadLogFilter addresses topics then getBlockLogs B h else ret None) (\<lambda>hit.
       case hit of
         Some logs \<Rightarrow> effect log_hit (ret logs)
       | None \<Rightarrow>
           (case read of
              Inr logs \<Rightarrow> effect (log_hit \<circ> (if broadLogFilter addresses topics then addBlockLogs B h logs else id)) (ret logs)
            | Inl _ \<Rightarrow> effect log_fallback live))"

definition GetFilteredLogsByHeight ::
  "('d, 'b, 'rc, 'lc) Backend \<Rightarrow> 'd \<Rightarrow> int \<Rightarrow> address list \<Rightarrow> hash list list \<Rightarrow> ('rc, 'lc, RPCLog option list) backend_call" where
  "GetFilteredLogsByHeight B d h addresses topics =
     (let live = andThen (GetLogsByHeight B d h) (\<lambda>groups. ret (filterGroupedLogs groups addresses topics)) in
      case be_indexer B of
        None \<Rightarrow> live
      | Some kv \<Rightarrow>
          with_meta B (GetBlockMetaByHeight kv d h)
            (\<lambda>m. filtered_stored B h addresses topics (GetFilteredLogsByBlockHeight kv d h addresses topics) live) live)"

definition GetFilteredLogs ::
  "('d, 'b, 'rc, 'lc) Backend \<Rightarrow> 'd \<Rightarrow> hash \<Rightarrow> address list \<Rightarrow> hash list list \<Rightarrow> ('rc, 'lc, RPCLog option list) backend_call" where
  "GetFilteredLogs B d h addresses topics =
     (let live = andThen (GetLogs B d h) (\<lambda>groups. ret (filterGroupedLogs groups addresses topics)) in
      case be_indexer B of
        None \<Rightarrow> live
      | Some kv \<Rightarrow>
          with_meta B (GetBlockMetaByHash kv d h)
            (\<lambda>m. filtered_stored B (bm_Height m) addresses topics (GetFilteredLogsByBlockHash kv d h addresses topics) live) live)"

section \<open>The stored logs\<close>

lemma LogMatches_all: "LogMatches x [] [] \<longleftrightarrow> x \<noteq> None"
  by (simp add: LogMatches_def split: option.split)

text \<open>A block that is served from the store: its metadata matches the setting, its logs can be read and the
  bloom of the metadata is theirs.\<close>

definition served :: "('d, 'b, 'rc, 'lc) Backend \<Rightarrow> ('d, 'b) KVIndexer \<Rightarrow> 'd \<Rightarrow> int \<Rightarrow> RPCLog option list list \<Rightarrow> bool" where
  "served B kv d h groups \<longleftrightarrow>
     be_indexer B = Some kv \<and> GetLogsByBlockHeight kv d h = Inr groups \<and>
     (\<exists>meta. GetBlockMetaByHeight kv d h = Inr meta \<and> bm_VirtualizedCosmosEvents meta = be_VirtualizeCosmosEvents B \<and>
        bm_Bloom meta = hexutil_Encode (be_eth B) (LogsBloom_of (be_chain B) (EthLogs (concat groups))))"

lemma indexed_served:
  assumes "indexer_store kv kvmap bops" and "capnp_codec (kv_codec kv)" and "logs_present (kv_chain kv)"
    and "store_layout (kvmap d)" and "height_ok (h_Height (b_Header block))"
    and "indexBlockWithStats kv d block br = Inr (d', n)" and "reads_succeed kv d'"
    and "GetLogsByBlockHeight kv d' (h_Height (b_Header block)) = Inr groups" and "int (length groups) < 2 ^ 31"
    and "be_indexer B = Some kv" "be_eth B = kv_eth kv" "be_chain B = kv_chain kv" "be_VirtualizeCosmosEvents B = virtualizationEnabled kv"
  shows "served B kv d' (h_Height (b_Header block)) groups"
  using indexBlock_getters [OF assms(1-9)] assms(8,10-13) by (auto simp: served_def meta_describes_def)

text \<open>The materialized cache holds all logs of stored blocks and nothing else.\<close>

definition cache_ok :: "('lc \<Rightarrow> int \<rightharpoonup> RPCLog option list) \<Rightarrow> ('d, 'b) KVIndexer \<Rightarrow> 'd \<Rightarrow> ('rc, 'lc) BackendState \<Rightarrow> bool" where
  "cache_ok content kv d s \<longleftrightarrow>
     (\<forall>h ls. content (m_blockLogs s) h = Some ls \<longrightarrow> (\<exists>groups. GetLogsByBlockHeight kv d h = Inr groups \<and> ls = filterGroupedLogs groups [] []))"

text \<open>A filter that is broad only when it asks for everything, by not constraining the number of topics.\<close>

definition exact_filter :: "address list \<Rightarrow> hash list list \<Rightarrow> bool" where
  "exact_filter addresses topics \<longleftrightarrow> (broadLogFilter addresses topics \<longrightarrow> topics = [])"

lemma filtered_read:
  assumes "GetLogsByBlockHeight kv d h = Inr groups" and "0 \<notin> set addresses"
  shows "GetFilteredLogsByBlockHeight kv d h addresses topics = Inr (filterGroupedLogs groups addresses topics)"
proof -
  from assms(1) obtain bz where bz: "db_Get (kv_db kv) d (BlockLogsKey h) = Inr bz" "bz \<noteq> []" "unmarshalBlockLogsPayload (kv_codec kv) bz = Inr groups"
    unfolding GetLogsByBlockHeight_def by (cases "db_Get (kv_db kv) d (BlockLogsKey h)") (auto simp: result_simps split: if_splits)
  then show ?thesis
    using filtered_decode [OF bz(3) assms(2), of topics] by (simp add: GetFilteredLogsByBlockHeight_def filterGroupedLogs_def)
qed

lemma state_simps [simp]:
  "m_blockLogs (log_hit s) = m_blockLogs s" "m_blockLogs (log_fallback s) = m_blockLogs s"
  "m_blockLogs (addBlockLogs B h logs s) = lru_Add (be_logsCache B) (m_blockLogs s) h logs"
  by (simp_all add: log_hit_def log_fallback_def record_status_def addBlockLogs_def)

lemma served_meta: "served B kv d h groups \<Longrightarrow> GetFilteredLogsByHeight B d h addresses topics =
    filtered_stored B h addresses topics (GetFilteredLogsByBlockHeight kv d h addresses topics)
      (andThen (GetLogsByHeight B d h) (\<lambda>groups. ret (filterGroupedLogs groups addresses topics)))"
  by (auto simp: served_def GetFilteredLogsByHeight_def with_meta_def cachedMetaMatchesVirtualization_def)

lemma filtered_stored_narrow:
  "\<not> broadLogFilter addresses topics \<Longrightarrow> filtered_stored B h addresses topics (Inr logs) live s = Some (Inr logs, log_hit s)"
  by (simp add: filtered_stored_def call_simps)

lemma filtered_stored_broad:
  assumes "broadLogFilter addresses topics" and "lru_Get (be_logsCache B) (m_blockLogs s) h = (hit, c)"
  shows "filtered_stored B h addresses topics (Inr logs) live s =
    Some (Inr (case hit of Some ls \<Rightarrow> ls | None \<Rightarrow> logs),
      log_hit (case hit of Some ls \<Rightarrow> s\<lparr>m_blockLogs := c\<rparr> | None \<Rightarrow> addBlockLogs B h logs (s\<lparr>m_blockLogs := c\<rparr>)))"
  using assms by (simp add: filtered_stored_def call_simps getBlockLogs_def split: option.split)

text \<open>An exact filter is answered with the matching logs of the block, from a correct cache, and leaves the
  cache correct.\<close>

lemma GetFilteredLogsByHeight_ok:
  assumes lru: "lru_cache (be_logsCache B) content" and sv: "served B kv d h groups" and ok: "cache_ok content kv d s"
    and "0 \<notin> set addresses" and ex: "exact_filter addresses topics"
  shows "\<exists>s'. GetFilteredLogsByHeight B d h addresses topics s = Some (Inr (filterGroupedLogs groups addresses topics), s') \<and> cache_ok content kv d s'"
proof (cases "broadLogFilter addresses topics")
  case False
  have "GetLogsByBlockHeight kv d h = Inr groups" using sv by (simp add: served_def)
  moreover have "cache_ok content kv d (log_hit s)" using ok by (simp add: cache_ok_def)
  ultimately show ?thesis using False by (simp add: served_meta [OF sv] filtered_read [OF _ assms(4)] filtered_stored_narrow)
next
  case True
  then have all: "addresses = []" "topics = []" using ex by (auto simp: broadLogFilter_def exact_filter_def)
  have g: "GetLogsByBlockHeight kv d h = Inr groups" using sv by (simp add: served_def)
  obtain hit c where get: "lru_Get (be_logsCache B) (m_blockLogs s) h = (hit, c)" by fastforce
  note c = lru_cache.get_law [OF lru get]
  show ?thesis
  proof (cases hit)
    case None
    let ?ls = "filterGroupedLogs groups [] []"
    have "content (lru_Add (be_logsCache B) c h ?ls) h' = Some ls \<Longrightarrow> h' = h \<and> ls = ?ls \<or> content c h' = Some ls" for h' ls
      using lru_cache.add_law [OF lru, of c h ?ls, unfolded map_le_def, rule_format, of h'] by (cases "h' = h") (auto simp: domI)
    then have "cache_ok content kv d (log_hit (addBlockLogs B h ?ls (s\<lparr>m_blockLogs := c\<rparr>)))"
      using ok c g unfolding cache_ok_def state_simps by simp blast
    then show ?thesis
      using filtered_stored_broad [OF True get] filtered_read [OF g, of "[]" "[]"] None all by (simp add: served_meta [OF sv])
  next
    case (Some ls)
    then have "content (m_blockLogs s) h = Some ls" using c by simp
    from ok [unfolded cache_ok_def, rule_format, OF this] g have "ls = filterGroupedLogs groups [] []" by auto
    moreover have "cache_ok content kv d (log_hit (s\<lparr>m_blockLogs := c\<rparr>))" using ok c by (simp add: cache_ok_def)
    ultimately show ?thesis
      using filtered_stored_broad [OF True get] filtered_read [OF g, of "[]" "[]"] Some all by (simp add: served_meta [OF sv])
  qed
qed

section \<open>Properties\<close>

text \<open>C33: A filter of empty topic positions, which matches the logs with at least that many topics, is treated
  like no filter by the materialized cache. Once it has been asked for a block, the query for all logs of the
  block is answered with the logs that have enough topics, and the others are lost.\<close>

theorem wildcard_query_poisons_cache:
  assumes "be_logsCache B = list_lru" and "m_blockLogs s = (Suc n, es)" and "map_of es h = None"
    and sv: "served B kv d h groups" and w: "\<forall>group\<in>set topics. group = []"
    and lost: "Some l \<in> set (concat groups)" "length (Topics l) < length topics"
  shows "\<exists>s1 s2 logs. GetFilteredLogsByHeight B d h [] topics s = Some (Inr logs, s1) \<and>
    GetFilteredLogsByHeight B d h [] [] s1 = Some (Inr logs, s2) \<and> Some l \<notin> set logs"
proof -
  let ?ls = "filterGroupedLogs groups [] topics"
  have g: "GetLogsByBlockHeight kv d h = Inr groups" using sv by (simp add: served_def)
  have b: "broadLogFilter [] topics" "broadLogFilter [] []" using w by (simp_all add: broadLogFilter_def)
  have get: "lru_Get (be_logsCache B) (m_blockLogs s) h = (None, (Suc n, es))" using assms(1-3) by (simp add: list_lru_def)
  let ?s1 = "log_hit (addBlockLogs B h ?ls (s\<lparr>m_blockLogs := (Suc n, es)\<rparr>))"
  have "\<exists>c. lru_Get (be_logsCache B) (m_blockLogs ?s1) h = (Some ?ls, c)" using assms(1) by (simp add: list_lru_def)
  then obtain c where get1: "lru_Get (be_logsCache B) (m_blockLogs ?s1) h = (Some ?ls, c)" ..
  have "GetFilteredLogsByHeight B d h [] topics s = Some (Inr ?ls, ?s1)"
    using filtered_stored_broad [OF b(1) get] filtered_read [OF g, of "[]" topics] by (simp add: served_meta [OF sv])
  moreover have "\<exists>s2. GetFilteredLogsByHeight B d h [] [] ?s1 = Some (Inr ?ls, s2)"
    using filtered_stored_broad [OF b(2) get1] filtered_read [OF g, of "[]" "[]"] by (simp add: served_meta [OF sv])
  moreover have "Some l \<notin> set ?ls" using lost(2) by (simp add: filterGroupedLogs_def LogMatches_def)
  ultimately show ?thesis by blast
qed

section \<open>An example\<close>

text \<open>A store with the metadata and the logs of some blocks.\<close>

definition demo_meta :: "int \<Rightarrow> RPCLog option list list \<Rightarrow> CachedBlockMeta" where
  "demo_meta h groups =
     \<lparr>bm_Height = h, bm_Hash = Hash_Hex std_eth 7, bm_ParentHash = Hash_Hex std_eth 6, bm_StateRoot = Hash_Hex std_eth 1,
      bm_Miner = Address_Hex std_eth 1, bm_Timestamp = 100, bm_Size = 100, bm_GasLimit = 0, bm_GasUsed = 0, bm_EthTxCount = int (length groups),
      bm_TxCount = 1, bm_Bloom = hexutil_Encode std_eth (LogsBloom_of demo_lib (EthLogs (concat groups))),
      bm_TransactionsRoot = Hash_Hex std_eth 2, bm_BaseFee = [], bm_VirtualizedCosmosEvents = True\<rparr>"

definition demo_store :: "(int \<times> RPCLog option list list) list \<Rightarrow> memdb" where
  "demo_store blocks =
     concat (map (\<lambda>(h, groups). [(BlockMetaKey h, mustMarshalBlockMeta count_codec (demo_meta h groups)),
       (BlockLogsKey h, mustMarshalBlockLogs count_codec groups)]) blocks)"

lemma demo_store_get:
  assumes "map_of blocks h = Some groups" and "\<forall>b\<in>set blocks. height_ok (fst b)"
  shows "map_of (demo_store blocks) (BlockMetaKey h) = Some (mustMarshalBlockMeta count_codec (demo_meta h groups))"
    and "map_of (demo_store blocks) (BlockLogsKey h) = Some (mustMarshalBlockLogs count_codec groups)"
proof -
  have h: "height_ok h" using assms by (auto dest!: map_of_SomeD)
  have "map_of (demo_store blocks) (BlockMetaKey h) = Some (mustMarshalBlockMeta count_codec (demo_meta h groups)) \<and>
    map_of (demo_store blocks) (BlockLogsKey h) = Some (mustMarshalBlockLogs count_codec groups)"
    using assms
  proof (induction blocks)
    case (Cons b blocks)
    obtain k g where b: "b = (k, g)" by fastforce
    have "be64 h = be64 k \<longleftrightarrow> h = k" using be64_eq_iff [OF h] Cons.prems(2) b by simp
    with Cons b show ?case by (auto simp: demo_store_def key_defs key_prefixes split: if_splits)
  qed simp
  then show "map_of (demo_store blocks) (BlockMetaKey h) = Some (mustMarshalBlockMeta count_codec (demo_meta h groups))"
    and "map_of (demo_store blocks) (BlockLogsKey h) = Some (mustMarshalBlockLogs count_codec groups)" by simp_all
qed

lemma demo_served:
  assumes "map_of blocks h = Some groups" and "\<forall>b\<in>set blocks. height_ok (fst b)" and "\<forall>g\<in>set groups. None \<notin> set g"
  shows "served demo_backend demo_kv (demo_store blocks) h groups"
    and "GetBlockMetaByHeight demo_kv (demo_store blocks) h = Inr (demo_meta h groups)"
proof -
  note g = demo_store_get [OF assms(1,2)]
  have "map stored_log g = g" if "None \<notin> set g" for g using that by (intro map_idI) (metis option.exhaust stored_log_Some)
  then have "map (map stored_log) groups = groups" using assms(3) by (simp add: map_idI)
  then have "GetLogsByBlockHeight demo_kv (demo_store blocks) h = Inr groups"
    using g(2) count.block_logs [of groups] by (simp add: GetLogsByBlockHeight_def MemDB_def mustMarshalBlockLogs_def)
  moreover show m: "GetBlockMetaByHeight demo_kv (demo_store blocks) h = Inr (demo_meta h groups)"
    using g(1) count.block_meta [of "demo_meta h groups"] by (simp add: GetBlockMetaByHeight_def MemDB_def mustMarshalBlockMeta_def)
  ultimately show "served demo_backend demo_kv (demo_store blocks) h groups"
    by (simp add: served_def m) (simp add: demo_backend_def demo_meta_def)
qed

theorem wildcard_query_poisons_cache_witness:
  "\<exists>l s1 s2 logs. GetLogsByBlockHeight demo_kv (demo_store [(5, [[Some l]])]) 5 = Inr [[Some l]] \<and>
    GetFilteredLogsByHeight demo_backend (demo_store [(5, [[Some l]])]) 5 [] [[]] \<lparr>m_receipts = (1, []), m_blockLogs = (1, []), syncStatus = None\<rparr> =
      Some (Inr logs, s1) \<and>
    GetFilteredLogsByHeight demo_backend (demo_store [(5, [[Some l]])]) 5 [] [] s1 = Some (Inr logs, s2) \<and> Some l \<notin> set logs"
proof -
  define l where "l = (sample_log 3)\<lparr>Topics := []\<rparr>"
  let ?d = "demo_store [(5, [[Some l]])]" and ?s = "\<lparr>m_receipts = (1, []), m_blockLogs = (1, []), syncStatus = None\<rparr>"
  have sv: "served demo_backend demo_kv ?d 5 [[Some l]]"
    by (rule demo_served(1)) (simp_all add: height_ok_def maxInt64_def)
  have "be_logsCache demo_backend = list_lru" "m_blockLogs ?s = (Suc 0, [])" "map_of [] (5 :: int) = None"
    "\<forall>group\<in>set [[]]. group = []" "Some l \<in> set (concat [[Some l]])" "length (Topics l) < length [[]]"
    by (simp_all add: demo_backend_def l_def)
  from wildcard_query_poisons_cache [OF this(1-3) sv this(4-6)] sv show ?thesis by (auto simp: served_def)
qed

end
