(* ===== verification/Rpc_Stream.thy ===== *)
theory Rpc_Stream
  imports Data_Stream Cached_Block Sync_Service
begin

text \<open>
  The published streams of \<open>internal/evm/rpc/stream/rpc.go\<close>: new heads, transaction hashes and logs. A
  block is published from the store after it was indexed; here the publisher of the sync service is
  instantiated with it, and what subscribers see is related to what the indexer wrote.
\<close>

section \<open>Definitions\<close>

definition headerStreamSegmentSize :: int where "headerStreamSegmentSize = 128"
definition headerStreamCapacity :: int where "headerStreamCapacity = 128 * 32"
definition txStreamSegmentSize :: int where "txStreamSegmentSize = 1024"
definition txStreamCapacity :: int where "txStreamCapacity = 1024 * 32"
definition logStreamSegmentSize :: int where "logStreamSegmentSize = 2048"
definition logStreamCapacity :: int where "logStreamCapacity = 2048 * 32"

record RPCHeader =
  rh_EthHeader :: EthHeader
  rh_Hash :: hash

record RPCStream =
  headerStream :: "RPCHeader Stream"
  pendingTxStream :: "hash Stream"
  logStream :: "RPCLog option Stream"

definition NewRPCStream :: "RPCStream option" where
  "NewRPCStream =
     (case (NewStream headerStreamSegmentSize headerStreamCapacity, NewStream txStreamSegmentSize txStreamCapacity,
            NewStream logStreamSegmentSize logStreamCapacity) of
        (Some h, Some t, Some l) \<Rightarrow> Some \<lparr>headerStream = h, pendingTxStream = t, logStream = l\<rparr>
      | _ \<Rightarrow> None)"

definition ListenPendingTx :: "RPCStream \<Rightarrow> hash \<Rightarrow> RPCStream option" where
  "ListenPendingTx s h = map_option (\<lambda>(_, t). s\<lparr>pendingTxStream := t\<rparr>) (Stream_Add (pendingTxStream s) [h])"

definition flattenRPCLogs :: "RPCLog option list list \<Rightarrow> RPCLog option list" where
  "flattenRPCLogs groups = foldl (\<lambda>out group. out @ group) [] groups"

text \<open>The reader is the indexer with its database; without one nothing is published. \<open>None\<close> is a panic of
  a stream.\<close>

definition PublishIndexedBlock :: "('d, 'b) KVIndexer option \<Rightarrow> 'd \<Rightarrow> int \<Rightarrow> RPCStream \<Rightarrow> (go_error + RPCStream) option" where
  "PublishIndexedBlock reader d h s =
     (case reader of
        None \<Rightarrow> Some (Inr s)
      | Some kv \<Rightarrow>
          (case bindR (wrapR (\<lambda>e. Wrap e ''load indexed block meta'') (GetBlockMetaByHeight kv d h)) (\<lambda>meta.
                bindR (HeaderFromCachedBlockMeta (kv_eth kv) (Some meta)) (\<lambda>header.
                bindR (wrapR (\<lambda>e. Wrap e ''load indexed block logs'') (GetLogsByBlockHeight kv d h)) (\<lambda>logGroups.
                bindR (wrapR (\<lambda>e. Wrap e ''load indexed block tx hashes'') (GetRPCTransactionHashesByBlockHeight kv d h)) (\<lambda>txHashes.
                  Inr (\<lparr>rh_EthHeader = header, rh_Hash = HexToHash (kv_eth kv) (bm_Hash meta)\<rparr>, txHashes, logGroups))))) of
             Inl e \<Rightarrow> Some (Inl e)
           | Inr (header, txHashes, logGroups) \<Rightarrow>
               Option.bind (Stream_Add (headerStream s) [header]) (\<lambda>(_, hs).
               Option.bind (Stream_Add (pendingTxStream s) txHashes) (\<lambda>(_, ts).
               Option.bind (Stream_Add (logStream s) (flattenRPCLogs logGroups)) (\<lambda>(_, ls).
                 Some (Inr \<lparr>headerStream = hs, pendingTxStream = ts, logStream = ls\<rparr>))))))"

text \<open>The publisher of the sync service. A panic would take the process down; it is an error here, and the
  invariant below excludes it.\<close>

definition rpc_publisher :: "('d, 'b) KVIndexer \<Rightarrow> 'd \<Rightarrow> int \<Rightarrow> RPCStream \<Rightarrow> go_error + RPCStream" where
  "rpc_publisher kv d h s =
     (case PublishIndexedBlock (Some kv) d h s of None \<Rightarrow> Inl (Errorf ''panic'') | Some r \<Rightarrow> r)"

text \<open>The invariant: three well-formed streams, with everything ever published to them.\<close>

definition rpc_inv :: "RPCStream \<Rightarrow> RPCHeader list \<Rightarrow> hash list \<Rightarrow> RPCLog option list \<Rightarrow> bool" where
  "rpc_inv s headers hashes logs \<longleftrightarrow>
     stream_inv (headerStream s) headers \<and> stream_inv (pendingTxStream s) hashes \<and> stream_inv (logStream s) logs"

section \<open>Lemmas\<close>

lemma flattenRPCLogs_concat: "flattenRPCLogs groups = concat groups"
proof -
  have "foldl (\<lambda>out group. out @ group) acc groups = acc @ concat groups" for acc
    by (induction groups arbitrary: acc) simp_all
  then show ?thesis by (simp add: flattenRPCLogs_def)
qed

lemma NewRPCStream_inv: "\<exists>s. NewRPCStream = Some s \<and> rpc_inv s [] [] []"
proof -
  obtain h :: "RPCHeader Stream" and t :: "hash Stream" and l :: "RPCLog option Stream" where
    n: "NewStream headerStreamSegmentSize headerStreamCapacity = Some h" "NewStream txStreamSegmentSize txStreamCapacity = Some t"
      "NewStream logStreamSegmentSize logStreamCapacity = Some l"
    by (simp add: NewStream_def signed_divide_int_def headerStreamSegmentSize_def headerStreamCapacity_def
        txStreamSegmentSize_def txStreamCapacity_def logStreamSegmentSize_def logStreamCapacity_def)
  have "stream_inv h []" "stream_inv t []" "stream_inv l []"
    using NewStream_inv(1) [OF n(1)] NewStream_inv(1) [OF n(2)] NewStream_inv(1) [OF n(3)]
    by (simp_all add: headerStreamSegmentSize_def txStreamSegmentSize_def logStreamSegmentSize_def)
  with n show ?thesis by (simp add: NewRPCStream_def rpc_inv_def)
qed

lemma PublishIndexedBlock_streams:
  assumes "rpc_inv s headers hashes logs" and "GetBlockMetaByHeight kv d h = Inr meta"
    and "HeaderFromCachedBlockMeta (kv_eth kv) (Some meta) = Inr header" and "GetLogsByBlockHeight kv d h = Inr groups"
    and "GetRPCTransactionHashesByBlockHeight kv d h = Inr txHashes"
  shows "\<exists>s'. PublishIndexedBlock (Some kv) d h s = Some (Inr s') \<and>
    rpc_inv s' (headers @ [\<lparr>rh_EthHeader = header, rh_Hash = HexToHash (kv_eth kv) (bm_Hash meta)\<rparr>]) (hashes @ txHashes) (logs @ concat groups)"
proof -
  let ?x = "\<lparr>rh_EthHeader = header, rh_Hash = HexToHash (kv_eth kv) (bm_Hash meta)\<rparr>"
  from assms(1) have i: "stream_inv (headerStream s) headers" "stream_inv (pendingTxStream s) hashes" "stream_inv (logStream s) logs"
    by (simp_all add: rpc_inv_def)
  obtain a hs where hs: "Stream_Add (headerStream s) [?x] = Some (a, hs)" "stream_inv hs (headers @ [?x])"
    using Stream_Add_ok [OF i(1), of "[?x]"] by blast
  obtain b ts where ts: "Stream_Add (pendingTxStream s) txHashes = Some (b, ts)" "stream_inv ts (hashes @ txHashes)"
    using Stream_Add_ok [OF i(2), of txHashes] by blast
  obtain c ls where ls: "Stream_Add (logStream s) (concat groups) = Some (c, ls)" "stream_inv ls (logs @ concat groups)"
    using Stream_Add_ok [OF i(3), of "concat groups"] by blast
  show ?thesis
    using hs ts ls by (simp add: PublishIndexedBlock_def assms(2-5) flattenRPCLogs_concat rpc_inv_def)
qed

section \<open>Properties\<close>

text \<open>C18: What subscribers see of a new block is what the indexer wrote. When the handler of the forward queue
  indexes a block, the streams grow by exactly one head, by the hashes of the block's visible
  transactions and by its logs, all in the order of the store; and the head carries the block's hash,
  parent, proposer, state root, time and base fee, and the transactions root and the bloom of just those
  hashes and logs. The block has a positive height, a state root of 32 bytes and a base fee, if any, that fits 256 bits: the
  metadata of others is refused by the validation. The store answers the reads.\<close>

theorem tip_published:
  assumes "indexer_store kv kvmap bops" and "capnp_codec (kv_codec kv)" and "eth_text (kv_eth kv)" and "logs_present (kv_chain kv)"
    and "store_layout (kvmap (w_db w))" and "height_ok (h_Height (b_Header block))"
    and desc: "describable kv block (blockBaseFeeFromResults (kv_chain kv) (BlockResults nb))"
    and nb: "\<not> Skipped nb" "block_of nb = Some block" "Height nb = h_Height (b_Header block)"
    and idx: "IndexBlockWithResults kv (w_db w) block (BlockResults nb) = Inr d'" and reads: "reads_succeed kv d'"
    and groups: "GetLogsByBlockHeight kv d' (h_Height (b_Header block)) = Inr groups" "int (length groups) < 2 ^ 31"
    and pub: "tipPublisher s = Some (rpc_publisher kv)" and inv: "rpc_inv (w_tip w) headers txs logs"
  shows "\<exists>w' hashes gas. handleSyncedBlock s (KVTxIndexer kv) True now nb w = Some (None, w') \<and> w_db w' = d' \<and>
    GetRPCTransactionHashesByBlockHeight kv d' (h_Height (b_Header block)) = Inr hashes \<and> length hashes = length groups \<and>
    rpc_inv (w_tip w')
      (headers @ [\<lparr>rh_EthHeader = header_of kv block (blockBaseFeeFromResults (kv_chain kv) (BlockResults nb)) gas hashes (concat groups),
                   rh_Hash = bytes_to_hash (b_Hash block)\<rparr>]) (txs @ hashes) (logs @ concat groups)"
proof -
  let ?h = "h_Height (b_Header block)" and ?br = "BlockResults nb"
  obtain n where n: "indexBlockWithStats kv (w_db w) block ?br = Inr (d', n)"
    using idx by (auto simp: IndexBlockWithResults_def result_simps)
  from indexer_store.indexBlock_seen [OF assms(1) n assms(5,6,2,4) reads groups] obtain vs st root where
    g: "groups = map v_logs vs" "GetRPCTransactionHashesByBlockHeight kv d' ?h = Inr (map v_hash vs)" "int (length vs) < 2 ^ 31"
    and vs: "all_visible_ok kv (block_ctx kv block ?br) vs" "counters_ok kv st vs" "transactions_root kv block st = Inr root"
    and m: "kvmap d' = apply_ops (cleared kv (kvmap (w_db w)) ?h)
       (block_ops kv ?h (bytes_to_hash (b_Hash block)) (block_meta_of kv block (block_ctx kv block ?br) st root) vs)" .
  let ?meta = "block_meta_of kv block (block_ctx kv block ?br) st root"
  have "kvmap d' (BlockMetaKey ?h) = Some (mustMarshalBlockMeta (kv_codec kv) ?meta)" unfolding m by (rule block_ops_meta(1))
  from indexer_store.read_meta(1) [OF assms(1) reads this assms(2)] have meta: "GetBlockMetaByHeight kv d' ?h = Inr ?meta" .
  have hdr: "HeaderFromCachedBlockMeta (kv_eth kv) (Some ?meta) =
      Inr (header_of kv block (blockBaseFeeFromResults (kv_chain kv) ?br) (s_blockGasUsed st) (map v_hash vs) (all_logs vs))"
    by (rule block_meta_header [OF assms(3) _ vs g(3)]) (use desc in simp)
  have "eth_hex (kv_eth kv)" using assms(3) by (rule eth_text.axioms(1))
  then have hash: "HexToHash (kv_eth kv) (bm_Hash ?meta) = bytes_to_hash (b_Hash block)" by (simp add: block_meta_of_def eth_hex.hash_hex)
  from PublishIndexedBlock_streams [OF inv meta hdr groups(1) g(2)] obtain p where
    p: "rpc_publisher kv d' ?h (w_tip w) = Inr p"
      "rpc_inv p (headers @ [\<lparr>rh_EthHeader = header_of kv block (blockBaseFeeFromResults (kv_chain kv) ?br) (s_blockGasUsed st) (map v_hash vs) (all_logs vs),
         rh_Hash = bytes_to_hash (b_Hash block)\<rparr>]) (txs @ map v_hash vs) (logs @ concat groups)"
    unfolding hash rpc_publisher_def by auto
  define w' where "w' = (with_status (MarkBlock now ?h True) (w\<lparr>w_db := d'\<rparr>))\<lparr>w_tip := p\<rparr>"
  have "handleSyncedBlock s (KVTxIndexer kv) True now nb w = Some (None, w')"
    using nb idx p(1) pub by (simp add: handleSyncedBlock_def indexBlock_def recovering_def KVTxIndexer_def publish_tip_def with_status_def w'_def)
  moreover have "w_db w' = d'" "w_tip w' = p" by (simp_all add: w'_def with_status_def)
  ultimately show ?thesis using g p(2) by (intro exI [of _ w'] exI [of _ "map v_hash vs"] exI [of _ "s_blockGasUsed st"]) simp
qed

text \<open>The example block of the indexer, published to fresh streams.\<close>

definition demo_syncer :: "(memdb, membatch, RPCStream) Syncer" where
  "demo_syncer =
     \<lparr>Earliest = 0, FetchJobs = 1, AllowGaps = False, EnableSync = True, ParallelSyncTipAndGaps = False, sync_db = MemDB,
      indexer = Some (KVTxIndexer demo_kv), tipPublisher = Some (rpc_publisher demo_kv)\<rparr>"

definition demo_fetched :: "unit Fetched" where
  "demo_fetched = \<lparr>Height = 5, Block = Some (Some demo_block), BlockResults = Some demo_results, ActiveSet = [], Skipped = False\<rparr>"

theorem tip_published_witness:
  "\<exists>st w' hdr hashes logs. NewRPCStream = Some st \<and>
    handleSyncedBlock demo_syncer (KVTxIndexer demo_kv) True 0 demo_fetched \<lparr>w_db = [], w_status = None, w_tip = st\<rparr> = Some (None, w') \<and>
    rpc_inv (w_tip w') [hdr] hashes logs \<and> rh_Hash hdr = bytes_to_hash [7] \<and> eh_Number (rh_EthHeader hdr) = 5"
proof -
  obtain st where st: "NewRPCStream = Some st" "rpc_inv st [] [] []" using NewRPCStream_inv by blast
  obtain d' n logs x where d: "indexBlockWithStats demo_kv [] demo_block (Some demo_results) = Inr (d', n)"
    "GetLogsByBlockHeight demo_kv d' (h_Height (b_Header demo_block)) = Inr [logs]"
    "GetRPCTransactionHashesByBlockHeight demo_kv d' (h_Height (b_Header demo_block)) = Inr [x]" by (rule demo_seen)
  have f: "\<not> Skipped demo_fetched" "block_of demo_fetched = Some demo_block" "Height demo_fetched = h_Height (b_Header demo_block)"
    "BlockResults demo_fetched = Some demo_results"
    by (simp_all add: demo_fetched_def block_of_def demo_height)
  have i: "IndexBlockWithResults demo_kv [] demo_block (BlockResults demo_fetched) = Inr d'"
    by (simp add: IndexBlockWithResults_def f(4) d(1))
  have desc: "describable demo_kv demo_block (blockBaseFeeFromResults (kv_chain demo_kv) (BlockResults demo_fetched))"
    by (simp add: describable_def f(4) demo_block_def demo_lib_def blockBaseFeeFromResults_def demo_results_def BaseFeeFromEvents_def)
  have p: "tipPublisher demo_syncer = Some (rpc_publisher demo_kv)" by (simp add: demo_syncer_def)
  let ?w = "\<lparr>w_db = [] :: memdb, w_status = None, w_tip = st\<rparr>"
  have e: "eth_text (kv_eth demo_kv)" using std_text.eth_text_axioms by simp
  have "int (length [logs]) < 2 ^ 31" by simp
  from tip_published [of demo_kv map_of "\<lambda>b. b" ?w demo_block demo_fetched d' "[logs]" demo_syncer "[]" "[]" "[]" 0,
      OF demo_hyps(1,2) e demo_hyps(4) _ demo_hyps(8) desc f(1-3) _ demo_hyps(9) d(2) this p] demo_hyps(7) i st(2)
  obtain w' hashes gas where w': "handleSyncedBlock demo_syncer (KVTxIndexer demo_kv) True 0 demo_fetched ?w = Some (None, w')"
    "rpc_inv (w_tip w') [\<lparr>rh_EthHeader = header_of demo_kv demo_block (blockBaseFeeFromResults (kv_chain demo_kv) (BlockResults demo_fetched)) gas hashes (concat [logs]),
       rh_Hash = bytes_to_hash (b_Hash demo_block)\<rparr>] hashes (concat [logs])" by auto
  have "b_Hash demo_block = [7]" by (simp add: demo_block_def)
  with st(1) w' show ?thesis
    by (intro exI [of _ st] exI [of _ w'] exI conjI) (assumption | simp add: header_of_def demo_height)+
qed

end
