(* ===== verification/Log_Filters.thy ===== *)
theory Log_Filters
  imports Backend_Logs Rpc_Stream "HOL-Library.AList"
begin

text \<open>
  Log queries and filters, \<open>internal/evm/rpc/namespaces/ethereum/eth/filters\<close>: \<open>eth_getLogs\<close> over a block or a range
  of blocks (\<open>filters.go\<close>, \<open>utils.go\<close>), and the installed filters that clients poll (\<open>api.go\<close>). A range query returns
  exactly the matching logs of the range, in order, or an error; polling a filter ends when a read finds
  nothing new, and then has returned every matching log once.
\<close>

section \<open>Definitions\<close>

subsection \<open>Criteria and blooms\<close>

text \<open>The criteria of go-ethereum. A \<open>big.Int\<close> is read with \<open>Int64\<close> or \<open>Uint64\<close>, which keep the low 64 bits.\<close>

record FilterCriteria =
  fc_BlockHash :: "hash option"
  FromBlock :: "int option"
  ToBlock :: "int option"
  fc_Addresses :: "address list"
  fc_Topics :: "hash list list"

text \<open>\<open>types.BloomLookup\<close>, the Keccak state and the number \<open>rpc.LatestBlockNumber\<close> of go-ethereum.\<close>

record Filter_Lib =
  BloomLookup :: "bytes \<Rightarrow> bytes \<Rightarrow> bool"
  KeccakRead :: "bytes \<Rightarrow> nat \<Rightarrow> go_error + bytes"
  rpc_LatestBlockNumber :: int

definition maxAddresses :: int where "maxAddresses = 32"
definition maxTopics :: int where "maxTopics = 4"
definition maxToOverhang :: int where "maxToOverhang = 600"

record BloomIV =
  iv_I :: "int list"
  iv_V :: bytes

record Filter =
  f_criteria :: FilterCriteria
  f_bloomFilters :: "BloomIV list list"

definition bloom_index :: "bytes \<Rightarrow> nat \<Rightarrow> int" where
  "bloom_index hashbuf k = 256 - int (be_nat (take 2 (drop (2 * k) hashbuf)) mod 2048 div 8) - 1"

definition bloom_value :: "bytes \<Rightarrow> nat \<Rightarrow> byte" where
  "bloom_value hashbuf k = 2 ^ (unat (hashbuf ! (2 * k + 1)) mod 8)"

definition calcBloomIVs :: "Filter_Lib \<Rightarrow> bytes \<Rightarrow> go_error + BloomIV" where
  "calcBloomIVs F data =
     bindR (KeccakRead F data 6) (\<lambda>hashbuf.
       Inr \<lparr>iv_I = map (bloom_index hashbuf) [0, 1, 2], iv_V = map (bloom_value hashbuf) [0, 1, 2]\<rparr>)"

text \<open>The rule of one position; a nil clause or an error drops the whole rule.\<close>

fun bloom_rule :: "Filter_Lib \<Rightarrow> bytes option list \<Rightarrow> BloomIV list option" where
  "bloom_rule F [] = Some []"
| "bloom_rule F (None # clauses) = None"
| "bloom_rule F (Some clause # clauses) =
     (case calcBloomIVs F clause of Inl _ \<Rightarrow> None | Inr iv \<Rightarrow> map_option ((#) iv) (bloom_rule F clauses))"

fun createBloomFilters :: "Filter_Lib \<Rightarrow> bytes option list list \<Rightarrow> BloomIV list list" where
  "createBloomFilters F [] = []"
| "createBloomFilters F (rule # rules) =
     (if rule = [] then createBloomFilters F rules
      else case bloom_rule F rule of None \<Rightarrow> createBloomFilters F rules | Some ivs \<Rightarrow> ivs # createBloomFilters F rules)"

definition newFilter :: "FilterCriteria \<Rightarrow> BloomIV list list \<Rightarrow> Filter" where
  "newFilter criteria blooms = \<lparr>f_criteria = criteria, f_bloomFilters = blooms\<rparr>"

definition NewBlockFilter :: "FilterCriteria \<Rightarrow> Filter" where
  "NewBlockFilter criteria = newFilter criteria []"

definition NewRangeFilter :: "Filter_Lib \<Rightarrow> int \<Rightarrow> int \<Rightarrow> address list \<Rightarrow> hash list list \<Rightarrow> Filter" where
  "NewRangeFilter F begin_block end_block addresses topics =
     newFilter \<lparr>fc_BlockHash = None, FromBlock = Some begin_block, ToBlock = Some end_block, fc_Addresses = addresses, fc_Topics = topics\<rparr>
       (createBloomFilters F
         ((if addresses = [] then [] else [map (Some \<circ> addr_bytes) addresses]) @ map (map (Some \<circ> hash_bytes)) topics))"

definition bloomFilter :: "Filter_Lib \<Rightarrow> bytes \<Rightarrow> address list \<Rightarrow> hash list list \<Rightarrow> bool" where
  "bloomFilter F bloom addresses topics \<longleftrightarrow>
     (addresses = [] \<or> (\<exists>addr\<in>set addresses. BloomLookup F bloom (addr_bytes addr))) \<and>
     (\<forall>sub\<in>set topics. sub = [] \<or> (\<exists>topic\<in>set sub. BloomLookup F bloom (hash_bytes topic)))"

definition ValidateFilterCriteria :: "FilterCriteria \<Rightarrow> go_error option" where
  "ValidateFilterCriteria criteria =
     (if maxAddresses < int (length (fc_Addresses criteria)) then Some (Errorf ''max filter addresses exceeded'')
      else if maxTopics < int (length (fc_Topics criteria)) then Some (Errorf ''max filter topics exceeded'')
      else None)"

text \<open>A bound skips a log when it is given and not negative; \<open>None\<close> is the panic on a nil log.\<close>

definition bound_skips :: "int option \<Rightarrow> (int \<Rightarrow> int \<Rightarrow> bool) \<Rightarrow> RPCLog option \<Rightarrow> bool option" where
  "bound_skips bound outside entry =
     (case bound of
        None \<Rightarrow> Some False
      | Some b \<Rightarrow> if i64 b < 0 then Some False else map_option (\<lambda>l. outside (u64 b) (u64 (BlockNumber l))) entry)"

fun FilterLogs :: "RPCLog option list \<Rightarrow> int option \<Rightarrow> int option \<Rightarrow> address list \<Rightarrow> hash list list \<Rightarrow> RPCLog option list option" where
  "FilterLogs [] fromBlock toBlock addresses topics = Some []"
| "FilterLogs (entry # logs) fromBlock toBlock addresses topics =
     Option.bind (bound_skips fromBlock (\<lambda>b n. n < b) entry) (\<lambda>before.
       if before then FilterLogs logs fromBlock toBlock addresses topics
       else Option.bind (bound_skips toBlock (\<lambda>b n. b < n) entry) (\<lambda>after.
         if after \<or> \<not> LogMatches entry addresses topics then FilterLogs logs fromBlock toBlock addresses topics
         else map_option ((#) entry) (FilterLogs logs fromBlock toBlock addresses topics)))"

subsection \<open>Queries\<close>

definition wrapC :: "(go_error \<Rightarrow> go_error) \<Rightarrow> ('s, 'a) call \<Rightarrow> ('s, 'a) call" where
  "wrapC f m = (\<lambda>s. map_option (\<lambda>(r, s'). (wrapR f r, s')) (m s))"

text \<open>The loop over the heights of the range.\<close>

fun log_range ::
  "('d, 'b, 'rc, 'lc) Backend \<Rightarrow> Filter_Lib \<Rightarrow> 'd \<Rightarrow> FilterCriteria \<Rightarrow> int \<Rightarrow> RPCLog option list \<Rightarrow> int list \<Rightarrow> ('rc, 'lc, RPCLog option list) backend_call" where
  "log_range B F d crit logLimit logs [] = ret logs"
| "log_range B F d crit logLimit logs (h # hs) =
     andThen (wrapC (\<lambda>e. Wrap e ''failed to fetch block bloom'') (query (GetBlockBloomByHeight B d h))) (\<lambda>bloom.
       if \<not> bloomFilter F bloom (fc_Addresses crit) (fc_Topics crit) then log_range B F d crit logLimit logs hs
       else andThen (wrapC (\<lambda>e. Wrap e ''failed to fetch block logs'') (GetFilteredLogsByHeight B d h (fc_Addresses crit) (fc_Topics crit))) (\<lambda>filtered.
         if logLimit < int (length logs) + int (length filtered) then fail (Errorf ''query returned more than the limit of results'')
         else log_range B F d crit logLimit (logs @ filtered) hs))"

definition range_bound :: "int \<Rightarrow> int \<Rightarrow> int" where
  "range_bound head b = (if i64 b < 0 then head else if i64 b = 0 then 1 else i64 b)"

definition block_logs ::
  "('d, 'b, 'rc, 'lc) Backend \<Rightarrow> Filter_Lib \<Rightarrow> 'd \<Rightarrow> FilterCriteria \<Rightarrow> hash \<Rightarrow> ('rc, 'lc, RPCLog option list) backend_call" where
  "block_logs B F d crit h =
     andThen (wrapC (\<lambda>e. Wrap e ''failed to fetch header by hash'') (query (HeaderByHash B d h))) (\<lambda>header.
     attempt (query (GetBlockBloomByHeight B d (i64 (eh_Number header)))) (\<lambda>r.
       case r of
         Inl _ \<Rightarrow> ret []
       | Inr bloom \<Rightarrow>
           if bloomFilter F bloom (fc_Addresses crit) (fc_Topics crit) then GetFilteredLogs B d h (fc_Addresses crit) (fc_Topics crit)
           else ret []))"

text \<open>Without a range the bounds are nil pointers; that happens for a block filter with the zero hash.\<close>

definition Filter_Logs ::
  "('d, 'b, 'rc, 'lc) Backend \<Rightarrow> Filter_Lib \<Rightarrow> 'd \<Rightarrow> Filter \<Rightarrow> int \<Rightarrow> int \<Rightarrow> ('rc, 'lc, RPCLog option list) backend_call" where
  "Filter_Logs B F d f logLimit blockLimit =
     (let crit = f_criteria f in
      if fc_BlockHash crit \<noteq> None \<and> fc_BlockHash crit \<noteq> Some 0 then block_logs B F d crit (the (fc_BlockHash crit))
      else
        andThen (wrapC (\<lambda>e. Wrap e ''failed to fetch header by number (latest)'') (query (HeaderByNumber B d EthLatestBlockNumber))) (\<lambda>header.
          case (FromBlock crit, ToBlock crit) of
            (Some b, Some e) \<Rightarrow>
              let head = i64 (eh_Number header); first = range_bound head b; last = range_bound head e in
              if blockLimit < i64 (last - first) then fail (Errorf ''maximum [from, to] blocks distance'')
              else if head < first then ret []
              else log_range B F d crit logLimit [] [first..min last (i64 (head + maxToOverhang))]
          | _ \<Rightarrow> query None))"

subsection \<open>The filter API\<close>

text \<open>A filter of the API; its timer has fired when \<open>fired\<close> holds. \<open>rpc.NewID\<close> is the argument \<open>fid\<close> of the
  operations that draw one. The map of filters is an association list with distinct keys.\<close>

datatype filter_type = PendingTransactionsSubscription | BlocksSubscription | LogsSubscription | UnknownSubscription

record filter_entry =
  fe_typ :: filter_type
  fired :: bool
  fe_crit :: FilterCriteria
  fe_offset :: int

type_synonym filter_map = "(string \<times> filter_entry) list"

record api_config =
  RPCFilterCap :: int
  RPCLogsCap :: int
  RPCBlockRangeCap :: int

definition no_criteria :: FilterCriteria where
  "no_criteria = \<lparr>fc_BlockHash = None, FromBlock = None, ToBlock = None, fc_Addresses = [], fc_Topics = []\<rparr>"

text \<open>One round of \<open>timeoutLoop\<close>.\<close>

definition timeout_round :: "filter_map \<Rightarrow> filter_map" where
  "timeout_round fs = filter (\<lambda>(_, f). \<not> fired f) fs"

definition NewPendingTransactionFilter :: "api_config \<Rightarrow> RPCStream option \<Rightarrow> string \<Rightarrow> filter_map \<Rightarrow> (string \<times> filter_map) option" where
  "NewPendingTransactionFilter cfg events fid fs =
     (case events of
        None \<Rightarrow> Some (''error creating pending tx filter: live filters unavailable in polling-only mode'', fs)
      | Some rs \<Rightarrow>
          if RPCFilterCap cfg \<le> int (length fs) then Some (''error creating pending tx filter: max limit reached'', fs)
          else map_option (\<lambda>(_, offset). (fid, AList.update fid \<lparr>fe_typ = PendingTransactionsSubscription, fired = False, fe_crit = no_criteria, fe_offset = offset\<rparr> fs))
                 (ReadNonBlocking (pendingTxStream rs) (-1)))"

definition API_NewBlockFilter :: "api_config \<Rightarrow> RPCStream option \<Rightarrow> string \<Rightarrow> filter_map \<Rightarrow> (string \<times> filter_map) option" where
  "API_NewBlockFilter cfg events fid fs =
     (case events of
        None \<Rightarrow> Some (''error creating block filter: live filters unavailable in polling-only mode'', fs)
      | Some rs \<Rightarrow>
          if RPCFilterCap cfg \<le> int (length fs) then Some (''error creating block filter: max limit reached'', fs)
          else map_option (\<lambda>(_, offset). (fid, AList.update fid \<lparr>fe_typ = BlocksSubscription, fired = False, fe_crit = no_criteria, fe_offset = offset\<rparr> fs))
                 (ReadNonBlocking (headerStream rs) (-1)))"

definition NewFilter :: "api_config \<Rightarrow> RPCStream option \<Rightarrow> string \<Rightarrow> FilterCriteria \<Rightarrow> filter_map \<Rightarrow> ((go_error + string) \<times> filter_map) option" where
  "NewFilter cfg events fid criteria fs =
     (case events of
        None \<Rightarrow> Some (Inl (Errorf ''error creating filter: live filters unavailable in polling-only mode''), fs)
      | Some rs \<Rightarrow>
          (case ValidateFilterCriteria criteria of
             Some err \<Rightarrow> Some (Inl (Wrap err ''error creating filter: invalid criteria''), fs)
           | None \<Rightarrow>
               if RPCFilterCap cfg \<le> int (length fs) then Some (Inl (Errorf ''error creating filter: max limit reached''), fs)
               else map_option (\<lambda>(_, offset). (Inr fid, AList.update fid \<lparr>fe_typ = LogsSubscription, fired = False, fe_crit = criteria, fe_offset = offset\<rparr> fs))
                      (ReadNonBlocking (logStream rs) (-1))))"

definition criteria_filter :: "Filter_Lib \<Rightarrow> FilterCriteria \<Rightarrow> Filter" where
  "criteria_filter F crit =
     (if fc_BlockHash crit \<noteq> None then NewBlockFilter crit
      else NewRangeFilter F (case FromBlock crit of None \<Rightarrow> rpc_LatestBlockNumber F | Some b \<Rightarrow> i64 b) (case ToBlock crit of None \<Rightarrow> rpc_LatestBlockNumber F | Some b \<Rightarrow> i64 b)
             (fc_Addresses crit) (fc_Topics crit))"

definition API_GetLogs ::
  "api_config \<Rightarrow> ('d, 'b, 'rc, 'lc) Backend \<Rightarrow> Filter_Lib \<Rightarrow> 'd \<Rightarrow> FilterCriteria \<Rightarrow> ('rc, 'lc, RPCLog option list) backend_call" where
  "API_GetLogs cfg B F d crit =
     (case ValidateFilterCriteria crit of
        Some err \<Rightarrow> fail (Wrap err ''invalid criteria'')
      | None \<Rightarrow> Filter_Logs B F d (criteria_filter F crit) (RPCLogsCap cfg) (RPCBlockRangeCap cfg))"

definition UninstallFilter :: "string \<Rightarrow> filter_map \<Rightarrow> bool \<times> filter_map" where
  "UninstallFilter fid fs = (if map_of fs fid = None then (False, fs) else (True, AList.delete fid fs))"

definition GetFilterLogs ::
  "api_config \<Rightarrow> ('d, 'b, 'rc, 'lc) Backend \<Rightarrow> Filter_Lib \<Rightarrow> 'd \<Rightarrow> filter_map \<Rightarrow> string \<Rightarrow> ('rc, 'lc, RPCLog option list) backend_call" where
  "GetFilterLogs cfg B F d fs fid =
     (case map_of fs fid of
        None \<Rightarrow> fail (Errorf ''filter not found'')
      | Some f \<Rightarrow>
          if fe_typ f \<noteq> LogsSubscription then fail (Errorf ''filter is not a LogsSubscription'')
          else Filter_Logs B F d (criteria_filter F (fe_crit f)) (RPCLogsCap cfg) (RPCBlockRangeCap cfg))"

text \<open>The polling loop for logs. The stream is read segment by segment and unlocked in between: before read \<open>i\<close>,
  publishers add \<open>arrivals i\<close>.\<close>

definition arrive :: "RPCLog option Stream \<Rightarrow> RPCLog option list \<Rightarrow> RPCLog option Stream option" where
  "arrive s vs = map_option snd (Stream_Add s vs)"

partial_function (option) poll_logs ::
  "FilterCriteria \<Rightarrow> RPCLog option Stream \<Rightarrow> RPCLog option list \<Rightarrow> int \<Rightarrow> (nat \<Rightarrow> RPCLog option list) \<Rightarrow>
   (RPCLog option list \<times> int \<times> RPCLog option Stream) option" where
  "poll_logs crit s logs offset arrivals =
     Option.bind (arrive s (arrivals 0)) (\<lambda>s'.
     Option.bind (ReadNonBlocking s' offset) (\<lambda>(chunk, offset').
       if chunk = [] then Some (logs, offset', s')
       else Option.bind (FilterLogs chunk (FromBlock crit) (ToBlock crit) (fc_Addresses crit) (fc_Topics crit)) (\<lambda>filtered.
         poll_logs crit s' (logs @ filtered) offset' (\<lambda>i. arrivals (Suc i)))))"

datatype changes = Hashes "hash list" | Logs "RPCLog option list"

definition GetFilterChanges ::
  "RPCStream option \<Rightarrow> (nat \<Rightarrow> RPCLog option list) \<Rightarrow> string \<Rightarrow> filter_map \<Rightarrow> ((go_error + changes) \<times> filter_map \<times> RPCStream option) option" where
  "GetFilterChanges events arrivals fid fs =
     (case (events, map_of fs fid) of
        (None, _) \<Rightarrow> Some (Inl (Errorf ''filter changes unavailable in polling-only mode''), fs, events)
      | (Some rs, None) \<Rightarrow> Some (Inl (Errorf ''filter not found''), fs, events)
      | (Some rs, Some f) \<Rightarrow>
          let keep = (\<lambda>offset. AList.update fid (f\<lparr>fired := False, fe_offset := offset\<rparr>) fs) in
          (case fe_typ f of
             PendingTransactionsSubscription \<Rightarrow>
               map_option (\<lambda>(hashes, offset). (Inr (Hashes hashes), keep offset, events)) (ReadAllNonBlocking (pendingTxStream rs) (fe_offset f))
           | BlocksSubscription \<Rightarrow>
               map_option (\<lambda>(headers, offset). (Inr (Hashes (map rh_Hash headers)), keep offset, events)) (ReadAllNonBlocking (headerStream rs) (fe_offset f))
           | LogsSubscription \<Rightarrow>
               map_option (\<lambda>(logs, offset, s). (Inr (Logs logs), keep offset, Some (rs\<lparr>logStream := s\<rparr>)))
                 (poll_logs (fe_crit f) (logStream rs) [] (fe_offset f) arrivals)
           | UnknownSubscription \<Rightarrow> Some (Inl (Errorf ''invalid filter type''), keep (fe_offset f), events)))"

section \<open>Blooms\<close>

lemma calcBloomIVs_bounds:
  assumes "calcBloomIVs F data = Inr iv"
  shows "\<forall>i\<in>set (iv_I iv). 0 \<le> i \<and> i < 256"
proof -
  have "0 \<le> bloom_index buf k \<and> bloom_index buf k < 256" for buf k
    using mod_less_divisor [of 2048 "be_nat (take 2 (drop (2 * k) buf))"] by (simp add: bloom_index_def)
  then show ?thesis using assms by (auto simp: calcBloomIVs_def result_simps)
qed

text \<open>A bloom filter has no false negatives: the bloom of a list of logs answers for the address and the
  topics of each of them.\<close>

locale bloom_lib =
  fixes F :: Filter_Lib and E :: Eth_Lib and L :: Chain_Lib
  assumes address_law: "l \<in> set ls \<Longrightarrow> BloomLookup F (BytesToBloom E (LogsBloom_of L ls)) (addr_bytes (log_Address l))"
    and topic_law: "l \<in> set ls \<Longrightarrow> t \<in> set (log_Topics l) \<Longrightarrow> BloomLookup F (BytesToBloom E (LogsBloom_of L ls)) (hash_bytes t)"
begin

lemma bloomFilter_complete:
  assumes "Some l \<in> set logs" and "LogMatches (Some l) addresses topics"
  shows "bloomFilter F (BytesToBloom E (LogsBloom_of L (EthLogs logs))) addresses topics"
proof -
  let ?bloom = "BytesToBloom E (LogsBloom_of L (EthLogs logs))"
  have "the (EthLog_of (Some l)) \<in> set (EthLogs logs)"
    using assms(1) by (force simp: EthLogs_def map_filter_def EthLog_of_def)
  note a = address_law [OF this] topic_law [OF this]
  have l: "addresses = [] \<or> Address l \<in> set addresses" "list_all2 topic_matches (take (length topics) (Topics l)) topics"
    using assms(2) by (auto simp: LogMatches_def split: if_splits)
  have "sub = [] \<or> (\<exists>t\<in>set sub. BloomLookup F ?bloom (hash_bytes t))" if "sub \<in> set topics" for sub
  proof -
    from that obtain i where i: "i < length topics" "sub = topics ! i" by (auto simp: in_set_conv_nth)
    then have "i < length (take (length topics) (Topics l))" "topic_matches (take (length topics) (Topics l) ! i) sub"
      using l(2) by (auto simp: list_all2_conv_all_nth)
    then have "topic_matches (Topics l ! i) sub" "Topics l ! i \<in> set (Topics l)" by auto
    then show ?thesis using a(2) by (auto simp: topic_matches_def EthLog_of_def)
  qed
  then show ?thesis using l(1) a(1) by (auto simp: bloomFilter_def EthLog_of_def)
qed

lemma bloom_skips:
  assumes "\<not> bloomFilter F (BytesToBloom E (LogsBloom_of L (EthLogs (concat groups)))) addresses topics"
  shows "filterGroupedLogs groups addresses topics = []"
proof -
  have "\<not> LogMatches x addresses topics" if "x \<in> set (concat groups)" for x
  proof (cases x)
    case None
    then show ?thesis by (simp add: LogMatches_def)
  next
    case (Some l)
    then show ?thesis using bloomFilter_complete [of l "concat groups"] assms that by blast
  qed
  then show ?thesis by (simp add: filterGroupedLogs_def filter_empty_conv)
qed

end

section \<open>Range queries\<close>

lemma wrapC_run [call_simps]:
  "m s = Some (Inr x, s') \<Longrightarrow> wrapC f m s = Some (Inr x, s')" "m s = Some (Inl e, s') \<Longrightarrow> wrapC f m s = Some (Inl (f e), s')"
  by (simp_all add: wrapC_def)

lemma served_bloom:
  assumes "served B kv d h groups" and "eth_hex (be_eth B)"
  shows "GetBlockBloomByHeight B d h = Some (Inr (BytesToBloom (be_eth B) (LogsBloom_of (be_chain B) (EthLogs (concat groups)))))"
proof -
  from assms(1) obtain meta where m: "be_indexer B = Some kv" "GetBlockMetaByHeight kv d h = Inr meta"
    "bm_VirtualizedCosmosEvents meta = be_VirtualizeCosmosEvents B"
    "bm_Bloom meta = hexutil_Encode (be_eth B) (LogsBloom_of (be_chain B) (EthLogs (concat groups)))"
    unfolding served_def by blast
  then show ?thesis
    by (simp add: GetBlockBloomByHeight_def cached_bloom_def cachedMetaMatchesVirtualization_def eth_hex.from_hex [OF assms(2)])
qed

definition limited :: "int \<Rightarrow> RPCLog option list \<Rightarrow> go_error + RPCLog option list" where
  "limited limit logs = (if int (length logs) \<le> limit then Inr logs else Inl (Errorf ''query returned more than the limit of results''))"

lemma log_range_ok:
  assumes bl: "bloom_lib F (be_eth B) (be_chain B)" and hex: "eth_hex (be_eth B)" and lru: "lru_cache (be_logsCache B) content"
    and crit: "0 \<notin> set (fc_Addresses crit)" "exact_filter (fc_Addresses crit) (fc_Topics crit)"
    and "\<forall>h\<in>set hs. served B kv d h (groups h)" and "cache_ok content kv d s" and "int (length logs) \<le> limit"
  shows "\<exists>s'. log_range B F d crit limit logs hs s =
      Some (limited limit (logs @ concat (map (\<lambda>h. filterGroupedLogs (groups h) (fc_Addresses crit) (fc_Topics crit)) hs)), s') \<and>
    cache_ok content kv d s'"
  using assms(6-8)
proof (induction hs arbitrary: logs s)
  case Nil
  then show ?case by (simp add: call_simps limited_def)
next
  case (Cons h hs)
  let ?A = "fc_Addresses crit" and ?T = "fc_Topics crit"
  have sv: "served B kv d h (groups h)" using Cons.prems(1) by simp
  let ?bloom = "BytesToBloom (be_eth B) (LogsBloom_of (be_chain B) (EthLogs (concat (groups h))))"
  have q: "wrapC f (query (GetBlockBloomByHeight B d h)) s = Some (Inr ?bloom, s)" for f
    by (simp add: served_bloom [OF sv hex] call_simps)
  show ?case
  proof (cases "bloomFilter F ?bloom ?A ?T")
    case False
    then show ?thesis
      using Cons.IH [of s logs] Cons.prems bloom_lib.bloom_skips [OF bl False] by (simp add: call_simps q)
  next
    case True
    let ?ls = "filterGroupedLogs (groups h) ?A ?T"
    from GetFilteredLogsByHeight_ok [OF lru sv Cons.prems(2) crit] obtain s1 where
      s1: "GetFilteredLogsByHeight B d h ?A ?T s = Some (Inr ?ls, s1)" "cache_ok content kv d s1" by blast
    then have w: "wrapC f (GetFilteredLogsByHeight B d h ?A ?T) s = Some (Inr ?ls, s1)" for f by (simp add: call_simps)
    show ?thesis
    proof (cases "limit < int (length logs) + int (length ?ls)")
      case True
      with \<open>bloomFilter F ?bloom ?A ?T\<close> s1(2) show ?thesis by (simp add: call_simps q w limited_def)
    next
      case False
      with \<open>bloomFilter F ?bloom ?A ?T\<close> Cons.IH [of s1 "logs @ ?ls"] Cons.prems(1) s1(2) show ?thesis by (simp add: call_simps q w)
    qed
  qed
qed

text \<open>A block filter with the zero hash is not a block query, and it has no range: the nil bounds are
  dereferenced.\<close>

lemma zero_hash_panics:
  assumes "HeaderByNumber B d EthLatestBlockNumber = Some (Inr header)" and "fc_BlockHash crit = Some 0" and "FromBlock crit = None"
    and "ValidateFilterCriteria crit = None"
  shows "API_GetLogs cfg B F d crit s = None"
  using assms by (simp add: API_GetLogs_def Filter_Logs_def criteria_filter_def NewBlockFilter_def newFilter_def call_simps)

text \<open>A query by block hash hides a failure to read the bloom behind an empty result; a query by range returns
  the error.\<close>

lemma block_query_hides_error:
  assumes "HeaderByHash B d h = Some (Inr header)" and "h \<noteq> 0" and "GetBlockBloomByHeight B d (i64 (eh_Number header)) = Some (Inl err)"
    and "fc_BlockHash crit = Some h" and "ValidateFilterCriteria crit = None"
  shows "API_GetLogs cfg B F d crit s = Some (Inr [], s)"
  using assms by (simp add: API_GetLogs_def Filter_Logs_def criteria_filter_def NewBlockFilter_def newFilter_def block_logs_def call_simps)

section \<open>Polling\<close>

text \<open>The logs a filter asks for.\<close>

definition wanted :: "FilterCriteria \<Rightarrow> RPCLog option \<Rightarrow> bool" where
  "wanted crit x \<longleftrightarrow>
     (\<forall>b l. FromBlock crit = Some b \<and> 0 \<le> i64 b \<and> x = Some l \<longrightarrow> u64 b \<le> u64 (BlockNumber l)) \<and>
     (\<forall>b l. ToBlock crit = Some b \<and> 0 \<le> i64 b \<and> x = Some l \<longrightarrow> u64 (BlockNumber l) \<le> u64 b) \<and>
     LogMatches x (fc_Addresses crit) (fc_Topics crit)"

lemma FilterLogs_wanted:
  "None \<notin> set logs \<Longrightarrow>
    FilterLogs logs (FromBlock crit) (ToBlock crit) (fc_Addresses crit) (fc_Topics crit) = Some (filter (wanted crit) logs)"
proof (induction logs)
  case (Cons x logs)
  then obtain l where "x = Some l" by (cases x) auto
  with Cons show ?case by (auto simp: wanted_def bound_skips_def split: option.splits)
qed simp

text \<open>The history after \<open>k\<close> rounds of the loop, the position of the reader before its read of round \<open>k\<close>, and the
  rounds whose read finds nothing.\<close>

definition published :: "'v list \<Rightarrow> (nat \<Rightarrow> 'v list) \<Rightarrow> nat \<Rightarrow> 'v list" where
  "published hist arrivals k = hist @ concat (map arrivals [0..<k])"

primrec reader_at :: "nat \<Rightarrow> 'v list \<Rightarrow> (nat \<Rightarrow> 'v list) \<Rightarrow> nat \<Rightarrow> nat \<Rightarrow> nat" where
  "reader_at seg hist arrivals x 0 = x"
| "reader_at seg hist arrivals x (Suc k) =
     reader_at seg (hist @ arrivals 0) (\<lambda>i. arrivals (Suc i)) (x + length (read_items seg (hist @ arrivals 0) x)) k"

definition catches_up :: "nat \<Rightarrow> 'v list \<Rightarrow> (nat \<Rightarrow> 'v list) \<Rightarrow> nat \<Rightarrow> nat \<Rightarrow> bool" where
  "catches_up seg hist arrivals x k \<longleftrightarrow> reader_at seg hist arrivals x k = length (published hist arrivals (Suc k))"

text \<open>Until it catches up, the reader is never more than the capacity behind.\<close>

definition keeps_pace :: "int \<Rightarrow> nat \<Rightarrow> 'v list \<Rightarrow> (nat \<Rightarrow> 'v list) \<Rightarrow> nat \<Rightarrow> bool" where
  "keeps_pace cap seg hist arrivals x \<longleftrightarrow>
     (\<forall>k. (\<forall>j<k. \<not> catches_up seg hist arrivals x j) \<longrightarrow>
        int (length (published hist arrivals (Suc k))) \<le> int (reader_at seg hist arrivals x k) + cap)"

lemma published_0 [simp]: "published hist arrivals 0 = hist"
  by (simp add: published_def)

lemma published_Suc: "published hist arrivals (Suc k) = published (hist @ arrivals 0) (\<lambda>i. arrivals (Suc i)) k"
proof -
  have "[0..<Suc k] = 0 # map Suc [0..<k]" by (simp add: map_Suc_upt upt_conv_Cons del: upt_Suc)
  then show ?thesis by (simp add: published_def comp_def del: upt_Suc)
qed

lemma catches_up_0: "catches_up seg hist arrivals x 0 \<longleftrightarrow> x = length (hist @ arrivals 0)"
  by (simp add: catches_up_def published_Suc)

lemma catches_up_Suc:
  "catches_up seg hist arrivals x (Suc k) \<longleftrightarrow>
     catches_up seg (hist @ arrivals 0) (\<lambda>i. arrivals (Suc i)) (x + length (read_items seg (hist @ arrivals 0) x)) k"
  by (simp add: catches_up_def published_Suc)

lemma keeps_pace_now: "keeps_pace cap seg hist arrivals x \<Longrightarrow> int (length (hist @ arrivals 0)) \<le> int x + cap"
  unfolding keeps_pace_def by (drule spec [of _ 0]) (simp add: published_Suc)

lemma keeps_pace_next:
  assumes "keeps_pace cap seg hist arrivals x" and "\<not> catches_up seg hist arrivals x 0"
  shows "keeps_pace cap seg (hist @ arrivals 0) (\<lambda>i. arrivals (Suc i)) (x + length (read_items seg (hist @ arrivals 0) x))"
  unfolding keeps_pace_def
proof (intro allI impI)
  fix k assume "\<forall>j<k. \<not> catches_up seg (hist @ arrivals 0) (\<lambda>i. arrivals (Suc i)) (x + length (read_items seg (hist @ arrivals 0) x)) j"
  then have "\<forall>j<Suc k. \<not> catches_up seg hist arrivals x j"
    using assms(2) by (auto simp: less_Suc_eq_0_disj catches_up_Suc)
  with assms(1) have "int (length (published hist arrivals (Suc (Suc k)))) \<le> int (reader_at seg hist arrivals x (Suc k)) + cap"
    unfolding keeps_pace_def by blast
  then show "int (length (published (hist @ arrivals 0) (\<lambda>i. arrivals (Suc i)) (Suc k))) \<le>
      int (reader_at seg (hist @ arrivals 0) (\<lambda>i. arrivals (Suc i)) (x + length (read_items seg (hist @ arrivals 0) x)) k) + cap"
    by (simp add: published_Suc [of hist])
qed

text \<open>One round: the read stops the loop exactly when there is nothing new.\<close>

definition round_ok :: "RPCLog option Stream \<Rightarrow> RPCLog option list \<Rightarrow> (nat \<Rightarrow> RPCLog option list) \<Rightarrow> nat \<Rightarrow> bool" where
  "round_ok s hist arrivals x \<longleftrightarrow> stream_inv s hist \<and> x \<le> length hist \<and> None \<notin> set hist \<and> (\<forall>i. None \<notin> set (arrivals i)) \<and>
     keeps_pace (maxSegments s * segmentSize s) (nat (segmentSize s)) hist arrivals x"

lemma read_items_empty:
  assumes "0 < seg" and "x \<le> length hist"
  shows "read_items seg hist x = [] \<longleftrightarrow> x = length hist"
  using assms mod_less_divisor [OF assms(1), of x] by (auto simp: read_items_def simp del: mod_less_divisor)

lemma read_items_le: "x \<le> length hist \<Longrightarrow> x + length (read_items seg hist x) \<le> length hist"
  by (simp add: read_items_def)

lemma poll_round:
  assumes "round_ok s hist arrivals x"
  obtains s1 where "arrive s (arrivals 0) = Some s1" "stream_inv s1 (hist @ arrivals 0)" "segmentSize s1 = segmentSize s"
    "ReadNonBlocking s1 (int x) =
       (let items = read_items (nat (segmentSize s)) (hist @ arrivals 0) x in Some (items, int (x + length items)))"
    "read_items (nat (segmentSize s)) (hist @ arrivals 0) x = [] \<longleftrightarrow> catches_up (nat (segmentSize s)) hist arrivals x 0"
    "\<not> catches_up (nat (segmentSize s)) hist arrivals x 0 \<Longrightarrow>
       round_ok s1 (hist @ arrivals 0) (\<lambda>i. arrivals (Suc i)) (x + length (read_items (nat (segmentSize s)) (hist @ arrivals 0) x))"
proof -
  let ?seg = "nat (segmentSize s)" and ?hist = "hist @ arrivals 0"
  have a: "stream_inv s hist" "x \<le> length hist" "None \<notin> set ?hist" "\<forall>i. None \<notin> set (arrivals i)"
    "keeps_pace (maxSegments s * segmentSize s) ?seg hist arrivals x"
    using assms by (auto simp: round_ok_def)
  from Stream_Add_ok [OF a(1), of "arrivals 0"] obtain i s1 where s1: "Stream_Add s (arrivals 0) = Some (i, s1)" "stream_inv s1 ?hist"
    "segmentSize s1 = segmentSize s" "maxSegments s1 = maxSegments s" by blast
  have "nat (segmentOffset s1) * nat (segmentSize s1) \<le> x"
    by (rule retained [OF s1(2)]) (use keeps_pace_now [OF a(5)] s1(3,4) in simp)
  from doRead_retained [OF s1(2) this] a(2) s1(3)
  have rd: "ReadNonBlocking s1 (int x) = (let items = read_items ?seg ?hist x in Some (items, int (x + length items)))"
    by (simp add: ReadNonBlocking_def Let_def)
  have seg: "0 < ?seg" using a(1) by (simp add: stream_inv_def)
  have "x + length (read_items ?seg ?hist x) \<le> length ?hist" using a(2) by (intro read_items_le) simp
  then have nx: "\<not> catches_up ?seg hist arrivals x 0 \<Longrightarrow> round_ok s1 ?hist (\<lambda>i. arrivals (Suc i)) (x + length (read_items ?seg ?hist x))"
    using keeps_pace_next [OF a(5)] s1 a(3,4) by (simp add: round_ok_def)
  show thesis
    by (rule that [OF _ s1(2,3) rd _ nx]) (use s1(1) read_items_empty [OF seg, of x ?hist] a(2) in \<open>auto simp: arrive_def catches_up_0\<close>)
qed

lemma round_filter:
  assumes "round_ok s hist arrivals x"
  shows "FilterLogs (read_items seg (hist @ arrivals 0) x) (FromBlock crit) (ToBlock crit) (fc_Addresses crit) (fc_Topics crit) =
    Some (filter (wanted crit) (read_items seg (hist @ arrivals 0) x))"
proof (rule FilterLogs_wanted)
  have "None \<notin> set (hist @ arrivals 0)" using assms by (simp add: round_ok_def)
  then show "None \<notin> set (read_items seg (hist @ arrivals 0) x)"
    unfolding read_items_def by (meson in_set_dropD in_set_takeD)
qed

lemma drop_read_items: "x \<le> length hist \<Longrightarrow> drop x (hist @ w) = read_items seg hist x @ drop (x + length (read_items seg hist x)) (hist @ w)"
proof -
  assume x: "x \<le> length hist"
  have "drop x hist = read_items seg hist x @ drop (x + length (read_items seg hist x)) hist"
    using append_take_drop_id [of "length (read_items seg hist x)" "drop x hist"] read_items_take [of seg hist x] by (simp add: add.commute)
  moreover have "x + length (read_items seg hist x) \<le> length hist" using x by (rule read_items_le)
  ultimately show ?thesis using x by simp
qed

text \<open>The loop ends in the first round that finds nothing, with everything published until then.\<close>

lemma poll_logs_ends:
  assumes "round_ok s hist arrivals x" and "catches_up (nat (segmentSize s)) hist arrivals x n"
    and "\<forall>j<n. \<not> catches_up (nat (segmentSize s)) hist arrivals x j"
  shows "\<exists>s'. poll_logs crit s logs (int x) arrivals =
      Some (logs @ filter (wanted crit) (drop x (published hist arrivals (Suc n))), int (length (published hist arrivals (Suc n))), s') \<and>
    stream_inv s' (published hist arrivals (Suc n))"
  using assms
proof (induction n arbitrary: s hist x arrivals logs)
  case 0
  obtain s1 where s1: "arrive s (arrivals 0) = Some s1" "stream_inv s1 (hist @ arrivals 0)" "segmentSize s1 = segmentSize s"
    "ReadNonBlocking s1 (int x) =
       (let items = read_items (nat (segmentSize s)) (hist @ arrivals 0) x in Some (items, int (x + length items)))"
    "read_items (nat (segmentSize s)) (hist @ arrivals 0) x = [] \<longleftrightarrow> catches_up (nat (segmentSize s)) hist arrivals x 0"
    by (rule poll_round [OF "0.prems"(1)])
  then show ?case using "0.prems"(2) by (subst poll_logs.simps) (simp add: published_Suc catches_up_0)
next
  case (Suc n)
  let ?seg = "nat (segmentSize s)" and ?hist = "hist @ arrivals 0"
  let ?items = "read_items ?seg ?hist x"
  have no: "\<not> catches_up ?seg hist arrivals x 0" using Suc.prems(3) by blast
  obtain s1 where s1: "arrive s (arrivals 0) = Some s1" "segmentSize s1 = segmentSize s"
    "ReadNonBlocking s1 (int x) = Some (?items, int (x + length ?items))" "?items \<noteq> []"
    "round_ok s1 ?hist (\<lambda>i. arrivals (Suc i)) (x + length ?items)"
    by (rule poll_round [OF Suc.prems(1)]) (use no in \<open>simp add: Let_def\<close>)
  have up: "catches_up ?seg ?hist (\<lambda>i. arrivals (Suc i)) (x + length ?items) n"
    "\<forall>j<n. \<not> catches_up ?seg ?hist (\<lambda>i. arrivals (Suc i)) (x + length ?items) j"
    using Suc.prems(2,3) by (auto simp: catches_up_Suc)
  have x: "x \<le> length ?hist" using Suc.prems(1) by (simp add: round_ok_def)
  have "drop x (published hist arrivals (Suc (Suc n))) = ?items @ drop (x + length ?items) (published ?hist (\<lambda>i. arrivals (Suc i)) (Suc n))"
    unfolding published_Suc [of hist] published_def [of ?hist] by (rule drop_read_items [OF x])
  with Suc.IH [OF s1(5), unfolded s1(2), OF up, of "logs @ filter (wanted crit) ?items"] s1(1,3,4) round_filter [OF Suc.prems(1), of ?seg crit]
  show ?case by (subst poll_logs.simps) (simp add: published_Suc [of hist])
qed

text \<open>It only ends that way: publishers that always leave something unread keep it running.\<close>

lemma poll_logs_returns:
  assumes "poll_logs crit s logs offset arrivals = Some r" and "round_ok s hist arrivals x" and "offset = int x"
  shows "\<exists>n. catches_up (nat (segmentSize s)) hist arrivals x n"
  using assms(2,3)
proof (induction arbitrary: hist x rule: poll_logs.raw_induct [OF _ assms(1), case_names step])
  case (step poll_logs crit s logs offset arrivals r)
  let ?seg = "nat (segmentSize s)" and ?hist = "hist @ arrivals 0"
  let ?items = "read_items ?seg ?hist x"
  show ?case
  proof (cases "catches_up ?seg hist arrivals x 0")
    case False
    obtain s1 where s1: "arrive s (arrivals 0) = Some s1" "segmentSize s1 = segmentSize s"
      "ReadNonBlocking s1 (int x) = Some (?items, int (x + length ?items))" "?items \<noteq> []"
      "round_ok s1 ?hist (\<lambda>i. arrivals (Suc i)) (x + length ?items)"
      by (rule poll_round [OF step.prems(1)]) (use False in \<open>simp add: Let_def\<close>)
    have "poll_logs crit s1 (logs @ filter (wanted crit) ?items) (int (x + length ?items)) (\<lambda>i. arrivals (Suc i)) = Some r"
      using step.hyps step.prems(2) s1(1,3,4) round_filter [OF step.prems(1), of ?seg crit] by simp
    from step.IH [OF this s1(5) refl] show ?thesis unfolding s1(2) catches_up_Suc [symmetric] by blast
  qed blast
qed

text \<open>When the publishers pause, the reader catches up.\<close>

lemma quiet_catches_up:
  assumes "\<forall>k. arrivals k = []" and "0 < seg" and "x \<le> length hist"
  shows "\<exists>n. catches_up seg hist arrivals x n"
  using assms
proof (induction "length hist - x" arbitrary: x arrivals rule: less_induct)
  case less
  let ?x = "x + length (read_items seg hist x)"
  have e: "hist @ arrivals 0 = hist" using less.prems(1) by simp
  show ?case
  proof (cases "x = length hist")
    case True
    then show ?thesis using e by (intro exI [of _ 0]) (simp add: catches_up_0)
  next
    case False
    then have "read_items seg hist x \<noteq> []" using read_items_empty [OF less.prems(2,3)] by simp
    then have "length hist - ?x < length hist - x" using False less.prems(3) by (simp add: read_items_def)
    from less.hyps [OF this _ less.prems(2) read_items_le [OF less.prems(3)], of "\<lambda>i. arrivals (Suc i)"] less.prems(1)
    obtain n where "catches_up seg hist (\<lambda>i. arrivals (Suc i)) ?x n" by auto
    then show ?thesis using e by (intro exI [of _ "Suc n"]) (simp add: catches_up_Suc)
  qed
qed

lemma paused_catches_up:
  assumes "\<forall>k\<ge>m. arrivals k = []" and "0 < seg" and "x \<le> length hist"
  shows "\<exists>n. catches_up seg hist arrivals x n"
  using assms
proof (induction m arbitrary: hist arrivals x)
  case 0
  then show ?case by (intro quiet_catches_up) auto
next
  case (Suc m)
  let ?hist = "hist @ arrivals 0"
  have "x + length (read_items seg ?hist x) \<le> length ?hist" using Suc.prems(3) by (intro read_items_le) simp
  from Suc.IH [OF _ Suc.prems(2) this, of "\<lambda>i. arrivals (Suc i)"] Suc.prems(1) show ?case by (auto simp flip: catches_up_Suc)
qed

section \<open>Properties\<close>

text \<open>C8: A range query over indexed blocks returns exactly the matching logs of the range, in block order, or an
  error when they are more than the limit; it never returns a part of them. Skipping blocks by their
  bloom loses nothing, answers from the materialized cache are the same as answers from the store, and the
  cache stays correct. The range runs from the first block asked for to the last, but at most 600 blocks beyond
  the head, and is empty when it starts beyond the head. Conditions: every block of it is served
  from the store in the current virtualization mode; the filter names an address or a topic, or has no topic positions at all (a
  filter of only empty topic positions is the one that spoils the cache); and it does not name the zero address, on which
  the filtered and the full decoder may differ.\<close>

theorem range_logs_exact:
  assumes bl: "bloom_lib F (be_eth B) (be_chain B)" and hex: "eth_hex (be_eth B)" and lru: "lru_cache (be_logsCache B) content"
    and ok: "cache_ok content kv d s"
    and header: "HeaderByNumber B d EthLatestBlockNumber = Some (Inr header)" "eh_Number header = head" "1 \<le> head" "head + maxToOverhang < 2 ^ 63"
    and crit: "ValidateFilterCriteria crit = None" "fc_BlockHash crit = None" "0 \<notin> set (fc_Addresses crit)" "exact_filter (fc_Addresses crit) (fc_Topics crit)"
    and lo: "lo = range_bound head (case FromBlock crit of None \<Rightarrow> rpc_LatestBlockNumber F | Some b \<Rightarrow> i64 b)"
    and hi: "hi = range_bound head (case ToBlock crit of None \<Rightarrow> rpc_LatestBlockNumber F | Some b \<Rightarrow> i64 b)" "upper = min hi (head + maxToOverhang)"
    and caps: "hi - lo \<le> RPCBlockRangeCap cfg" "0 \<le> RPCLogsCap cfg"
    and served: "lo \<le> head \<longrightarrow> (\<forall>h\<in>{lo..upper}. served B kv d h (groups h))"
  shows "\<exists>s'. API_GetLogs cfg B F d crit s =
      Some (limited (RPCLogsCap cfg)
        (if head < lo then [] else concat (map (\<lambda>h. filterGroupedLogs (groups h) (fc_Addresses crit) (fc_Topics crit)) [lo..upper])), s') \<and>
    cache_ok content kv d s'"
proof -
  let ?b = "case FromBlock crit of None \<Rightarrow> rpc_LatestBlockNumber F | Some b \<Rightarrow> i64 b"
    and ?e = "case ToBlock crit of None \<Rightarrow> rpc_LatestBlockNumber F | Some b \<Rightarrow> i64 b"
  define c where "c = \<lparr>fc_BlockHash = None, FromBlock = Some ?b, ToBlock = Some ?e, fc_Addresses = fc_Addresses crit, fc_Topics = fc_Topics crit\<rparr>"
  have f: "f_criteria (criteria_filter F crit) = c" using crit(2) by (simp add: criteria_filter_def NewRangeFilter_def newFilter_def c_def)
  have m: "maxToOverhang = 600" by (simp add: maxToOverhang_def)
  have hd: "i64 (eh_Number header) = head" "i64 (head + maxToOverhang) = head + maxToOverhang"
    using header by (simp_all add: i64_id is_i64_def minInt64_def maxInt64_def m)
  have pos: "1 \<le> lo" "1 \<le> hi" using header(3) by (auto simp: lo hi(1) range_bound_def)
  have bnd: "lo < 2 ^ 63" "hi < 2 ^ 63"
    using header(4) i64_is_i64 [of ?b] i64_is_i64 [of ?e] unfolding lo hi(1) range_bound_def is_i64_def maxInt64_def by (simp_all add: m)
  have d: "i64 (hi - lo) = hi - lo"
    using pos bnd by (intro i64_id) (simp add: m is_i64_def minInt64_def maxInt64_def)
  have w: "wrapC g (query (HeaderByNumber B d EthLatestBlockNumber)) s = Some (Inr header, s)" for g by (simp add: header(1) call_simps)
  have "API_GetLogs cfg B F d crit s =
      (if head < lo then ret [] else log_range B F d c (RPCLogsCap cfg) [] [lo..upper]) s"
    using caps(1) d hd crit(1) by (simp add: API_GetLogs_def Filter_Logs_def f w call_simps c_def Let_def flip: lo hi)
  then show ?thesis
    using log_range_ok [OF bl hex lru, of c "[lo..upper]" kv d groups s "[]" "RPCLogsCap cfg"] crit ok served caps(2)
    by (auto simp: c_def call_simps limited_def)
qed

text \<open>C9: While a log filter is polled, publishers may add logs before each read of the loop, without end. The poll
  returns exactly when some read finds nothing new, and so whenever the publishers pause; publishers that
  always add something before the next read keep it running. When it returns, it has every wanted log from the
  last poll to the first read that found nothing, each once and in order; the filter then stands at the end of what
  it has read, its deadline is renewed, and the other filters are untouched. The stream has no nil logs, and the reader is
  never further behind than what the stream retains.\<close>

theorem GetFilterChanges_ends:
  assumes "stream_inv (logStream rs) hist" and "map_of fs fid = Some f" and "fe_typ f = LogsSubscription"
    and "fe_offset f = int x" and "x \<le> length hist" and "None \<notin> set hist" and "\<forall>i. None \<notin> set (arrivals i)"
    and "seg = nat (segmentSize (logStream rs))" and "keeps_pace (maxSegments (logStream rs) * segmentSize (logStream rs)) seg hist arrivals x"
  shows "(GetFilterChanges (Some rs) arrivals fid fs \<noteq> None \<longleftrightarrow> (\<exists>n. catches_up seg hist arrivals x n)) \<and>
    ((\<exists>m. \<forall>k\<ge>m. arrivals k = []) \<longrightarrow> GetFilterChanges (Some rs) arrivals fid fs \<noteq> None) \<and>
    (\<forall>n. catches_up seg hist arrivals x n \<and> (\<forall>j<n. \<not> catches_up seg hist arrivals x j) \<longrightarrow>
      (\<exists>rs' fs'. GetFilterChanges (Some rs) arrivals fid fs =
          Some (Inr (Logs (filter (wanted (fe_crit f)) (drop x (published hist arrivals (Suc n))))), fs', Some rs') \<and>
        stream_inv (logStream rs') (published hist arrivals (Suc n)) \<and>
        map_of fs' = (map_of fs)(fid \<mapsto> f\<lparr>fired := False, fe_offset := int (length (published hist arrivals (Suc n)))\<rparr>)))"
proof -
  have ok: "round_ok (logStream rs) hist arrivals x" using assms by (simp add: round_ok_def)
  have seg: "0 < seg" using assms(1,8) by (simp add: stream_inv_def)
  have first: "\<exists>rs' fs'. GetFilterChanges (Some rs) arrivals fid fs =
        Some (Inr (Logs (filter (wanted (fe_crit f)) (drop x (published hist arrivals (Suc n))))), fs', Some rs') \<and>
      stream_inv (logStream rs') (published hist arrivals (Suc n)) \<and>
      map_of fs' = (map_of fs)(fid \<mapsto> f\<lparr>fired := False, fe_offset := int (length (published hist arrivals (Suc n)))\<rparr>)"
    if n: "catches_up seg hist arrivals x n" "\<forall>j<n. \<not> catches_up seg hist arrivals x j" for n
  proof -
    from poll_logs_ends [OF ok n [unfolded assms(8)], of "fe_crit f" "[]"] obtain s' where
      "poll_logs (fe_crit f) (logStream rs) [] (int x) arrivals =
        Some (filter (wanted (fe_crit f)) (drop x (published hist arrivals (Suc n))), int (length (published hist arrivals (Suc n))), s')"
      "stream_inv s' (published hist arrivals (Suc n))" by auto
    then show ?thesis
      using assms(2-4) by (intro exI [of _ "rs\<lparr>logStream := s'\<rparr>"]) (auto simp: GetFilterChanges_def Let_def update_conv)
  qed
  have "GetFilterChanges (Some rs) arrivals fid fs \<noteq> None" if up: "\<exists>n. catches_up seg hist arrivals x n"
  proof -
    from exists_least_iff [of "catches_up seg hist arrivals x"] up obtain n where
      "catches_up seg hist arrivals x n" "\<forall>j<n. \<not> catches_up seg hist arrivals x j" by blast
    from first [OF this] show ?thesis by auto
  qed
  moreover have "\<exists>n. catches_up seg hist arrivals x n" if r: "GetFilterChanges (Some rs) arrivals fid fs \<noteq> None"
  proof -
    obtain y where "poll_logs (fe_crit f) (logStream rs) [] (int x) arrivals = Some y"
      using r assms(2-4) by (auto simp: GetFilterChanges_def Let_def)
    from poll_logs_returns [OF this ok refl] show ?thesis unfolding assms(8) .
  qed
  ultimately show ?thesis using first paused_catches_up [OF _ seg assms(5), of _ arrivals] by blast
qed

section \<open>Examples\<close>

text \<open>A concrete bloom: three bits for the address and for each topic, chosen by a hash of the data. SHA-256 stands
  for Keccak.\<close>

definition bloom_has :: "bytes \<Rightarrow> bytes \<Rightarrow> nat \<Rightarrow> bool" where
  "bloom_has bloom hashbuf k \<longleftrightarrow> and (bloom ! nat (bloom_index hashbuf k)) (bloom_value hashbuf k) = bloom_value hashbuf k"

definition bloom_set :: "bytes \<Rightarrow> nat \<Rightarrow> bytes \<Rightarrow> bytes" where
  "bloom_set hashbuf k bloom = bloom[nat (bloom_index hashbuf k) := or (bloom ! nat (bloom_index hashbuf k)) (bloom_value hashbuf k)]"

definition bloom_add :: "bytes \<Rightarrow> bytes \<Rightarrow> bytes" where
  "bloom_add data bloom = fold (bloom_set (sha256 data)) [0, 1, 2] bloom"

definition log_data :: "EthLog \<Rightarrow> bytes list" where
  "log_data l = addr_bytes (log_Address l) # map hash_bytes (log_Topics l)"

definition std_LogsBloom :: "EthLog list \<Rightarrow> bytes" where
  "std_LogsBloom ls = fold bloom_add (concat (map log_data ls)) (replicate 256 0)"

definition std_filters :: Filter_Lib where
  "std_filters =
     \<lparr>BloomLookup = (\<lambda>bloom data. \<forall>k\<in>set [0, 1, 2]. bloom_has bloom (sha256 data) k),
      KeccakRead = (\<lambda>data n. Inr (take n (sha256 data))), rpc_LatestBlockNumber = -2\<rparr>"

lemma bloom_index_range: "nat (bloom_index bz k) < 256"
  by (simp add: bloom_index_def)

lemma bloom_set_keeps:
  assumes "bloom_has bloom bz k"
  shows "bloom_has (bloom_set bz' k' bloom) bz k"
proof -
  have "and (or a b) v = v" if "and a v = v" for a b v :: byte
  proof -
    have "and (or a b) v = or (and a v) (and b v)" by (rule bit.conj_disj_distrib2)
    also have "\<dots> = v" unfolding that by (rule bit_eqI) (auto simp: bit_simps)
    finally show ?thesis .
  qed
  then show ?thesis
    using assms by (cases "nat (bloom_index bz' k') < length bloom") (auto simp: bloom_has_def bloom_set_def nth_list_update list_update_beyond)
qed

lemma bloom_set_has: "length bloom = 256 \<Longrightarrow> bloom_has (bloom_set bz k bloom) bz k"
  using bloom_index_range [of bz k] by (simp add: bloom_has_def bloom_set_def and.commute)

lemma length_bloom [simp]: "length (bloom_set bz k bloom) = length bloom" "length (bloom_add data bloom) = length bloom"
  by (simp_all add: bloom_set_def bloom_add_def)

lemma bloom_add_has:
  "k \<in> set [0, 1, 2] \<Longrightarrow> length bloom = 256 \<Longrightarrow> bloom_has (bloom_add data bloom) (sha256 data) k"
  "bloom_has bloom bz k \<Longrightarrow> bloom_has (bloom_add data bloom) bz k"
proof -
  assume "k \<in> set [0, 1, 2]" "length bloom = 256"
  then consider "k = 0" | "k = 1" | "k = 2" by auto
  then show "bloom_has (bloom_add data bloom) (sha256 data) k"
    using \<open>length bloom = 256\<close> by cases (simp_all add: bloom_add_def bloom_set_has bloom_set_keeps)
qed (simp add: bloom_add_def bloom_set_keeps)

lemma bloom_all:
  "length bloom = 256 \<Longrightarrow> data \<in> set ds \<or> BloomLookup std_filters bloom data \<Longrightarrow> BloomLookup std_filters (fold bloom_add ds bloom) data"
proof (induction ds arbitrary: bloom)
  case (Cons x ds)
  show ?case
    unfolding fold_Cons comp_def
    by (rule Cons.IH) (use Cons.prems bloom_add_has in \<open>auto simp: std_filters_def\<close>)
qed simp

interpretation std_blooms: bloom_lib std_filters std_eth "demo_lib\<lparr>LogsBloom_of := std_LogsBloom\<rparr>"
  by unfold_locales (force simp: std_eth_def std_LogsBloom_def log_data_def intro: bloom_all)+

text \<open>The bloom of the example chain has every bit set.\<close>

lemma demo_bloom_lib: "bloom_lib std_filters std_eth demo_lib"
proof -
  have "bloom_has (replicate 256 255) bz k" for bz k
  proof -
    have "and (255 :: byte) v = v" for v
    proof -
      have m: "(255 :: byte) = -1" by simp
      show ?thesis unfolding m by (rule and.left_neutral)
    qed
    then show ?thesis using bloom_index_range [of bz k] by (simp add: bloom_has_def)
  qed
  then show ?thesis by unfold_locales (simp_all add: demo_lib_def std_eth_def std_filters_def)
qed

definition demo_log :: "address \<Rightarrow> RPCLog option" where
  "demo_log a = Some (sample_log a)"

definition demo_blocks :: "(int \<times> RPCLog option list list) list" where
  "demo_blocks = [(4, [[demo_log 1], [demo_log 2]]), (5, [[demo_log 2, demo_log 3]])]"

definition demo_criteria :: FilterCriteria where
  "demo_criteria = \<lparr>fc_BlockHash = None, FromBlock = Some 4, ToBlock = None, fc_Addresses = [2], fc_Topics = []\<rparr>"

lemma demo_last: "LoadLastBlock MemDB (demo_store demo_blocks) = Inr 5"
proof -
  have k: "KeyPrefixBlockMeta # be64 h = BlockMetaKey h'  \<longleftrightarrow> be64 h = be64 h'" for h h' by (simp add: BlockMetaKey_def)
  have ok: "height_ok 4" "height_ok 5" by (simp_all add: height_ok_def maxInt64_def)
  have dom: "dom (map_of (demo_store demo_blocks)) = {BlockMetaKey 4, BlockLogsKey 4, BlockMetaKey 5, BlockLogsKey 5}"
    by (auto simp: demo_store_def demo_blocks_def dom_map_of_conv_image_fst)
  have "height_keys_ok (map_of (demo_store demo_blocks))"
    unfolding height_keys_ok_def dom using ok by (auto simp: key_defs key_prefixes)
  moreover have "meta_heights (map_of (demo_store demo_blocks)) = {4, 5}"
    unfolding meta_heights_def dom using ok be64_eq_iff by (auto simp: key_defs key_prefixes)
  then have "stored_heights (map_of (demo_store demo_blocks)) = {4, 5}" by (simp add: stored_heights_def)
  ultimately show ?thesis using mem.LoadLastBlock_spec [of "demo_store demo_blocks"] by (simp add: MemDB_def)
qed

lemma demo_serves:
  assumes "h \<in> {4..5}"
  shows "served demo_backend demo_kv (demo_store demo_blocks) h (the (map_of demo_blocks h))"
proof -
  from assms have "h = 4 \<or> h = 5" by auto
  then show ?thesis
    by (intro demo_served(1)) (auto simp: demo_blocks_def demo_log_def height_ok_def maxInt64_def)
qed

lemma demo_head: "\<exists>header. HeaderByNumber demo_backend (demo_store demo_blocks) EthLatestBlockNumber = Some (Inr header) \<and> eh_Number header = 5"
proof -
  let ?m = "demo_meta 5 [[demo_log 2, demo_log 3]]"
  have i: "be_indexer demo_backend = Some demo_kv" "be_eth demo_backend = std_eth" "be_VirtualizeCosmosEvents demo_backend"
    by (simp_all add: demo_backend_def)
  have "GetBlockMetaByHeight demo_kv (demo_store demo_blocks) 5 = Inr ?m"
    by (rule demo_served(2)) (simp_all add: demo_blocks_def demo_log_def height_ok_def maxInt64_def)
  then have c: "cachedBlockMetaByNumber demo_backend (demo_store demo_blocks) EthLatestBlockNumber = Inr (Some ?m)"
    by (simp add: cachedBlockMetaByNumber_def indexedBlockHeight_def i EthLatestBlockNumber_def demo_last)
  have "length (LogsBloom_of demo_lib ls) = 256" for ls by (simp add: demo_lib_def)
  then have "ValidateCachedBlockMeta std_eth (Some ?m) = None"
    by (simp add: ValidateCachedBlockMeta_def demo_meta_def std.decode_hex std.is_address)
  then have "\<exists>header. HeaderFromCachedBlockMeta std_eth (Some ?m) = Inr header \<and> eh_Number header = 5"
    by (simp add: HeaderFromCachedBlockMeta_def demo_meta_def)
  then show ?thesis
    by (auto simp: HeaderByNumber_def header_by_def c cachedMetaMatchesVirtualization_def i demo_meta_def)
qed

theorem range_logs_exact_witness:
  "\<exists>s'. API_GetLogs \<lparr>RPCFilterCap = 1, RPCLogsCap = 10, RPCBlockRangeCap = 10\<rparr> demo_backend std_filters (demo_store demo_blocks) demo_criteria
      \<lparr>m_receipts = (1, []), m_blockLogs = (1, []), syncStatus = None\<rparr> = Some (Inr [demo_log 2, demo_log 2], s')"
proof -
  let ?cfg = "\<lparr>RPCFilterCap = 1, RPCLogsCap = 10, RPCBlockRangeCap = 10\<rparr>"
    and ?s = "\<lparr>m_receipts = (1, []), m_blockLogs = (1, []), syncStatus = None\<rparr>"
  obtain header where h: "HeaderByNumber demo_backend (demo_store demo_blocks) EthLatestBlockNumber = Some (Inr header)" "eh_Number header = 5"
    using demo_head by blast
  have b: "bloom_lib std_filters (be_eth demo_backend) (be_chain demo_backend)" "eth_hex (be_eth demo_backend)"
    "lru_cache (be_logsCache demo_backend) lru_content" "cache_ok lru_content demo_kv (demo_store demo_blocks) ?s"
    using demo_bloom_lib std.eth_hex_axioms recent.lru_cache_axioms by (simp_all add: demo_backend_def cache_ok_def lru_content_def)
  have n: "i64 4 = 4" "i64 (-2) = -2" by (simp_all add: is_i64_def minInt64_def maxInt64_def)
  have c: "ValidateFilterCriteria demo_criteria = None" "fc_BlockHash demo_criteria = None" "0 \<notin> set (fc_Addresses demo_criteria)"
    "exact_filter (fc_Addresses demo_criteria) (fc_Topics demo_criteria)"
    by (simp_all add: ValidateFilterCriteria_def demo_criteria_def maxAddresses_def maxTopics_def exact_filter_def)
  have r: "4 = range_bound 5 (case FromBlock demo_criteria of None \<Rightarrow> rpc_LatestBlockNumber std_filters | Some b \<Rightarrow> i64 b)"
    "5 = range_bound 5 (case ToBlock demo_criteria of None \<Rightarrow> rpc_LatestBlockNumber std_filters | Some b \<Rightarrow> i64 b)"
    by (simp_all add: range_bound_def demo_criteria_def std_filters_def n)
  have l: "(1 :: int) \<le> 5" "(5 :: int) + maxToOverhang < 2 ^ 63" "5 = min 5 (5 + maxToOverhang)" "5 - 4 \<le> RPCBlockRangeCap ?cfg" "0 \<le> RPCLogsCap ?cfg"
    by (simp_all add: maxToOverhang_def)
  have sv: "4 \<le> (5 :: int) \<longrightarrow> (\<forall>h\<in>{4..5}. served demo_backend demo_kv (demo_store demo_blocks) h (the (map_of demo_blocks h)))" using demo_serves by blast
  have m: "LogMatches (demo_log a) [2] [] \<longleftrightarrow> a = 2" for a by (simp add: LogMatches_def demo_log_def sample_log_def)
  have "[4..5] = [4, 5 :: int]" by (simp add: upto.simps)
  with range_logs_exact [OF b h l(1,2) c r l(3-5) sv] show ?thesis
    by (auto simp: demo_criteria_def demo_blocks_def filterGroupedLogs_def limited_def m)
qed

theorem GetFilterChanges_ends_witness:
  "\<exists>rs i s fs' rs'. NewRPCStream = Some rs \<and> Stream_Add (logStream rs) [demo_log 2] = Some (i, s) \<and>
    GetFilterChanges (Some (rs\<lparr>logStream := s\<rparr>)) (\<lambda>k. if k = 0 then [demo_log 3, demo_log 2] else []) ''0x1''
      [(''0x1'', \<lparr>fe_typ = LogsSubscription, fired = True, fe_crit = demo_criteria\<lparr>FromBlock := None\<rparr>, fe_offset = 0\<rparr>)] =
        Some (Inr (Logs [demo_log 2, demo_log 2]), fs', rs')"
proof -
  let ?f = "\<lparr>fe_typ = LogsSubscription, fired = True, fe_crit = demo_criteria\<lparr>FromBlock := None\<rparr>, fe_offset = 0\<rparr>"
    and ?logs = "[demo_log 2]" and ?arr = "\<lambda>k :: nat. if k = 0 then [demo_log 3, demo_log 2] else []"
    and ?seg = "nat logStreamSegmentSize"
  obtain rs where rs: "NewRPCStream = Some rs" "stream_inv (logStream rs) []" using NewRPCStream_inv by (auto simp: rpc_inv_def)
  then have "NewStream logStreamSegmentSize logStreamCapacity = Some (logStream rs)"
    by (auto simp: NewRPCStream_def split: option.splits)
  from NewStream_inv(2,3) [OF this] have cap: "segmentSize (logStream rs) = logStreamSegmentSize"
    "logStreamCapacity \<le> maxSegments (logStream rs) * segmentSize (logStream rs)"
    by (simp_all add: logStreamSegmentSize_def)
  from Stream_Add_ok [OF rs(2), of ?logs] obtain i s where s: "Stream_Add (logStream rs) ?logs = Some (i, s)" "stream_inv s ?logs"
    "segmentSize s = segmentSize (logStream rs)" "maxSegments s = maxSegments (logStream rs)" by auto
  have up: "\<not> catches_up ?seg ?logs ?arr 0 0" "catches_up ?seg ?logs ?arr 0 (Suc 0)"
    by (simp_all add: catches_up_Suc catches_up_0 read_items_def logStreamSegmentSize_def)
  have pub: "published ?logs ?arr (Suc (Suc 0)) = [demo_log 2, demo_log 3, demo_log 2]" by (simp add: published_def)
  have pace: "keeps_pace (maxSegments s * segmentSize s) ?seg ?logs ?arr 0"
    unfolding keeps_pace_def
  proof (intro allI impI)
    fix k assume "\<forall>j<k. \<not> catches_up ?seg ?logs ?arr 0 j"
    then have "k < Suc (Suc 0)" using up(2) by (meson not_less_eq)
    then have "k = 0 \<or> k = Suc 0" by auto
    then have "length (published ?logs ?arr (Suc k)) \<le> 3" by (auto simp: published_def)
    moreover have "3 \<le> maxSegments s * segmentSize s" using cap(2) s(3,4) by (simp add: logStreamCapacity_def)
    ultimately show "int (length (published ?logs ?arr (Suc k))) \<le> int (reader_at ?seg ?logs ?arr 0 k) + maxSegments s * segmentSize s"
      by linarith
  qed
  have a: "stream_inv (logStream (rs\<lparr>logStream := s\<rparr>)) ?logs" "map_of [(''0x1'', ?f)] ''0x1'' = Some ?f" "fe_typ ?f = LogsSubscription"
    "fe_offset ?f = int 0" "0 \<le> length ?logs" "None \<notin> set ?logs" "\<forall>i. None \<notin> set (?arr i)"
    "?seg = nat (segmentSize (logStream (rs\<lparr>logStream := s\<rparr>)))"
    "keeps_pace (maxSegments (logStream (rs\<lparr>logStream := s\<rparr>)) * segmentSize (logStream (rs\<lparr>logStream := s\<rparr>))) ?seg ?logs ?arr 0"
    using s cap pace by (simp_all add: demo_log_def)
  have w: "wanted (fe_crit ?f) (demo_log x) \<longleftrightarrow> x = 2" for x
    by (simp add: wanted_def demo_criteria_def LogMatches_def demo_log_def sample_log_def)
  have "\<forall>j<Suc 0. \<not> catches_up ?seg ?logs ?arr 0 j" using up(1) by simp
  with GetFilterChanges_ends [OF a] up(2) obtain rs' fs' where
    "GetFilterChanges (Some (rs\<lparr>logStream := s\<rparr>)) ?arr ''0x1'' [(''0x1'', ?f)] =
      Some (Inr (Logs (filter (wanted (fe_crit ?f)) (drop 0 (published ?logs ?arr (Suc (Suc 0)))))), fs', Some rs')" by blast
  then show ?thesis using rs(1) s(1) by (auto simp: pub w simp del: filter_entry.simps)
qed

end
