(* ===== verification/Spec2Isabelle.thy ===== *)
theory Spec2Isabelle
  imports Data_Stream Sync_Liveness Virtual_Projection Sync_Outcome Log_Filters
begin

text \<open>
  The EVM gateway (Go) sits between an Injective node and Ethereum JSON-RPC clients. It pulls
  CometBFT blocks from the node, projects their transactions and Cosmos events to Ethereum
  transactions, receipts and logs, stores the result in a key-value database, and answers RPC
  requests from that database. This development models that pipeline from the Go sources and proves
  what each stage promises to the next. Paths below are relative to \<open>src/\<close>.

  \<^bold>\<open>Parts and how they interact.\<close> \<open>internal/indexer/service.go\<close> (\<open>Run\<close>, \<open>Resync\<close>) loads the
  heights that are already indexed, computes the gaps, and starts a gap queue and a forward queue.
  Each queue drives a block getter (\<open>internal/blocksync/syncer.go\<close>): jobs that fetch blocks
  concurrently, an announcer that puts them in order, and a consumer that calls the block handler.
  The handler calls the indexer (\<open>internal/indexer/kv_indexer.go\<close>), which parses the results
  (\<open>internal/evm/rpc/types\<close>), projects Cosmos events (\<open>internal/evm/rpc/virtual\<close>), encodes the
  values (\<open>kv_codec.go\<close>) and writes one batch. The tracker (\<open>internal/syncstatus\<close>) counts the
  progress, and the streams (\<open>internal/evm/rpc/stream\<close>) carry new blocks to subscribers.

  \<^bold>\<open>Conventions.\<close> Go integers are \<open>int\<close> with the wrap-around of their width written out (\<open>i64\<close>,
  \<open>u64\<close>, \<open>i32\<close>, \<open>u32\<close>); hashes, addresses and bytes are words. A \<open>(value, error)\<close> pair is a sum type
  with \<open>go_error\<close> on the left, composed with \<open>bindR\<close>, \<open>wrapR\<close> and \<open>foldR\<close>; a panic is \<open>None\<close> of an
  outer option, or \<open>Inl\<close> where the source recovers it. Structs are records with the source's field
  names, prefixed where two structs share one. The state (database, tracker, streams) is passed
  explicitly. Concurrency is a step relation: a goroutine's program point is part of the state, a step
  is what the goroutine does between two synchronisation points, and the properties hold for every
  interleaving. Third-party code is a parameter: the records \<open>Eth_Lib\<close> (go-ethereum), \<open>Chain_Lib\<close>
  (CometBFT, the Cosmos SDK, the Injective SDK), \<open>Codec_Lib\<close> (Cap'n Proto) and \<open>DB\<close> (the key-value
  store), with what the gateway relies on as the assumptions of a locale.

  \<^bold>\<open>Theories.\<close>
  \<^item> \<open>Gateway_Prelude\<close>, \<open>Go_Strings\<close>, \<open>Sha256\<close>: fixed-width integers, byte strings, the result
    monad, \<open>strconv\<close> and \<open>strings\<close>, and \<open>crypto/sha256\<close>.
  \<^item> \<open>Chain_Types\<close>, \<open>Hex_Codec\<close>: the data the parts exchange, the third-party functions, and the
    contract \<open>eth_hex\<close> of the hexadecimal functions.
  \<^item> \<open>Block_Ranges\<close> (\<open>indexer/ranges.go\<close>, \<open>cmd_resync.go\<close>): gaps are exactly the missing heights,
    ranges are normalised to a canonical form, resync targets cover what the command line names.
  \<^item> \<open>Ring_Queue\<close>, \<open>Data_Stream\<close> (\<open>stream/queue.go\<close>, \<open>cond.go\<close>, \<open>stream.go\<close>): the ring buffer
    refines a list; readers and subscribers receive the items in order.
  \<^item> \<open>Block_Fetch\<close>, \<open>Block_Getter\<close>, \<open>Block_Sync\<close>, \<open>Sync_Liveness\<close> (\<open>blocksync/syncer.go\<close>): the retry
    policy; in every interleaving the handler gets the heights of the range in order, each once; and
    from every reachable state a run can be completed.
  \<^item> \<open>Sync_Status\<close> (\<open>syncstatus/tracker.go\<close>): the counters and the window of recent blocks.
  \<^item> \<open>KV_Store\<close>, \<open>KV_Codec\<close>, \<open>KV_Cache\<close> (\<open>kv_indexer.go\<close>, \<open>cache_collections.go\<close>, \<open>kv_codec.go\<close>,
    \<open>trace_cache.go\<close>): the key layout under the contract \<open>ordered_kv\<close>, the loaders, the encodings under
    the contract \<open>capnp_codec\<close>, the getters, and the exact set of keys a deletion removes.
  \<^item> \<open>Virtual_Bank\<close>, \<open>Virtual_Response\<close>, \<open>Virtual_Projection\<close> (\<open>rpc/virtual\<close>): the projection of bank
    and IBC events; every log is shown once, gas is counted once, hashes differ.
  \<^item> \<open>Tx_Parsing\<close>, \<open>Rpc_Types\<close> (\<open>rpc/types\<close>): outcomes of Ethereum messages, the renumbering of
    responses, headers and RPC transactions.
  \<^item> \<open>KV_Indexer\<close>, \<open>KV_Indexed\<close>, \<open>Indexed_Block\<close> (\<open>kv_indexer.go\<close>, \<open>virtual.go\<close>): \<open>IndexBlock\<close> with
    every loop; the invariant \<open>built\<close> relates its variables to a list of visible transactions, and the
    written database reads back as that list.
  \<^item> \<open>Sync_Service\<close>, \<open>Sync_Runs\<close>, \<open>Sync_Complete\<close>, \<open>Sync_Outcome\<close> (\<open>service.go\<close>): the handler, the queues,
    \<open>Run\<close> and \<open>Resync\<close> over the getter, the store and the tracker; a run closes the gaps it was given,
    and a resync that returns without an error has indexed every height.
  \<^item> \<open>Cached_Block\<close> (\<open>cache_collections.go\<close>), \<open>Rpc_Stream\<close> (\<open>stream/rpc.go\<close>): the header of cached metadata, and
    the publication of an indexed block: subscribers receive the header, the hashes and the logs that
    the getters return.
  \<^item> \<open>Block_Numbers\<close> (\<open>rpc/types/block.go\<close>), \<open>Backend_Core\<close> (\<open>backend.go\<close>, \<open>materialized_cache.go\<close>,
    \<open>blocks.go\<close>): block tags, the backend as a record of the node, the store and two caches under the
    contract \<open>lru_cache\<close>, and the resolution of a block.
  \<^item> \<open>Live_View\<close> (\<open>backend/virtual.go\<close>): the view of a block built from the node's answers; it shows what the
    store shows for the same block.
  \<^item> \<open>Backend_Logs\<close> (\<open>backend/filters.go\<close>, \<open>blocks.go\<close>), \<open>Log_Filters\<close> (\<open>eth/filters\<close>): headers, blooms and logs
    from the store or live, and the log queries and filters over them under the contract \<open>bloom_lib\<close>; a range
    query returns exactly the matching logs, polling ends when a read finds nothing new, and one kind of query corrupts the cache of
    whole-block logs.
  \<^bold>\<open>Bounds.\<close> Nothing is bounded by fuel, except the retry loop, whose bound is the constant of the
  source. A block has fewer than \<open>2 ^ 31\<close> visible transactions where positions are read back, since
  the source stores them in 32 bits; heights are non-negative and below \<open>2 ^ 63 - 1\<close> where the next height
  is formed.

  \<^bold>\<open>Not modelled.\<close>
  \<^item> The process, its configuration, the HTTP and WebSocket servers, logging, telemetry and pacing:
    plumbing around third-party servers and clocks.
  \<^item> The generated Cap'n Proto code. The package reads at most 64 MiB of one message. The contract \<open>capnp_codec\<close> states
    that for traces; for metadata, results, transactions, receipts and logs, which the gas of a block keeps far below,
    it has no limit.
  \<^item> The JSON decoders and encoders of the RPC types: the codec libraries are reflective third-party code.
  \<^item> RPC methods that forward a query to the node (state, calls, gas estimation, tracing, signing): their
    result is the node's.
  \<^item> The fee cap check of \<open>CheckTxFee\<close> and the fee history, which compute with binary floating point.
  \<^item> Nil and empty slices are one value; an iterator's \<open>Error()\<close> is not consulted by the source and does
    not appear. A call of the block handler is one atomic step: the two queues share the indexer without
    a lock, and the properties assume that the handler calls do not overlap.
\<close>

end
